(* ===== verification/Dobby_Prelude.thy ===== *)
theory Dobby_Prelude
  imports Complex_Main "HOL-Library.Word" "HOL-Library.Sublist"
begin

text \<open>
  Shared vocabulary of the development: C strings as lists of bytes without the terminating
  NUL, the functions of the C library the program uses on them (\<open>strchr\<close>, \<open>strstr\<close>,
  \<open>strtok\<close>, \<open>fgets\<close>, \<open>snprintf\<close>, \<open>atoi\<close>, \<open>strcasecmp\<close>, \<open>strcasestr\<close>), 32-bit
  integers, and the generic list lemmas the components share. A pointer that may be NULL is
  an \<open>option\<close>. File contents are byte lists that hold no NUL byte.
\<close>

named_theorems cstring_simps \<open>evaluation of the C string functions\<close>
named_theorems step_intros \<open>introduction rules of the step relations\<close>

section \<open>Bytes and characters\<close>

abbreviation NL :: char where "NL \<equiv> CHR 0x0A"
abbreviation CR :: char where "CR \<equiv> CHR 0x0D"
abbreviation TAB :: char where "TAB \<equiv> CHR 0x09"
abbreviation ESC :: char where "ESC \<equiv> CHR 0x1B"
abbreviation DQ :: char where "DQ \<equiv> CHR 0x22"
abbreviation BSL :: char where "BSL \<equiv> CHR 0x5C"
abbreviation SP :: char where "SP \<equiv> CHR 0x20"

text \<open>The value of a byte read as \<open>unsigned char\<close>.\<close>

definition byte :: "char \<Rightarrow> nat" where
  "byte c = of_char c"

definition isspace :: "char \<Rightarrow> bool" where
  "isspace c \<longleftrightarrow> c = SP \<or> c = TAB \<or> c = NL \<or> c = CHR 0x0B \<or> c = CHR 0x0C \<or> c = CR"

definition isdigit :: "char \<Rightarrow> bool" where
  "isdigit c \<longleftrightarrow> 48 \<le> byte c \<and> byte c \<le> 57"

definition to_lower :: "char \<Rightarrow> char" where
  "to_lower c = (if 65 \<le> byte c \<and> byte c \<le> 90 then char_of (byte c + 32) else c)"

lemma byte_less [simp]: "byte c < 256"
  by (simp add: byte_def)

lemma byte_inject [simp]: "byte c = byte d \<longleftrightarrow> c = d"
  by (simp add: byte_def)

lemma byte_char_of [simp]: "byte (char_of n) = n mod 256"
  by (simp add: byte_def)

lemma to_lower_idem [simp]: "to_lower (to_lower c) = to_lower c"
  by (simp add: to_lower_def)

section \<open>Searching and comparing\<close>

text \<open>\<open>strchr\<close> returns the suffix that starts at the first occurrence.\<close>

fun strchr :: "char \<Rightarrow> string \<Rightarrow> string option" where
  "strchr c [] = None"
| "strchr c (x # xs) = (if x = c then Some (x # xs) else strchr c xs)"

text \<open>The bytes before the first occurrence of \<open>c\<close> (all of them when there is none).\<close>

abbreviation before :: "char \<Rightarrow> string \<Rightarrow> string" where
  "before c s \<equiv> takeWhile (\<lambda>x. x \<noteq> c) s"

text \<open>\<open>strstr hay needle\<close>: the suffix of the haystack at the first occurrence.\<close>

fun strstr :: "string \<Rightarrow> string \<Rightarrow> string option" where
  "strstr [] n = (if n = [] then Some [] else None)"
| "strstr (x # xs) n = (if prefix n (x # xs) then Some (x # xs) else strstr xs n)"

abbreviation contains :: "string \<Rightarrow> string \<Rightarrow> bool" where
  "contains h n \<equiv> strstr h n \<noteq> None"

definition strcasecmp_eq :: "string \<Rightarrow> string \<Rightarrow> bool" where
  "strcasecmp_eq a b \<longleftrightarrow> map to_lower a = map to_lower b"

definition strcasestr :: "string \<Rightarrow> string \<Rightarrow> bool" where
  "strcasestr h n \<longleftrightarrow> contains (map to_lower h) (map to_lower n)"

text \<open>\<open>strncasecmp (s, p, strlen p) == 0\<close>.\<close>

definition case_prefix :: "string \<Rightarrow> string \<Rightarrow> bool" where
  "case_prefix p s \<longleftrightarrow> prefix (map to_lower p) (map to_lower s)"

text \<open>Equations that compare byte by byte, for evaluation.\<close>

lemma case_prefix_code [code]:
  "case_prefix [] s = True" "case_prefix (a # p) [] = False"
  "case_prefix (a # p) (b # s) = (to_lower a = to_lower b \<and> case_prefix p s)"
  by (simp_all add: case_prefix_def)

lemma strcasecmp_eq_code [code]:
  "strcasecmp_eq [] [] = True" "strcasecmp_eq [] (b # t) = False" "strcasecmp_eq (a # s) [] = False"
  "strcasecmp_eq (a # s) (b # t) = (to_lower a = to_lower b \<and> strcasecmp_eq s t)"
  by (simp_all add: strcasecmp_eq_def)

lemma strchr_split: "strchr c s = Some t \<Longrightarrow> s = before c s @ t \<and> (\<exists>u. t = c # u)"
  by (induction s) (auto split: if_splits)

lemma strchr_None [simp]: "strchr c s = None \<longleftrightarrow> c \<notin> set s"
  by (induction s) auto

lemma strchr_append_notin [simp]: "c \<notin> set a \<Longrightarrow> strchr c (a @ b) = strchr c b"
  by (induction a) auto

lemma before_append_notin [simp]: "c \<notin> set a \<Longrightarrow> before c (a @ b) = a @ before c b"
  by (induction a) auto

lemma before_notin [simp]: "c \<notin> set a \<Longrightarrow> before c a = a"
  by (induction a) auto

lemma strstr_split: "strstr h n = Some t \<Longrightarrow> (\<exists>a. h = a @ t) \<and> prefix n t"
proof (induction h n rule: strstr.induct)
  case (2 x xs n)
  then show ?case
    by (auto split: if_splits)
qed (auto split: if_splits)

lemma strstr_length: "strstr h n = Some t \<Longrightarrow> length n \<le> length t \<and> length t \<le> length h"
  by (drule strstr_split) (auto dest: prefix_length_le)

lemma strstr_prefix [simp]: "prefix n h \<Longrightarrow> strstr h n = Some h"
  by (cases h) auto

lemma strstr_append_right: "contains b n \<Longrightarrow> contains (a @ b) n"
  by (induction a) auto

lemma contains_sublist: "contains h n \<longleftrightarrow> sublist n h"
proof (induction h n rule: strstr.induct)
  case (2 x xs n)
  then show ?case by (auto simp: sublist_Cons_right)
qed auto

section \<open>Trimming\<close>

definition ltrim :: "string \<Rightarrow> string" where
  "ltrim s = dropWhile isspace s"

definition rtrim_by :: "(char \<Rightarrow> bool) \<Rightarrow> string \<Rightarrow> string" where
  "rtrim_by p s = rev (dropWhile p (rev s))"

lemma rtrim_by_append_stop: "\<not> p c \<Longrightarrow> rtrim_by p (a @ [c]) = a @ [c]"
  by (simp add: rtrim_by_def)

lemma rtrim_by_split: "\<exists>w. s = rtrim_by p s @ w \<and> (\<forall>c \<in> set w. p c)"
proof -
  have "rev s = takeWhile p (rev s) @ dropWhile p (rev s)" by simp
  then have "s = rev (dropWhile p (rev s)) @ rev (takeWhile p (rev s))"
    by (metis rev_append rev_rev_ident)
  then show ?thesis
    unfolding rtrim_by_def by (metis set_rev set_takeWhileD)
qed

lemma rtrim_by_last: "rtrim_by p s \<noteq> [] \<Longrightarrow> \<not> p (last (rtrim_by p s))"
  by (simp add: rtrim_by_def last_rev hd_dropWhile)

lemma length_rtrim_by [simp]: "length (rtrim_by p s) \<le> length s"
  by (simp add: rtrim_by_def) (metis length_dropWhile_le length_rev)

section \<open>Formatted output\<close>

text \<open>
  \<open>snprintf (buf, n, "%s", s)\<close> and \<open>strncpy\<close> into a zeroed buffer of \<open>n\<close> bytes both keep
  at most \<open>n - 1\<close> bytes.
\<close>

definition trunc_to :: "nat \<Rightarrow> string \<Rightarrow> string" where
  "trunc_to n s = take (n - 1) s"

fun nat_str :: "nat \<Rightarrow> string" where
  "nat_str n = (if n < 10 then [char_of (48 + n)] else nat_str (n div 10) @ [char_of (48 + n mod 10)])"

declare nat_str.simps [simp del]

definition int_str :: "int \<Rightarrow> string" where
  "int_str i = (if i < 0 then CHR ''-'' # nat_str (nat (- i)) else nat_str (nat i))"

fun hex_str :: "nat \<Rightarrow> string" where
  "hex_str n = (if n < 16 then [''0123456789abcdef'' ! n]
     else hex_str (n div 16) @ [''0123456789abcdef'' ! (n mod 16)])"

declare hex_str.simps [simp del]

text \<open>\<open>%s\<close> of a pointer that may be NULL, and \<open>%-ns\<close>.\<close>

definition fmt_s :: "string option \<Rightarrow> string" where
  "fmt_s s = (case s of None \<Rightarrow> ''(null)'' | Some s \<Rightarrow> s)"

definition pad_right :: "nat \<Rightarrow> string \<Rightarrow> string" where
  "pad_right n s = s @ replicate (n - length s) SP"

text \<open>
  Repeated \<open>used += snprintf (buf + used, n - used, ...)\<close> under the guard \<open>used < n - 1\<close>:
  every piece is cut at the end of the buffer, and the one that does not fit is the last.
\<close>

fun append_pieces :: "nat \<Rightarrow> nat \<Rightarrow> string list \<Rightarrow> string" where
  "append_pieces n used [] = []"
| "append_pieces n used (p # ps) =
     (if used + 1 < n then trunc_to (n - used) p @ append_pieces n (used + length p) ps else [])"

lemma append_pieces_length: "used < n \<Longrightarrow> length (append_pieces n used ps) < n - used"
proof (induction n used ps rule: append_pieces.induct)
  case (2 n used p ps)
  then show ?case
    by (cases ps; cases "used + length p < n") (auto simp: trunc_to_def min_def)
qed simp

section \<open>Numbers read from text\<close>

text \<open>32-bit and 64-bit two's complement wrap-around, for conversions to \<open>int\<close> and \<open>long\<close>.\<close>

definition wrap32 :: "int \<Rightarrow> int" where
  "wrap32 i = (i + 2147483648) mod 4294967296 - 2147483648"

definition clamp_long :: "int \<Rightarrow> int" where
  "clamp_long i = (if i > 9223372036854775807 then 9223372036854775807
     else if i < - 9223372036854775808 then - 9223372036854775808 else i)"

definition digit_val :: "char \<Rightarrow> nat" where
  "digit_val c = byte c - 48"

definition digits_val :: "string \<Rightarrow> nat" where
  "digits_val ds = foldl (\<lambda>acc c. 10 * acc + digit_val c) 0 ds"

text \<open>
  The decimal prefix \<open>strtol\<close> accepts: white space, an optional sign, digits. \<open>None\<close> when no
  digit follows; otherwise the value and the rest of the text.
\<close>

definition scan_int :: "string \<Rightarrow> (int \<times> string) option" where
  "scan_int s0 =
     (let s = ltrim s0;
          neg = (s \<noteq> [] \<and> hd s = CHR ''-'');
          t = (if s \<noteq> [] \<and> (hd s = CHR ''-'' \<or> hd s = CHR ''+'') then tl s else s);
          ds = takeWhile isdigit t;
          v = int (digits_val ds)
      in if ds = [] then None else Some (if neg then - v else v, dropWhile isdigit t))"

definition strtol10 :: "string \<Rightarrow> int" where
  "strtol10 s = (case scan_int s of None \<Rightarrow> 0 | Some (v, _) \<Rightarrow> clamp_long v)"

definition atoi :: "string \<Rightarrow> int" where
  "atoi s = wrap32 (strtol10 s)"

text \<open>Reading inverts printing.\<close>

lemma isdigit_char_of: "(n::nat) < 10 \<Longrightarrow> isdigit (char_of (48 + n))"
  by (simp add: isdigit_def)

lemma nat_str_digits: "list_all isdigit (nat_str n)"
proof (induction n rule: nat_str.induct)
  case (1 n)
  then show ?case
    by (subst nat_str.simps) (simp add: isdigit_char_of)
qed

lemma nat_str_ne [simp]: "nat_str n \<noteq> []"
  by (subst nat_str.simps) simp

lemma digits_val_snoc [simp]: "digits_val (ds @ [c]) = 10 * digits_val ds + digit_val c"
  by (simp add: digits_val_def)

lemma digits_val_nat_str [simp]: "digits_val (nat_str n) = n"
proof (induction n rule: nat_str.induct)
  case (1 n)
  then show ?case
    by (subst nat_str.simps) (auto simp: digits_val_def digit_val_def)
qed

lemma takeWhile_digits_nat_str [simp]:
  "takeWhile isdigit (nat_str n) = nat_str n" "dropWhile isdigit (nat_str n) = []"
  using nat_str_digits [of n] by (simp_all add: list_all_iff)

section \<open>Reading files line by line\<close>

text \<open>
  The chunks that repeated \<open>fgets (line, n, f)\<close> returns for a file's content: each ends with
  its newline, or is cut at \<open>n - 1\<close> bytes. \<open>k\<close> is the room left in the buffer.
\<close>

fun fgets_from :: "nat \<Rightarrow> nat \<Rightarrow> string \<Rightarrow> string \<Rightarrow> string list" where
  "fgets_from m k acc [] = (if acc = [] then [] else [rev acc])"
| "fgets_from m k acc (c # cs) =
     (if c = NL \<or> k \<le> 1 then rev (c # acc) # fgets_from m m [] cs
      else fgets_from m (k - 1) (c # acc) cs)"

definition fgets_lines :: "nat \<Rightarrow> string \<Rightarrow> string list" where
  "fgets_lines n content = fgets_from (n - 1) (n - 1) [] content"

lemma concat_fgets_from: "concat (fgets_from m k acc s) = rev acc @ s"
  by (induction m k acc s rule: fgets_from.induct) auto

lemma concat_fgets_lines: "concat (fgets_lines n s) = s"
  by (simp add: fgets_lines_def concat_fgets_from)

lemma fgets_from_length:
  "length acc + k \<le> m \<Longrightarrow> 0 < k \<Longrightarrow> l \<in> set (fgets_from m k acc s) \<Longrightarrow> length l \<le> m"
proof (induction m k acc s rule: fgets_from.induct)
  case (2 m k acc c cs)
  show ?case
  proof (cases "c = NL \<or> k \<le> 1")
    case True
    with 2 show ?thesis by auto
  next
    case False
    then have "length (c # acc) + (k - 1) \<le> m" "0 < k - 1"
      using "2.prems" by auto
    with 2 False show ?thesis by simp
  qed
qed (auto split: if_splits)

lemma fgets_lines_length: "2 \<le> n \<Longrightarrow> l \<in> set (fgets_lines n s) \<Longrightarrow> length l \<le> n - 1"
  unfolding fgets_lines_def by (rule fgets_from_length) auto

section \<open>Tokens\<close>

text \<open>\<open>strtok\<close> with the delimiter set \<open>ds\<close>: maximal runs of other bytes.\<close>

fun tokens_from :: "(char \<Rightarrow> bool) \<Rightarrow> string \<Rightarrow> string \<Rightarrow> string list" where
  "tokens_from d acc [] = (if acc = [] then [] else [rev acc])"
| "tokens_from d acc (c # cs) =
     (if d c then (if acc = [] then [] else [rev acc]) @ tokens_from d [] cs
      else tokens_from d (c # acc) cs)"

definition strtok_all :: "(char \<Rightarrow> bool) \<Rightarrow> string \<Rightarrow> string list" where
  "strtok_all d s = tokens_from d [] s"

lemma tokens_from_no_delim:
  "list_all (\<lambda>c. \<not> d c) acc \<Longrightarrow> list_all (\<lambda>t. t \<noteq> [] \<and> list_all (\<lambda>c. \<not> d c) t) (tokens_from d acc s)"
  by (induction d acc s rule: tokens_from.induct) simp_all

lemma strtok_all_no_delim: "t \<in> set (strtok_all d s) \<Longrightarrow> t \<noteq> [] \<and> (\<forall>c \<in> set t. \<not> d c)"
  using tokens_from_no_delim [of d "[]" s] by (auto simp: strtok_all_def list_all_iff)

lemma tokens_from_word:
  "(\<And>c. c \<in> set w \<Longrightarrow> \<not> d c) \<Longrightarrow> tokens_from d acc (w @ s) = tokens_from d (rev w @ acc) s"
  by (induction w arbitrary: acc) auto

section \<open>Results\<close>

datatype status =
    OK | ERR_GENERIC | ERR_ALLOC | ERR_IO | ERR_PARSE | ERR_NETWORK
  | ERR_NOT_FOUND | ERR_PERMISSION | ERR_TIMEOUT | ERR_MAX_ITERATIONS

section \<open>Shared list lemmas\<close>

lemma find_Some_mem: "find P xs = Some x \<Longrightarrow> x \<in> set xs \<and> P x"
  by (metis find_Some_iff nth_mem)

lemma find_append: "find P (xs @ ys) = (case find P xs of None \<Rightarrow> find P ys | Some x \<Rightarrow> Some x)"
  by (induction xs) auto

lemma take_trunc_length: "length (trunc_to n s) \<le> n - 1"
  by (simp add: trunc_to_def)

lemma trunc_to_small [simp]: "length s < n \<Longrightarrow> trunc_to n s = s"
  by (simp add: trunc_to_def)

lemma fgets_from_line:
  "NL \<notin> set l \<Longrightarrow> length l < k \<Longrightarrow> fgets_from m k acc (l @ NL # s) = (rev acc @ l @ [NL]) # fgets_from m m [] s"
  by (induction l arbitrary: k acc) auto

lemma fgets_lines_line:
  "NL \<notin> set l \<Longrightarrow> length l + 1 < n \<Longrightarrow> fgets_lines n (l @ NL # s) = (l @ [NL]) # fgets_lines n s"
  by (simp add: fgets_lines_def fgets_from_line)

lemma fgets_lines_Nil [simp]: "fgets_lines n [] = []"
  by (simp add: fgets_lines_def)

lemma fgets_from_last:
  "NL \<notin> set l \<Longrightarrow> length l < k \<Longrightarrow> l \<noteq> [] \<or> acc \<noteq> [] \<Longrightarrow> fgets_from m k acc l = [rev acc @ l]"
  by (induction l arbitrary: k acc) auto

lemma fgets_lines_last: "NL \<notin> set l \<Longrightarrow> length l + 1 < n \<Longrightarrow> l \<noteq> [] \<Longrightarrow> fgets_lines n l = [l]"
  by (simp add: fgets_lines_def fgets_from_last)

section \<open>File-name patterns\<close>

text \<open>
  \<open>fnmatch\<close> of the C library with the flags the program uses (0 and \<open>FNM_CASEFOLD\<close>): \<open>*\<close>, \<open>?\<close>,
  backslash, and bracket expressions of characters and ranges. Named classes and collating
  elements inside brackets are not modelled.
\<close>

definition char_eq :: "bool \<Rightarrow> char \<Rightarrow> char \<Rightarrow> bool" where
  "char_eq fold_case c d \<longleftrightarrow> (if fold_case then to_lower c = to_lower d else c = d)"

fun bracket_items :: "bool \<Rightarrow> string \<Rightarrow> ((char \<times> char) list \<times> string) option" where
  "bracket_items first [] = None"
| "bracket_items first (c # cs) =
     (if c = CHR '']'' \<and> \<not> first then Some ([], cs)
      else case cs of
        h # d # ds \<Rightarrow>
          if h = CHR ''-'' \<and> d \<noteq> CHR '']'' then map_option (\<lambda>(rs, r). ((c, d) # rs, r)) (bracket_items False ds)
          else map_option (\<lambda>(rs, r). ((c, c) # rs, r)) (bracket_items False cs)
      | _ \<Rightarrow> map_option (\<lambda>(rs, r). ((c, c) # rs, r)) (bracket_items False cs))"

lemma bracket_items_length: "bracket_items f s = Some (rs, r) \<Longrightarrow> length r < length s"
proof (induction f s arbitrary: rs r rule: bracket_items.induct)
  case (2 first c cs)
  show ?case
  proof (cases "c = CHR '']'' \<and> \<not> first")
    case True
    with "2.prems" show ?thesis by simp
  next
    case False
    consider (short) "length cs < 2" | (pair) h d ds where "cs = h # d # ds"
      by (cases cs rule: remdups_adj.cases) auto
    then show ?thesis
    proof cases
      case short
      with False "2.prems" show ?thesis by (cases cs rule: remdups_adj.cases) (auto split: if_splits)
    next
      case pair
      then show ?thesis
      proof (cases "h = CHR ''-'' \<and> d \<noteq> CHR '']''")
        case True
        then obtain rs' where "bracket_items False ds = Some (rs', r)"
          using False "2.prems" pair by (auto simp del: bracket_items.simps simp add: bracket_items.simps(2) [of first c])
        then have "length r < length ds" using "2.IH"(3) False pair True by blast
        with pair show ?thesis by simp
      next
        case no: False
        then obtain rs' where "bracket_items False cs = Some (rs', r)"
          using False "2.prems" pair by (auto simp del: bracket_items.simps simp add: bracket_items.simps(2) [of first c])
        then have "length r < length cs" using "2.IH"(4) False pair no by blast
        with pair show ?thesis by simp
      qed
    qed
  qed
qed simp

definition in_range :: "bool \<Rightarrow> char \<Rightarrow> char \<times> char \<Rightarrow> bool" where
  "in_range fold_case c r = (case r of (a, b) \<Rightarrow>
     (if fold_case then byte (to_lower a) \<le> byte (to_lower c) \<and> byte (to_lower c) \<le> byte (to_lower b)
      else byte a \<le> byte c \<and> byte c \<le> byte b))"

text \<open>After the opening bracket: whether the character matches, and the rest of the pattern.\<close>

definition bracket_match :: "bool \<Rightarrow> string \<Rightarrow> char \<Rightarrow> (bool \<times> string) option" where
  "bracket_match fold_case ps c =
     (let neg = (ps \<noteq> [] \<and> (hd ps = CHR ''!'' \<or> hd ps = CHR ''^''));
          qs = (if neg then tl ps else ps)
      in map_option (\<lambda>(rs, r). (list_ex (in_range fold_case c) rs \<noteq> neg, r)) (bracket_items True qs))"

lemma bracket_match_length: "bracket_match f ps c = Some (b, r) \<Longrightarrow> length r < length ps"
proof -
  define qs where "qs = (if ps \<noteq> [] \<and> (hd ps = CHR ''!'' \<or> hd ps = CHR ''^'') then tl ps else ps)"
  assume "bracket_match f ps c = Some (b, r)"
  then obtain rs where "bracket_items True qs = Some (rs, r)"
    by (auto simp: bracket_match_def Let_def qs_def simp del: bracket_items.simps split: if_splits)
  then have "length r < length qs" by (rule bracket_items_length)
  also have "length qs \<le> length ps" by (simp add: qs_def)
  finally show ?thesis .
qed

function fnmatch :: "bool \<Rightarrow> string \<Rightarrow> string \<Rightarrow> bool" where
  "fnmatch f [] s = (s = [])"
| "fnmatch f (p # ps) [] = (p = CHR ''*'' \<and> fnmatch f ps [])"
| "fnmatch f (p # ps) (c # s) =
     (if p = CHR ''*'' then fnmatch f ps (c # s) \<or> fnmatch f (p # ps) s
      else if p = CHR ''?'' then fnmatch f ps s
      else if p = BSL then (case ps of [] \<Rightarrow> False | q # qs \<Rightarrow> char_eq f q c \<and> fnmatch f qs s)
      else if p = CHR ''['' then
        (case bracket_match f ps c of
           Some (b, r) \<Rightarrow> b \<and> fnmatch f r s
         | None \<Rightarrow> char_eq f p c \<and> fnmatch f ps s)
      else char_eq f p c \<and> fnmatch f ps s)"
  by pat_completeness auto
termination
  by (relation "measure (\<lambda>(f, p, s). length p + length s)") (auto dest: bracket_match_length)

definition plain_pattern :: "string \<Rightarrow> bool" where
  "plain_pattern p \<longleftrightarrow> list_all (\<lambda>c. c \<noteq> CHR ''*'' \<and> c \<noteq> CHR ''?'' \<and> c \<noteq> BSL \<and> c \<noteq> CHR ''['') p"

lemma fnmatch_plain:
  "plain_pattern p \<Longrightarrow> fnmatch f p s \<longleftrightarrow> (if f then map to_lower p = map to_lower s else p = s)"
proof (induction p arbitrary: s)
  case (Cons a p)
  then show ?case by (cases s) (auto simp: plain_pattern_def char_eq_def)
qed (auto)

lemma fnmatch_star: "fnmatch f (CHR ''*'' # p) s \<longleftrightarrow> (\<exists>a b. s = a @ b \<and> fnmatch f p b)"
proof (induction s)
  case (Cons c s)
  have "(\<exists>a b. c # s = a @ b \<and> fnmatch f p b) \<longleftrightarrow> fnmatch f p (c # s) \<or> (\<exists>a b. s = a @ b \<and> fnmatch f p b)"
    by (metis append_Cons append_Nil append_eq_Cons_conv)
  with Cons show ?case by simp
qed simp

end
