(* ===== verification/Core_Types.thy ===== *)
theory Core_Types
  imports Dobby_Prelude
begin

text \<open>
  Model of \<open>src/core/types.c\<close>: results, the growable string buffer \<open>strbuf_t\<close>, the string
  helpers and \<open>sanitize_output\<close>. The contract of a growable byte buffer is the locale
  \<open>byte_buffer\<close>; \<open>strbuf_t\<close> here, and the buffers the HTTP client and the email channel
  give to libcurl, are its instances. Components built on \<open>strbuf_t\<close> are modelled with
  string concatenation, which the interpretation justifies.
\<close>

section \<open>Results\<close>

text \<open>\<open>result_t\<close>: a status and, unless it is OK, a heap-allocated message.\<close>

record result =
  r_status :: status
  r_message :: "string option"

definition ok :: result where
  "ok = \<lparr>r_status = OK, r_message = None\<rparr>"

text \<open>\<open>err (status, fmt, ...)\<close>: the message is formatted into a buffer of 1024 bytes.\<close>

definition err :: "status \<Rightarrow> string \<Rightarrow> result" where
  "err st msg = \<lparr>r_status = st, r_message = Some (trunc_to 1024 msg)\<rparr>"

section \<open>The contract of a growable byte buffer\<close>

locale byte_buffer =
  fixes append :: "'b \<Rightarrow> string \<Rightarrow> 'b option"
    and content :: "'b \<Rightarrow> string"
    and invar :: "'b \<Rightarrow> bool"
  assumes append_content: "invar b \<Longrightarrow> append b s = Some b' \<Longrightarrow> content b' = content b @ s"
    and append_invar: "invar b \<Longrightarrow> append b s = Some b' \<Longrightarrow> invar b'"
begin

fun append_all :: "'b \<Rightarrow> string list \<Rightarrow> 'b option" where
  "append_all b [] = Some b"
| "append_all b (s # ss) = (case append b s of None \<Rightarrow> None | Some b' \<Rightarrow> append_all b' ss)"

lemma append_all_content:
  "invar b \<Longrightarrow> append_all b ss = Some b' \<Longrightarrow> content b' = content b @ concat ss \<and> invar b'"
proof (induction ss arbitrary: b)
  case (Cons s ss)
  then obtain b1 where b1: "append b s = Some b1" "append_all b1 ss = Some b'"
    by (auto split: option.splits)
  then have "content b1 = content b @ s" "invar b1"
    using Cons.prems(1) append_content append_invar by blast+
  with Cons.IH b1 show ?case by simp
qed simp

end

section \<open>The string buffer\<close>

record strbuf =
  sb_data :: string
  sb_cap :: nat

text \<open>
  \<open>alloc n\<close> says whether the allocator can give \<open>n\<close> bytes; when it cannot, the code aborts,
  which is \<open>None\<close> here. The length of the text is the length of \<open>sb_data\<close>.
\<close>

definition strbuf_init :: "(nat \<Rightarrow> bool) \<Rightarrow> nat \<Rightarrow> strbuf option" where
  "strbuf_init alloc initial_cap =
     (let cap = (if initial_cap > 0 then initial_cap else 256)
      in if alloc cap then Some \<lparr>sb_data = [], sb_cap = cap\<rparr> else None)"

text \<open>
  The loop that doubles the capacity until \<open>need\<close> bytes fit. \<open>None\<close>: the allocation failed
  (the code aborts), or the capacity is 0, which doubling never changes.
\<close>

function sb_grow :: "(nat \<Rightarrow> bool) \<Rightarrow> nat \<Rightarrow> nat \<Rightarrow> nat option" where
  "sb_grow alloc need cap =
     (if need \<le> cap then Some cap
      else if cap = 0 then None
      else if alloc (2 * cap) then sb_grow alloc need (2 * cap) else None)"
  by pat_completeness auto
termination
  by (relation "measure (\<lambda>(alloc, need, cap). need - cap)") auto

declare sb_grow.simps [simp del]

definition strbuf_append :: "(nat \<Rightarrow> bool) \<Rightarrow> strbuf \<Rightarrow> string \<Rightarrow> strbuf option" where
  "strbuf_append alloc sb str =
     (case sb_grow alloc (length (sb_data sb) + length str + 1) (sb_cap sb) of
        None \<Rightarrow> None
      | Some cap \<Rightarrow> Some \<lparr>sb_data = sb_data sb @ str, sb_cap = cap\<rparr>)"

text \<open>\<open>strbuf_append_len\<close> takes the first \<open>len\<close> bytes; a NULL or empty piece changes nothing.\<close>

definition strbuf_append_len :: "(nat \<Rightarrow> bool) \<Rightarrow> strbuf \<Rightarrow> string option \<Rightarrow> nat \<Rightarrow> strbuf option" where
  "strbuf_append_len alloc sb str len =
     (case str of
        None \<Rightarrow> Some sb
      | Some s \<Rightarrow> (if len = 0 then Some sb
          else (case sb_grow alloc (length (sb_data sb) + len + 1) (sb_cap sb) of
                  None \<Rightarrow> None
                | Some cap \<Rightarrow> Some \<lparr>sb_data = sb_data sb @ take len s, sb_cap = cap\<rparr>)))"

definition strbuf_clear :: "strbuf \<Rightarrow> strbuf" where
  "strbuf_clear sb = sb\<lparr>sb_data := []\<rparr>"

definition strbuf_free :: "strbuf \<Rightarrow> strbuf" where
  "strbuf_free sb = \<lparr>sb_data = [], sb_cap = 0\<rparr>"

text \<open>The text and its terminating NUL fit in the allocation.\<close>

definition strbuf_ok :: "strbuf \<Rightarrow> bool" where
  "strbuf_ok sb \<longleftrightarrow> length (sb_data sb) + 1 \<le> sb_cap sb"

lemma sb_grow_ge: "sb_grow alloc need cap = Some c \<Longrightarrow> need \<le> c \<and> cap \<le> c"
proof (induction alloc need cap rule: sb_grow.induct)
  case (1 alloc need cap)
  then show ?case
    by (auto simp: sb_grow.simps [of alloc need cap] split: if_splits)
qed

lemma sb_grow_bound:
  "sb_grow alloc need cap = Some c \<Longrightarrow> 0 < cap \<Longrightarrow> c \<le> max cap (2 * need)"
proof (induction alloc need cap rule: sb_grow.induct)
  case (1 alloc need cap)
  then show ?case
    by (fastforce simp: sb_grow.simps [of alloc need cap] split: if_splits)
qed

lemma sb_grow_total:
  "(\<And>n. n \<le> max cap (2 * need) \<Longrightarrow> alloc n) \<Longrightarrow> 0 < cap \<Longrightarrow> \<exists>c. sb_grow alloc need cap = Some c"
proof (induction alloc need cap rule: sb_grow.induct)
  case (1 alloc need cap)
  show ?case
  proof (cases "need \<le> cap")
    case True
    then show ?thesis by (simp add: sb_grow.simps [of alloc need cap])
  next
    case False
    then have "\<exists>c. sb_grow alloc need (2 * cap) = Some c" "alloc (2 * cap)"
      using 1 by auto
    with False "1.prems"(2) show ?thesis by (simp add: sb_grow.simps [of alloc need cap])
  qed
qed

lemma strbuf_init_ok: "strbuf_init alloc n = Some sb \<Longrightarrow> strbuf_ok sb \<and> sb_data sb = []"
  by (auto simp: strbuf_init_def strbuf_ok_def Let_def split: if_splits)

lemma strbuf_append_ok:
  "strbuf_append alloc sb s = Some sb' \<Longrightarrow> strbuf_ok sb' \<and> sb_data sb' = sb_data sb @ s"
  by (auto simp: strbuf_append_def strbuf_ok_def dest!: sb_grow_ge split: option.splits)

interpretation strbuf: byte_buffer "strbuf_append alloc" sb_data strbuf_ok
  by unfold_locales (auto dest: strbuf_append_ok)

text \<open>
  Appending to an initialised buffer always succeeds when the allocator can give twice the
  bytes the result needs, keeps the old text, and never reserves more than twice the need.
\<close>

lemma strbuf_append_total:
  assumes "strbuf_ok sb" "\<And>n. n \<le> max (sb_cap sb) (2 * (length (sb_data sb) + length s + 1)) \<Longrightarrow> alloc n"
  shows "\<exists>sb'. strbuf_append alloc sb s = Some sb' \<and> strbuf_ok sb' \<and> sb_data sb' = sb_data sb @ s
    \<and> sb_cap sb' \<le> max (sb_cap sb) (2 * (length (sb_data sb) + length s + 1))"
proof -
  have "0 < sb_cap sb" using assms(1) by (simp add: strbuf_ok_def)
  then obtain c where c: "sb_grow alloc (length (sb_data sb) + length s + 1) (sb_cap sb) = Some c"
    using sb_grow_total assms(2) by blast
  then have "strbuf_append alloc sb s = Some \<lparr>sb_data = sb_data sb @ s, sb_cap = c\<rparr>"
    by (simp add: strbuf_append_def)
  with c sb_grow_bound [OF c \<open>0 < sb_cap sb\<close>] strbuf_append_ok show ?thesis by fastforce
qed

section \<open>String helpers\<close>

definition str_starts_with :: "string option \<Rightarrow> string option \<Rightarrow> bool" where
  "str_starts_with s p = (case (s, p) of (Some s, Some p) \<Rightarrow> prefix p s | _ \<Rightarrow> False)"

definition str_ends_with :: "string option \<Rightarrow> string option \<Rightarrow> bool" where
  "str_ends_with s p = (case (s, p) of (Some s, Some p) \<Rightarrow>
     (if length p > length s then False else drop (length s - length p) s = p) | _ \<Rightarrow> False)"

definition str_trim :: "string \<Rightarrow> string" where
  "str_trim s = (let t = ltrim s in if t = [] then t else rtrim_by isspace t)"

lemma str_ends_with_suffix: "str_ends_with (Some s) (Some p) \<longleftrightarrow> suffix p s"
proof (cases "length s < length p")
  case True
  then show ?thesis by (auto simp: str_ends_with_def dest: suffix_length_le)
next
  case False
  then show ?thesis
    by (auto simp: str_ends_with_def suffix_def)
      (metis append_take_drop_id)
qed

lemma str_trim_decompose:
  "\<exists>a b. s = a @ str_trim s @ b \<and> (\<forall>c \<in> set a. isspace c) \<and> (\<forall>c \<in> set b. isspace c)"
proof -
  have s: "s = takeWhile isspace s @ ltrim s" by (simp add: ltrim_def)
  obtain w where w: "ltrim s = rtrim_by isspace (ltrim s) @ w" "\<forall>c \<in> set w. isspace c"
    using rtrim_by_split by metis
  show ?thesis
  proof (cases "ltrim s = []")
    case True
    then have "s = takeWhile isspace s @ str_trim s @ []" using s by (simp add: str_trim_def)
    then show ?thesis by (metis empty_iff empty_set set_takeWhileD)
  next
    case False
    then have "s = takeWhile isspace s @ str_trim s @ w" using s w by (simp add: str_trim_def)
    then show ?thesis using w by (metis set_takeWhileD)
  qed
qed

lemma str_trim_ends:
  assumes "str_trim s \<noteq> []"
  shows "\<not> isspace (hd (str_trim s)) \<and> \<not> isspace (last (str_trim s))"
proof -
  have ne: "ltrim s \<noteq> []" using assms by (auto simp: str_trim_def Let_def)
  then have h: "\<not> isspace (hd (ltrim s))" by (simp add: ltrim_def hd_dropWhile)
  have t: "str_trim s = rtrim_by isspace (ltrim s)" using ne by (simp add: str_trim_def)
  obtain w where "ltrim s = str_trim s @ w" using rtrim_by_split t by metis
  then have "hd (ltrim s) = hd (str_trim s)" using assms by (metis hd_append2)
  with h show ?thesis using assms t rtrim_by_last by metis
qed

lemma str_trim_id:
  assumes "s = [] \<or> (\<not> isspace (hd s) \<and> \<not> isspace (last s))"
  shows "str_trim s = s"
proof (cases "s = []")
  case True
  then show ?thesis by (simp add: str_trim_def ltrim_def)
next
  case False
  then have "ltrim s = s" using assms by (cases s) (auto simp: ltrim_def)
  moreover have "rtrim_by isspace s = s"
    using False assms by (cases "rev s") (auto simp: rtrim_by_def)
  ultimately show ?thesis by (simp add: str_trim_def)
qed

lemma str_trim_idem: "str_trim (str_trim s) = str_trim s"
  using str_trim_id str_trim_ends by metis

lemma str_trim_set: "set (str_trim s) \<subseteq> set s"
  using str_trim_decompose [of s] by (metis Un_subset_iff order_refl set_append sup.coboundedI1 sup.coboundedI2)

section \<open>Output sanitisation\<close>

text \<open>The bytes of a CSI sequence after \<open>ESC [\<close>, up to and with its final byte.\<close>

definition skip_csi :: "string \<Rightarrow> string" where
  "skip_csi s = drop 1 (dropWhile (\<lambda>c. byte c < 64 \<or> byte c > 126) s)"

lemma skip_csi_length: "length (skip_csi s) \<le> length s"
  by (simp add: skip_csi_def) (metis diff_le_self le_trans length_dropWhile_le)

definition printable :: "char \<Rightarrow> bool" where
  "printable c \<longleftrightarrow> 32 \<le> byte c \<and> byte c \<le> 126"

function sanitize_output :: "string \<Rightarrow> string" where
  "sanitize_output [] = []"
| "sanitize_output (c # s) =
     (if c = ESC then
        (case s of
           [] \<Rightarrow> []
         | d # t \<Rightarrow>
             if d = CHR ''['' then sanitize_output (skip_csi t)
             else if 64 \<le> byte d \<and> byte d \<le> 95 then sanitize_output t
             else sanitize_output s)
      else if c = CR then sanitize_output s
      else if c = NL \<or> c = TAB then c # sanitize_output s
      else if printable c then c # sanitize_output s
      else sanitize_output s)"
  by pat_completeness auto
termination
  by (relation "measure length") (auto intro: le_less_trans [OF skip_csi_length])

declare sanitize_output.simps(2) [simp del]

text \<open>A byte the LLM history may hold: printable ASCII, newline or tab.\<close>

definition clean_char :: "char \<Rightarrow> bool" where
  "clean_char c \<longleftrightarrow> c = NL \<or> c = TAB \<or> printable c"

lemma clean_not_ESC_CR: "clean_char c \<Longrightarrow> c \<noteq> ESC \<and> c \<noteq> CR"
  by (auto simp: clean_char_def printable_def byte_def)

lemma sanitize_clean: "c \<in> set (sanitize_output s) \<Longrightarrow> clean_char c"
proof (induction s rule: sanitize_output.induct)
  case (2 x s)
  then show ?case
    by (subst (asm) sanitize_output.simps(2))
      (auto simp: clean_char_def split: if_splits list.splits)
qed simp

lemma sanitize_id: "\<forall>c \<in> set s. clean_char c \<Longrightarrow> sanitize_output s = s"
proof (induction s)
  case (Cons c s)
  then have "c \<noteq> ESC" "c \<noteq> CR" "clean_char c" using clean_not_ESC_CR by auto
  with Cons show ?case by (auto simp: sanitize_output.simps(2) clean_char_def)
qed simp

lemma subseq_skip_csi: "subseq (skip_csi s) s"
  unfolding skip_csi_def
  by (meson suffix_drop suffix_dropWhile suffix_imp_subseq subseq_order.order_trans)

lemma sanitize_subseq: "subseq (sanitize_output s) s"
proof (induction s rule: sanitize_output.induct)
  case (2 c s)
  show ?case
  proof (cases "c = ESC")
    case True
    show ?thesis
    proof (cases s)
      case Nil
      with True show ?thesis by (simp add: sanitize_output.simps(2))
    next
      case (Cons d t)
      have "subseq (sanitize_output (skip_csi t)) t" if "d = CHR ''[''"
        using 2(1) True Cons that subseq_skip_csi subseq_order.order_trans by metis
      moreover have "subseq (sanitize_output (d # t)) (d # t)"
        if "d \<noteq> CHR ''[''" "\<not> (64 \<le> byte d \<and> byte d \<le> 95)"
        using 2(3) True Cons that by metis
      moreover have "subseq (sanitize_output t) t" if "d \<noteq> CHR ''[''" "64 \<le> byte d \<and> byte d \<le> 95"
        using 2(2) True Cons that by metis
      ultimately show ?thesis
        using True Cons by (simp add: sanitize_output.simps(2) list_emb_Cons)
    qed
  next
    case False
    with 2 show ?thesis by (auto simp: sanitize_output.simps(2))
  qed
qed simp

section \<open>Properties\<close>

text \<open>Appending to a string buffer never loses or overwrites text: on an initialised buffer,
  whose allocator can give twice the bytes needed, it succeeds, the text and its NUL fit the
  allocation, and the capacity at most doubles the need.\<close>

theorem strbuf_append_correct:
  assumes "strbuf_ok sb" "\<forall>n. n \<le> max (sb_cap sb) (2 * (length (sb_data sb) + length s + 1)) \<longrightarrow> alloc n"
  shows "\<exists>sb'. strbuf_append alloc sb s = Some sb' \<and> strbuf_ok sb' \<and> sb_data sb' = sb_data sb @ s
    \<and> sb_cap sb' \<le> max (sb_cap sb) (2 * (length (sb_data sb) + length s + 1))"
  using strbuf_append_total [of sb s alloc] assms by blast

lemma strbuf_append_correct_witness:
  "\<exists>sb'. strbuf_append (\<lambda>n. True) \<lparr>sb_data = ''ab'', sb_cap = 4\<rparr> ''cdef'' = Some sb' \<and> sb_data sb' = ''abcdef''"
  using strbuf_append_correct [of "\<lparr>sb_data = ''ab'', sb_cap = 4\<rparr>" "''cdef''" "\<lambda>n. True"]
  by (auto simp: strbuf_ok_def)

text \<open>\<open>sanitize_output\<close> gives printable ASCII, newlines and tabs only, invents nothing (its result
  is a subsequence of the input), leaves clean text alone and is idempotent.\<close>

theorem sanitize_output_correct:
  "list_all clean_char (sanitize_output s) \<and> subseq (sanitize_output s) s
    \<and> sanitize_output (sanitize_output s) = sanitize_output s"
  using sanitize_clean [of _ s] sanitize_subseq [of s] sanitize_id [of "sanitize_output s"]
  by (auto simp: list_all_iff)

end
