(* ===== verification/Json.thy ===== *)
theory Json
  imports Core_Types
begin

text \<open>
  Model of the part of \<open>src/core/cJSON.c\<close> the program uses: the parser, the printer, number
  conversion and the accessors. An item is a value of the datatype \<open>json\<close>; the item's
  \<open>type\<close> tag is the constructor, the linked list of children the list of the constructor.
  Input and output texts are C strings, so the terminator is the end of the list. Memory
  allocation is assumed to succeed, as everywhere in the program (\<open>malloc\<close> failures of cJSON
  give NULL and are not handled by its callers).
\<close>

section \<open>Numbers\<close>

text \<open>A double that is not NaN: a rational, or an infinity with its sign (True: negative).\<close>

datatype double = Fin rat | Inf bool

fun bitlen :: "int \<Rightarrow> int" where
  "bitlen n = (if n \<le> 0 then 0 else 1 + bitlen (n div 2))"

declare bitlen.simps [simp del]

definition pow2 :: "int \<Rightarrow> rat" where
  "pow2 k = (if 0 \<le> k then 2 ^ nat k else 1 / 2 ^ nat (- k))"

definition pow10 :: "int \<Rightarrow> rat" where
  "pow10 k = (if 0 \<le> k then 10 ^ nat k else 1 / 10 ^ nat (- k))"

text \<open>The floor of the binary and the decimal logarithm of a positive rational.\<close>

definition ilog2 :: "rat \<Rightarrow> int" where
  "ilog2 q = (let (n, d) = quotient_of q; e = bitlen n - bitlen d
              in if pow2 e \<le> q then e else e - 1)"

definition ilog10 :: "rat \<Rightarrow> int" where
  "ilog10 q = (let (n, d) = quotient_of q;
                   e = int (length (nat_str (nat n))) - int (length (nat_str (nat d)))
               in if pow10 e \<le> q then e else e - 1)"

definition round_half_even :: "rat \<Rightarrow> int" where
  "round_half_even x =
     (let f = \<lfloor>x\<rfloor>; r = x - of_int f
      in if r < 1 / 2 then f else if r > 1 / 2 then f + 1 else if even f then f else f + 1)"

text \<open>The double nearest to a rational (ties to even, subnormals, overflow to infinity).\<close>

definition round_double :: "rat \<Rightarrow> double" where
  "round_double q =
     (if q = 0 then Fin 0
      else let k = max (ilog2 \<bar>q\<bar> - 52) (- 1074);
               a = of_int (round_half_even (\<bar>q\<bar> / pow2 k)) * pow2 k
           in if a \<ge> pow2 1024 then Inf (q < 0) else Fin (if q < 0 then - a else a))"

text \<open>
  \<open>strtod\<close> on a text of digits, signs, points and exponent letters (the only bytes
  \<open>parse_number\<close> gives it): the value and the number of bytes read, \<open>None\<close> if there is no number.
\<close>

definition split_sign :: "string \<Rightarrow> bool \<times> string" where
  "split_sign s =
     (case s of
        [] \<Rightarrow> (False, [])
      | c # t \<Rightarrow> if c = CHR ''-'' then (True, t) else if c = CHR ''+'' then (False, t) else (False, s))"

definition scan_mant :: "string \<Rightarrow> string \<times> string \<times> string" where
  "scan_mant s =
     (case dropWhile isdigit s of
        [] \<Rightarrow> (takeWhile isdigit s, [], [])
      | c # t \<Rightarrow> if c = CHR ''.'' then (takeWhile isdigit s, takeWhile isdigit t, dropWhile isdigit t)
          else (takeWhile isdigit s, [], c # t))"

definition scan_exp :: "string \<Rightarrow> int \<times> string" where
  "scan_exp s =
     (case s of
        [] \<Rightarrow> (0, s)
      | c # t \<Rightarrow> if c = CHR ''e'' \<or> c = CHR ''E'' then
            (case split_sign t of (neg, u) \<Rightarrow>
              (case takeWhile isdigit u of
                 [] \<Rightarrow> (0, s)
               | d # ds \<Rightarrow> (if neg then - int (digits_val (d # ds)) else int (digits_val (d # ds)),
                            dropWhile isdigit u)))
          else (0, s))"

definition strtod :: "string \<Rightarrow> (double \<times> nat) option" where
  "strtod s =
     (case split_sign s of (neg, s1) \<Rightarrow>
      (case scan_mant s1 of (ds, fs, s3) \<Rightarrow>
        (if ds = [] \<and> fs = [] then None
         else (case scan_exp s3 of (e, s4) \<Rightarrow>
           (let v = of_nat (digits_val (ds @ fs)) * pow10 (e - int (length fs))
            in Some (round_double (if neg then - v else v), length s - length s4))))))"

definition INT_MAX :: int where "INT_MAX = 2147483647"
definition INT_MIN :: int where "INT_MIN = - 2147483648"

text \<open>\<open>valueint\<close> of a number: saturated, otherwise truncated towards zero.\<close>

definition double_to_int :: "double \<Rightarrow> int" where
  "double_to_int d =
     (case d of
        Inf neg \<Rightarrow> if neg then INT_MIN else INT_MAX
      | Fin q \<Rightarrow> if q \<ge> of_int INT_MAX then INT_MAX
                else if q \<le> of_int INT_MIN then INT_MIN
                else if q \<ge> 0 then \<lfloor>q\<rfloor> else - \<lfloor>- q\<rfloor>)"

text \<open>\<open>printf ("%1.Pg")\<close> of a nonzero rational.\<close>

definition fmt_g :: "nat \<Rightarrow> rat \<Rightarrow> string" where
  "fmt_g P q =
     (let a = \<bar>q\<bar>;
          x0 = ilog10 a;
          m0 = round_half_even (a / pow10 (x0 - int P + 1));
          up = (m0 = 10 ^ P);
          x = (if up then x0 + 1 else x0);
          ds = nat_str (nat (if up then m0 div 10 else m0));
          strip = rtrim_by (\<lambda>c. c = CHR ''0'');
          pt = (\<lambda>f. if f = [] then [] else CHR ''.'' # f);
          body = (if x < - 4 \<or> int P \<le> x then
                    take 1 ds @ pt (strip (drop 1 ds)) @ ''e'' @ (if x < 0 then ''-'' else ''+'') @
                      (let xs = nat_str (nat \<bar>x\<bar>) in if length xs < 2 then CHR ''0'' # xs else xs)
                  else if 0 \<le> x then take (nat x + 1) ds @ pt (strip (drop (nat x + 1) ds))
                  else ''0'' @ pt (replicate (nat (- x) - 1) (CHR ''0'') @ strip ds))
      in if q < 0 then CHR ''-'' # body else body)"

text \<open>
  \<open>compare_double\<close>, with the rounding of the difference and of the product. The difference to an
  infinity is infinite and so is the bound, so the test holds; two infinities of one sign have
  the difference NaN, and the test fails.
\<close>

definition compare_double :: "double \<Rightarrow> double \<Rightarrow> bool" where
  "compare_double a b =
     (case (a, b) of
        (Fin x, Fin y) \<Rightarrow>
          (case (round_double \<bar>x - y\<bar>, round_double ((if \<bar>x\<bar> > \<bar>y\<bar> then \<bar>x\<bar> else \<bar>y\<bar>) * pow2 (- 52))) of
             (Fin d, Fin e) \<Rightarrow> d \<le> e
           | (Inf _, Fin _) \<Rightarrow> False
           | _ \<Rightarrow> True)
      | (Inf s, Inf t) \<Rightarrow> s \<noteq> t
      | _ \<Rightarrow> True)"

definition print_number :: "double \<Rightarrow> string" where
  "print_number d =
     (case d of
        Inf _ \<Rightarrow> ''null''
      | Fin q \<Rightarrow>
          if q = of_int (double_to_int d) then int_str (double_to_int d)
          else let s = fmt_g 15 q
               in case strtod s of
                    Some (t, _) \<Rightarrow> if compare_double t d then s else fmt_g 17 q
                  | None \<Rightarrow> fmt_g 17 q)"

section \<open>Items\<close>

datatype json =
    JNull
  | JBool bool
  | JNumber double
  | JString string
  | JArray "json list"
  | JObject "(string \<times> json) list"

text \<open>Items created from an \<open>int\<close> or a \<open>long\<close>.\<close>

definition JInt :: "int \<Rightarrow> json" where
  "JInt i = JNumber (round_double (of_int i))"

text \<open>The accessors, NULL-safe as in the code.\<close>

definition cJSON_IsString :: "json option \<Rightarrow> bool" where
  "cJSON_IsString j = (case j of Some (JString _) \<Rightarrow> True | _ \<Rightarrow> False)"

definition cJSON_IsNumber :: "json option \<Rightarrow> bool" where
  "cJSON_IsNumber j = (case j of Some (JNumber _) \<Rightarrow> True | _ \<Rightarrow> False)"

definition cJSON_IsArray :: "json option \<Rightarrow> bool" where
  "cJSON_IsArray j = (case j of Some (JArray _) \<Rightarrow> True | _ \<Rightarrow> False)"

definition cJSON_IsTrue :: "json option \<Rightarrow> bool" where
  "cJSON_IsTrue j \<longleftrightarrow> j = Some (JBool True)"

definition cJSON_GetStringValue :: "json option \<Rightarrow> string option" where
  "cJSON_GetStringValue j = (case j of Some (JString s) \<Rightarrow> Some s | _ \<Rightarrow> None)"

text \<open>The children of an item, with their names; the elements of an array have none.\<close>

fun children :: "json \<Rightarrow> (string option \<times> json) list" where
  "children (JArray vs) = map (\<lambda>v. (None, v)) vs"
| "children (JObject ms) = map (\<lambda>(k, v). (Some k, v)) ms"
| "children _ = []"

definition cJSON_GetArraySize :: "json option \<Rightarrow> nat" where
  "cJSON_GetArraySize j = (case j of None \<Rightarrow> 0 | Some j \<Rightarrow> length (children j))"

definition cJSON_GetArrayItem :: "json option \<Rightarrow> nat \<Rightarrow> json option" where
  "cJSON_GetArrayItem j i = (case j of None \<Rightarrow> None
     | Some j \<Rightarrow> if i < length (children j) then Some (snd (children j ! i)) else None)"

text \<open>
  \<open>cJSON_GetObjectItem\<close>: the first child whose name is equal up to case; a child without a
  name is not equal to any.
\<close>

definition cJSON_GetObjectItem :: "json option \<Rightarrow> string \<Rightarrow> json option" where
  "cJSON_GetObjectItem j name = (case j of None \<Rightarrow> None
     | Some j \<Rightarrow> map_option snd (find (\<lambda>(k, v). case k of None \<Rightarrow> False | Some k \<Rightarrow> strcasecmp_eq name k)
                   (children j)))"

abbreviation get_str :: "json option \<Rightarrow> string \<Rightarrow> string option" where
  "get_str j name \<equiv> cJSON_GetStringValue (cJSON_GetObjectItem j name)"

text \<open>\<open>valueint\<close> of an item that was parsed; \<open>true\<close> has 1.\<close>

definition valueint :: "json option \<Rightarrow> int" where
  "valueint j = (case j of Some (JNumber d) \<Rightarrow> double_to_int d | Some (JBool b) \<Rightarrow> (if b then 1 else 0) | _ \<Rightarrow> 0)"

text \<open>\<open>cJSON_AddItemToObject\<close> and \<open>cJSON_AddStringToObject\<close> append; NULL adds nothing.\<close>

fun cJSON_AddItemToObject :: "json \<Rightarrow> string \<Rightarrow> json option \<Rightarrow> json" where
  "cJSON_AddItemToObject (JObject ms) k (Some v) = JObject (ms @ [(k, v)])"
| "cJSON_AddItemToObject j k _ = j"

abbreviation cJSON_AddStringToObject :: "json \<Rightarrow> string \<Rightarrow> string option \<Rightarrow> json" where
  "cJSON_AddStringToObject j k s \<equiv> cJSON_AddItemToObject j k (map_option JString s)"

fun cJSON_AddItemToArray :: "json \<Rightarrow> json \<Rightarrow> json" where
  "cJSON_AddItemToArray (JArray vs) v = JArray (vs @ [v])"
| "cJSON_AddItemToArray j v = j"

section \<open>Strings\<close>

definition hexval :: "char \<Rightarrow> nat option" where
  "hexval c =
     (if isdigit c then Some (byte c - 48)
      else if 65 \<le> byte c \<and> byte c \<le> 70 then Some (10 + (byte c - 65))
      else if 97 \<le> byte c \<and> byte c \<le> 102 then Some (10 + (byte c - 97))
      else None)"

text \<open>\<open>parse_hex4\<close>: four hexadecimal digits; anything else is 0.\<close>

fun parse_hex4 :: "string \<Rightarrow> nat" where
  "parse_hex4 (a # b # c # d # _) =
     (case (hexval a, hexval b, hexval c, hexval d) of
        (Some w, Some x, Some y, Some z) \<Rightarrow> ((w * 16 + x) * 16 + y) * 16 + z
      | _ \<Rightarrow> 0)"
| "parse_hex4 _ = 0"

definition utf8_encode :: "nat \<Rightarrow> string" where
  "utf8_encode cp =
     (if cp < 128 then [char_of cp]
      else if cp < 2048 then [char_of (192 + cp div 64), char_of (128 + cp mod 64)]
      else if cp < 65536 then
        [char_of (224 + cp div 4096), char_of (128 + cp div 64 mod 64), char_of (128 + cp mod 64)]
      else [char_of (240 + cp div 262144), char_of (128 + cp div 4096 mod 64),
            char_of (128 + cp div 64 mod 64), char_of (128 + cp mod 64)])"

text \<open>
  \<open>utf16_literal_to_utf8\<close> on the body of the string from the backslash of \<open>\uXXXX\<close> on: the
  bytes and the length of the literal (a surrogate pair has 12 bytes).
\<close>

definition utf16_literal_to_utf8 :: "string \<Rightarrow> (string \<times> nat) option" where
  "utf16_literal_to_utf8 s =
     (if length s < 6 then None
      else let u = parse_hex4 (drop 2 s)
        in if 56320 \<le> u \<and> u \<le> 57343 then None
           else if 55296 \<le> u \<and> u \<le> 56319 then
             (let t = drop 6 s
              in if length t < 6 then None
                 else if t ! 0 \<noteq> BSL \<or> t ! 1 \<noteq> CHR ''u'' then None
                 else let v = parse_hex4 (drop 2 t)
                   in if v < 56320 \<or> v > 57343 then None
                      else Some (utf8_encode (65536 + ((u mod 1024) * 1024 + v mod 1024)), 12))
           else Some (utf8_encode u, 6))"

lemma utf16_literal_pos: "utf16_literal_to_utf8 s = Some (bs, k) \<Longrightarrow> 0 < k"
  by (auto simp: utf16_literal_to_utf8_def Let_def split: if_splits)

text \<open>
  The first loop of \<open>parse_string\<close>: the raw body up to the closing quote, and what follows it.
\<close>

fun string_body :: "string \<Rightarrow> (string \<times> string) option" where
  "string_body [] = None"
| "string_body [c] = (if c = DQ then Some ([], []) else None)"
| "string_body (c # d # s) =
     (if c = DQ then Some ([], d # s)
      else if c = BSL then map_option (\<lambda>(b, r). (c # d # b, r)) (string_body s)
      else map_option (\<lambda>(b, r). (c # b, r)) (string_body (d # s)))"

text \<open>The second loop of \<open>parse_string\<close>: the body with its escapes replaced.\<close>

function unescape :: "string \<Rightarrow> string option" where
  "unescape [] = Some []"
| "unescape (c # s) =
     (if c \<noteq> BSL then map_option (Cons c) (unescape s)
      else case s of
        [] \<Rightarrow> None
      | d # t \<Rightarrow>
          if d = CHR ''b'' then map_option (Cons (CHR 0x08)) (unescape t)
          else if d = CHR ''f'' then map_option (Cons (CHR 0x0C)) (unescape t)
          else if d = CHR ''n'' then map_option (Cons NL) (unescape t)
          else if d = CHR ''r'' then map_option (Cons CR) (unescape t)
          else if d = CHR ''t'' then map_option (Cons TAB) (unescape t)
          else if d = DQ \<or> d = BSL \<or> d = CHR ''/'' then map_option (Cons d) (unescape t)
          else if d = CHR ''u'' then
            (case utf16_literal_to_utf8 (c # s) of
               None \<Rightarrow> None
             | Some (bs, k) \<Rightarrow> map_option (\<lambda>r. bs @ r) (unescape (drop k (c # s))))
          else None)"
  by pat_completeness auto
termination
  by (relation "measure length") (auto dest: utf16_literal_pos)

declare unescape.simps(2) [simp del]

text \<open>\<open>parse_string\<close>: the C string (it ends at a NUL that an escape produced) and the rest.\<close>

definition NUL :: char where "NUL = CHR 0x00"

text \<open>The C string at the start of a buffer.\<close>

definition c_str :: "string \<Rightarrow> string" where
  "c_str s = takeWhile (\<lambda>c. c \<noteq> NUL) s"

lemma c_str_plain: "NUL \<notin> set s \<Longrightarrow> c_str s = s"
  by (simp add: c_str_def takeWhile_eq_all_conv)

definition parse_string :: "string \<Rightarrow> (string \<times> string) option" where
  "parse_string s =
     (case s of
        [] \<Rightarrow> None
      | c # t \<Rightarrow> if c \<noteq> DQ then None
          else case string_body t of
            None \<Rightarrow> None
          | Some (b, r) \<Rightarrow> map_option (\<lambda>u. (takeWhile (\<lambda>c. c \<noteq> NUL) u, r)) (unescape b))"

text \<open>\<open>print_string_ptr\<close>\<close>

definition escape_char :: "char \<Rightarrow> string" where
  "escape_char c =
     (if byte c > 31 \<and> c \<noteq> DQ \<and> c \<noteq> BSL then [c]
      else BSL #
        (if c = BSL then [BSL] else if c = DQ then [DQ]
         else if c = CHR 0x08 then ''b'' else if c = CHR 0x0C then ''f''
         else if c = NL then ''n'' else if c = CR then ''r'' else if c = TAB then ''t''
         else ''u00'' @ [''0123456789abcdef'' ! (byte c div 16), ''0123456789abcdef'' ! (byte c mod 16)]))"

definition print_string :: "string \<Rightarrow> string" where
  "print_string s = DQ # concat (map escape_char s) @ [DQ]"

section \<open>The parser\<close>

definition skip_ws :: "string \<Rightarrow> string" where
  "skip_ws s = dropWhile (\<lambda>c. byte c \<le> 32) s"

definition skip_bom :: "string \<Rightarrow> string" where
  "skip_bom s = (if 4 \<le> length s \<and> map byte (take 3 s) = [239, 187, 191] then drop 3 s else s)"

definition number_char :: "char \<Rightarrow> bool" where
  "number_char c \<longleftrightarrow> isdigit c \<or> c \<in> set ''+-eE.''"

definition parse_number :: "string \<Rightarrow> (json \<times> string) option" where
  "parse_number s =
     (case strtod (takeWhile number_char s) of
        None \<Rightarrow> None
      | Some (v, k) \<Rightarrow> Some (JNumber v, drop k s))"

definition CJSON_NESTING_LIMIT :: nat where "CJSON_NESTING_LIMIT = 1000"

text \<open>
  \<open>parse_value\<close>, and the loops of \<open>parse_array\<close> and \<open>parse_object\<close> over the elements. The first
  argument is fuel (see \<open>parse_fuel_enough\<close>), the second \<open>input_buffer->depth\<close>.
\<close>

fun parse_value :: "nat \<Rightarrow> nat \<Rightarrow> string \<Rightarrow> (json \<times> string) option"
  and parse_array :: "nat \<Rightarrow> nat \<Rightarrow> string \<Rightarrow> (json list \<times> string) option"
  and parse_object :: "nat \<Rightarrow> nat \<Rightarrow> string \<Rightarrow> ((string \<times> json) list \<times> string) option" where
  "parse_value 0 depth s = None"
| "parse_value (Suc n) depth s =
     (if prefix ''null'' s then Some (JNull, drop 4 s)
      else if prefix ''false'' s then Some (JBool False, drop 5 s)
      else if prefix ''true'' s then Some (JBool True, drop 4 s)
      else case s of
        [] \<Rightarrow> None
      | c # t \<Rightarrow>
          if c = DQ then map_option (\<lambda>(v, r). (JString v, r)) (parse_string s)
          else if c = CHR ''-'' \<or> isdigit c then parse_number s
          else if c = CHR ''['' then
            (if depth \<ge> CJSON_NESTING_LIMIT then None
             else case skip_ws t of
               [] \<Rightarrow> None
             | d # r \<Rightarrow> if d = CHR '']'' then Some (JArray [], r)
                 else map_option (\<lambda>(vs, r). (JArray vs, r)) (parse_array n (Suc depth) (d # r)))
          else if c = CHR ''{'' then
            (if depth \<ge> CJSON_NESTING_LIMIT then None
             else case skip_ws t of
               [] \<Rightarrow> None
             | d # r \<Rightarrow> if d = CHR ''}'' then Some (JObject [], r)
                 else map_option (\<lambda>(ms, r). (JObject ms, r)) (parse_object n (Suc depth) (d # r)))
          else None)"
| "parse_array 0 depth s = None"
| "parse_array (Suc n) depth s =
     (case parse_value n depth (skip_ws s) of
        None \<Rightarrow> None
      | Some (v, r) \<Rightarrow>
          (case skip_ws r of
             [] \<Rightarrow> None
           | c # t \<Rightarrow>
               if c = CHR '','' then map_option (\<lambda>(vs, r). (v # vs, r)) (parse_array n depth t)
               else if c = CHR '']'' then Some ([v], t)
               else None))"
| "parse_object 0 depth s = None"
| "parse_object (Suc n) depth s =
     (case parse_string (skip_ws s) of
        None \<Rightarrow> None
      | Some (k, r0) \<Rightarrow>
          (case skip_ws r0 of
             [] \<Rightarrow> None
           | c0 # t0 \<Rightarrow>
               if c0 \<noteq> CHR '':'' then None
               else case parse_value n depth (skip_ws t0) of
                 None \<Rightarrow> None
               | Some (v, r) \<Rightarrow>
                   (case skip_ws r of
                      [] \<Rightarrow> None
                    | c # t \<Rightarrow>
                        if c = CHR '','' then map_option (\<lambda>(ms, r). ((k, v) # ms, r)) (parse_object n depth t)
                        else if c = CHR ''}'' then Some ([(k, v)], t)
                        else None)))"

text \<open>\<open>cJSON_Parse\<close>: what follows the first value is ignored.\<close>

definition parse_fuel :: "string \<Rightarrow> nat" where
  "parse_fuel s = 2 * length s + 2"

definition cJSON_Parse :: "string \<Rightarrow> json option" where
  "cJSON_Parse s = map_option fst (parse_value (parse_fuel s) 0 (skip_ws (skip_bom s)))"

section \<open>The printer\<close>

fun join :: "string \<Rightarrow> string list \<Rightarrow> string" where
  "join sep [] = []"
| "join sep [s] = s"
| "join sep (s # t # ss) = s @ sep @ join sep (t # ss)"

text \<open>\<open>print_value\<close> with the format flag and the depth of the print buffer.\<close>

function print_value :: "bool \<Rightarrow> nat \<Rightarrow> json \<Rightarrow> string" where
  "print_value fmt d JNull = ''null''"
| "print_value fmt d (JBool b) = (if b then ''true'' else ''false'')"
| "print_value fmt d (JNumber x) = print_number x"
| "print_value fmt d (JString s) = print_string s"
| "print_value fmt d (JArray vs) =
     ''['' @ join (if fmt then '', '' else '','') (map (print_value fmt (Suc d)) vs) @ '']''"
| "print_value fmt d (JObject ms) =
     (let nl = (if fmt then [NL] else []); tabs = (\<lambda>n. if fmt then replicate n TAB else [])
      in ''{'' @ nl @
         join ('','' @ nl)
           (map (\<lambda>m. tabs (Suc d) @ print_string (fst m) @ (if fmt then '':'' @ [TAB] else '':'') @
                   print_value fmt (Suc d) (snd m)) ms) @
         (if ms = [] then [] else nl) @ tabs d @ ''}'')"
  by pat_completeness auto
termination
proof (relation "measure (\<lambda>(fmt, d, j). size j)", goal_cases)
  case (2 fmt d vs x)
  then show ?case by (simp add: size_list_estimation' [OF _ order_refl] less_Suc_eq_le)
next
  case (3 fmt d ms nl tabs x)
  then have "size (snd x) \<le> size_list (size_prod (\<lambda>x. 0) size) ms"
    by (cases x) (auto intro!: size_list_estimation' simp: prod.size_gen)
  then show ?case by (simp add: less_Suc_eq_le)
qed simp

abbreviation cJSON_Print :: "json \<Rightarrow> string" where
  "cJSON_Print j \<equiv> print_value True 0 j"

abbreviation cJSON_PrintUnformatted :: "json \<Rightarrow> string" where
  "cJSON_PrintUnformatted j \<equiv> print_value False 0 j"

end
