(* ===== verification/Json_Props.thy ===== *)
theory Json_Props
  imports Json
begin

text \<open>
  Correctness of the JSON model: the fuel of the parser is enough for every text, string
  escaping and integer printing are inverted by the parser, and \<open>cJSON_Parse\<close> inverts
  \<open>cJSON_Print\<close> and \<open>cJSON_PrintUnformatted\<close> on well-formed items.
\<close>

section \<open>The parser consumes its input\<close>

lemma string_body_length: "string_body s = Some (b, r) \<Longrightarrow> length r < length s"
  by (induction s arbitrary: b r rule: string_body.induct) (fastforce split: if_splits)+

lemma parse_string_length: "parse_string s = Some (u, r) \<Longrightarrow> length r < length s"
  by (auto simp: parse_string_def dest: string_body_length split: list.splits option.splits if_splits)

lemma skip_ws_length [simp]: "length (skip_ws s) \<le> length s"
  by (simp add: skip_ws_def length_dropWhile_le)

lemma skip_ws_idem [simp]: "skip_ws (skip_ws s) = skip_ws s"
  by (simp add: skip_ws_def)

lemma length_split_sign: "split_sign s = (b, t) \<Longrightarrow> length t \<le> length s"
  by (auto simp: split_sign_def split: list.splits if_splits)

lemma scan_exp_length: "scan_exp s = (e, t) \<Longrightarrow> length t \<le> length s"
  unfolding scan_exp_def
  by (auto split: list.splits if_splits prod.splits
      intro: le_SucI order_trans [OF length_dropWhile_le] dest!: length_split_sign)

lemma dropWhile_shorter: "takeWhile p s \<noteq> [] \<Longrightarrow> length (dropWhile p s) < length s"
  by (cases s) (auto simp: le_imp_less_Suc length_dropWhile_le split: if_splits)

lemma scan_mant_shorter:
  "scan_mant s = (ds, fs, r) \<Longrightarrow> \<not> (ds = [] \<and> fs = []) \<Longrightarrow> length r < length s"
proof (cases "dropWhile isdigit s")
  case (Cons c t)
  then have "scan_mant s = (if c = CHR ''.'' then (takeWhile isdigit s, takeWhile isdigit t, dropWhile isdigit t)
      else (takeWhile isdigit s, [], c # t))" by (simp add: scan_mant_def)
  moreover have "takeWhile isdigit s \<noteq> [] \<Longrightarrow> Suc (length t) < length s" "Suc (length t) \<le> length s"
    using dropWhile_shorter [of isdigit s] length_dropWhile_le [of isdigit s] Cons by simp_all
  moreover assume "scan_mant s = (ds, fs, r)" "\<not> (ds = [] \<and> fs = [])"
  ultimately show ?thesis
    using dropWhile_shorter [of isdigit t] length_dropWhile_le [of isdigit t]
    by (auto split: if_splits)
qed (auto simp: scan_mant_def intro: dropWhile_shorter)

lemma strtod_pos: "strtod s = Some (v, k) \<Longrightarrow> 0 < k"
  unfolding strtod_def Let_def
  by (fastforce split: prod.splits if_splits dest: length_split_sign scan_mant_shorter scan_exp_length)

lemma parse_number_length: "parse_number s = Some (v, r) \<Longrightarrow> length r < length s"
proof -
  assume p: "parse_number s = Some (v, r)"
  then obtain w k where "strtod (takeWhile number_char s) = Some (w, k)" "r = drop k s"
    by (auto simp: parse_number_def split: option.splits)
  moreover from this have "s \<noteq> []" by (auto simp: strtod_def split_sign_def scan_mant_def)
  ultimately show ?thesis using strtod_pos by fastforce
qed

declare parse_value.simps(2) [simp del] parse_array.simps(2) [simp del] parse_object.simps(2) [simp del]

lemma prefix_drop_less: "prefix p s \<Longrightarrow> p \<noteq> [] \<Longrightarrow> length (drop (length p) s) < length s"
  by (auto simp: prefix_def)

lemma skip_ws_Cons_length: "skip_ws t = d # r \<Longrightarrow> length r < length t"
  by (metis Suc_le_eq length_Cons skip_ws_length)

lemma parse_length:
  "parse_value n dp s = Some (v, r) \<Longrightarrow> length r < length s"
  "parse_array n dp s = Some (vs, r) \<Longrightarrow> length r < length s"
  "parse_object n dp s = Some (ms, r) \<Longrightarrow> length r < length s"
proof (induction n dp s and n dp s and n dp s arbitrary: v r and vs r and ms r
    rule: parse_value_parse_array_parse_object.induct)
  case (2 n depth s)
  have *: "length r' < Suc (length t)"
    if "parse_array n (Suc depth) (d # u) = Some (vs, r')" "skip_ws t = d # u" "s = CHR ''['' # t"
      "\<not> depth \<ge> CJSON_NESTING_LIMIT" "d \<noteq> CHR '']''" for t d u vs r'
    using "2.IH"(1) [of "CHR ''[''" t d u vs r'] that skip_ws_Cons_length [of t d u]
    by (auto simp: isdigit_def byte_def)
  have **: "length r' < Suc (length t)"
    if "parse_object n (Suc depth) (d # u) = Some (ms, r')" "skip_ws t = d # u" "s = CHR ''{'' # t"
      "\<not> depth \<ge> CJSON_NESTING_LIMIT" "d \<noteq> CHR ''}''" for t d u ms r'
    using "2.IH"(2) [of "CHR ''{''" t d u ms r'] that skip_ws_Cons_length [of t d u]
    by (auto simp: isdigit_def byte_def)
  show ?case
  proof (cases s)
    case Nil
    with "2.prems" show ?thesis by (simp add: parse_value.simps(2))
  next
    case (Cons c t)
    consider (arr) "c = CHR ''[''" | (obj) "c = CHR ''{''" | (other) "c \<noteq> CHR ''[''" "c \<noteq> CHR ''{''"
      by blast
    then show ?thesis
    proof cases
      case arr
      then show ?thesis
        using "2.prems" * Cons
        by (auto simp: parse_value.simps(2) isdigit_def byte_def
            split: if_splits list.splits dest: skip_ws_Cons_length)
    next
      case obj
      then show ?thesis
        using "2.prems" ** Cons
        by (auto simp: parse_value.simps(2) isdigit_def byte_def
            split: if_splits list.splits dest: skip_ws_Cons_length)
    next
      case other
      show ?thesis
      proof (cases "prefix ''null'' s \<or> prefix ''false'' s \<or> prefix ''true'' s")
        case True
        then have "r = drop 4 s \<or> r = drop 5 s"
          using "2.prems" unfolding parse_value.simps(2) by (simp only: split: if_splits) simp_all
        then show ?thesis using Cons by auto
      next
        case False
        then have "(\<exists>u. parse_string s = Some (u, r)) \<or> parse_number s = Some (v, r)"
          using "2.prems" other Cons unfolding parse_value.simps(2)
          by (simp only: list.case if_False if_True HOL.simp_thms split: if_splits) auto
        then show ?thesis using parse_string_length parse_number_length by blast
      qed
    qed
  qed
next
  case (4 n depth s)
  then obtain v r0 where v: "parse_value n depth (skip_ws s) = Some (v, r0)"
    by (auto simp: parse_array.simps(2) split: option.splits)
  then have "length r0 < length s" using "4.IH"(1) by (meson less_le_trans skip_ws_length)
  moreover obtain c t where t: "skip_ws r0 = c # t"
    using v "4.prems" by (auto simp: parse_array.simps(2) split: list.splits)
  moreover have "length r < length t \<or> r = t"
    using v t "4.prems" "4.IH"(2) [OF v refl t]
    by (auto simp: parse_array.simps(2) split: if_splits)
  ultimately show ?case using skip_ws_Cons_length [OF t] by auto
next
  case (6 n depth s)
  then obtain k r0 t0 v r1 where k: "parse_string (skip_ws s) = Some (k, r0)"
    and t0: "skip_ws r0 = CHR '':'' # t0"
    and v: "parse_value n depth (skip_ws t0) = Some (v, r1)"
    by (auto simp: parse_object.simps(2) split: option.splits list.splits if_splits)
  have "length r0 < length s" using k by (meson parse_string_length less_le_trans skip_ws_length)
  moreover have "length t0 < length r0" using t0 by (rule skip_ws_Cons_length)
  moreover have "length r1 < length (skip_ws t0)" using "6.IH"(1) [OF k refl t0 _ v] by simp
  ultimately have l: "length r1 < length s" using skip_ws_length [of t0] by linarith
  obtain c t where t: "skip_ws r1 = c # t"
    using k t0 v "6.prems" by (auto simp: parse_object.simps(2) split: list.splits)
  have "length r < length t \<or> r = t"
    using k t0 v t "6.prems" "6.IH"(2) [OF k refl t0 _ v refl t]
    by (auto simp: parse_object.simps(2) split: if_splits)
  then show ?case using l skip_ws_Cons_length [OF t] by auto
qed auto

section \<open>Enough fuel\<close>

lemma parse_more_fuel:
  "2 * length s < n \<Longrightarrow> parse_value (Suc n) dp s = parse_value n dp s"
  "2 * length s + 1 < n \<Longrightarrow> parse_array (Suc n) dp s = parse_array n dp s"
  "2 * length s + 1 < n \<Longrightarrow> parse_object (Suc n) dp s = parse_object n dp s"
proof (induction n dp s and n dp s and n dp s rule: parse_value_parse_array_parse_object.induct)
  case (2 n depth s)
  have *: "parse_array (Suc n) (Suc depth) (d # u) = parse_array n (Suc depth) (d # u)"
    if "s = CHR ''['' # t" "skip_ws t = d # u" "\<not> depth \<ge> CJSON_NESTING_LIMIT" "d \<noteq> CHR '']''" for t d u
    using "2.IH"(1) [of "CHR ''[''" t d u] "2.prems" that skip_ws_length [of t]
    by (auto simp: isdigit_def byte_def)
  have **: "parse_object (Suc n) (Suc depth) (d # u) = parse_object n (Suc depth) (d # u)"
    if "s = CHR ''{'' # t" "skip_ws t = d # u" "\<not> depth \<ge> CJSON_NESTING_LIMIT" "d \<noteq> CHR ''}''" for t d u
    using "2.IH"(2) [of "CHR ''{''" t d u] "2.prems" that skip_ws_length [of t]
    by (auto simp: isdigit_def byte_def)
  show ?case
    unfolding parse_value.simps(2) using * **
    by (auto split: list.splits)
next
  case (4 n depth s)
  have v: "parse_value (Suc n) depth (skip_ws s) = parse_value n depth (skip_ws s)"
    using "4.IH"(1) "4.prems" skip_ws_length [of s] by linarith
  show ?case
  proof (cases "parse_value n depth (skip_ws s)")
    case None
    with v show ?thesis by (simp add: parse_array.simps(2))
  next
    case (Some x)
    then obtain w r where x: "x = (w, r)" and w: "parse_value n depth (skip_ws s) = Some (w, r)"
      by (cases x) auto
    have "length r < length (skip_ws s)" using w parse_length(1) by blast
    then have "parse_array (Suc n) depth t = parse_array n depth t" if "skip_ws r = CHR '','' # t" for t
      using "4.IH"(2) [OF w refl that refl] "4.prems" skip_ws_Cons_length [OF that] skip_ws_length [of s]
      by simp
    then show ?thesis
      using Some v x unfolding parse_array.simps(2) by (auto split: list.splits)
  qed
next
  case (6 n depth s)
  show ?case
  proof (cases "\<exists>k r0 t0. parse_string (skip_ws s) = Some (k, r0) \<and> skip_ws r0 = CHR '':'' # t0")
    case False
    then show ?thesis unfolding parse_object.simps(2) by (auto split: list.splits option.splits)
  next
    case True
    then obtain k r0 t0 where k: "parse_string (skip_ws s) = Some (k, r0)" and t0: "skip_ws r0 = CHR '':'' # t0"
      by auto
    have l: "length t0 < length s"
      using parse_string_length [OF k] skip_ws_length [of s] skip_ws_Cons_length [OF t0] by linarith
    have v: "parse_value (Suc n) depth (skip_ws t0) = parse_value n depth (skip_ws t0)"
      using "6.IH"(1) [OF k refl t0] "6.prems" l skip_ws_length [of t0] by simp
    show ?thesis
    proof (cases "parse_value n depth (skip_ws t0)")
      case None
      with k t0 v show ?thesis by (simp add: parse_object.simps(2))
    next
      case (Some x)
      then obtain w r where x: "x = (w, r)" and w: "parse_value n depth (skip_ws t0) = Some (w, r)"
        by (cases x) auto
      have "length r < length (skip_ws t0)" using w parse_length(1) by blast
      then have "parse_object (Suc n) depth t = parse_object n depth t" if "skip_ws r = CHR '','' # t" for t
        using "6.IH"(2) [OF k refl t0 _ w refl that refl] "6.prems" skip_ws_Cons_length [OF that] skip_ws_length [of t0] l
        by simp
      then show ?thesis
        using k t0 Some v x unfolding parse_object.simps(2) by (auto split: list.splits)
    qed
  qed
qed auto

lemma parse_fuel_enough: "parse_fuel s \<le> n \<Longrightarrow> parse_value n dp s = parse_value (parse_fuel s) dp s"
  by (induction n rule: dec_induct) (auto simp: parse_fuel_def parse_more_fuel(1))

section \<open>Strings: the parser inverts the printer\<close>

lemma hexval_digit: "n < 16 \<Longrightarrow> hexval (''0123456789abcdef'' ! n) = Some n"
proof -
  have "list_all (\<lambda>n. hexval (''0123456789abcdef'' ! n) = Some n) [0..<16]" by code_simp
  moreover assume "n < 16"
  ultimately show ?thesis by (simp add: list_all_iff)
qed

lemma hexval_0: "hexval (CHR ''0'') = Some 0"
  by (simp add: hexval_def isdigit_def byte_def)

lemma unescape_plain: "c \<noteq> BSL \<Longrightarrow> unescape (c # s) = map_option (Cons c) (unescape s)"
  by (simp add: unescape.simps(2))

lemma utf16_control:
  "byte c < 32 \<Longrightarrow> utf16_literal_to_utf8 (BSL # ''u00'' @
     [''0123456789abcdef'' ! (byte c div 16), ''0123456789abcdef'' ! (byte c mod 16)] @ t) = Some ([c], 6)"
  by (simp add: utf16_literal_to_utf8_def hexval_0 hexval_digit utf8_encode_def) (simp add: byte_def)

lemma unescape_escape_char: "unescape (escape_char c @ t) = map_option (Cons c) (unescape t)"
proof (cases "byte c > 31 \<and> c \<noteq> DQ \<and> c \<noteq> BSL")
  case True
  then show ?thesis by (simp add: escape_char_def unescape_plain)
next
  case False
  note F = this
  show ?thesis
  proof (cases "c \<in> {BSL, DQ, CHR 0x08, CHR 0x0C, NL, CR, TAB}")
    case True
    then show ?thesis by (auto simp: escape_char_def unescape.simps(2))
  next
    case no: False
    then have b: "byte c < 32" using F by auto
    let ?h = "[''0123456789abcdef'' ! (byte c div 16), ''0123456789abcdef'' ! (byte c mod 16)]"
    have e: "escape_char c = BSL # ''u00'' @ ?h" using F no by (simp add: escape_char_def)
    have "unescape (BSL # ''u00'' @ ?h @ t) = map_option (Cons c) (unescape t)"
      using utf16_control [OF b, of t] by (cases "unescape t") (simp_all add: unescape.simps(2))
    then show ?thesis by (simp only: e append.simps append_assoc)
  qed
qed

lemma unescape_escape: "unescape (concat (map escape_char s)) = Some s"
  by (induction s) (simp_all add: unescape_escape_char)

lemma hex_digit_plain: "n < 16 \<Longrightarrow> ''0123456789abcdef'' ! n \<noteq> DQ \<and> ''0123456789abcdef'' ! n \<noteq> BSL"
proof -
  have "list_all (\<lambda>n. ''0123456789abcdef'' ! n \<noteq> DQ \<and> ''0123456789abcdef'' ! n \<noteq> BSL) [0..<16]" by code_simp
  moreover assume "n < 16"
  ultimately show ?thesis by (simp add: list_all_iff)
qed

lemma string_body_plain: "c \<noteq> DQ \<Longrightarrow> c \<noteq> BSL \<Longrightarrow>
    string_body (c # s) = map_option (\<lambda>(b, r). (c # b, r)) (string_body s)"
  by (cases s) auto

lemma string_body_escape_char:
  "string_body (escape_char c @ t) = map_option (\<lambda>(b, r). (escape_char c @ b, r)) (string_body t)"
  by (cases "string_body t") (auto simp: escape_char_def string_body_plain hex_digit_plain)

lemma string_body_escape:
  "string_body (concat (map escape_char s) @ DQ # r) = Some (concat (map escape_char s), r)"
proof (induction s)
  case Nil
  show ?case by (cases r) auto
qed (simp add: string_body_escape_char)

lemma parse_print_string:
  "NUL \<notin> set s \<Longrightarrow> parse_string (print_string s @ r) = Some (s, r)"
  by (auto simp: parse_string_def print_string_def string_body_escape unescape_escape
      takeWhile_eq_all_conv)

section \<open>Numbers: the parser inverts the printer on integers\<close>

lemma bitlen_nonneg [simp]: "0 \<le> bitlen n"
  by (induction n rule: bitlen.induct) (subst bitlen.simps, simp)

lemma bitlen_bound: "0 \<le> n \<Longrightarrow> n < 2 ^ k \<Longrightarrow> bitlen n \<le> int k"
proof (induction n arbitrary: k rule: bitlen.induct)
  case (1 n)
  show ?case
  proof (cases "n \<le> 0")
    case True
    then show ?thesis by (simp add: bitlen.simps [of n])
  next
    case False
    with "1.prems" have "k \<noteq> 0" by (cases k) auto
    then obtain k' where k: "k = Suc k'" by (cases k) auto
    with False "1.prems" have "n div 2 < 2 ^ k'" by auto
    with "1.IH" [of k'] False k show ?thesis by (simp add: bitlen.simps [of n])
  qed
qed

lemma round_half_even_int [simp]: "round_half_even (of_int i) = i"
  unfolding round_half_even_def Let_def floor_of_int by simp

lemma round_double_int:
  assumes "\<bar>i\<bar> < 2 ^ 53"
  shows "round_double (of_int i) = Fin (of_int i)"
proof (cases "i = 0")
  case True
  then show ?thesis by (simp add: round_double_def)
next
  case False
  have q: "quotient_of (\<bar>of_int i\<bar> :: rat) = (\<bar>i\<bar>, 1)"
    unfolding of_int_abs [symmetric] by (metis quotient_of_int Rat.of_int_def)
  have "bitlen \<bar>i\<bar> \<le> 53" using bitlen_bound [of "\<bar>i\<bar>" 53] assms by simp
  moreover have "bitlen 1 = 1" by (simp add: bitlen.simps [of 1] bitlen.simps [of 0])
  ultimately have l: "ilog2 \<bar>of_int i\<bar> \<le> 52" by (simp add: ilog2_def q Let_def)
  define k where "k = max (ilog2 \<bar>of_int i\<bar> - 52) (- 1074)"
  have k: "k \<le> 0" using l by (simp add: k_def)
  have p: "pow2 k = 1 / of_int (2 ^ nat (- k))" using k by (simp add: pow2_def)
  have "\<bar>of_int i\<bar> / pow2 k = (of_int (\<bar>i\<bar> * 2 ^ nat (- k)) :: rat)" by (simp add: p)
  then have r: "round_half_even (\<bar>of_int i\<bar> / pow2 k) = \<bar>i\<bar> * 2 ^ nat (- k)"
    by (simp only: round_half_even_int)
  have a: "of_int (round_half_even (\<bar>of_int i\<bar> / pow2 k)) * pow2 k = (of_int \<bar>i\<bar> :: rat)"
    by (simp only: r) (simp add: p)
  have "(2::int) ^ 53 \<le> 2 ^ 1024" by (rule power_increasing) auto
  then have "\<bar>i\<bar> < 2 ^ 1024" using assms by linarith
  then have "(of_int \<bar>i\<bar> :: rat) < of_int (2 ^ 1024)" by (simp only: of_int_less_iff)
  then have b: "\<not> pow2 1024 \<le> (of_int \<bar>i\<bar> :: rat)" by (simp only: pow2_def) simp
  show ?thesis
    unfolding round_double_def Let_def k_def [symmetric] a
    using False b by (auto simp: abs_if)
qed

definition int_range :: "int \<Rightarrow> bool" where
  "int_range i \<longleftrightarrow> INT_MIN \<le> i \<and> i \<le> INT_MAX"

lemma double_to_int_int: "int_range i \<Longrightarrow> double_to_int (Fin (of_int i)) = i"
  unfolding double_to_int_def int_range_def INT_MIN_def INT_MAX_def of_int_le_iff double.case
    of_int_minus [symmetric] floor_of_int by auto

lemma round_double_int_range: "int_range i \<Longrightarrow> round_double (of_int i) = Fin (of_int i)"
  by (rule round_double_int) (auto simp: int_range_def INT_MIN_def INT_MAX_def)

lemma JInt_range: "int_range i \<Longrightarrow> JInt i = JNumber (Fin (of_int i))"
  by (simp add: JInt_def round_double_int_range)

lemma print_number_int: "int_range i \<Longrightarrow> print_number (Fin (of_int i)) = int_str i"
  by (simp add: print_number_def double_to_int_int)

text \<open>The text after a printed number does not continue it.\<close>

definition stops :: "string \<Rightarrow> bool" where
  "stops r \<longleftrightarrow> (case r of [] \<Rightarrow> True | c # _ \<Rightarrow> \<not> number_char c)"

lemma takeWhile_append_stop:
  "list_all number_char ds \<Longrightarrow> stops r \<Longrightarrow> takeWhile number_char (ds @ r) = ds"
  by (cases r) (auto simp: stops_def list_all_iff)

lemma int_str_number_chars: "list_all number_char (int_str i)"
proof -
  have "list_all number_char (nat_str n)" for n
    using nat_str_digits [of n] by (auto simp: list_all_iff number_char_def)
  then show ?thesis by (auto simp: int_str_def number_char_def)
qed

lemma scan_mant_nat_str: "scan_mant (nat_str n) = (nat_str n, [], [])"
  by (simp add: scan_mant_def)

lemma hd_nat_str: "\<exists>c t. nat_str n = c # t \<and> isdigit c"
  using nat_str_digits [of n] nat_str_ne [of n] by (cases "nat_str n") auto

lemma split_sign_int_str: "split_sign (int_str i) = (i < 0, nat_str (nat \<bar>i\<bar>))"
proof -
  obtain c t where "nat_str (nat i) = c # t" "isdigit c" using hd_nat_str by metis
  moreover from this have "c \<noteq> CHR ''-''" "c \<noteq> CHR ''+''" by (auto simp: isdigit_def byte_def)
  ultimately show ?thesis by (simp add: split_sign_def int_str_def)
qed

lemma strtod_int_str: "strtod (int_str i) = Some (round_double (of_int i), length (int_str i))"
proof -
  have "(if i < 0 then - (of_nat (nat \<bar>i\<bar>) :: rat) else of_nat (nat \<bar>i\<bar>)) = of_int i"
    by (simp add: of_nat_nat)
  then show ?thesis
    by (simp add: strtod_def split_sign_int_str scan_mant_nat_str scan_exp_def pow10_def Let_def)
qed

lemma parse_print_int:
  "int_range i \<Longrightarrow> stops r \<Longrightarrow> parse_number (int_str i @ r) = Some (JNumber (Fin (of_int i)), r)"
  by (simp add: parse_number_def takeWhile_append_stop int_str_number_chars strtod_int_str
      round_double_int_range)

section \<open>Items: the parser inverts the printer\<close>

lemma size_json_member [termination_simp]: "m \<in> set ms \<Longrightarrow> size (snd m) < size (JObject ms)"
proof -
  assume m: "m \<in> set ms"
  have "size (snd m) \<le> size_prod (\<lambda>x. 0) size m" by (cases m rule: prod.exhaust) simp
  then have "size (snd m) \<le> size_list (size_prod (\<lambda>x. 0) size) ms"
    by (rule size_list_estimation' [OF m])
  then show ?thesis by simp
qed

text \<open>
  Items the program builds: strings hold no NUL, numbers are integers of the C type \<open>int\<close>, and
  arrays and objects are nested at most \<open>CJSON_NESTING_LIMIT\<close> deep (\<open>d\<close> is the current depth).
\<close>

function wf_json :: "nat \<Rightarrow> json \<Rightarrow> bool" where
  "wf_json d JNull = True"
| "wf_json d (JBool b) = True"
| "wf_json d (JNumber x) = (x = Fin (of_int (double_to_int x)))"
| "wf_json d (JString s) = (NUL \<notin> set s)"
| "wf_json d (JArray vs) = (d < CJSON_NESTING_LIMIT \<and> list_all (wf_json (Suc d)) vs)"
| "wf_json d (JObject ms) =
     (d < CJSON_NESTING_LIMIT \<and> list_all (\<lambda>m. NUL \<notin> set (fst m) \<and> wf_json (Suc d) (snd m)) ms)"
  by pat_completeness auto
termination
  by (relation "measure (\<lambda>(d, j). size j)")
    (auto simp: size_list_estimation' less_Suc_eq_le dest: size_json_member)

text \<open>The first byte of a printed value, and what \<open>parse_value\<close> does on it.\<close>

lemma skip_ws_plain: "32 < byte c \<Longrightarrow> skip_ws (c # s) = c # s"
  by (simp add: skip_ws_def)

lemma skip_ws_blank: "list_all (\<lambda>c. byte c \<le> 32) w \<Longrightarrow> skip_ws (w @ s) = skip_ws s"
  by (induction w) (auto simp: skip_ws_def)

lemma int_str_hd: "\<exists>c t. int_str i = c # t \<and> (c = CHR ''-'' \<or> isdigit c)"
proof (cases "i < 0")
  case False
  with hd_nat_str [of "nat i"] show ?thesis by (auto simp: int_str_def)
qed (simp add: int_str_def)

lemma print_number_wf:
  assumes "x = Fin (of_int (double_to_int x))"
  shows "print_number x = int_str (double_to_int x)"
proof (cases x)
  case (Fin q)
  with assms have "q = of_int (double_to_int (Fin q))" by simp
  then show ?thesis unfolding Fin print_number_def double.case by (simp only: HOL.refl if_True)
qed (use assms in simp)

lemma double_to_int_range: "int_range (double_to_int x)"
proof (cases x)
  case (Fin q)
  show ?thesis
    unfolding Fin int_range_def double_to_int_def INT_MIN_def INT_MAX_def
    by (simp, linarith)
qed (auto simp: int_range_def double_to_int_def INT_MIN_def INT_MAX_def)

lemma parse_value_int:
  "int_range i \<Longrightarrow> stops r \<Longrightarrow> parse_value (Suc n) d (int_str i @ r) = Some (JNumber (Fin (of_int i)), r)"
proof -
  assume i: "int_range i" and r: "stops r"
  obtain c t where c: "int_str i @ r = c # t" "c = CHR ''-'' \<or> isdigit c"
    using int_str_hd [of i] by auto
  then have "c \<noteq> CHR ''n''" "c \<noteq> CHR ''f''" "c \<noteq> CHR ''t''" "c \<noteq> DQ"
    by (auto simp: isdigit_def byte_def)
  then have "parse_value (Suc n) d (c # t) = parse_number (c # t)"
    using c(2) by (simp add: parse_value.simps(2))
  then show ?thesis using parse_print_int [OF i r] c(1) by simp
qed

lemma parse_value_string:
  "NUL \<notin> set s \<Longrightarrow> parse_value (Suc n) d (print_string s @ r) = Some (JString s, r)"
  using parse_print_string [of s r] by (simp add: parse_value.simps(2) print_string_def)

lemma print_value_hd: "\<exists>c t. print_value fmt d v = c # t \<and> 32 < byte c \<and> c \<noteq> CHR '']''"
  if "wf_json d' v"
proof (cases v)
  case (JNumber x)
  have "\<exists>c t. int_str i = c # t \<and> 32 < byte c \<and> c \<noteq> CHR '']''" for i
    using int_str_hd [of i] by (auto simp: isdigit_def byte_def)
  moreover have "x = Fin (of_int (double_to_int x))" using that JNumber by simp
  then have "print_number x = int_str (double_to_int x)"
    by (rule print_number_wf)
  ultimately show ?thesis using JNumber by simp
qed (auto simp: print_string_def byte_def Let_def)

lemma stops_punct: "stops (CHR '','' # r)" "stops (CHR '']'' # r)" "stops (CHR ''}'' # r)" "stops (NL # r)"
  "stops []"
  by (auto simp: stops_def number_char_def isdigit_def byte_def)

text \<open>The loops over elements and members, given that each value is read back.\<close>

abbreviation blank :: "string \<Rightarrow> bool" where
  "blank w \<equiv> list_all (\<lambda>c. byte c \<le> 32) w"

definition reads_back :: "nat \<Rightarrow> (json \<Rightarrow> string) \<Rightarrow> json \<Rightarrow> bool" where
  "reads_back d P v \<longleftrightarrow>
     (\<exists>c t. P v = c # t \<and> 32 < byte c \<and> c \<noteq> CHR '']'') \<and>
     (\<forall>n r. stops r \<longrightarrow> 2 * length (P v) \<le> n \<longrightarrow> parse_value n d (P v @ r) = Some (v, r))"

lemma reads_back_skip: "reads_back d P v \<Longrightarrow> blank w \<Longrightarrow> skip_ws (w @ P v @ r) = P v @ r"
  by (auto simp: reads_back_def skip_ws_blank skip_ws_plain)

lemma reads_back_skip0: "reads_back d P v \<Longrightarrow> skip_ws (P v @ r) = P v @ r"
  using reads_back_skip [of d P v "[]"] by simp

lemma stops_blank: "blank w \<Longrightarrow> stops (w @ CHR ''}'' # r)"
  by (cases w) (auto simp: stops_def number_char_def isdigit_def byte_def)

lemma skip_ws_punct: "skip_ws (CHR '','' # s) = CHR '','' # s" "skip_ws (CHR '']'' # s) = CHR '']'' # s"
  "skip_ws (CHR ''}'' # s) = CHR ''}'' # s" "skip_ws (CHR '':'' # s) = CHR '':'' # s"
  "skip_ws (DQ # s) = DQ # s"
  by (auto simp: skip_ws_def byte_def)

lemma parse_array_join:
  assumes "vs \<noteq> []" "\<forall>v \<in> set vs. reads_back d P v" "blank w"
    "2 * length (join (CHR '','' # w) (map P vs)) + 1 \<le> n" "blank w0"
  shows "parse_array n d (w0 @ join (CHR '','' # w) (map P vs) @ CHR '']'' # r) = Some (vs, r)"
  using assms
proof (induction vs arbitrary: n w0)
  case (Cons v vs)
  then obtain n' where n: "n = Suc n'" by (cases n) auto
  have rb: "reads_back d P v" using Cons.prems by simp
  have v: "parse_value n' d (P v @ r') = Some (v, r')" if "stops r'" "2 * length (P v) \<le> n'" for r'
    using rb that by (simp add: reads_back_def)
  show ?case
  proof (cases vs)
    case Nil
    then show ?thesis
      using Cons.prems(4,5) n v [of "CHR '']'' # r"]
      by (simp add: parse_array.simps(2) reads_back_skip [OF rb] stops_punct skip_ws_punct)
  next
    case (Cons v2 vs2)
    let ?rest = "join (CHR '','' # w) (map P vs) @ CHR '']'' # r"
    have "parse_array n' d (w @ ?rest) = Some (vs, r)"
      using Cons.IH [of n' w] Cons.prems n Cons by auto
    then show ?thesis
      using Cons.prems(4,5) n v [of "CHR '','' # w @ ?rest"] Cons
      by (simp add: parse_array.simps(2) reads_back_skip [OF rb] stops_punct skip_ws_punct)
  qed
qed simp

lemma parse_object_join:
  assumes "ms \<noteq> []" "\<forall>m \<in> set ms. NUL \<notin> set (fst m) \<and> reads_back d P (snd m)"
    "blank w" "blank w0" "blank w1" "blank w2" "blank t"
    "2 * length (join (CHR '','' # w) (map (\<lambda>m. t @ print_string (fst m) @ CHR '':'' # w1 @ P (snd m)) ms)) + 1 \<le> n"
  shows "parse_object n d (w0 @ join (CHR '','' # w)
      (map (\<lambda>m. t @ print_string (fst m) @ CHR '':'' # w1 @ P (snd m)) ms) @ w2 @ CHR ''}'' # r) = Some (ms, r)"
  using assms
proof (induction ms arbitrary: n w0)
  case (Cons m ms)
  let ?M = "\<lambda>m. t @ print_string (fst m) @ CHR '':'' # w1 @ P (snd m)"
  obtain n' where n: "n = Suc n'" using Cons.prems(8) by (cases n) auto
  have rb: "reads_back d P (snd m)" and k: "NUL \<notin> set (fst m)" using Cons.prems by simp_all
  have v: "parse_value n' d (P (snd m) @ r') = Some (snd m, r')"
    if "stops r'" "2 * length (P (snd m)) \<le> n'" for r'
    using rb that by (simp add: reads_back_def)
  have ks: "parse_string (skip_ws (w0 @ t @ print_string (fst m) @ r')) = Some (fst m, r')" for r'
    using parse_print_string [OF k, of r'] Cons.prems(4,7)
    by (simp add: skip_ws_blank) (simp add: print_string_def skip_ws_punct)
  show ?case
  proof (cases ms)
    case Nil
    then show ?thesis
      using Cons.prems n v [of "w2 @ CHR ''}'' # r"] ks
      by (simp add: parse_object.simps(2) reads_back_skip [OF rb] reads_back_skip0 [OF rb] stops_blank skip_ws_punct skip_ws_blank)
  next
    case (Cons m2 ms2)
    let ?rest = "join (CHR '','' # w) (map ?M ms) @ w2 @ CHR ''}'' # r"
    have "parse_object n' d (w @ ?rest) = Some (ms, r)"
      using Cons.IH [of w n'] Cons.prems n Cons by auto
    then show ?thesis
      using Cons.prems n v [of "CHR '','' # w @ ?rest"] ks Cons
      by (simp add: parse_object.simps(2) reads_back_skip [OF rb] reads_back_skip0 [OF rb] stops_punct skip_ws_punct skip_ws_blank)
  qed
qed simp

lemma print_object_eq:
  "print_value fmt e (JObject ms) =
     (let nl = (if fmt then [NL] else []); t = (if fmt then replicate (Suc e) TAB else []);
          w1 = (if fmt then [TAB] else []);
          w2 = (if fmt \<and> ms \<noteq> [] then [NL] else []) @ (if fmt then replicate e TAB else [])
      in CHR ''{'' # nl @
         join (CHR '','' # nl)
           (map (\<lambda>m. t @ print_string (fst m) @ CHR '':'' # w1 @ print_value fmt (Suc e) (snd m)) ms) @
         w2 @ [CHR ''}''])"
  by (simp add: Let_def)

lemma parse_value_literal:
  "0 < n \<Longrightarrow> parse_value n d (CHR ''n'' # CHR ''u'' # CHR ''l'' # CHR ''l'' # r) = Some (JNull, r)"
  "0 < n \<Longrightarrow> parse_value n d (CHR ''t'' # CHR ''r'' # CHR ''u'' # CHR ''e'' # r) = Some (JBool True, r)"
  "0 < n \<Longrightarrow> parse_value n d (CHR ''f'' # CHR ''a'' # CHR ''l'' # CHR ''s'' # CHR ''e'' # r) = Some (JBool False, r)"
  by (cases n; simp add: parse_value.simps(2))+

lemma reads_back_number: "wf_json d (JNumber x) \<Longrightarrow> reads_back d (print_value fmt e) (JNumber x)"
proof -
  assume wf: "wf_json d (JNumber x)"
  then have "x = Fin (of_int (double_to_int x))" by simp
  then obtain i where i: "x = Fin (of_int i)" "int_range i" "print_number x = int_str i"
    using double_to_int_range print_number_wf by metis
  have "0 < length (int_str i)" by (simp add: int_str_def)
  then have "parse_value n d (int_str i @ r) = Some (JNumber x, r)"
    if "stops r" "2 * length (int_str i) \<le> n" for n r
    using parse_value_int i that by (cases n) auto
  then show ?thesis
    using print_value_hd [OF wf, of fmt e] i(3) unfolding reads_back_def by simp
qed

lemma reads_back_string: "wf_json d (JString s) \<Longrightarrow> reads_back d (print_value fmt e) (JString s)"
proof -
  assume wf: "wf_json d (JString s)"
  then have "parse_value n d (print_string s @ r) = Some (JString s, r)"
    if "2 * length (print_string s) \<le> n" for n r
    using parse_value_string [of s] that by (cases n) (auto simp: print_string_def)
  then show ?thesis
    using print_value_hd [OF wf, of fmt e] unfolding reads_back_def by simp
qed

lemma reads_back_array:
  assumes wf: "wf_json d (JArray vs)" and rb: "\<forall>v \<in> set vs. reads_back (Suc d) (print_value fmt (Suc e)) v"
  shows "reads_back d (print_value fmt e) (JArray vs)"
proof -
  let ?w = "if fmt then [SP] else []"
  let ?J = "join (CHR '','' # ?w) (map (print_value fmt (Suc e)) vs)"
  have d: "d < CJSON_NESTING_LIMIT" using wf by simp
  have P: "print_value fmt e (JArray vs) = CHR ''['' # ?J @ [CHR '']'']" by simp
  have "parse_value n d (print_value fmt e (JArray vs) @ r) = Some (JArray vs, r)"
    if len: "2 * length (print_value fmt e (JArray vs)) \<le> n" for n r
  proof -
    obtain n' where n: "n = Suc n'" using len by (cases n) auto
    show ?thesis
    proof (cases "vs = []")
      case True
      then show ?thesis using d n
        by (simp add: parse_value.simps(2) skip_ws_punct isdigit_def byte_def)
    next
      case False
      have "parse_array n' (Suc d) ([] @ ?J @ CHR '']'' # r) = Some (vs, r)"
        by (rule parse_array_join [OF False rb]) (use len n P in \<open>auto simp: byte_def\<close>)
      moreover obtain c u where "?J = c # u" "32 < byte c" "c \<noteq> CHR '']''"
        using False rb by (cases vs rule: remdups_adj.cases) (auto simp: reads_back_def)
      ultimately show ?thesis using d n P
        by (simp add: parse_value.simps(2) skip_ws_plain isdigit_def byte_def)
    qed
  qed
  then show ?thesis using print_value_hd [OF wf, of fmt e] unfolding reads_back_def by blast
qed

text \<open>An object as it is printed: the members joined, with blanks in the formatted form.\<close>

lemma parse_object_text:
  assumes ms: "ms \<noteq> []" "\<forall>m \<in> set ms. NUL \<notin> set (fst m) \<and> reads_back (Suc d) P (snd m)"
    and bl: "blank nl" "blank t" "blank w1" "blank w2" and d: "d < CJSON_NESTING_LIMIT"
    and J: "J = join (CHR '','' # nl) (map (\<lambda>m. t @ print_string (fst m) @ CHR '':'' # w1 @ P (snd m)) ms)"
    and len: "2 * length J + 1 \<le> n"
  shows "parse_value (Suc n) d (CHR ''{'' # nl @ J @ w2 @ CHR ''}'' # r) = Some (JObject ms, r)"
proof -
  obtain u where u: "J = t @ DQ # u"
    using ms(1) unfolding J by (cases ms rule: remdups_adj.cases) (auto simp: print_string_def)
  have ws: "skip_ws (nl @ J @ w2 @ CHR ''}'' # r) = DQ # u @ w2 @ CHR ''}'' # r"
    "skip_ws (J @ w2 @ CHR ''}'' # r) = DQ # u @ w2 @ CHR ''}'' # r"
    "skip_ws (DQ # u @ w2 @ CHR ''}'' # r) = DQ # u @ w2 @ CHR ''}'' # r"
    using bl u by (simp_all add: skip_ws_blank skip_ws_punct)
  have "parse_object n (Suc d) ([] @ J @ w2 @ CHR ''}'' # r) = Some (ms, r)"
    unfolding J by (rule parse_object_join [OF ms bl(1) _ bl(3,4,2)]) (use len J in simp_all)
  moreover obtain n2 where n2: "n = Suc n2" using len by (cases n) auto
  have "parse_object n (Suc d) (DQ # u @ w2 @ CHR ''}'' # r) = parse_object n (Suc d) (J @ w2 @ CHR ''}'' # r)"
    unfolding n2 parse_object.simps(2) by (simp only: ws)
  ultimately show ?thesis using d ws(1) by (simp add: parse_value.simps(2) isdigit_def byte_def)
qed

lemma reads_back_object:
  assumes wf: "wf_json d (JObject ms)"
    and rb: "\<forall>m \<in> set ms. NUL \<notin> set (fst m) \<and> reads_back (Suc d) (print_value fmt (Suc e)) (snd m)"
  shows "reads_back d (print_value fmt e) (JObject ms)"
proof -
  let ?nl = "if fmt then [NL] else []" and ?t = "if fmt then replicate (Suc e) TAB else []"
    and ?w1 = "if fmt then [TAB] else []"
    and ?w2 = "(if fmt \<and> ms \<noteq> [] then [NL] else []) @ (if fmt then replicate e TAB else [])"
  let ?J = "join (CHR '','' # ?nl)
      (map (\<lambda>m. ?t @ print_string (fst m) @ CHR '':'' # ?w1 @ print_value fmt (Suc e) (snd m)) ms)"
  have P: "print_value fmt e (JObject ms) = CHR ''{'' # ?nl @ ?J @ ?w2 @ [CHR ''}'']"
    unfolding print_object_eq Let_def by simp
  have bl: "blank ?nl" "blank ?t" "blank ?w1" "blank ?w2" by (auto simp: byte_def list_all_iff)
  have d: "d < CJSON_NESTING_LIMIT" using wf by simp
  have "parse_value n d (print_value fmt e (JObject ms) @ r) = Some (JObject ms, r)"
    if len: "2 * length (print_value fmt e (JObject ms)) \<le> n" for n r
  proof -
    obtain n' where n: "n = Suc n'" using len P by (cases n) auto
    show ?thesis
    proof (cases "ms = []")
      case True
      then have "skip_ws (?nl @ ?J @ ?w2 @ CHR ''}'' # r) = CHR ''}'' # r"
        using bl by (simp add: skip_ws_blank skip_ws_punct)
      then have "parse_value (Suc n') d (CHR ''{'' # ?nl @ ?J @ ?w2 @ CHR ''}'' # r) = Some (JObject [], r)"
        using d by (simp add: parse_value.simps(2) isdigit_def byte_def)
      then show ?thesis using n True unfolding P by simp
    next
      case False
      have "2 * length ?J + 1 \<le> n'" using len n unfolding P by simp
      from parse_object_text [OF False rb bl d refl this, of r] show ?thesis
        unfolding P n by simp
    qed
  qed
  then show ?thesis using print_value_hd [OF wf, of fmt e] unfolding reads_back_def by blast
qed

lemma reads_back_print: "wf_json d v \<Longrightarrow> reads_back d (print_value fmt e) v"
proof (induction d v arbitrary: e rule: wf_json.induct)
  case (3 d x)
  then show ?case by (rule reads_back_number)
next
  case (4 d s)
  then show ?case by (rule reads_back_string)
next
  case (5 d vs)
  then show ?case by (intro reads_back_array) (auto simp: list_all_iff)
next
  case (6 d ms)
  then show ?case by (intro reads_back_object) (auto simp: list_all_iff)
qed (auto simp: reads_back_def parse_value_literal byte_def)

section \<open>The round trip\<close>

lemma print_parse_roundtrip: "wf_json 0 v \<Longrightarrow> cJSON_Parse (print_value fmt e v) = Some v"
proof -
  assume wf: "wf_json 0 v"
  then have rb: "reads_back 0 (print_value fmt e) v" by (rule reads_back_print)
  then obtain c t where c: "print_value fmt e v = c # t" "32 < byte c" by (auto simp: reads_back_def)
  have "byte c \<noteq> 239"
  proof (cases v)
    case (JNumber x)
    with wf have "print_number x = int_str (double_to_int x)" using print_number_wf by simp
    with c JNumber int_str_hd [of "double_to_int x"] show ?thesis
      by (auto simp: isdigit_def byte_def)
  qed (use c in \<open>auto simp: print_string_def byte_def Let_def split: if_splits\<close>)
  then have "skip_bom (c # t) = c # t" by (simp add: skip_bom_def)
  moreover have "parse_value (parse_fuel (c # t)) 0 (c # t) = Some (v, [])"
    using rb stops_punct(5) unfolding reads_back_def c(1) parse_fuel_def
    by (metis append_Nil2 le_add1)
  ultimately show ?thesis using c by (simp add: cJSON_Parse_def skip_ws_plain)
qed

section \<open>Properties\<close>

text \<open>C4: what \<open>cJSON_Print\<close> and \<open>cJSON_PrintUnformatted\<close> write, \<open>cJSON_Parse\<close> reads back as the same
  item: for every nesting of objects, arrays, strings without NUL, booleans, nulls and numbers of
  the C type \<open>int\<close>, nested at most 1000 deep.\<close>

theorem cJSON_roundtrip:
  assumes "wf_json 0 v"
  shows "cJSON_Parse (cJSON_PrintUnformatted v) = Some v \<and> cJSON_Parse (cJSON_Print v) = Some v"
  using print_parse_roundtrip [OF assms] by blast

lemma cJSON_roundtrip_witness:
  "cJSON_Parse (cJSON_Print (JObject [(''a'', JArray [JInt 7, JNull]), (''b'', JString [DQ, NL])])) =
     Some (JObject [(''a'', JArray [JInt 7, JNull]), (''b'', JString [DQ, NL])])"
proof -
  have i: "JInt 7 = JNumber (Fin (of_int 7))" by (rule JInt_range) (simp add: int_range_def INT_MIN_def INT_MAX_def)
  have d: "double_to_int (Fin (of_int 7)) = 7"
    by (rule double_to_int_int) (simp add: int_range_def INT_MIN_def INT_MAX_def)
  have "wf_json 0 (JObject [(''a'', JArray [JInt 7, JNull]), (''b'', JString [DQ, NL])])"
    unfolding i by (simp only: wf_json.simps list.pred_inject fst_conv snd_conv d)
      (simp add: CJSON_NESTING_LIMIT_def NUL_def)
  then show ?thesis using cJSON_roundtrip by blast
qed

text \<open>The fuel of the parser model is enough for every text: more fuel never changes the result,
  so a parse failure is a failure of the text.\<close>

theorem cJSON_parse_terminates:
  assumes "parse_fuel s \<le> n"
  shows "parse_value n depth s = parse_value (parse_fuel s) depth s"
  using parse_fuel_enough [OF assms] .

lemma cJSON_parse_terminates_witness: "parse_value 1000 0 ''[1]'' = parse_value 8 0 ''[1]''"
  using cJSON_parse_terminates [of "''[1]''" 1000 0] by (simp add: parse_fuel_def)

text \<open>The text of a number has no other characters than those the parser takes for a number.\<close>

lemma set_rtrim_by: "set (rtrim_by p s) \<subseteq> set s"
  using rtrim_by_split [of s p] by (metis set_append Un_upper1)

lemma fmt_g_chars: "list_all number_char (fmt_g P q)"
proof -
  note a = list_all_append
  have r: "list_all number_char (rtrim_by p s)" if "list_all number_char s" for p s
    using that set_rtrim_by [of p s] by (auto simp: list_all_iff)
  have n: "list_all number_char (nat_str n)" for n
    using nat_str_digits [of n] by (auto simp: list_all_iff number_char_def)
  have td: "list_all number_char (take k (nat_str n))" "list_all number_char (drop k (nat_str n))" for k n
    using n [of n] in_set_takeD in_set_dropD by (fastforce simp: list_all_iff)+
  have c: "number_char (CHR ''-'')" "number_char (CHR ''0'')" "number_char (CHR ''e'')" "number_char (CHR ''+'')"
    "number_char (CHR ''.'')" by (simp_all add: number_char_def isdigit_def byte_def)
  let ?e = "\<lambda>x :: int. let xs = nat_str (nat \<bar>x\<bar>) in if length xs < 2 then CHR ''0'' # xs else xs"
  let ?pt = "\<lambda>f. if f = [] then [] else CHR ''.'' # f"
  let ?z = "\<lambda>c. c = CHR ''0''"
  let ?b = "\<lambda>x n. if x < - 4 \<or> int P \<le> x
    then take 1 (nat_str n) @ ?pt (rtrim_by ?z (drop 1 (nat_str n))) @ ''e'' @ (if x < 0 then ''-'' else ''+'') @ ?e x
    else if 0 \<le> x then take (nat x + 1) (nat_str n) @ ?pt (rtrim_by ?z (drop (nat x + 1) (nat_str n)))
    else ''0'' @ ?pt (replicate (nat (- x) - 1) (CHR ''0'') @ rtrim_by ?z (nat_str n))"
  have pt: "list_all number_char (?pt f)" if "list_all number_char f" for f using c that by simp
  have z: "list_all number_char (replicate (nat (- x) - 1) (CHR ''0'') @ rtrim_by ?z (nat_str n))" for x n
    using c r [OF n]
    by (auto simp: list_all_iff)
  have e: "list_all number_char (?e x)" for x using c n by (simp add: Let_def)
  have m: "list_all number_char ''e''" "list_all number_char ''0''" "list_all number_char (if x < 0 then ''-'' else ''+'')"
    for x :: int using c by simp_all
  have B: "list_all number_char (?b x n)" for x n
  proof -
    have "list_all number_char (take 1 (nat_str n) @ ?pt (rtrim_by ?z (drop 1 (nat_str n))) @ ''e'' @
        (if x < 0 then ''-'' else ''+'') @ ?e x)"
      unfolding a by (intro conjI td pt [OF r [OF td(2)]] m e)
    moreover have "list_all number_char (take (nat x + 1) (nat_str n) @ ?pt (rtrim_by ?z (drop (nat x + 1) (nat_str n))))"
      unfolding a by (intro conjI td pt [OF r [OF td(2)]])
    moreover have "list_all number_char (''0'' @ ?pt (replicate (nat (- x) - 1) (CHR ''0'') @ rtrim_by ?z (nat_str n)))"
      unfolding a [of _ "''0''"] by (intro conjI pt z m)
    ultimately show ?thesis by presburger
  qed
  have "\<exists>x n. fmt_g P q = (if q < 0 then CHR ''-'' # ?b x n else ?b x n)"
    unfolding fmt_g_def Let_def by (rule exI)+ (rule refl)
  then obtain x n where eq: "fmt_g P q = (if q < 0 then CHR ''-'' # ?b x n else ?b x n)" by blast
  have "list_all number_char (CHR ''-'' # ?b x n)" using B [of x n] c(1) by (simp only: list.pred_inject simp_thms)
  with B [of x n] show ?thesis unfolding eq by presburger
qed

lemma print_number_chars: "print_number d = ''null'' \<or> list_all number_char (print_number d)"
  unfolding print_number_def Let_def using fmt_g_chars int_str_number_chars
  by (auto split: double.splits option.splits)

end
