(* ===== verification/Json_Print.thy ===== *)
theory Json_Print
  imports Json "HOL-Library.Monad_Syntax"
begin

text \<open>
  The printer of \<open>src/core/cJSON.c\<close> with its buffer: \<open>ensure\<close> makes room, every function writes at
  an offset, and \<open>update_offset\<close> finds the end of what was written. A write or a search outside the
  buffer is undefined behaviour, the outer \<open>None\<close>. \<open>Json_Print_Props\<close> shows that it never happens.
\<close>

section \<open>The allocation hooks\<close>

text \<open>
  The routines of the C library or the caller's; \<open>h_realloc\<close> says whether \<open>reallocate\<close> is set. The
  argument of \<open>cJSON_InitHooks\<close> is \<open>None\<close> for NULL, and so is each field.
\<close>

datatype routine = Libc | Custom nat

record internal_hooks =
  h_allocate :: routine
  h_deallocate :: routine
  h_realloc :: bool

definition cJSON_InitHooks :: "(routine option \<times> routine option) option \<Rightarrow> internal_hooks" where
  "cJSON_InitHooks hooks =
     (case hooks of
        None \<Rightarrow> \<lparr>h_allocate = Libc, h_deallocate = Libc, h_realloc = True\<rparr>
      | Some (m, f) \<Rightarrow>
          let alloc = (case m of None \<Rightarrow> Libc | Some r \<Rightarrow> r); dealloc = (case f of None \<Rightarrow> Libc | Some r \<Rightarrow> r)
          in \<lparr>h_allocate = alloc, h_deallocate = dealloc, h_realloc = (alloc = Libc \<and> dealloc = Libc)\<rparr>)"

section \<open>The print buffer\<close>

text \<open>
  \<open>printbuffer\<close>: the buffer is the list of its bytes (\<open>length\<close> is the length of the list), or NULL.
  \<open>pb_realloc\<close> says whether the hooks have \<open>realloc\<close>, \<open>pb_blocks\<close> counts the blocks that are allocated,
  \<open>pb_calls\<close> the allocations asked for; the one with number \<open>k\<close> fails when \<open>pb_oom p k\<close>, and the bytes
  of a new block are \<open>pb_junk p k\<close>.
\<close>

record printbuffer =
  pb_buffer :: "string option"
  pb_offset :: nat
  pb_depth :: nat
  pb_noalloc :: bool
  pb_format :: bool
  pb_realloc :: bool
  pb_blocks :: nat
  pb_calls :: nat
  pb_oom :: "nat \<Rightarrow> bool"
  pb_junk :: "nat \<Rightarrow> nat \<Rightarrow> char"

text \<open>\<open>malloc\<close> and \<open>free\<close> of a block; \<open>None\<close> for NULL.\<close>

definition pb_malloc :: "printbuffer \<Rightarrow> nat \<Rightarrow> string option \<times> printbuffer" where
  "pb_malloc p n =
     (let k = pb_calls p; q = p\<lparr>pb_calls := Suc k\<rparr>
      in if pb_oom p k then (None, q)
         else (Some (map (pb_junk p k) [0..<n]), q\<lparr>pb_blocks := Suc (pb_blocks p)\<rparr>))"

definition pb_free :: "printbuffer \<Rightarrow> printbuffer option" where
  "pb_free p = (if pb_blocks p = 0 then None else Some (p\<lparr>pb_blocks := pb_blocks p - 1\<rparr>))"

text \<open>\<open>realloc\<close> keeps the bytes both blocks have.\<close>

definition pb_resize :: "printbuffer \<Rightarrow> string \<Rightarrow> nat \<Rightarrow> string option \<times> printbuffer" where
  "pb_resize p b n =
     (let k = pb_calls p; q = p\<lparr>pb_calls := Suc k\<rparr>
      in if pb_oom p k then (None, q)
         else (Some (take n b @ map (pb_junk p k) [length b..<n]), q))"

text \<open>The bytes \<open>s\<close> written at \<open>pos\<close>.\<close>

definition write_at :: "printbuffer \<Rightarrow> nat \<Rightarrow> string \<Rightarrow> printbuffer option" where
  "write_at p pos s =
     (case pb_buffer p of None \<Rightarrow> None
      | Some b \<Rightarrow> if pos + length s \<le> length b
          then Some (p\<lparr>pb_buffer := Some (take pos b @ s @ drop (pos + length s) b)\<rparr>) else None)"

text \<open>\<open>ensure\<close>: whether the result is not NULL (it is \<open>buffer + offset\<close> then).\<close>

definition ensure :: "printbuffer \<Rightarrow> nat \<Rightarrow> (bool \<times> printbuffer) option" where
  "ensure p needed0 =
     (case pb_buffer p of
        None \<Rightarrow> Some (False, p)
      | Some b \<Rightarrow>
          if 0 < length b \<and> length b \<le> pb_offset p then Some (False, p)
          else if INT_MAX < int needed0 then Some (False, p)
          else let needed = needed0 + pb_offset p + 1
          in if needed \<le> length b then Some (True, p)
             else if pb_noalloc p then Some (False, p)
             else if INT_MAX div 2 < int needed \<and> INT_MAX < int needed then Some (False, p)
             else let newsize = (if INT_MAX div 2 < int needed then nat INT_MAX else needed * 2)
             in if pb_realloc p then
                  (case pb_resize p b newsize of
                     (None, p) \<Rightarrow> do { p \<leftarrow> pb_free p; Some (False, p\<lparr>pb_buffer := None\<rparr>) }
                   | (Some b', p) \<Rightarrow> Some (True, p\<lparr>pb_buffer := Some b'\<rparr>))
                else
                  (case pb_malloc p newsize of
                     (None, p) \<Rightarrow> do { p \<leftarrow> pb_free p; Some (False, p\<lparr>pb_buffer := None\<rparr>) }
                   | (Some b', p) \<Rightarrow>
                       if length b < pb_offset p + 1 then None
                       else do {
                         p \<leftarrow> pb_free p;
                         Some (True, p\<lparr>pb_buffer := Some (take (pb_offset p + 1) b @ drop (pb_offset p + 1) b')\<rparr>) }))"

text \<open>\<open>update_offset\<close>: the search for the terminator starts at the offset.\<close>

definition update_offset :: "printbuffer \<Rightarrow> printbuffer option" where
  "update_offset p =
     (case pb_buffer p of None \<Rightarrow> Some p
      | Some b \<Rightarrow> if NUL \<in> set (drop (pb_offset p) b)
          then Some (p\<lparr>pb_offset := pb_offset p + length (c_str (drop (pb_offset p) b))\<rparr>) else None)"

section \<open>Printing into the buffer\<close>

text \<open>The pattern of the constants: room for the text and its terminator, then \<open>strcpy\<close>.\<close>

definition emit :: "printbuffer \<Rightarrow> nat \<Rightarrow> string \<Rightarrow> (bool \<times> printbuffer) option" where
  "emit p room s = do {
     (ok, p) \<leftarrow> ensure p room;
     if ok then do { p \<leftarrow> write_at p (pb_offset p) s; Some (True, p) } else Some (False, p) }"

text \<open>\<open>print_number\<close>: the text is made in a local buffer of 26 bytes first.\<close>

definition print_number_buf :: "printbuffer \<Rightarrow> double \<Rightarrow> (bool \<times> printbuffer) option" where
  "print_number_buf p d =
     (let s = print_number d
      in if 25 < length s then Some (False, p)
         else do {
           (ok, p) \<leftarrow> emit p (length s + 1) (s @ [NUL]);
           if ok then Some (True, p\<lparr>pb_offset := pb_offset p + length s\<rparr>) else Some (False, p) })"

text \<open>The additional bytes a character needs.\<close>

definition escape_extra :: "char \<Rightarrow> nat" where
  "escape_extra c = (if c \<in> {DQ, BSL, CHR 0x08, CHR 0x0C, NL, CR, TAB} then 1 else if byte c < 32 then 5 else 0)"

definition print_string_ptr :: "printbuffer \<Rightarrow> string \<Rightarrow> (bool \<times> printbuffer) option" where
  "print_string_ptr p s =
     (let escape_characters = sum_list (map escape_extra s);
          output_length = length s + escape_characters
      in do {
        (ok, p) \<leftarrow> ensure p (output_length + 3);
        if \<not> ok then Some (False, p)
        else if escape_characters = 0 then do {
          p \<leftarrow> write_at p (pb_offset p) (DQ # s @ [DQ, NUL]);
          Some (True, p) }
        else do {
          p \<leftarrow> write_at p (pb_offset p) (DQ # concat (map escape_char s));
          p \<leftarrow> write_at p (pb_offset p + output_length + 1) [DQ, NUL];
          Some (True, p) } })"

text \<open>
  \<open>print_value\<close>, \<open>print_array\<close> and \<open>print_object\<close> with the loops over the children; \<open>next\<close> is NULL
  exactly for the last child.
\<close>

definition advance :: "printbuffer \<Rightarrow> nat \<Rightarrow> printbuffer" where
  "advance p k = p\<lparr>pb_offset := pb_offset p + k\<rparr>"

function print_value_buf :: "printbuffer \<Rightarrow> json \<Rightarrow> (bool \<times> printbuffer) option"
  and print_elements :: "printbuffer \<Rightarrow> json list \<Rightarrow> (bool \<times> printbuffer) option"
  and print_members :: "printbuffer \<Rightarrow> (string \<times> json) list \<Rightarrow> (bool \<times> printbuffer) option" where
  "print_value_buf p JNull = emit p 5 (''null'' @ [NUL])"
| "print_value_buf p (JBool b) =
     (if b then emit p 5 (''true'' @ [NUL]) else emit p 6 (''false'' @ [NUL]))"
| "print_value_buf p (JNumber d) = print_number_buf p d"
| "print_value_buf p (JString s) = print_string_ptr p s"
| "print_value_buf p (JArray vs) = do {
     (ok, p) \<leftarrow> emit p 1 ''['';
     if \<not> ok then Some (False, p)
     else do {
       (ok, p) \<leftarrow> print_elements ((advance p 1)\<lparr>pb_depth := pb_depth p + 1\<rparr>) vs;
       if \<not> ok then Some (False, p)
       else do {
         (ok, p) \<leftarrow> emit p 2 (CHR '']'' # [NUL]);
         if \<not> ok then Some (False, p) else Some (True, p\<lparr>pb_depth := pb_depth p - 1\<rparr>) } } }"
| "print_value_buf p (JObject ms) = do {
     (ok, p) \<leftarrow> emit p ((if pb_format p then 2 else 1) + 1) (CHR ''{'' # (if pb_format p then [NL] else []));
     if \<not> ok then Some (False, p)
     else do {
       (ok, p) \<leftarrow> print_members ((advance p (if pb_format p then 2 else 1))\<lparr>pb_depth := pb_depth p + 1\<rparr>) ms;
       if \<not> ok then Some (False, p)
       else do {
         (ok, p) \<leftarrow> emit p (if pb_format p then pb_depth p + 1 else 2)
           ((if pb_format p then replicate (pb_depth p - 1) TAB else []) @ CHR ''}'' # [NUL]);
         if \<not> ok then Some (False, p) else Some (True, p\<lparr>pb_depth := pb_depth p - 1\<rparr>) } } }"
| "print_elements p [] = Some (True, p)"
| "print_elements p (v # vs) = do {
     (ok, p) \<leftarrow> print_value_buf p v;
     if \<not> ok then Some (False, p)
     else do {
       p \<leftarrow> update_offset p;
       if vs = [] then print_elements p vs
       else do {
         (ok, p) \<leftarrow> emit p ((if pb_format p then 2 else 1) + 1) (CHR '','' # (if pb_format p then '' '' else []) @ [NUL]);
         if \<not> ok then Some (False, p)
         else print_elements (advance p (if pb_format p then 2 else 1)) vs } } }"
| "print_members p [] = Some (True, p)"
| "print_members p (m # ms) = do {
     (ok, p) \<leftarrow> (if pb_format p then do {
                   (ok, p) \<leftarrow> emit p (pb_depth p) (replicate (pb_depth p) TAB);
                   Some (ok, if ok then advance p (pb_depth p) else p) }
                 else Some (True, p));
     if \<not> ok then Some (False, p)
     else do {
       (ok, p) \<leftarrow> print_string_ptr p (fst m);
       if \<not> ok then Some (False, p)
       else do {
         p \<leftarrow> update_offset p;
         (ok, p) \<leftarrow> emit p (if pb_format p then 2 else 1) (CHR '':'' # (if pb_format p then [TAB] else []));
         if \<not> ok then Some (False, p)
         else do {
           (ok, p) \<leftarrow> print_value_buf (advance p (if pb_format p then 2 else 1)) (snd m);
           if \<not> ok then Some (False, p)
           else do {
             p \<leftarrow> update_offset p;
             (ok, p) \<leftarrow> emit p ((if pb_format p then 1 else 0) + (if ms \<noteq> [] then 1 else 0) + 1)
               ((if ms \<noteq> [] then '','' else []) @ (if pb_format p then [NL] else []) @ [NUL]);
             if \<not> ok then Some (False, p)
             else print_members (advance p ((if pb_format p then 1 else 0) + (if ms \<noteq> [] then 1 else 0))) ms } } } } }"
  by pat_completeness auto
termination
  by (relation "measure (\<lambda>x. case x of Inl (p, j) \<Rightarrow> 2 * size j
      | Inr (Inl (p, vs)) \<Rightarrow> 2 * size_list size vs + 1
      | Inr (Inr (p, ms)) \<Rightarrow> 2 * size_list (size_prod (\<lambda>x. 0) size) ms + 1)") auto

section \<open>The functions that print\<close>

text \<open>\<open>print\<close>: a buffer of 256 bytes that grows, cut to size in the end. \<open>junk\<close> and \<open>oom\<close> are the allocator.\<close>

definition fresh_buffer :: "bool \<Rightarrow> bool \<Rightarrow> (nat \<Rightarrow> bool) \<Rightarrow> (nat \<Rightarrow> nat \<Rightarrow> char) \<Rightarrow> printbuffer" where
  "fresh_buffer fmt hook oomf junk = \<lparr>pb_buffer = None, pb_offset = 0, pb_depth = 0, pb_noalloc = False,
     pb_format = fmt, pb_realloc = hook, pb_blocks = 0, pb_calls = 0, pb_oom = oomf, pb_junk = junk\<rparr>"

definition print_fail :: "printbuffer \<Rightarrow> (string option \<times> printbuffer) option" where
  "print_fail p =
     (if pb_buffer p = None then Some (None, p)
      else do { p \<leftarrow> pb_free p; Some (None, p\<lparr>pb_buffer := None\<rparr>) })"

text \<open>What \<open>print\<close> does after the text is in the buffer.\<close>

definition cut_to_size :: "printbuffer \<Rightarrow> (string option \<times> printbuffer) option" where
  "cut_to_size p = do {
     p \<leftarrow> update_offset p;
     b \<leftarrow> pb_buffer p;
     if pb_realloc p then
       (case pb_resize p b (pb_offset p + 1) of
          (None, p) \<Rightarrow> print_fail p
        | (Some printed, p) \<Rightarrow> Some (Some printed, p\<lparr>pb_buffer := None\<rparr>))
     else
       (case pb_malloc p (pb_offset p + 1) of
          (None, p) \<Rightarrow> print_fail p
        | (Some printed, p) \<Rightarrow>
            do {
              let k = min (length b) (pb_offset p + 1);
              p \<leftarrow> pb_free p;
              Some (Some ((take k b @ drop k printed)[pb_offset p := NUL]), p\<lparr>pb_buffer := None\<rparr>) }) }"

definition print_item :: "json \<Rightarrow> printbuffer \<Rightarrow> (string option \<times> printbuffer) option" where
  "print_item item p0 =
     (case pb_malloc p0 256 of
        (None, p) \<Rightarrow> print_fail p
      | (Some b, p) \<Rightarrow> do {
          (ok, p) \<leftarrow> print_value_buf (p\<lparr>pb_buffer := Some b\<rparr>) item;
          if \<not> ok then print_fail p else cut_to_size p })"

text \<open>\<open>cJSON_Print\<close> and \<open>cJSON_PrintUnformatted\<close> with the default hooks: the text, or NULL.\<close>

definition cJSON_Print_buf :: "json \<Rightarrow> (nat \<Rightarrow> bool) \<Rightarrow> (nat \<Rightarrow> nat \<Rightarrow> char) \<Rightarrow> (string option \<times> printbuffer) option" where
  "cJSON_Print_buf item oomf junk = print_item item (fresh_buffer True True oomf junk)"

definition cJSON_PrintUnformatted_buf ::
  "json \<Rightarrow> (nat \<Rightarrow> bool) \<Rightarrow> (nat \<Rightarrow> nat \<Rightarrow> char) \<Rightarrow> (string option \<times> printbuffer) option" where
  "cJSON_PrintUnformatted_buf item oomf junk = print_item item (fresh_buffer False True oomf junk)"

definition cJSON_PrintBuffered ::
  "json \<Rightarrow> int \<Rightarrow> bool \<Rightarrow> (nat \<Rightarrow> bool) \<Rightarrow> (nat \<Rightarrow> nat \<Rightarrow> char) \<Rightarrow> (string option \<times> printbuffer) option" where
  "cJSON_PrintBuffered item prebuffer fmt oomf junk =
     (let p0 = fresh_buffer fmt True oomf junk
      in if prebuffer < 0 then Some (None, p0)
         else case pb_malloc p0 (nat prebuffer) of
           (None, p) \<Rightarrow> Some (None, p)
         | (Some b, p) \<Rightarrow> do {
             (ok, p) \<leftarrow> print_value_buf (p\<lparr>pb_buffer := Some b\<rparr>) item;
             if ok then Some (pb_buffer p, p)
             else if pb_buffer p = None then Some (None, p)
             else do { p \<leftarrow> pb_free p; Some (None, p\<lparr>pb_buffer := None\<rparr>) } })"

text \<open>\<open>cJSON_PrintPreallocated\<close>: the result and the caller's buffer of \<open>n\<close> bytes afterwards.\<close>

definition cJSON_PrintPreallocated :: "json \<Rightarrow> string option \<Rightarrow> int \<Rightarrow> bool \<Rightarrow> (bool \<times> string option) option" where
  "cJSON_PrintPreallocated item buf n fmt =
     (if n < 0 \<or> buf = None then Some (False, buf)
      else do {
        (ok, p) \<leftarrow> print_value_buf ((fresh_buffer fmt True (\<lambda>_. True) (\<lambda>_ _. NUL))
          \<lparr>pb_buffer := map_option (take (nat n)) buf, pb_noalloc := True\<rparr>) item;
        Some (ok, map_option (\<lambda>b. b @ drop (nat n) (case_option [] id buf)) (pb_buffer p)) })"

end
