(* ===== verification/Json_Print_Props.thy ===== *)
theory Json_Print_Props
  imports Json_Props Json_Print
begin

text \<open>
  The printer with its buffer refines \<open>print_value\<close> of \<open>Json\<close>: no step leaves the buffer, whichever
  allocations fail, the text is the same, and a failure releases what was allocated. A step is described
  by \<open>yields\<close>: what holds after success, and when success is certain.
\<close>

section \<open>The text has no terminator inside\<close>

lemma NUL_consts [simp]: "NUL \<noteq> DQ" "NUL \<noteq> BSL" "NUL \<noteq> NL" "NUL \<noteq> TAB" "NUL \<noteq> CR"
  by (simp_all add: NUL_def)

lemma NUL_print_number: "NUL \<notin> set (print_number d)"
proof -
  have "\<not> number_char NUL" "NUL \<notin> set ''null''" by (simp_all add: NUL_def number_char_def isdigit_def byte_def)
  then show ?thesis using print_number_chars [of d] by (auto simp: list_all_iff)
qed

lemma NUL_escape_char: "NUL \<notin> set (escape_char c)"
proof -
  have "list_all (\<lambda>n. ''0123456789abcdef'' ! n \<noteq> NUL) [0..<16]" by code_simp
  moreover have "byte c div 16 < 16" "byte c mod 16 < 16" using byte_less [of c] by (simp_all add: less_mult_imp_div_less)
  ultimately have h: "''0123456789abcdef'' ! (byte c div 16) \<noteq> NUL" "''0123456789abcdef'' ! (byte c mod 16) \<noteq> NUL"
    unfolding list_all_iff by (metis atLeastLessThan_iff set_upt zero_le)+
  moreover have "byte c > 31 \<Longrightarrow> c \<noteq> NUL" by (auto simp: NUL_def byte_def)
  moreover have "NUL \<noteq> CHR ''b''" "NUL \<noteq> CHR ''f''" "NUL \<noteq> CHR ''n''" "NUL \<noteq> CHR ''r''" "NUL \<noteq> CHR ''t''"
    "NUL \<noteq> CHR ''u''" "NUL \<noteq> CHR ''0''" by (simp_all add: NUL_def)
  ultimately show ?thesis unfolding escape_char_def by auto
qed

lemma NUL_print_string: "NUL \<notin> set (print_string s)"
  using NUL_escape_char by (auto simp: print_string_def)

lemma NUL_join: "NUL \<notin> set sep \<Longrightarrow> \<forall>s\<in>set ss. NUL \<notin> set s \<Longrightarrow> NUL \<notin> set (join sep ss)"
  by (induction sep ss rule: join.induct) auto

lemma NUL_print_value: "NUL \<notin> set (print_value fmt d j)"
proof (induction fmt d j rule: print_value.induct)
  case (5 fmt d vs)
  have "NUL \<notin> set (if fmt then '', '' else '','')" "NUL \<noteq> CHR ''[''" "NUL \<noteq> CHR '']''" by (simp_all add: NUL_def)
  then show ?case using 5 NUL_join [of _ "map (print_value fmt (Suc d)) vs"] by auto
next
  case (6 fmt d ms)
  have c: "NUL \<noteq> CHR ''{''" "NUL \<noteq> CHR ''}''" "NUL \<noteq> CHR '':''" "NUL \<noteq> CHR '',''" by (simp_all add: NUL_def)
  have "NUL \<notin> set (join ('','' @ (if fmt then [NL] else []))
      (map (\<lambda>m. (if fmt then replicate (Suc d) TAB else []) @ print_string (fst m) @ (if fmt then '':'' @ [TAB] else '':'') @
        print_value fmt (Suc d) (snd m)) ms))"
    using 6 c NUL_print_string by (intro NUL_join) (auto split: if_splits)
  then show ?case using c by (auto simp: Let_def split: if_splits)
qed (use NUL_print_number NUL_print_string in \<open>auto simp: NUL_def\<close>)


section \<open>States of the buffer\<close>

definition blen :: "printbuffer \<Rightarrow> nat" where
  "blen p = (case pb_buffer p of None \<Rightarrow> 0 | Some b \<Rightarrow> length b)"

text \<open>What no step changes, and a buffer of the caller keeps its size.\<close>

definition same :: "printbuffer \<Rightarrow> printbuffer \<Rightarrow> bool" where
  "same p q \<longleftrightarrow> pb_noalloc q = pb_noalloc p \<and> pb_format q = pb_format p \<and> pb_realloc q = pb_realloc p \<and>
     pb_oom q = pb_oom p \<and> pb_blocks q = pb_blocks p \<and> blen p \<le> blen q \<and> (pb_noalloc p \<longrightarrow> blen q = blen p)"

text \<open>A step that fails has released the buffer or left it as it is.\<close>

definition stopped :: "printbuffer \<Rightarrow> printbuffer \<Rightarrow> bool" where
  "stopped p q \<longleftrightarrow>
     (if pb_buffer q = None then \<not> pb_noalloc p \<and> Suc (pb_blocks q) = pb_blocks p
      else pb_blocks q = pb_blocks p \<and> (pb_noalloc p \<longrightarrow> blen q = blen p))"

lemma same_refl [simp]: "same p p"
  by (simp add: same_def)

lemma same_trans: "same p q \<Longrightarrow> same q r \<Longrightarrow> same p r"
  by (auto simp: same_def)

lemma stopped_same: "same p q \<Longrightarrow> stopped q r \<Longrightarrow> stopped p r"
  by (auto simp: same_def stopped_def)

text \<open>\<open>out\<close> has been written, the next byte goes behind it, at depth \<open>d\<close>.\<close>

definition ready :: "printbuffer \<Rightarrow> nat \<Rightarrow> string \<Rightarrow> bool" where
  "ready p d out \<longleftrightarrow> NUL \<notin> set out \<and> pb_depth p = d \<and> pb_offset p = length out \<and> (pb_noalloc p \<or> 0 < pb_blocks p) \<and>
     (\<exists>b. pb_buffer p = Some b \<and> take (length out) b = out \<and> (length out < length b \<or> b = [] \<and> pb_realloc p))"

text \<open>\<open>full\<close> is in the buffer with its terminator, and the offset is somewhere inside.\<close>

definition printed :: "printbuffer \<Rightarrow> nat \<Rightarrow> string \<Rightarrow> bool" where
  "printed p d full \<longleftrightarrow> NUL \<notin> set full \<and> pb_depth p = d \<and> pb_offset p \<le> length full \<and> (pb_noalloc p \<or> 0 < pb_blocks p) \<and>
     (\<exists>b. pb_buffer p = Some b \<and> take (Suc (length full)) b = full @ [NUL])"

text \<open>There is room for \<open>n\<close> bytes of output, now or after a growth that cannot fail.\<close>

definition fits :: "printbuffer \<Rightarrow> nat \<Rightarrow> bool" where
  "fits p n \<longleftrightarrow> int (n + 2) \<le> INT_MAX \<and> (n + 2 \<le> blen p \<or> \<not> pb_noalloc p \<and> (\<forall>k. \<not> pb_oom p k))"

lemma fits_same: "same p q \<Longrightarrow> fits p n \<Longrightarrow> fits q n"
  by (auto simp: same_def fits_def)

lemma fits_le: "fits p n \<Longrightarrow> m \<le> n \<Longrightarrow> fits p m"
  by (auto simp: fits_def)

text \<open>A step from \<open>p\<close>: defined, with \<open>Q\<close> afterwards if it succeeds, and it succeeds when \<open>s\<close>.\<close>

definition yields :: "printbuffer \<Rightarrow> (bool \<times> printbuffer) option \<Rightarrow> bool \<Rightarrow> (printbuffer \<Rightarrow> bool) \<Rightarrow> bool" where
  "yields p r s Q \<longleftrightarrow> (\<exists>ok q. r = Some (ok, q) \<and> (if ok then same p q \<and> Q q else \<not> s \<and> stopped p q))"

lemma yields_bind:
  assumes "yields p r s Q" "\<And>q. same p q \<Longrightarrow> Q q \<Longrightarrow> yields q (f q) s R"
  shows "yields p (r \<bind> (\<lambda>(ok, q). if \<not> ok then Some (False, q) else f q)) s R"
proof -
  obtain ok q where r: "r = Some (ok, q)" "if ok then same p q \<and> Q q else \<not> s \<and> stopped p q"
    using assms(1) unfolding yields_def by blast
  show ?thesis
  proof (cases ok)
    case True
    then obtain k x where x: "f q = Some (k, x)" "if k then same q x \<and> R x else \<not> s \<and> stopped q x"
      using r(2) assms(2) [of q] unfolding yields_def by auto
    have "if k then same p x \<and> R x else \<not> s \<and> stopped p x"
      using x(2) r(2) True same_trans [of p q x] stopped_same [of p q x] by (cases k) auto
    then show ?thesis using r(1) True x(1) unfolding yields_def by simp
  qed (use r in \<open>auto simp: yields_def\<close>)
qed

lemma yields_mono: "yields p r s Q \<Longrightarrow> (t \<Longrightarrow> s) \<Longrightarrow> (\<And>q. same p q \<Longrightarrow> Q q \<Longrightarrow> R q) \<Longrightarrow> yields p r t R"
  unfolding yields_def by (auto split: if_splits)

lemma yields_same: "yields q r s Q \<Longrightarrow> same p q \<Longrightarrow> yields p r s Q"
  unfolding yields_def using same_trans stopped_same by (metis (full_types))

lemma yields_Some [simp]: "yields p (Some (True, q)) s Q \<longleftrightarrow> same p q \<and> Q q"
  unfolding yields_def by auto

lemma yields_False [simp]: "yields p (Some (False, q)) s Q \<longleftrightarrow> \<not> s \<and> stopped p q"
  unfolding yields_def by auto

text \<open>The fields \<open>ensure\<close> changes.\<close>

lemma ensure_keeps:
  assumes "ready p d out"
  shows "yields p (ensure p n) (int n \<le> INT_MAX \<and> int (length out + n + 1) \<le> INT_MAX \<and>
      (length out + n + 1 \<le> blen p \<or> \<not> pb_noalloc p \<and> (\<forall>k. \<not> pb_oom p k)))
    (\<lambda>q. ready q d out \<and> length out + n + 1 \<le> blen q)"
proof -
  obtain b where nul: "NUL \<notin> set out" and p: "pb_depth p = d" "pb_offset p = length out" "pb_noalloc p \<or> 0 < pb_blocks p" "pb_buffer p = Some b"
    "take (length out) b = out" "length out < length b \<or> b = [] \<and> pb_realloc p" using assms by (auto simp: ready_def)
  have l: "length out \<le> length b" using p(5) by (metis length_take min.cobounded1 min.commute)
  define m where "m = length out + n + 1"
  define k where "k = pb_calls p"
  define z where "z = (if INT_MAX div 2 < int m then nat INT_MAX else m * 2)"
  define grow where "grow = (if pb_realloc p then
              (case pb_resize p b z of
                 (None, p) \<Rightarrow> do { p \<leftarrow> pb_free p; Some (False, p\<lparr>pb_buffer := None\<rparr>) }
               | (Some b', p) \<Rightarrow> Some (True, p\<lparr>pb_buffer := Some b'\<rparr>))
            else
              (case pb_malloc p z of
                 (None, p) \<Rightarrow> do { p \<leftarrow> pb_free p; Some (False, p\<lparr>pb_buffer := None\<rparr>) }
               | (Some b', p) \<Rightarrow>
                   if length b < pb_offset p + 1 then None
                   else do {
                     p \<leftarrow> pb_free p;
                     Some (True, p\<lparr>pb_buffer := Some (take (pb_offset p + 1) b @ drop (pb_offset p + 1) b')\<rparr>) }))"
  have c: "\<not> (0 < length b \<and> length b \<le> length out)" using p(6) by auto
  have mm: "n + length out + 1 = m" by (simp add: m_def)
  have over: "INT_MAX div 2 < int m \<and> INT_MAX < int m \<longleftrightarrow> INT_MAX < int m" by (auto simp: INT_MAX_def)
  have e: "ensure p n = (if INT_MAX < int n then Some (False, p)
      else if m \<le> length b then Some (True, p)
      else if pb_noalloc p \<or> INT_MAX < int m then Some (False, p) else grow)"
    unfolding ensure_def Let_def p(2,4) option.case mm over if_not_P [OF c] z_def [symmetric] grow_def by simp
  show ?thesis
  proof (cases "INT_MAX < int n \<or> \<not> m \<le> length b \<and> (pb_noalloc p \<or> INT_MAX < int m)")
    case True
    then have "ensure p n = Some (False, p)" unfolding e by presburger
    moreover have "stopped p p" using p(4) by (simp add: stopped_def)
    moreover have bp: "blen p = length b" using p(4) by (simp add: blen_def)
    have "\<not> (int n \<le> INT_MAX \<and> int m \<le> INT_MAX \<and> (m \<le> blen p \<or> \<not> pb_noalloc p \<and> (\<forall>k. \<not> pb_oom p k)))"
      using True unfolding bp not_le [symmetric] by blast
    ultimately show ?thesis unfolding yields_def m_def by (intro exI [of _ False] exI [of _ p]) simp
  next
    case False
    note f = this
    show ?thesis
    proof (cases "m \<le> length b")
      case True
      then have "ensure p n = Some (True, p)" using f unfolding e by presburger
      then show ?thesis unfolding yields_def using assms True p(4)
        by (intro exI [of _ True] exI [of _ p]) (simp add: m_def blen_def)
    next
      case small: False
      have "\<not> INT_MAX < int m" using f small by blast
      then have mz: "m \<le> z" unfolding z_def INT_MAX_def by simp
      then have z: "m \<le> z" "length out \<le> z" by (simp_all add: m_def)
      have e: "ensure p n = grow" using f small unfolding e by presburger
      have bl: "0 < pb_blocks p" "\<not> pb_noalloc p" using p(3) f small by auto
      have t: "take (length out) (take z b @ x) = out" for x using p(5) z(2) l by simp
      have t': "take (length out) (take (Suc (length out)) b @ x) = out" if "b \<noteq> []" for x
        using p(5,6) that by simp
      show ?thesis
      proof (cases "pb_oom p k")
        case True
        then have "ensure p n = Some (False, p\<lparr>pb_calls := Suc k, pb_blocks := pb_blocks p - 1, pb_buffer := None\<rparr>)"
          using bl by (simp add: e grow_def k_def pb_resize_def pb_malloc_def pb_free_def Let_def)
        then show ?thesis unfolding yields_def using True bl small p(4)
          by (intro exI [of _ False] exI [of _ "p\<lparr>pb_calls := Suc k, pb_blocks := pb_blocks p - 1, pb_buffer := None\<rparr>"])
            (auto simp: stopped_def blen_def m_def)
      next
        case alloc: False
        show ?thesis
        proof (cases "pb_realloc p")
          case True
          define x where "x = take z b @ map (pb_junk p k) [length b..<z]"
          have x: "take (length out) x = out" "m \<le> length x" "length b \<le> length x" "length out < length x"
            using t z small by (auto simp: x_def m_def)
          have "ensure p n = Some (True, p\<lparr>pb_calls := Suc k, pb_buffer := Some x\<rparr>)"
            using alloc True by (simp add: e grow_def k_def pb_resize_def x_def Let_def)
          then show ?thesis unfolding yields_def using bl p x
            by (intro exI [of _ True] exI [of _ "p\<lparr>pb_calls := Suc k, pb_buffer := Some x\<rparr>"])
              (simp add: same_def ready_def blen_def m_def nul)
        next
          case False
          define x where "x = take (Suc (length out)) b @ drop (Suc (length out)) (map (pb_junk p k) [0..<z])"
          have b: "length out < length b" "b \<noteq> []" using p(6) False by auto
          have x: "take (length out) x = out" "m \<le> length x" "length b \<le> length x" "length out < length x"
            using t' [OF b(2)] z small b by (auto simp: x_def m_def)
          have "ensure p n = Some (True, p\<lparr>pb_calls := Suc k, pb_buffer := Some x\<rparr>)"
            using alloc False b p(2) by (simp add: e grow_def k_def pb_malloc_def pb_free_def x_def Let_def)
          then show ?thesis unfolding yields_def using bl p x
            by (intro exI [of _ True] exI [of _ "p\<lparr>pb_calls := Suc k, pb_buffer := Some x\<rparr>"])
              (simp add: same_def ready_def blen_def m_def nul)
        qed
      qed
    qed
  qed
qed


definition wrote :: "printbuffer \<Rightarrow> nat \<Rightarrow> string \<Rightarrow> nat \<Rightarrow> string \<Rightarrow> bool" where
  "wrote q d out n s \<longleftrightarrow> NUL \<notin> set out \<and> pb_depth q = d \<and> pb_offset q = length out \<and> (pb_noalloc q \<or> 0 < pb_blocks q) \<and>
     (\<exists>b. pb_buffer q = Some b \<and> length out + n + 1 \<le> length b \<and> take (length out + length s) b = out @ s)"

lemma write_at_ready:
  assumes "ready q d out" "length out + n + 1 \<le> blen q" "length s \<le> n + 1"
  shows "\<exists>q'. write_at q (pb_offset q) s = Some q' \<and> same q q' \<and> wrote q' d out n s"
proof -
  obtain b where q: "NUL \<notin> set out" "pb_depth q = d" "pb_offset q = length out" "pb_noalloc q \<or> 0 < pb_blocks q" "pb_buffer q = Some b"
    "take (length out) b = out" using assms(1) by (auto simp: ready_def)
  have l: "length out + n + 1 \<le> length b" using assms(2) q(5) by (simp add: blen_def)
  define b' where "b' = out @ s @ drop (length out + length s) b"
  have "write_at q (pb_offset q) s = Some (q\<lparr>pb_buffer := Some b'\<rparr>)"
    using q l assms(3) by (simp add: write_at_def b'_def)
  moreover have "length b' = length b" using l assms(3) by (simp add: b'_def)
  moreover have "take (length out + length s) b' = out @ s" by (simp add: b'_def)
  ultimately show ?thesis using q l by (simp add: same_def blen_def wrote_def)
qed

text \<open>What is emitted asks for at most one byte more than the output it is part of.\<close>

lemma emit_wrote:
  assumes r: "ready p d out" and s: "length s \<le> n + 1" "n \<le> m + 1"
  shows "yields p (emit p n s) (fits p (length out + m)) (\<lambda>q. wrote q d out n s)"
proof -
  obtain ok q where e: "ensure p n = Some (ok, q)" "if ok then same p q \<and> ready q d out \<and> length out + n + 1 \<le> blen q
      else \<not> (int n \<le> INT_MAX \<and> int (length out + n + 1) \<le> INT_MAX \<and>
        (length out + n + 1 \<le> blen p \<or> \<not> pb_noalloc p \<and> (\<forall>k. \<not> pb_oom p k))) \<and> stopped p q"
    using ensure_keeps [OF r, of n] unfolding yields_def by blast
  show ?thesis
  proof (cases ok)
    case True
    then obtain q' where "write_at q (pb_offset q) s = Some q'" "same p q'" "wrote q' d out n s"
      using e(2) write_at_ready [OF _ _ s(1)] same_trans by (metis (full_types))
    then have "same p q'" "wrote q' d out n s" "emit p n s = Some (True, q')"
      using e(1) True by (simp_all add: emit_def)
    then show ?thesis by simp
  next
    case False
    then have "\<not> fits p (length out + m)" using e(2) s(2) unfolding fits_def by auto
    then show ?thesis using e False by (simp add: emit_def)
  qed
qed

lemma wrote_advance:
  "wrote q d out n s \<Longrightarrow> k \<le> length s \<Longrightarrow> k \<le> n \<Longrightarrow> NUL \<notin> set (take k s) \<Longrightarrow> ready (advance q k) d (out @ take k s)"
proof -
  assume w: "wrote q d out n s" and k: "k \<le> length s" "k \<le> n" "NUL \<notin> set (take k s)"
  then obtain b where b: "pb_buffer q = Some b" "length out + n + 1 \<le> length b" "take (length out + length s) b = out @ s"
    by (auto simp: wrote_def)
  have "take (length out + k) b = take (length out + k) (take (length out + length s) b)" using k by simp
  then have "take (length out + k) b = out @ take k s" unfolding b(3) using k by simp
  then show ?thesis using w b k by (auto simp: wrote_def ready_def advance_def)
qed

lemma wrote_printed: "wrote q d out n (s @ [NUL]) \<Longrightarrow> NUL \<notin> set s \<Longrightarrow> printed q d (out @ s)"
  by (auto simp: wrote_def printed_def)

lemma same_fields [simp]:
  "same q (advance q k)" "same q (q\<lparr>pb_depth := d\<rparr>)" "same q (q\<lparr>pb_offset := k\<rparr>)"
  by (simp_all add: same_def advance_def blen_def)

lemma ready_depth: "ready q d out \<Longrightarrow> ready (q\<lparr>pb_depth := e\<rparr>) e out"
  by (simp add: ready_def)

lemma printed_depth: "printed q d full \<Longrightarrow> printed (q\<lparr>pb_depth := e\<rparr>) e full"
  by (simp add: printed_def)

lemma update_offset_ready:
  assumes "printed q d full"
  shows "update_offset q = Some (q\<lparr>pb_offset := length full\<rparr>)" "ready (q\<lparr>pb_offset := length full\<rparr>) d full"
proof -
  obtain b where q: "NUL \<notin> set full" "pb_depth q = d" "pb_offset q \<le> length full" "pb_noalloc q \<or> 0 < pb_blocks q"
    "pb_buffer q = Some b" "take (Suc (length full)) b = full @ [NUL]" using assms by (auto simp: printed_def)
  define k where "k = pb_offset q"
  define rest where "rest = drop (Suc (length full)) b"
  have b: "b = full @ NUL # rest" using append_take_drop_id [of "Suc (length full)" b] q(6) by (simp add: rest_def)
  have k: "k \<le> length full" using q(3) by (simp add: k_def)
  have d: "drop k b = drop k full @ NUL # rest" using k by (simp add: b)
  have "c_str (drop k b) = drop k full"
    unfolding d c_str_def using q(1) by (subst takeWhile_append2) (auto dest: in_set_dropD)
  moreover have "NUL \<in> set (drop k b)" by (simp add: d)
  ultimately show "update_offset q = Some (q\<lparr>pb_offset := length full\<rparr>)"
    using q(5) k by (simp add: update_offset_def k_def)
  show "ready (q\<lparr>pb_offset := length full\<rparr>) d full" using q b by (simp add: ready_def)
qed

lemma yields_update:
  assumes "printed q d full" "\<And>r. same q r \<Longrightarrow> ready r d full \<Longrightarrow> yields r (f r) s R"
  shows "yields q (update_offset q \<bind> f) s R"
  using update_offset_ready [OF assms(1)] yields_same [OF assms(2)] by simp


section \<open>The text of a value\<close>

text \<open>The number texts fit the local buffer of \<open>print_number\<close>.\<close>

fun short_numbers :: "json \<Rightarrow> bool" where
  "short_numbers (JNumber d) \<longleftrightarrow> length (print_number d) \<le> 25"
| "short_numbers (JArray vs) \<longleftrightarrow> list_all short_numbers vs"
| "short_numbers (JObject ms) \<longleftrightarrow> list_all (\<lambda>m. short_numbers (snd m)) ms"
| "short_numbers _ \<longleftrightarrow> True"

definition prints :: "json \<Rightarrow> bool" where
  "prints j \<longleftrightarrow> (\<forall>p d out. ready p d out \<longrightarrow>
     yields p (print_value_buf p j)
       (fits p (length out + length (print_value (pb_format p) d j)) \<and> short_numbers j)
       (\<lambda>q. printed q d (out @ print_value (pb_format p) d j)))"

lemma emit_printed:
  assumes "ready p d out" "length s \<le> n" "n \<le> length s + 1" "NUL \<notin> set s"
  shows "yields p (emit p n (s @ [NUL])) (fits p (length out + length s)) (\<lambda>q. printed q d (out @ s))"
  by (rule yields_mono [OF emit_wrote [OF assms(1), of "s @ [NUL]" n "length s"]])
    (use assms wrote_printed in auto)

lemma emit_ready:
  assumes "ready p d out" "length s \<le> n + 1" "k \<le> length s" "k \<le> n" "n \<le> k + 1" "NUL \<notin> set (take k s)"
  shows "yields p (emit p n s) (fits p (length out + k)) (\<lambda>q. ready (advance q k) d (out @ take k s))"
  by (rule yields_mono [OF emit_wrote [OF assms(1,2), of k]]) (use assms wrote_advance in auto)

lemma prints_atoms: "prints JNull" "prints (JBool b)"
proof -
  have "yields p (emit p 5 (''null'' @ [NUL])) (fits p (length out + length ''null'')) (\<lambda>q. printed q d (out @ ''null''))"
    if "ready p d out" for p d out using that by (rule emit_printed) (simp_all add: NUL_def)
  then show "prints JNull" by (simp add: prints_def)
  have 1: "yields p (emit p 5 (''true'' @ [NUL])) (fits p (length out + length ''true'')) (\<lambda>q. printed q d (out @ ''true''))"
    if "ready p d out" for p d out using that by (rule emit_printed) (simp_all add: NUL_def)
  have "yields p (emit p 6 (''false'' @ [NUL])) (fits p (length out + length ''false'')) (\<lambda>q. printed q d (out @ ''false''))"
    if "ready p d out" for p d out using that by (rule emit_printed) (simp_all add: NUL_def)
  with 1 show "prints (JBool b)" by (simp add: prints_def)
qed

lemma print_number_yields:
  assumes r: "ready p d out"
  shows "yields p (print_number_buf p x) (fits p (length out + length (print_number x)) \<and> length (print_number x) \<le> 25)
    (\<lambda>q. printed q d (out @ print_number x))"
proof -
  define s where "s = print_number x"
  have nul: "NUL \<notin> set s" by (simp add: s_def NUL_print_number)
  have st: "stopped p p" using r by (auto simp: stopped_def ready_def)
  show ?thesis
  proof (cases "25 < length s")
    case True
    then show ?thesis using st by (auto simp: print_number_buf_def s_def [symmetric] yields_def)
  next
    case False
    have "yields p (emit p (length s + 1) (s @ [NUL])) (fits p (length out + length s))
        (\<lambda>q. wrote q d out (length s + 1) (s @ [NUL]))" by (rule emit_wrote [OF r]) simp_all
    then obtain ok q where e: "emit p (length s + 1) (s @ [NUL]) = Some (ok, q)"
      "if ok then same p q \<and> wrote q d out (length s + 1) (s @ [NUL]) else \<not> fits p (length out + length s) \<and> stopped p q"
      unfolding yields_def by blast
    show ?thesis
    proof (cases ok)
      case True
      then have w: "same p q" "wrote q d out (length s + 1) (s @ [NUL])" using e(2) by simp_all
      then have w: "same p q" "printed q d (out @ s)" "pb_offset q = length out"
        using wrote_printed [OF _ nul] by (blast, blast, simp add: wrote_def)
      have "print_number_buf p x = Some (True, q\<lparr>pb_offset := length out + length s\<rparr>)"
        using False True e(1) w(3) by (simp add: print_number_buf_def s_def [symmetric])
      moreover have "same p (q\<lparr>pb_offset := length out + length s\<rparr>)" using w(1) same_trans same_fields(3) by blast
      moreover have "printed (q\<lparr>pb_offset := length out + length s\<rparr>) d (out @ s)"
        using w(2) by (simp add: printed_def)
      ultimately show ?thesis unfolding s_def [symmetric] by simp
    next
      case no: False
      then have "print_number_buf p x = Some (False, q)"
        using False e by (simp add: print_number_buf_def s_def [symmetric])
      then show ?thesis using e(2) no unfolding s_def [symmetric] by simp
    qed
  qed
qed

lemma length_escape_char: "length (escape_char c) = Suc (escape_extra c)"
  by (auto simp: escape_char_def escape_extra_def byte_def)


lemma length_escaped: "length (concat (map escape_char s)) = length s + sum_list (map escape_extra s)"
  by (induction s) (simp_all add: length_escape_char)

lemma no_escapes: "sum_list (map escape_extra s) = 0 \<Longrightarrow> concat (map escape_char s) = s"
  by (induction s) (auto simp: escape_char_def escape_extra_def not_less split: if_splits)

lemma write_at_append:
  assumes "pb_buffer p = Some b" "pos + length s + length t \<le> length b"
  shows "\<exists>q. write_at p pos s = Some q \<and> pb_offset q = pb_offset p \<and> write_at q (pos + length s) t = write_at p pos (s @ t)"
proof -
  have "drop (length t + (pos + length s)) b = drop (pos + (length s + length t)) b"
    by (rule arg_cong [of _ _ "\<lambda>n. drop n b"]) simp
  with assms show ?thesis by (simp add: write_at_def)
qed

lemma print_string_yields:
  assumes r: "ready p d out"
  shows "yields p (print_string_ptr p s) (fits p (length out + length (print_string s)))
    (\<lambda>q. printed q d (out @ print_string s))"
proof -
  define e where "e = sum_list (map escape_extra s)"
  define n where "n = length s + e"
  define x where "x = concat (map escape_char s)"
  have x: "length x = n" "print_string s = DQ # x @ [DQ]"
    by (simp_all add: x_def n_def e_def length_escaped print_string_def)
  obtain ok q where q: "ensure p (n + 3) = Some (ok, q)" "if ok then same p q \<and> ready q d out \<and> length out + (n + 3) + 1 \<le> blen q
      else \<not> (int (n + 3) \<le> INT_MAX \<and> int (length out + (n + 3) + 1) \<le> INT_MAX \<and>
        (length out + (n + 3) + 1 \<le> blen p \<or> \<not> pb_noalloc p \<and> (\<forall>k. \<not> pb_oom p k))) \<and> stopped p q"
    using ensure_keeps [OF r, of "n + 3"] unfolding yields_def by blast
  show ?thesis
  proof (cases ok)
    case True
    then have w: "same p q" "ready q d out" "length out + (n + 3) + 1 \<le> blen q" using q(2) by simp_all
    from write_at_ready [OF w(2,3), of "(DQ # x @ [DQ]) @ [NUL]"] x(1)
    obtain q' where q': "write_at q (pb_offset q) ((DQ # x @ [DQ]) @ [NUL]) = Some q'" "same q q'"
      "wrote q' d out (n + 3) ((DQ # x @ [DQ]) @ [NUL])" by auto
    have "print_string_ptr p s = Some (True, q')"
    proof (cases "e = 0")
      case True
      then show ?thesis using q(1) q'(1) \<open>ok\<close> no_escapes [of s]
        by (simp add: print_string_ptr_def e_def n_def x_def)
    next
      case False
      obtain b where b: "pb_buffer q = Some b" "pb_offset q = length out" using w(2) by (auto simp: ready_def)
      have "pb_offset q + length (DQ # x) + length [DQ, NUL] \<le> length b"
        using w(3) b x(1) by (simp add: blen_def)
      from write_at_append [OF b(1) this]
      obtain y where y: "write_at q (pb_offset q) (DQ # x) = Some y" "pb_offset y = pb_offset q"
        "write_at y (pb_offset q + Suc n) [DQ, NUL] = Some q'" using q'(1) x(1) by auto
      have "print_string_ptr p s = (do { p \<leftarrow> write_at q (pb_offset q) (DQ # x);
          p \<leftarrow> write_at p (pb_offset p + n + 1) [DQ, NUL]; Some (True, p) })"
        unfolding print_string_ptr_def Let_def e_def [symmetric] n_def [symmetric] x_def [symmetric]
        using q(1) \<open>ok\<close> False by (simp add: n_def)
      then show ?thesis using y by simp
    qed
    moreover have "printed q' d (out @ print_string s)"
      using wrote_printed [OF q'(3)] NUL_print_string [of s] unfolding x(2) by blast
    ultimately show ?thesis using w(1) q'(2) same_trans by (metis yields_Some)
  next
    case False
    have "length (print_string s) = n + 2" using x by simp
    then have "\<not> fits p (length out + length (print_string s))" using q(2) False unfolding fits_def by auto
    moreover have "print_string_ptr p s = Some (False, q)"
      unfolding print_string_ptr_def Let_def e_def [symmetric] n_def [symmetric] using q(1) False by (simp add: n_def)
    ultimately show ?thesis using q(2) False by simp
  qed
qed

lemma prints_leaf: "prints (JNumber x)" "prints (JString s)"
  using print_number_yields print_string_yields by (simp_all add: prints_def yields_def)

section \<open>Arrays\<close>

lemma fits_trans: "fits p n \<Longrightarrow> same p q \<Longrightarrow> m \<le> n \<Longrightarrow> fits q m"
  using fits_same fits_le by blast

text \<open>A step of a sequence: the bound is the one of the whole text.\<close>

lemma yields_step:
  assumes "yields p r (fits p m \<and> t) Q" "m \<le> n" "c \<Longrightarrow> t"
    "\<And>q. same p q \<Longrightarrow> Q q \<Longrightarrow> yields q (f q) (fits q n \<and> c) R"
  shows "yields p (r \<bind> (\<lambda>(ok, q). if \<not> ok then Some (False, q) else f q)) (fits p n \<and> c) R"
proof (rule yields_bind [OF yields_mono [OF assms(1), of "fits p n \<and> c"]])
  fix q assume "same p q" "Q q"
  then show "yields q (f q) (fits p n \<and> c) R"
    by (intro yields_mono [OF assms(4)]) (auto intro: fits_same)
next
  assume "fits p n \<and> c"
  then show "fits p m \<and> t" using fits_le [OF _ assms(2)] assms(3) by blast
qed

lemma print_elements_yields:
  assumes "\<forall>v\<in>set vs. prints v" "ready p d out"
  shows "yields p (print_elements p vs)
    (fits p (length out + length (join (if pb_format p then '', '' else '','') (map (print_value (pb_format p) d) vs))) \<and>
      list_all short_numbers vs)
    (\<lambda>q. ready q d (out @ join (if pb_format p then '', '' else '','') (map (print_value (pb_format p) d) vs)))"
  using assms
proof (induction vs arbitrary: p out)
  case (Cons v vs)
  define fmt where "fmt = pb_format p"
  define sep where "sep = (if fmt then '', '' else '','')"
  define x where "x = print_value fmt d v"
  define y where "y = join sep (map (print_value fmt d) vs)"
  define all where "all = join sep (map (print_value fmt d) (v # vs))"
  have all: "all = (if vs = [] then x else x @ sep @ y)" by (cases vs) (simp_all add: all_def x_def y_def)
  have v: "yields p (print_value_buf p v) (fits p (length out + length x) \<and> short_numbers v) (\<lambda>q. printed q d (out @ x))"
    using Cons.prems by (simp add: prints_def x_def fmt_def)
  have "yields p (print_elements p (v # vs)) (fits p (length out + length all) \<and> list_all short_numbers (v # vs))
      (\<lambda>q. ready q d (out @ all))"
    unfolding print_elements.simps
  proof (rule yields_step [OF v])
    fix q assume q: "same p q" "printed q d (out @ x)"
    show "yields q (update_offset q \<bind> (\<lambda>p. if vs = [] then print_elements p vs
        else emit p ((if pb_format p then 2 else 1) + 1) (CHR '','' # (if pb_format p then '' '' else []) @ [NUL]) \<bind>
          (\<lambda>(ok, p). if \<not> ok then Some (False, p)
            else print_elements (advance p (if pb_format p then 2 else 1)) vs)))
      (fits q (length out + length all) \<and> list_all short_numbers (v # vs)) (\<lambda>q. ready q d (out @ all))"
    proof (rule yields_update [OF q(2)])
      fix r assume r: "same q r" "ready r d (out @ x)"
      have fr: "pb_format r = fmt" using q(1) r(1) by (simp add: same_def fmt_def)
      show "yields r (if vs = [] then print_elements r vs
          else emit r ((if pb_format r then 2 else 1) + 1) (CHR '','' # (if pb_format r then '' '' else []) @ [NUL]) \<bind>
            (\<lambda>(ok, p). if \<not> ok then Some (False, p)
              else print_elements (advance p (if pb_format p then 2 else 1)) vs))
        (fits q (length out + length all) \<and> list_all short_numbers (v # vs)) (\<lambda>q. ready q d (out @ all))"
      proof (cases "vs = []")
        case True
        then show ?thesis using r(2) by (simp add: all)
      next
        case False
        define k where "k = (if fmt then 2 else 1 :: nat)"
        have k: "length sep = k" "CHR '','' # (if fmt then '' '' else []) @ [NUL] = sep @ [NUL]" "NUL \<notin> set sep"
          by (simp_all add: k_def sep_def NUL_def)
        have e: "yields r (emit r (k + 1) (sep @ [NUL])) (fits r (length (out @ x) + k) \<and> True)
            (\<lambda>q. ready (advance q k) d ((out @ x) @ sep))"
          using emit_ready [OF r(2), of "sep @ [NUL]" "k + 1" k] k by simp
        have "yields r (emit r (k + 1) (sep @ [NUL]) \<bind> (\<lambda>(ok, p). if \<not> ok then Some (False, p)
              else print_elements (advance p (if pb_format p then 2 else 1)) vs))
            (fits r (length out + length all) \<and> list_all short_numbers (v # vs)) (\<lambda>q. ready q d (out @ all))"
        proof (rule yields_step [OF e])
          fix s assume s: "same r s" "ready (advance s k) d ((out @ x) @ sep)"
          have fs: "pb_format s = fmt" using s(1) fr by (simp add: same_def)
          then have "pb_format (advance s k) = fmt" by (simp add: advance_def)
          then have "yields (advance s k) (print_elements (advance s k) vs)
              (fits (advance s k) (length ((out @ x) @ sep) + length y) \<and> list_all short_numbers vs)
              (\<lambda>q. ready q d (((out @ x) @ sep) @ y))"
            using Cons.IH [OF _ s(2)] Cons.prems(1) by (simp add: sep_def y_def)
          then have "yields (advance s k) (print_elements (advance s k) vs)
              (fits s (length out + length all) \<and> list_all short_numbers (v # vs)) (\<lambda>q. ready q d (out @ all))"
            by (rule yields_mono) (use False fits_trans [OF _ same_fields(1)] in \<open>auto simp: all\<close>)
          then show "yields s (print_elements (advance s (if pb_format s then 2 else 1)) vs)
              (fits s (length out + length all) \<and> list_all short_numbers (v # vs)) (\<lambda>q. ready q d (out @ all))"
            using yields_same [OF _ same_fields(1)] unfolding fs k_def by blast
        qed (use False k in \<open>simp_all add: all\<close>)
        then have "yields r (emit r (k + 1) (sep @ [NUL]) \<bind> (\<lambda>(ok, p). if \<not> ok then Some (False, p)
              else print_elements (advance p (if pb_format p then 2 else 1)) vs))
            (fits q (length out + length all) \<and> list_all short_numbers (v # vs)) (\<lambda>q. ready q d (out @ all))"
          by (rule yields_mono) (use fits_same r(1) in auto)
        then show ?thesis using False fr k(2) by (simp only: k_def if_False)
      qed
    qed
  qed (use all in auto)
  then show ?case unfolding all_def sep_def fmt_def .
qed simp


lemma prints_array:
  assumes vs: "\<forall>v\<in>set vs. prints v"
  shows "prints (JArray vs)"
  unfolding prints_def
proof (intro allI impI)
  fix p d out
  assume p: "ready p d out"
  define fmt where "fmt = pb_format p"
  define x where "x = join (if fmt then '', '' else '','') (map (print_value fmt (Suc d)) vs)"
  have dp: "pb_depth p = d" using p by (simp add: ready_def)
  have t: "print_value fmt d (JArray vs) = (''['' @ x) @ '']''" by (simp add: x_def)
  have e1: "yields p (emit p 1 ''['') (fits p (length out + 1) \<and> True) (\<lambda>q. ready (advance q 1) d (out @ ''[''))"
    using emit_ready [OF p, of "''[''" 1 1] by (simp add: NUL_def)
  have "yields p (print_value_buf p (JArray vs)) (fits p (length out + (length x + 2)) \<and> list_all short_numbers vs)
      (\<lambda>q. printed q d (out @ (''['' @ x) @ '']''))"
    unfolding print_value_buf.simps
  proof (rule yields_step [OF e1])
    fix q assume q: "same p q" "ready (advance q 1) d (out @ ''['')"
    define r where "r = (advance q 1)\<lparr>pb_depth := Suc d\<rparr>"
    have dq: "pb_depth q = d" using q(2) by (simp add: ready_def advance_def)
    have r: "same q r" "ready r (Suc d) (out @ ''['')" "pb_format r = fmt"
      unfolding r_def using same_trans [OF same_fields(1,2)] ready_depth [OF q(2)] q(1)
      by (blast, blast, simp add: same_def fmt_def advance_def)
    have e2: "yields r (print_elements r vs) (fits r (length (out @ ''['') + length x) \<and> list_all short_numbers vs)
        (\<lambda>q. ready q (Suc d) ((out @ ''['') @ x))"
      using print_elements_yields [OF vs r(2)] unfolding r(3) x_def by blast
    have "yields r (print_elements r vs \<bind> (\<lambda>(ok, p). if \<not> ok then Some (False, p)
          else emit p 2 (CHR '']'' # [NUL]) \<bind> (\<lambda>(ok, p). if \<not> ok then Some (False, p)
            else Some (True, p\<lparr>pb_depth := pb_depth p - 1\<rparr>))))
        (fits r (length out + (length x + 2)) \<and> list_all short_numbers vs) (\<lambda>q. printed q d (out @ (''['' @ x) @ '']''))"
    proof (rule yields_step [OF e2])
      fix s assume s: "same r s" "ready s (Suc d) ((out @ ''['') @ x)"
      have e3: "yields s (emit s 2 (CHR '']'' # [NUL])) (fits s (length ((out @ ''['') @ x) + length '']'') \<and> True)
          (\<lambda>q. printed q (Suc d) (((out @ ''['') @ x) @ '']''))"
        using emit_printed [OF s(2), of "'']''" 2] by (simp add: NUL_def)
      show "yields s (emit s 2 (CHR '']'' # [NUL]) \<bind> (\<lambda>(ok, p). if \<not> ok then Some (False, p)
            else Some (True, p\<lparr>pb_depth := pb_depth p - 1\<rparr>)))
          (fits s (length out + (length x + 2)) \<and> list_all short_numbers vs) (\<lambda>q. printed q d (out @ (''['' @ x) @ '']''))"
      proof (rule yields_step [OF e3])
        fix u assume "printed u (Suc d) (((out @ ''['') @ x) @ '']'')"
        then show "yields u (Some (True, u\<lparr>pb_depth := pb_depth u - 1\<rparr>))
            (fits u (length out + (length x + 2)) \<and> list_all short_numbers vs) (\<lambda>q. printed q d (out @ (''['' @ x) @ '']''))"
          using printed_depth [of u "Suc d" _ d] by (simp add: printed_def)
      qed simp_all
    qed simp_all
    from yields_mono [OF yields_same [OF this r(1)], of "fits q (length out + (length x + 2)) \<and> list_all short_numbers vs"]
    show "yields q (print_elements ((advance q 1)\<lparr>pb_depth := pb_depth q + 1\<rparr>) vs \<bind> (\<lambda>(ok, p).
          if \<not> ok then Some (False, p)
          else emit p 2 (CHR '']'' # [NUL]) \<bind> (\<lambda>(ok, p). if \<not> ok then Some (False, p)
            else Some (True, p\<lparr>pb_depth := pb_depth p - 1\<rparr>))))
        (fits q (length out + (length x + 2)) \<and> list_all short_numbers vs) (\<lambda>q. printed q d (out @ (''['' @ x) @ '']''))"
      using fits_same [OF r(1)] by (simp add: r_def dq)
  qed simp_all
  then show "yields p (print_value_buf p (JArray vs))
      (fits p (length out + length (print_value (pb_format p) d (JArray vs))) \<and> short_numbers (JArray vs))
      (\<lambda>q. printed q d (out @ print_value (pb_format p) d (JArray vs)))"
    unfolding fmt_def [symmetric] t by (simp del: print_value_buf.simps)
qed


section \<open>Objects\<close>

text \<open>The text of the members at depth \<open>d\<close>, as the loop of \<open>print_object\<close> writes it.\<close>

fun mtext :: "bool \<Rightarrow> nat \<Rightarrow> (string \<times> json) list \<Rightarrow> string" where
  "mtext fmt d [] = []"
| "mtext fmt d (m # ms) =
     (if fmt then replicate d TAB else []) @ print_string (fst m) @ (CHR '':'' # (if fmt then [TAB] else [])) @
     print_value fmt d (snd m) @ ((if ms \<noteq> [] then '','' else []) @ (if fmt then [NL] else [])) @ mtext fmt d ms"

lemma print_object_mtext:
  "print_value fmt d (JObject ms) =
     (CHR ''{'' # (if fmt then [NL] else [])) @ mtext fmt (Suc d) ms @ (if fmt then replicate d TAB else []) @ ''}''"
proof -
  have "join ('','' @ nl) (map (\<lambda>m. tabs @ print_string (fst m) @ (if fmt then '':'' @ [TAB] else '':'') @ print_value fmt (Suc d) (snd m)) ms) @
      (if ms = [] then [] else nl) = mtext fmt (Suc d) ms"
    if "nl = (if fmt then [NL] else [])" "tabs = (if fmt then replicate (Suc d) TAB else [])" for nl tabs
    using that
  proof (induction ms)
    case (Cons m ms)
    then show ?case by (cases ms) (auto split: if_splits)
  qed simp
  from this [OF refl refl] show ?thesis by (auto simp: Let_def)
qed

text \<open>A step that only writes and moves on.\<close>

lemma yields_emit:
  assumes p: "ready p d out" and s: "length s \<le> n + 1" "k \<le> length s" "k \<le> n" "n \<le> k + 1" "NUL \<notin> set (take k s)"
    and m: "length out + k \<le> m"
    and f: "\<And>q r. same p r \<Longrightarrow> r = advance q k \<Longrightarrow> ready r d (out @ take k s) \<Longrightarrow> same q r \<Longrightarrow>
      yields r (f q) (fits r m \<and> c) R"
  shows "yields p (emit p n s \<bind> (\<lambda>(ok, q). if \<not> ok then Some (False, q) else f q)) (fits p m \<and> c) R"
proof (rule yields_step)
  show "yields p (emit p n s) (fits p (length out + k) \<and> True) (\<lambda>q. ready (advance q k) d (out @ take k s))"
    using emit_ready [OF p s] by simp
next
  fix q assume q: "same p q" "ready (advance q k) d (out @ take k s)"
  have "yields (advance q k) (f q) (fits (advance q k) m \<and> c) R"
    using f [OF _ refl q(2)] q(1) same_trans same_fields(1) by blast
  from yields_same [OF yields_mono [OF this, of "fits q m \<and> c"] same_fields(1)]
  show "yields q (f q) (fits q m \<and> c) R" using fits_same [OF same_fields(1)] by blast
qed (use m in auto)

lemma yields_text:
  assumes r: "yields p r (fits p (length out + length t) \<and> u) (\<lambda>q. printed q d (out @ t))"
    and m: "length out + length t \<le> m" "c \<Longrightarrow> u"
    and f: "\<And>r. same p r \<Longrightarrow> ready r d (out @ t) \<Longrightarrow> yields r (f r) (fits r m \<and> c) R"
  shows "yields p (r \<bind> (\<lambda>(ok, q). if \<not> ok then Some (False, q) else update_offset q \<bind> f)) (fits p m \<and> c) R"
proof (rule yields_step [OF r m])
  fix q assume q: "same p q" "printed q d (out @ t)"
  show "yields q (update_offset q \<bind> f) (fits q m \<and> c) R"
  proof (rule yields_update [OF q(2)])
    fix r assume "same q r" "ready r d (out @ t)"
    note qr = this
    have "yields r (f r) (fits r m \<and> c) R" using same_trans [OF q(1) qr(1)] qr(2) by (rule f)
    then show "yields r (f r) (fits q m \<and> c) R" by (rule yields_mono) (auto intro: fits_same [OF qr(1)])
  qed
qed


text \<open>The body of the loop in \<open>print_object\<close>, cut at the calls of \<open>update_offset\<close>.\<close>

definition indent :: "printbuffer \<Rightarrow> (bool \<times> printbuffer) option" where
  "indent p = (if pb_format p then do {
       (ok, p) \<leftarrow> emit p (pb_depth p) (replicate (pb_depth p) TAB);
       Some (ok, if ok then advance p (pb_depth p) else p) }
     else Some (True, p))"

definition member_end :: "(string \<times> json) list \<Rightarrow> printbuffer \<Rightarrow> (bool \<times> printbuffer) option" where
  "member_end ms p = do {
     (ok, p) \<leftarrow> emit p ((if pb_format p then 1 else 0) + (if ms \<noteq> [] then 1 else 0) + 1)
       ((if ms \<noteq> [] then '','' else []) @ (if pb_format p then [NL] else []) @ [NUL]);
     if \<not> ok then Some (False, p)
     else print_members (advance p ((if pb_format p then 1 else 0) + (if ms \<noteq> [] then 1 else 0))) ms }"

definition member_value :: "json \<Rightarrow> (string \<times> json) list \<Rightarrow> printbuffer \<Rightarrow> (bool \<times> printbuffer) option" where
  "member_value j ms p = do {
     (ok, p) \<leftarrow> emit p (if pb_format p then 2 else 1) (CHR '':'' # (if pb_format p then [TAB] else []));
     if \<not> ok then Some (False, p)
     else do {
       (ok, p) \<leftarrow> print_value_buf (advance p (if pb_format p then 2 else 1)) j;
       if \<not> ok then Some (False, p) else update_offset p \<bind> member_end ms } }"

lemma print_members_Cons:
  "print_members p (m # ms) = indent p \<bind> (\<lambda>(ok, p). if \<not> ok then Some (False, p)
     else print_string_ptr p (fst m) \<bind> (\<lambda>(ok, p). if \<not> ok then Some (False, p)
       else update_offset p \<bind> member_value (snd m) ms))"
  by (simp add: indent_def member_value_def [abs_def] member_end_def [abs_def] cong: if_cong)

lemma indent_yields:
  assumes p: "ready p d out"
  shows "yields p (indent p) (fits p (length out + length (if pb_format p then replicate d TAB else [])) \<and> True)
    (\<lambda>q. ready q d (out @ (if pb_format p then replicate d TAB else [])))"
proof (cases "pb_format p")
  case True
  have d: "pb_depth p = d" using p by (simp add: ready_def)
  have "yields p (emit p d (replicate d TAB)) (fits p (length out + d))
      (\<lambda>q. ready (advance q d) d (out @ replicate d TAB))"
    using emit_ready [OF p, of "replicate d TAB" d d] by simp
  then obtain ok q where q: "emit p d (replicate d TAB) = Some (ok, q)"
    "if ok then same p q \<and> ready (advance q d) d (out @ replicate d TAB) else \<not> fits p (length out + d) \<and> stopped p q"
    unfolding yields_def by blast
  have "pb_depth q = d" if ok using that q(2) by (simp add: ready_def advance_def)
  then show ?thesis using q True d same_trans [OF _ same_fields(1)] by (cases ok) (simp_all add: indent_def)
qed (use p in \<open>simp add: indent_def\<close>)

lemma member_end_yields:
  assumes IH: "\<And>q out. ready q d out \<Longrightarrow> pb_format q = fmt \<Longrightarrow>
      yields q (print_members q ms) (fits q (length out + length (mtext fmt d ms)) \<and> c)
        (\<lambda>q. ready q d (out @ mtext fmt d ms))"
    and p: "ready p d out" "pb_format p = fmt" and e: "e = (if ms \<noteq> [] then '','' else []) @ (if fmt then [NL] else [])"
  shows "yields p (member_end ms p) (fits p (length out + length (e @ mtext fmt d ms)) \<and> c)
    (\<lambda>q. ready q d (out @ e @ mtext fmt d ms))"
proof -
  define k where "k = (if fmt then 1 else 0) + (if ms \<noteq> [] then 1 else 0 :: nat)"
  have k: "length e = k" "NUL \<notin> set e" by (simp_all add: e k_def NUL_def)
  have eq: "member_end ms p = emit p (k + 1) (e @ [NUL]) \<bind> (\<lambda>(ok, q). if \<not> ok then Some (False, q)
      else print_members (advance q ((if pb_format q then 1 else 0) + (if ms \<noteq> [] then 1 else 0))) ms)"
    by (simp add: member_end_def p(2) e k_def)
  show ?thesis unfolding eq
  proof (rule yields_emit [OF p(1), where k = k])
    fix q r assume r: "same p r" "r = advance q k" "ready r d (out @ take k (e @ [NUL]))" "same q r"
    have f: "pb_format r = fmt" "pb_format q = fmt" using r p(2) by (auto simp: same_def)
    have o: "out @ take k (e @ [NUL]) = out @ e" using k by simp
    have "yields r (print_members r ms) (fits r (length out + length (e @ mtext fmt d ms)) \<and> c)
        (\<lambda>q. ready q d (out @ e @ mtext fmt d ms))"
      using IH [OF r(3) f(1)] unfolding o by (simp add: add.assoc)
    then show "yields r (print_members (advance q ((if pb_format q then 1 else 0) + (if ms \<noteq> [] then 1 else 0))) ms)
        (fits r (length out + length (e @ mtext fmt d ms)) \<and> c) (\<lambda>q. ready q d (out @ e @ mtext fmt d ms))"
      unfolding f(2) k_def [symmetric] r(2) [symmetric] .
  qed (use k in auto)
qed


lemma member_value_yields:
  assumes j: "prints j"
    and IH: "\<And>q out. ready q d out \<Longrightarrow> pb_format q = fmt \<Longrightarrow>
      yields q (print_members q ms) (fits q (length out + length (mtext fmt d ms)) \<and> c)
        (\<lambda>q. ready q d (out @ mtext fmt d ms))"
    and p: "ready p d out" "pb_format p = fmt" and e: "e = (if ms \<noteq> [] then '','' else []) @ (if fmt then [NL] else [])"
    and s: "s = CHR '':'' # (if fmt then [TAB] else [])"
  shows "yields p (member_value j ms p)
    (fits p (length out + length (s @ print_value fmt d j @ e @ mtext fmt d ms)) \<and> short_numbers j \<and> c)
    (\<lambda>q. ready q d (out @ s @ print_value fmt d j @ e @ mtext fmt d ms))"
proof -
  define k where "k = (if fmt then 2 else 1 :: nat)"
  define t where "t = print_value fmt d j"
  define z where "z = s @ t @ e @ mtext fmt d ms"
  have k: "length s = k" "NUL \<notin> set s" by (simp_all add: s k_def NUL_def)
  have eq: "member_value j ms p = emit p k s \<bind> (\<lambda>(ok, q). if \<not> ok then Some (False, q)
      else print_value_buf (advance q (if pb_format q then 2 else 1)) j \<bind>
        (\<lambda>(ok, p). if \<not> ok then Some (False, p) else update_offset p \<bind> member_end ms))"
    by (simp add: member_value_def p(2) s k_def)
  have "yields p (member_value j ms p) (fits p (length out + length z) \<and> short_numbers j \<and> c) (\<lambda>q. ready q d (out @ z))"
    unfolding eq
  proof (rule yields_emit [OF p(1), where k = k])
    fix q r assume r: "same p r" "r = advance q k" "ready r d (out @ take k s)" "same q r"
    have f: "pb_format r = fmt" "pb_format q = fmt" using r p(2) by (auto simp: same_def)
    have o: "out @ take k s = out @ s" using k by simp
    have v: "yields r (print_value_buf r j) (fits r (length (out @ s) + length t) \<and> short_numbers j)
        (\<lambda>q. printed q d ((out @ s) @ t))"
      using j r(3) unfolding prints_def o t_def f(1) [symmetric] by blast
    have "yields r (print_value_buf r j \<bind>
          (\<lambda>(ok, p). if \<not> ok then Some (False, p) else update_offset p \<bind> member_end ms))
        (fits r (length out + length z) \<and> short_numbers j \<and> c) (\<lambda>q. ready q d (out @ z))"
    proof (rule yields_text [OF v])
      fix x assume x: "same r x" "ready x d ((out @ s) @ t)"
      have "pb_format x = fmt" using x(1) f(1) by (simp add: same_def)
      from member_end_yields [OF IH x(2) this e]
      have "yields x (member_end ms x) (fits x (length out + length z) \<and> c) (\<lambda>q. ready q d (out @ z))"
        by (simp add: z_def add.assoc)
      then show "yields x (member_end ms x) (fits x (length out + length z) \<and> short_numbers j \<and> c) (\<lambda>q. ready q d (out @ z))"
        by (rule yields_mono) simp_all
    qed (simp_all add: z_def)
    then show "yields r (print_value_buf (advance q (if pb_format q then 2 else 1)) j \<bind>
          (\<lambda>(ok, p). if \<not> ok then Some (False, p) else update_offset p \<bind> member_end ms))
        (fits r (length out + length z) \<and> short_numbers j \<and> c) (\<lambda>q. ready q d (out @ z))"
      unfolding f(2) k_def [symmetric] r(2) [symmetric] .
  qed (use k in \<open>auto simp: z_def\<close>)
  then show ?thesis unfolding z_def t_def .
qed

lemma print_members_yields:
  assumes "\<forall>m\<in>set ms. prints (snd m)" "ready p d out" "pb_format p = fmt"
  shows "yields p (print_members p ms)
    (fits p (length out + length (mtext fmt d ms)) \<and> list_all (\<lambda>m. short_numbers (snd m)) ms)
    (\<lambda>q. ready q d (out @ mtext fmt d ms))"
  using assms
proof (induction ms arbitrary: p out)
  case (Cons m ms)
  define c where "c = list_all (\<lambda>m. short_numbers (snd m)) ms"
  define tabs where "tabs = (if fmt then replicate d TAB else [])"
  define s where "s = CHR '':'' # (if fmt then [TAB] else [])"
  define e where "e = (if ms \<noteq> [] then '','' else []) @ (if fmt then [NL] else [])"
  define w where "w = s @ print_value fmt d (snd m) @ e @ mtext fmt d ms"
  define all where "all = tabs @ print_string (fst m) @ w"
  have all: "mtext fmt d (m # ms) = all" by (simp add: all_def w_def tabs_def s_def e_def)
  have i: "yields p (indent p) (fits p (length out + length tabs) \<and> True) (\<lambda>q. ready q d (out @ tabs))"
    using indent_yields [OF Cons.prems(2)] Cons.prems(3) by (simp add: tabs_def)
  have "yields p (print_members p (m # ms)) (fits p (length out + length all) \<and> short_numbers (snd m) \<and> c)
      (\<lambda>q. ready q d (out @ all))"
    unfolding print_members_Cons
  proof (rule yields_step [OF i])
    fix q assume q: "same p q" "ready q d (out @ tabs)"
    have t: "yields q (print_string_ptr q (fst m))
        (fits q (length (out @ tabs) + length (print_string (fst m))) \<and> True)
        (\<lambda>q. printed q d ((out @ tabs) @ print_string (fst m)))"
      using print_string_yields [OF q(2)] by simp
    show "yields q (print_string_ptr q (fst m) \<bind> (\<lambda>(ok, p). if \<not> ok then Some (False, p)
          else update_offset p \<bind> member_value (snd m) ms))
        (fits q (length out + length all) \<and> short_numbers (snd m) \<and> c) (\<lambda>q. ready q d (out @ all))"
    proof (rule yields_text [OF t])
      fix x assume x: "same q x" "ready x d ((out @ tabs) @ print_string (fst m))"
      have fx: "pb_format x = fmt" using x(1) q(1) Cons.prems(3) by (simp add: same_def)
      have "yields x (member_value (snd m) ms x)
          (fits x (length ((out @ tabs) @ print_string (fst m)) + length w) \<and> short_numbers (snd m) \<and> c)
          (\<lambda>q. ready q d (((out @ tabs) @ print_string (fst m)) @ w))"
        unfolding w_def
        by (rule member_value_yields [OF _ _ x(2) fx e_def s_def])
          (use Cons.prems(1) Cons.IH in \<open>auto simp: c_def\<close>)
      then show "yields x (member_value (snd m) ms x)
          (fits x (length out + length all) \<and> short_numbers (snd m) \<and> c) (\<lambda>q. ready q d (out @ all))"
        by (simp add: all_def add.assoc)
    qed (simp_all add: all_def)
  qed (simp_all add: all_def)
  then show ?case unfolding all by (simp add: c_def)
qed simp

lemma prints_object:
  assumes ms: "\<forall>m\<in>set ms. prints (snd m)"
  shows "prints (JObject ms)"
  unfolding prints_def
proof (intro allI impI)
  fix p d out
  assume p: "ready p d out"
  define fmt where "fmt = pb_format p"
  define c where "c = list_all (\<lambda>m. short_numbers (snd m)) ms"
  define k where "k = (if fmt then 2 else 1 :: nat)"
  define h where "h = CHR ''{'' # (if fmt then [NL] else [])"
  define x where "x = mtext fmt (Suc d) ms"
  define t where "t = (if fmt then replicate d TAB else []) @ ''}''"
  define all where "all = h @ x @ t"
  have all: "print_value fmt d (JObject ms) = all"
    unfolding print_object_mtext all_def h_def x_def t_def ..
  have dp: "pb_depth p = d" using p by (simp add: ready_def)
  have h: "length h = k" "NUL \<notin> set h" by (simp_all add: h_def k_def NUL_def)
  have nt: "NUL \<notin> set t" by (auto simp: t_def NUL_def)
  have eq: "print_value_buf p (JObject ms) = emit p (k + 1) h \<bind> (\<lambda>(ok, q). if \<not> ok then Some (False, q)
      else print_members ((advance q (if pb_format q then 2 else 1))\<lparr>pb_depth := pb_depth q + 1\<rparr>) ms \<bind>
        (\<lambda>(ok, p). if \<not> ok then Some (False, p)
          else emit p (if pb_format p then pb_depth p + 1 else 2)
              ((if pb_format p then replicate (pb_depth p - 1) TAB else []) @ CHR ''}'' # [NUL]) \<bind>
            (\<lambda>(ok, p). if \<not> ok then Some (False, p) else Some (True, p\<lparr>pb_depth := pb_depth p - 1\<rparr>))))"
    unfolding print_value_buf.simps fmt_def [symmetric] k_def [symmetric] h_def [symmetric] ..
  have "yields p (print_value_buf p (JObject ms)) (fits p (length out + length all) \<and> c) (\<lambda>q. printed q d (out @ all))"
    unfolding eq
  proof (rule yields_emit [OF p, where k = k])
    fix q r0 assume r0: "same p r0" "r0 = advance q k" "ready r0 d (out @ take k h)" "same q r0"
    define r where "r = r0\<lparr>pb_depth := Suc d\<rparr>"
    have f: "pb_format q = fmt" "pb_format r0 = fmt" using r0 by (auto simp: same_def fmt_def)
    have dq: "pb_depth q = d" using r0(2,3) by (simp add: ready_def advance_def)
    have o: "out @ take k h = out @ h" using h by simp
    have rr: "ready r (Suc d) (out @ h)" using ready_depth [OF r0(3)] by (simp add: r_def o)
    have fr: "pb_format r = fmt" using f(2) by (simp add: r_def)
    have m: "yields r (print_members r ms) (fits r (length (out @ h) + length x) \<and> c) (\<lambda>q. ready q (Suc d) ((out @ h) @ x))"
      using print_members_yields [OF ms rr fr] by (simp add: x_def c_def)
    have "yields r (print_members r ms \<bind> (\<lambda>(ok, p). if \<not> ok then Some (False, p)
          else emit p (if pb_format p then pb_depth p + 1 else 2)
              ((if pb_format p then replicate (pb_depth p - 1) TAB else []) @ CHR ''}'' # [NUL]) \<bind>
            (\<lambda>(ok, p). if \<not> ok then Some (False, p) else Some (True, p\<lparr>pb_depth := pb_depth p - 1\<rparr>))))
        (fits r (length out + length all) \<and> c) (\<lambda>q. printed q d (out @ all))"
    proof (rule yields_step [OF m])
      fix s assume s: "same r s" "ready s (Suc d) ((out @ h) @ x)"
      have fs: "pb_format s = fmt" "pb_depth s = Suc d" using s fr by (simp_all add: same_def ready_def)
      have g: "(if pb_format s then replicate (pb_depth s - 1) TAB else []) @ CHR ''}'' # [NUL] = t @ [NUL]"
        by (simp add: fs t_def)
      have n: "length t \<le> (if fmt then Suc d + 1 else 2)" "(if fmt then Suc d + 1 else 2) \<le> length t + 1"
        by (simp_all add: t_def)
      have "yields s (emit s (if fmt then Suc d + 1 else 2) (t @ [NUL]))
          (fits s (length ((out @ h) @ x) + length t) \<and> True) (\<lambda>q. printed q (Suc d) (((out @ h) @ x) @ t))"
        using emit_printed [OF s(2) n nt] by simp
      then show "yields s (emit s (if pb_format s then pb_depth s + 1 else 2)
              ((if pb_format s then replicate (pb_depth s - 1) TAB else []) @ CHR ''}'' # [NUL]) \<bind>
            (\<lambda>(ok, p). if \<not> ok then Some (False, p) else Some (True, p\<lparr>pb_depth := pb_depth p - 1\<rparr>)))
          (fits s (length out + length all) \<and> c) (\<lambda>q. printed q d (out @ all))"
        unfolding g unfolding fs
      proof (rule yields_step)
        fix u assume "printed u (Suc d) (((out @ h) @ x) @ t)"
        then show "yields u (Some (True, u\<lparr>pb_depth := pb_depth u - 1\<rparr>))
            (fits u (length out + length all) \<and> c) (\<lambda>q. printed q d (out @ all))"
          using printed_depth [of u "Suc d" _ d] by (simp add: printed_def all_def)
      qed (simp_all add: all_def)
    qed (simp_all add: all_def)
    note * = yields_mono [OF yields_same [OF this, of r0], of "fits r0 (length out + length all) \<and> c"]
    have "same r0 r" "r0\<lparr>pb_depth := d + 1\<rparr> = r" by (simp_all add: r_def)
    note r' = this
    show "yields r0 (print_members ((advance q (if pb_format q then 2 else 1))\<lparr>pb_depth := pb_depth q + 1\<rparr>) ms \<bind>
        (\<lambda>(ok, p). if \<not> ok then Some (False, p)
          else emit p (if pb_format p then pb_depth p + 1 else 2)
              ((if pb_format p then replicate (pb_depth p - 1) TAB else []) @ CHR ''}'' # [NUL]) \<bind>
            (\<lambda>(ok, p). if \<not> ok then Some (False, p) else Some (True, p\<lparr>pb_depth := pb_depth p - 1\<rparr>))))
      (fits r0 (length out + length all) \<and> c) (\<lambda>q. printed q d (out @ all))"
      unfolding f(1) k_def [symmetric] r0(2) [symmetric] dq r'(2)
      by (intro *) (auto intro: fits_same [OF r'(1)] r'(1))
  qed (use h in \<open>auto simp: all_def\<close>)
  then show "yields p (print_value_buf p (JObject ms))
      (fits p (length out + length (print_value (pb_format p) d (JObject ms))) \<and> short_numbers (JObject ms))
      (\<lambda>q. printed q d (out @ print_value (pb_format p) d (JObject ms)))"
    unfolding fmt_def [symmetric] all short_numbers.simps c_def .
qed

lemma prints_all: "prints j"
proof (induction j)
  case (JArray vs)
  then show ?case by (intro prints_array) blast
next
  case (JObject ms)
  then show ?case by (intro prints_object) (auto simp: snds.simps)
qed (rule prints_atoms prints_leaf)+


section \<open>The printing functions\<close>

lemma print_value_buf_run:
  assumes p: "ready p 0 []"
  shows "\<exists>ok q. print_value_buf p j = Some (ok, q) \<and>
    (if ok then same p q \<and> printed q 0 (print_value (pb_format p) 0 j)
     else \<not> (fits p (length (print_value (pb_format p) 0 j)) \<and> short_numbers j) \<and> stopped p q)"
proof -
  have "yields p (print_value_buf p j) (fits p (length (print_value (pb_format p) 0 j)) \<and> short_numbers j)
      (\<lambda>q. printed q 0 (print_value (pb_format p) 0 j))"
    using prints_all [of j] p unfolding prints_def by fastforce
  then show ?thesis unfolding yields_def .
qed

lemma print_fail_run:
  "pb_buffer p = None \<and> pb_blocks p = 0 \<or> pb_buffer p \<noteq> None \<and> pb_blocks p = 1 \<Longrightarrow>
   \<exists>q. print_fail p = Some (None, q) \<and> pb_blocks q = 0"
  by (auto simp: print_fail_def pb_free_def)

lemma cut_to_size_run:
  assumes p: "printed p 0 t" and n: "\<not> pb_noalloc p" "pb_blocks p = 1"
  shows "\<exists>r q. cut_to_size p = Some (r, q) \<and>
    (r = None \<and> pb_blocks q = 0 \<and> (\<exists>k. pb_oom p k) \<or> r = Some (t @ [NUL]) \<and> pb_blocks q = 1)"
proof -
  note u = update_offset_ready [OF p]
  define s where "s = p\<lparr>pb_offset := length t\<rparr>"
  obtain b where b: "pb_buffer p = Some b" "take (Suc (length t)) b = t @ [NUL]" using p by (auto simp: printed_def)
  then have l: "Suc (length t) \<le> length b" by (metis length_append_singleton length_take min.absorb_iff2 min.commute order_refl)
  have s: "pb_buffer s = Some b" "pb_offset s = length t" "pb_blocks s = 1" "pb_oom s = pb_oom p"
    using b n by (simp_all add: s_def)
  show ?thesis
  proof (cases "pb_oom p (pb_calls s)")
    case True
    obtain q where q: "print_fail (s\<lparr>pb_calls := Suc (pb_calls s)\<rparr>) = Some (None, q)" "pb_blocks q = 0"
      using print_fail_run [of "s\<lparr>pb_calls := Suc (pb_calls s)\<rparr>"] s by auto
    have "cut_to_size p = Some (None, q)"
      using u(1) s True q(1) unfolding cut_to_size_def s_def [symmetric]
      by (simp add: pb_resize_def pb_malloc_def Let_def)
    then show ?thesis using q(2) True by blast
  next
    case False
    have m: "min (length b) (Suc (length t)) = Suc (length t)" using l by simp
    have x: "(take (Suc (length t)) b @ drop (Suc (length t)) y)[length t := NUL] = t @ [NUL]"
      if "length y = Suc (length t)" for y using b(2) that by (simp add: list_update_append)
    have "\<exists>q. cut_to_size p = Some (Some (t @ [NUL]), q) \<and> pb_blocks q = 1"
      using u(1) s False l b(2) unfolding cut_to_size_def s_def [symmetric]
      by (simp add: pb_resize_def pb_malloc_def pb_free_def Let_def m x)
    then show ?thesis by blast
  qed
qed

text \<open>C6: \<open>cJSON_Print\<close> and \<open>cJSON_PrintUnformatted\<close>, which grow a buffer while they print, give exactly
  the text of the value with its terminator in a block of its own, or NULL with every block released;
  they never write or read outside the buffer, whichever allocation fails. Without a failure they
  succeed when the text and its numbers are within the limits of the code.\<close>

theorem print_item_exact:
  "\<exists>r q. print_item j (fresh_buffer fmt hook oomf junk) = Some (r, q) \<and>
     (r = None \<and> pb_blocks q = 0 \<or> r = Some (print_value fmt 0 j @ [NUL]) \<and> pb_blocks q = 1) \<and>
     ((\<forall>k. \<not> oomf k) \<and> short_numbers j \<and> int (length (print_value fmt 0 j)) + 2 \<le> INT_MAX \<longrightarrow> r \<noteq> None)"
proof (cases "oomf 0")
  case True
  then show ?thesis by (auto simp: print_item_def fresh_buffer_def pb_malloc_def Let_def print_fail_def)
next
  case False
  define p where "p = (fresh_buffer fmt hook oomf junk)\<lparr>pb_calls := 1, pb_blocks := 1, pb_buffer := Some (map (junk 0) [0..<256])\<rparr>"
  have p: "ready p 0 []" "pb_format p = fmt" "pb_blocks p = 1" "\<not> pb_noalloc p" "pb_oom p = oomf"
    by (simp_all add: p_def fresh_buffer_def ready_def)
  have e: "print_item j (fresh_buffer fmt hook oomf junk) =
      print_value_buf p j \<bind> (\<lambda>(ok, p). if \<not> ok then print_fail p else cut_to_size p)"
    using False unfolding print_item_def p_def
    by (simp add: pb_malloc_def fresh_buffer_def Let_def cong: if_cong)
  obtain ok q where q: "print_value_buf p j = Some (ok, q)" "if ok then same p q \<and> printed q 0 (print_value fmt 0 j)
      else \<not> (fits p (length (print_value fmt 0 j)) \<and> short_numbers j) \<and> stopped p q"
    using print_value_buf_run [OF p(1), of j] unfolding p(2) by blast
  show ?thesis
  proof (cases ok)
    case True
    then have s: "printed q 0 (print_value fmt 0 j)" "\<not> pb_noalloc q" "pb_blocks q = 1" "pb_oom q = oomf"
      using q(2) p by (simp_all add: same_def)
    from cut_to_size_run [OF s(1-3)] show ?thesis using q(1) True s(4) unfolding e by auto
  next
    case no: False
    then have st: "stopped p q" "\<not> (fits p (length (print_value fmt 0 j)) \<and> short_numbers j)" using q(2) by simp_all
    then obtain x where "print_fail q = Some (None, x)" "pb_blocks x = 0"
      using print_fail_run [of q] p(3) by (auto simp: stopped_def split: if_splits)
    then show ?thesis using st(2) q(1) no p(4,5) unfolding e fits_def by auto
  qed
qed

theorem print_item_exact_witness:
  "\<exists>r q. print_item (JArray [JNull, JObject [(''k'', JString [NL])]]) (fresh_buffer False True (\<lambda>_. False) (\<lambda>_ _. NUL)) = Some (r, q) \<and>
     r = Some (''[null,{'' @ [DQ] @ ''k'' @ [DQ] @ '':'' @ [DQ, BSL] @ ''n'' @ [DQ] @ ''}]'' @ [NUL])"
proof -
  have "print_value False 0 (JArray [JNull, JObject [(''k'', JString [NL])]]) =
      ''[null,{'' @ [DQ] @ ''k'' @ [DQ] @ '':'' @ [DQ, BSL] @ ''n'' @ [DQ] @ ''}]''"
    by (simp add: print_string_def escape_char_def byte_def)
  then show ?thesis
    using print_item_exact [of "JArray [JNull, JObject [(''k'', JString [NL])]]" False True "\<lambda>_. False" "\<lambda>_ _. NUL"]
    by (auto simp: INT_MAX_def)
qed


lemma printed_text_string: "take (Suc (length t)) x = t @ [NUL] \<Longrightarrow> NUL \<notin> set t \<Longrightarrow> c_str (x @ y) = t"
proof -
  assume t: "take (Suc (length t)) x = t @ [NUL]" "NUL \<notin> set t"
  have e: "x @ y = t @ NUL # (drop (Suc (length t)) x @ y)"
    using append_take_drop_id [of "Suc (length t)" x] t(1) by simp
  show ?thesis unfolding e c_str_def using t(2) by (subst takeWhile_append2) auto
qed

lemma printed_text: "printed q d t \<Longrightarrow> map_option c_str (pb_buffer q) = Some t"
  using printed_text_string [of t _ "[]"] by (auto simp: printed_def)

lemma print_buffered_run:
  assumes "0 \<le> prebuffer"
  shows "\<exists>r q. cJSON_PrintBuffered j prebuffer fmt oomf junk = Some (r, q) \<and>
    (r = None \<and> pb_blocks q = 0 \<or> map_option c_str r = Some (print_value fmt 0 j) \<and> pb_blocks q = 1)"
proof (cases "oomf 0")
  case True
  with assms show ?thesis by (simp add: cJSON_PrintBuffered_def fresh_buffer_def pb_malloc_def Let_def)
next
  case False
  define p where "p = (fresh_buffer fmt True oomf junk)\<lparr>pb_calls := 1, pb_blocks := 1, pb_buffer := Some (map (junk 0) [0..<nat prebuffer])\<rparr>"
  have p: "ready p 0 []" "pb_format p = fmt" "pb_blocks p = 1" "\<not> pb_noalloc p"
    by (simp_all add: p_def fresh_buffer_def ready_def)
  have e: "cJSON_PrintBuffered j prebuffer fmt oomf junk =
      print_value_buf p j \<bind> (\<lambda>(ok, p). if ok then Some (pb_buffer p, p)
        else if pb_buffer p = None then Some (None, p)
        else pb_free p \<bind> (\<lambda>p. Some (None, p\<lparr>pb_buffer := None\<rparr>)))"
    using False assms unfolding cJSON_PrintBuffered_def p_def
    by (simp add: pb_malloc_def fresh_buffer_def Let_def cong: if_cong)
  obtain ok q where q: "print_value_buf p j = Some (ok, q)" "if ok then same p q \<and> printed q 0 (print_value fmt 0 j)
      else \<not> (fits p (length (print_value fmt 0 j)) \<and> short_numbers j) \<and> stopped p q"
    using print_value_buf_run [OF p(1), of j] unfolding p(2) by blast
  show ?thesis
  proof (cases ok)
    case True
    then have s: "printed q 0 (print_value fmt 0 j)" "pb_blocks q = 1" using q(2) p by (simp_all add: same_def)
    then show ?thesis using q(1) True printed_text by (auto simp: e)
  next
    case no: False
    then have "stopped p q" using q(2) by simp
    then show ?thesis using q(1) no p(3) by (auto simp: e stopped_def pb_free_def split: if_splits)
  qed
qed

text \<open>C17: \<open>cJSON_PrintPreallocated\<close> never touches a byte outside the \<open>n\<close> bytes it was given: the rest of
  the caller's memory is as before; when it succeeds the buffer holds the text as a C string, and it
  succeeds whenever the buffer has two bytes more than the text (the header asks for five).\<close>

theorem print_preallocated_bounds:
  assumes n: "0 \<le> n" "nat n \<le> length b" "n \<le> INT_MAX"
  shows "\<exists>ok b'. cJSON_PrintPreallocated j (Some b) n fmt = Some (ok, Some b') \<and>
    length b' = length b \<and> drop (nat n) b' = drop (nat n) b \<and>
    (ok \<longrightarrow> c_str b' = print_value fmt 0 j \<and> length (print_value fmt 0 j) < nat n) \<and>
    (short_numbers j \<and> length (print_value fmt 0 j) + 2 \<le> nat n \<longrightarrow> ok)"
proof -
  define p where "p = (fresh_buffer fmt True (\<lambda>_. True) (\<lambda>_ _. NUL))\<lparr>pb_buffer := Some (take (nat n) b), pb_noalloc := True\<rparr>"
  define t where "t = print_value fmt 0 j"
  have p: "ready p 0 []" "pb_format p = fmt" "pb_noalloc p" "blen p = nat n"
    using n by (simp_all add: p_def fresh_buffer_def ready_def blen_def)
  obtain ok q where q: "print_value_buf p j = Some (ok, q)" "if ok then same p q \<and> printed q 0 t
      else \<not> (fits p (length t) \<and> short_numbers j) \<and> stopped p q"
    using print_value_buf_run [OF p(1), of j] unfolding p(2) t_def by blast
  have "pb_buffer q \<noteq> None \<and> blen q = nat n"
    using q(2) p by (cases ok) (auto simp: same_def stopped_def printed_def split: if_splits)
  then obtain x where x: "pb_buffer q = Some x" "length x = nat n" by (auto simp: blen_def)
  have "cJSON_PrintPreallocated j (Some b) n fmt = Some (ok, Some (x @ drop (nat n) b))"
    using n q(1) x(1) unfolding cJSON_PrintPreallocated_def p_def by simp
  moreover have "length (x @ drop (nat n) b) = length b" "drop (nat n) (x @ drop (nat n) b) = drop (nat n) b"
    using x(2) n by simp_all
  moreover have "c_str (x @ drop (nat n) b) = t \<and> length t < nat n" if ok
  proof -
    have pr: "printed q 0 t" using q(2) that by simp
    then have "take (Suc (length t)) x = t @ [NUL]" "NUL \<notin> set t" using x(1) by (auto simp: printed_def)
    moreover from this(1) have "length t < length x" by (metis length_append_singleton length_take min.absorb_iff2 min.commute not_less_eq_eq not_le order_refl)
    ultimately show ?thesis using x(2) printed_text_string [of t x "drop (nat n) b"] by simp
  qed
  moreover have "ok" if "short_numbers j" "length t + 2 \<le> nat n"
    using q(2) that p(4) n(3) unfolding fits_def by (auto split: if_splits)
  ultimately show ?thesis unfolding t_def by blast
qed

theorem print_preallocated_bounds_witness:
  "\<exists>b'. cJSON_PrintPreallocated (JBool True) (Some (replicate 9 (CHR ''x''))) 6 False = Some (True, Some b') \<and>
     c_str b' = ''true'' \<and> drop 6 b' = ''xxx''"
proof -
  have "drop (nat 6) (replicate 9 (CHR ''x'')) = ''xxx''" by (simp add: drop_replicate eval_nat_numeral)
  then show ?thesis
    using print_preallocated_bounds [of 6 "replicate 9 (CHR ''x'')" "JBool True" False] by (auto simp: INT_MAX_def)
qed

end
