(* ===== verification/Json_Minify.thy ===== *)
theory Json_Minify
  imports Json_Props
begin

text \<open>
  \<open>cJSON_Minify\<close> of \<open>src/core/cJSON.c\<close> and its helpers: white space and comments are removed in place.
  The output never overtakes the input, so the function is one from the string read to the string
  left behind. Minifying the text of a value gives its unformatted text, unless a string in it ends
  with a backslash.
\<close>

section \<open>The code\<close>

text \<open>What is left of the input behind \<open>//\<close> and behind the opening of a comment.\<close>

fun skip_oneline_comment :: "string \<Rightarrow> string" where
  "skip_oneline_comment [] = []"
| "skip_oneline_comment (c # cs) = (if c = NL then cs else skip_oneline_comment cs)"

fun skip_multiline_comment :: "string \<Rightarrow> string" where
  "skip_multiline_comment [] = []"
| "skip_multiline_comment (c # cs) =
     (if c = CHR ''*'' \<and> take 1 cs = ''/'' then drop 1 cs else skip_multiline_comment cs)"

text \<open>The loop of \<open>minify_string\<close>: what it copies, and the rest of the input.\<close>

fun minify_string :: "string \<Rightarrow> string \<times> string" where
  "minify_string [] = ([], [])"
| "minify_string [c] = ([c], [])"
| "minify_string (c # d # ds) =
     (if c = DQ then ([DQ], d # ds)
      else if c = BSL \<and> d = DQ then (BSL # DQ # fst (minify_string ds), snd (minify_string ds))
      else (c # fst (minify_string (d # ds)), snd (minify_string (d # ds))))"

lemma skip_oneline_length: "length (skip_oneline_comment s) \<le> length s"
  by (induction s) auto

lemma skip_multiline_length: "length (skip_multiline_comment s) \<le> length s"
  by (induction s) auto

lemma minify_string_split: "fst (minify_string s) @ snd (minify_string s) = s"
  by (induction s rule: minify_string.induct) simp_all

lemma minify_string_length: "length (snd (minify_string s)) \<le> length s"
  by (metis minify_string_split length_append le_add2)

function cJSON_Minify :: "string \<Rightarrow> string" where
  "cJSON_Minify [] = []"
| "cJSON_Minify (c # cs) =
     (if c = SP \<or> c = TAB \<or> c = CR \<or> c = NL then cJSON_Minify cs
      else if c = CHR ''/'' then
        if take 1 cs = ''/'' then cJSON_Minify (skip_oneline_comment (drop 1 cs))
        else if take 1 cs = ''*'' then cJSON_Minify (skip_multiline_comment (drop 1 cs))
        else cJSON_Minify cs
      else if c = DQ then DQ # fst (minify_string cs) @ cJSON_Minify (snd (minify_string cs))
      else c # cJSON_Minify cs)"
  by pat_completeness auto
termination
  by (relation "measure length")
    (simp_all add: less_Suc_eq_le minify_string_length le_trans [OF skip_oneline_length] le_trans [OF skip_multiline_length])

section \<open>It never writes more than it read\<close>

lemma minify_length: "length (cJSON_Minify s) \<le> length s"
proof (induction s rule: cJSON_Minify.induct)
  case (2 c cs)
  have str: "length (fst (minify_string cs)) + length (snd (minify_string cs)) = length cs"
    using minify_string_split [of cs] by (metis length_append)
  note skip = skip_oneline_length [of "drop 1 cs"] skip_multiline_length [of "drop 1 cs"]
  consider "c = SP \<or> c = TAB \<or> c = CR \<or> c = NL" | "c = CHR ''/''" | "c = DQ"
    | "\<not> (c = SP \<or> c = TAB \<or> c = CR \<or> c = NL)" "c \<noteq> CHR ''/''" "c \<noteq> DQ" by blast
  then show ?case
  proof cases
    case 2
    then show ?thesis using "2.IH"(2-4) skip
      by (cases "take 1 cs = ''/''"; cases "take 1 cs = ''*''") simp_all
  next
    case 3
    then show ?thesis using "2.IH"(5) str by simp
  qed (use "2.IH"(1,6) in auto)
qed simp


section \<open>Minifying printed text\<close>

text \<open>\<open>x\<close> in front of any text becomes \<open>y\<close>, whatever follows.\<close>

definition minifies :: "string \<Rightarrow> string \<Rightarrow> bool" where
  "minifies x y \<longleftrightarrow> (\<forall>r. cJSON_Minify (x @ r) = y @ cJSON_Minify r)"

lemma minifies_Nil [simp]: "minifies [] []"
  by (simp add: minifies_def)

lemma minifies_append: "minifies x y \<Longrightarrow> minifies u v \<Longrightarrow> minifies (x @ u) (y @ v)"
  by (simp add: minifies_def)

definition kept :: "char \<Rightarrow> bool" where
  "kept c \<longleftrightarrow> c \<notin> {SP, TAB, CR, NL, CHR ''/'', DQ}"

lemma minifies_kept: "list_all kept x \<Longrightarrow> minifies x x"
proof (induction x)
  case (Cons c x)
  then show ?case by (auto simp: minifies_def kept_def)
qed simp

lemma minifies_space: "list_all (\<lambda>c. c \<in> {SP, TAB, CR, NL}) x \<Longrightarrow> minifies x []"
proof (induction x)
  case (Cons c x)
  then show ?case by (auto simp: minifies_def)
qed simp

lemma minifies_join:
  "minifies s t \<Longrightarrow> \<forall>x\<in>set xs. minifies (f x) (g x) \<Longrightarrow> minifies (join s (map f xs)) (join t (map g xs))"
proof (induction xs)
  case (Cons x xs)
  then show ?case by (cases xs) (simp_all add: minifies_append)
qed simp

text \<open>Strings: the end is found unless the last character is a backslash.\<close>

lemma minify_string_Cons:
  "c \<noteq> DQ \<Longrightarrow> c \<noteq> BSL \<or> take 1 r \<noteq> [DQ] \<Longrightarrow>
   minify_string (c # r) = (c # fst (minify_string r), snd (minify_string r))"
  by (cases r) auto

lemma minify_string_plain:
  "list_all (\<lambda>c. c \<noteq> DQ \<and> c \<noteq> BSL) x \<Longrightarrow>
   minify_string (x @ r) = (x @ fst (minify_string r), snd (minify_string r))"
  by (induction x) (simp_all add: minify_string_Cons)

definition ends_plain :: "string \<Rightarrow> bool" where
  "ends_plain s \<longleftrightarrow> s = [] \<or> last s \<noteq> BSL"

lemma escape_head: "take 1 (escape_char c @ x) \<noteq> [DQ]"
  by (auto simp: escape_char_def)

lemma hex_plain: "n < 16 \<Longrightarrow> ''0123456789abcdef'' ! n \<noteq> DQ \<and> ''0123456789abcdef'' ! n \<noteq> BSL"
proof -
  have "list_all (\<lambda>n. ''0123456789abcdef'' ! n \<noteq> DQ \<and> ''0123456789abcdef'' ! n \<noteq> BSL) [0..<16]" by code_simp
  then show "n < 16 \<Longrightarrow> ?thesis" unfolding list_all_iff by (metis atLeastLessThan_iff set_upt zero_le)
qed

text \<open>Any escape but that of a quote and of a backslash.\<close>

lemma escape_plain:
  assumes "c \<noteq> DQ" "c \<noteq> BSL"
  shows "escape_char c = [c] \<or>
    (\<exists>x xs. escape_char c = BSL # x # xs \<and> list_all (\<lambda>c. c \<noteq> DQ \<and> c \<noteq> BSL) (x # xs))"
proof -
  have "byte c div 16 < 16" "byte c mod 16 < 16" using byte_less [of c] by (simp_all add: less_mult_imp_div_less)
  then show ?thesis using assms hex_plain by (simp add: escape_char_def)
qed

lemma minify_string_escaped:
  "ends_plain s \<Longrightarrow> minify_string (concat (map escape_char s) @ DQ # r) = (concat (map escape_char s) @ [DQ], r)"
proof (induction s)
  case Nil
  then show ?case by (cases r) simp_all
next
  case (Cons c s)
  define x where "x = concat (map escape_char s) @ DQ # r"
  have IH: "minify_string x = (concat (map escape_char s) @ [DQ], r)" if "s \<noteq> [] \<or> c \<noteq> BSL"
    using Cons that by (auto simp: x_def ends_plain_def split: if_splits)
  consider "c = DQ" | "c = BSL" | "c \<noteq> DQ" "c \<noteq> BSL" by blast
  then have "minify_string (escape_char c @ x) = (escape_char c @ concat (map escape_char s) @ [DQ], r)"
  proof cases
    case 1
    then show ?thesis using IH by (simp add: escape_char_def)
  next
    case 2
    obtain d t where s: "s = d # t" using 2 Cons.prems by (cases s) (auto simp: ends_plain_def)
    have "take 1 x \<noteq> [DQ]" unfolding x_def s using escape_head [of d] by (simp only: list.map concat.simps append_assoc not_False_eq_True)
    then show ?thesis using 2 IH s by (simp add: escape_char_def minify_string_Cons)
  next
    case 3
    from escape_plain [OF this] show ?thesis
    proof (elim disjE exE conjE)
      assume "escape_char c = [c]"
      then show ?thesis using 3 IH by (simp add: minify_string_Cons)
    next
      fix y ys
      assume e: "escape_char c = BSL # y # ys" "list_all (\<lambda>c. c \<noteq> DQ \<and> c \<noteq> BSL) (y # ys)"
      have "minify_string (BSL # (y # ys) @ x) = (BSL # (y # ys) @ concat (map escape_char s) @ [DQ], r)"
        using e(2) IH 3 minify_string_plain [OF e(2), of x] by (simp add: minify_string_Cons)
      then show ?thesis by (simp add: e(1))
    qed
  qed
  then show ?case by (simp add: x_def)
qed

lemma minifies_string: "ends_plain s \<Longrightarrow> minifies (print_string s) (print_string s)"
  by (simp add: minifies_def print_string_def minify_string_escaped)

lemma minifies_number: "minifies (print_number d) (print_number d)"
proof -
  have "kept c" if "number_char c" for c using that by (auto simp: kept_def number_char_def isdigit_def byte_def)
  then show ?thesis using print_number_chars [of d]
    by (intro minifies_kept) (auto simp: list_all_iff kept_def)
qed

fun plain_ends :: "json \<Rightarrow> bool" where
  "plain_ends (JString s) \<longleftrightarrow> ends_plain s"
| "plain_ends (JArray vs) \<longleftrightarrow> list_all plain_ends vs"
| "plain_ends (JObject ms) \<longleftrightarrow> list_all (\<lambda>m. ends_plain (fst m) \<and> plain_ends (snd m)) ms"
| "plain_ends _ \<longleftrightarrow> True"

lemma minifies_value: "plain_ends j \<Longrightarrow> minifies (print_value fmt d j) (print_value False e j)"
proof (induction j arbitrary: d e)
  case (JArray vs)
  have "minifies (if fmt then '', '' else '','') '',''"
    using minifies_append [of "'',''" "'',''" "'' ''" "[]"] minifies_kept [of "'',''"] minifies_space [of "'' ''"]
    by (simp add: kept_def)
  then have "minifies (join (if fmt then '', '' else '','') (map (print_value fmt (Suc d)) vs))
      (join '','' (map (print_value False (Suc e)) vs))"
    using JArray by (intro minifies_join) (auto simp: list_all_iff)
  then have "minifies (''['' @ join (if fmt then '', '' else '','') (map (print_value fmt (Suc d)) vs) @ '']'')
      (''['' @ join '','' (map (print_value False (Suc e)) vs) @ '']'')"
    by (intro minifies_append minifies_kept) (simp_all add: kept_def)
  then show ?case by simp
next
  case (JObject ms)
  define nl where "nl = (if fmt then [NL] else [])"
  define tabs where "tabs = (\<lambda>n. if fmt then replicate n TAB else [])"
  have nl: "minifies nl []" by (rule minifies_space) (simp add: nl_def)
  have tabs: "minifies (tabs n) []" for n by (rule minifies_space) (simp add: tabs_def list_all_iff)
  have colon: "minifies (if fmt then '':'' @ [TAB] else '':'') '':''"
    using minifies_append [of "'':''" "'':''" "[TAB]" "[]"] minifies_kept [of "'':''"] minifies_space [of "[TAB]"]
    by (simp add: kept_def)
  have k: "minifies ''{'' ''{''" "minifies ''}'' ''}''" "minifies '','' '',''"
    by (rule minifies_kept, simp add: kept_def)+
  have m: "minifies (tabs (Suc d) @ print_string (fst m) @ (if fmt then '':'' @ [TAB] else '':'') @ print_value fmt (Suc d) (snd m))
      ([] @ print_string (fst m) @ '':'' @ print_value False (Suc e) (snd m))" if mm: "m \<in> set ms" for m
  proof (intro minifies_append tabs colon)
    have p: "ends_plain (fst m)" "plain_ends (snd m)" using JObject.prems mm by (simp_all add: list_all_iff)
    then show "minifies (print_string (fst m)) (print_string (fst m))" by (intro minifies_string)
    show "minifies (print_value fmt (Suc d) (snd m)) (print_value False (Suc e) (snd m))"
      by (rule JObject.IH [OF mm _ p(2)]) (simp add: snds.simps)
  qed
  have "minifies (''{'' @ nl @ join ('','' @ nl)
       (map (\<lambda>m. tabs (Suc d) @ print_string (fst m) @ (if fmt then '':'' @ [TAB] else '':'') @ print_value fmt (Suc d) (snd m)) ms) @
       (if ms = [] then [] else nl) @ tabs d @ ''}'')
     (''{'' @ [] @ join ('','' @ []) (map (\<lambda>m. [] @ print_string (fst m) @ '':'' @ print_value False (Suc e) (snd m)) ms) @ [] @ [] @ ''}'')"
    by (intro minifies_append minifies_join ballI k nl tabs m) (use nl in auto)
  then show ?case by (cases "ms = []"; cases fmt) (simp_all add: Let_def nl_def tabs_def)
qed (use minifies_string minifies_number minifies_kept in \<open>auto simp: kept_def\<close>)

theorem minify_print: "plain_ends j \<Longrightarrow> cJSON_Minify (print_value fmt d j) = print_value False 0 j"
proof -
  assume "plain_ends j"
  then have "cJSON_Minify (print_value fmt d j @ []) = print_value False 0 j @ cJSON_Minify []"
    using minifies_value unfolding minifies_def by blast
  then show ?thesis by simp
qed

text \<open>A string that ends with a backslash: the space behind it, outside the string, is not removed.\<close>

lemma minify_print_backslash:
  "cJSON_Minify (cJSON_Print (JArray [JString [BSL], JNull])) \<noteq> cJSON_PrintUnformatted (JArray [JString [BSL], JNull])"
  by (simp add: print_string_def escape_char_def byte_def)

end
