(* ===== verification/Json_Heap.thy ===== *)
theory Json_Heap
  imports Json "HOL-Library.Monad_Syntax"
begin

unbundle bit_operations_syntax

text \<open>
  Model of the items of \<open>src/core/cJSON.c\<close> as the code keeps them: structs in a heap that are linked
  by \<open>next\<close>, \<open>prev\<close> and \<open>child\<close>, with strings that are allocated and released on their own. The
  theory holds the heap and every function of the library that creates, links, unlinks, copies or
  releases items; \<open>Json_Heap_Props\<close> relates them to the values of \<open>Json\<close>.

  A pointer is an address or NULL. An operation returns \<open>None\<close> when it dereferences NULL or memory
  that is not allocated (never or no longer), releases memory twice, or does not end. The
  allocation with number \<open>k\<close> fails when \<open>oom h k\<close>, so every failure of \<open>malloc\<close> is covered.
\<close>

section \<open>The heap\<close>

type_synonym addr = nat
type_synonym ptr = "addr option"

text \<open>\<open>struct cJSON\<close>\<close>

record cjson =
  i_next :: ptr
  i_prev :: ptr
  i_child :: ptr
  i_type :: "32 word"
  i_valuestring :: ptr
  i_valueint :: int
  i_valuedouble :: double
  i_string :: ptr

text \<open>The items and strings that are allocated, and the number of allocations asked for so far.\<close>

record heap =
  items :: "addr \<Rightarrow> cjson option"
  strs :: "addr \<Rightarrow> string option"
  brk :: nat
  oom :: "nat \<Rightarrow> bool"

abbreviation cJSON_Invalid :: "32 word" where "cJSON_Invalid \<equiv> 0"
abbreviation cJSON_False :: "32 word" where "cJSON_False \<equiv> 1"
abbreviation cJSON_True :: "32 word" where "cJSON_True \<equiv> 2"
abbreviation cJSON_NULL :: "32 word" where "cJSON_NULL \<equiv> 4"
abbreviation cJSON_Number :: "32 word" where "cJSON_Number \<equiv> 8"
abbreviation cJSON_String :: "32 word" where "cJSON_String \<equiv> 16"
abbreviation cJSON_Array :: "32 word" where "cJSON_Array \<equiv> 32"
abbreviation cJSON_Object :: "32 word" where "cJSON_Object \<equiv> 64"
abbreviation cJSON_Raw :: "32 word" where "cJSON_Raw \<equiv> 128"
abbreviation cJSON_IsReference :: "32 word" where "cJSON_IsReference \<equiv> 256"
abbreviation cJSON_StringIsConst :: "32 word" where "cJSON_StringIsConst \<equiv> 512"

definition is_reference :: "cjson \<Rightarrow> bool" where
  "is_reference n \<longleftrightarrow> i_type n AND cJSON_IsReference \<noteq> 0"

definition string_is_const :: "cjson \<Rightarrow> bool" where
  "string_is_const n \<longleftrightarrow> i_type n AND cJSON_StringIsConst \<noteq> 0"

text \<open>Reading and writing a struct, reading a string, and \<open>free\<close>.\<close>

definition deref :: "heap \<Rightarrow> ptr \<Rightarrow> cjson option" where
  "deref h p = (case p of None \<Rightarrow> None | Some a \<Rightarrow> items h a)"

definition modify :: "heap \<Rightarrow> ptr \<Rightarrow> (cjson \<Rightarrow> cjson) \<Rightarrow> heap option" where
  "modify h p f = (case p of None \<Rightarrow> None
     | Some a \<Rightarrow> (case items h a of None \<Rightarrow> None | Some n \<Rightarrow> Some (h\<lparr>items := (items h)(a \<mapsto> f n)\<rparr>)))"

definition str_at :: "heap \<Rightarrow> ptr \<Rightarrow> string option" where
  "str_at h p = (case p of None \<Rightarrow> None | Some a \<Rightarrow> strs h a)"

definition free_item :: "heap \<Rightarrow> ptr \<Rightarrow> heap option" where
  "free_item h p = (case p of None \<Rightarrow> Some h
     | Some a \<Rightarrow> if items h a = None then None else Some (h\<lparr>items := (items h)(a := None)\<rparr>))"

definition free_str :: "heap \<Rightarrow> ptr \<Rightarrow> heap option" where
  "free_str h p = (case p of None \<Rightarrow> Some h
     | Some a \<Rightarrow> if strs h a = None then None else Some (h\<lparr>strs := (strs h)(a := None)\<rparr>))"

definition zero_item :: cjson where
  "zero_item = \<lparr>i_next = None, i_prev = None, i_child = None, i_type = cJSON_Invalid,
     i_valuestring = None, i_valueint = 0, i_valuedouble = Fin 0, i_string = None\<rparr>"

definition cJSON_New_Item :: "heap \<Rightarrow> ptr \<times> heap" where
  "cJSON_New_Item h =
     (let a = brk h; h' = h\<lparr>brk := Suc a\<rparr>
      in if oom h a then (None, h') else (Some a, h'\<lparr>items := (items h)(a \<mapsto> zero_item)\<rparr>))"

definition cJSON_strdup :: "heap \<Rightarrow> ptr \<Rightarrow> (ptr \<times> heap) option" where
  "cJSON_strdup h p =
     (if p = None then Some (None, h)
      else do {
        s \<leftarrow> str_at h p;
        Some (let a = brk h; h' = h\<lparr>brk := Suc a\<rparr>
              in if oom h a then (None, h') else (Some a, h'\<lparr>strs := (strs h)(a \<mapsto> s)\<rparr>)) })"

text \<open>\<open>cJSON_Delete\<close>: the item, what hangs below it, and its siblings to the right.\<close>

partial_function (option) cJSON_Delete :: "heap \<Rightarrow> ptr \<Rightarrow> heap option" where
  [code]: "cJSON_Delete h item =
     (if item = None then Some h
      else do {
        n \<leftarrow> deref h item;
        h \<leftarrow> (if \<not> is_reference n \<and> i_child n \<noteq> None then cJSON_Delete h (i_child n) else Some h);
        n \<leftarrow> deref h item;
        h \<leftarrow> (if \<not> is_reference n \<and> i_valuestring n \<noteq> None
              then do { h \<leftarrow> free_str h (i_valuestring n); modify h item (i_valuestring_update (\<lambda>_. None)) }
              else Some h);
        n \<leftarrow> deref h item;
        h \<leftarrow> (if \<not> string_is_const n \<and> i_string n \<noteq> None
              then do { h \<leftarrow> free_str h (i_string n); modify h item (i_string_update (\<lambda>_. None)) }
              else Some h);
        h \<leftarrow> free_item h item;
        cJSON_Delete h (i_next n) })"

section \<open>Predicates and values\<close>

definition item_is :: "heap \<Rightarrow> ptr \<Rightarrow> (32 word \<Rightarrow> bool) \<Rightarrow> bool option" where
  "item_is h p test = (if p = None then Some False else map_option (\<lambda>n. test (i_type n)) (deref h p))"

definition cJSON_IsInvalid :: "heap \<Rightarrow> ptr \<Rightarrow> bool option" where
  "cJSON_IsInvalid h p = item_is h p (\<lambda>t. t AND 0xFF = cJSON_Invalid)"

definition cJSON_IsFalse :: "heap \<Rightarrow> ptr \<Rightarrow> bool option" where
  "cJSON_IsFalse h p = item_is h p (\<lambda>t. t AND 0xFF = cJSON_False)"

definition cJSON_IsTrue_h :: "heap \<Rightarrow> ptr \<Rightarrow> bool option" where
  "cJSON_IsTrue_h h p = item_is h p (\<lambda>t. t AND 0xFF = cJSON_True)"

definition cJSON_IsBool :: "heap \<Rightarrow> ptr \<Rightarrow> bool option" where
  "cJSON_IsBool h p = item_is h p (\<lambda>t. t AND (cJSON_True OR cJSON_False) \<noteq> 0)"

definition cJSON_IsNull :: "heap \<Rightarrow> ptr \<Rightarrow> bool option" where
  "cJSON_IsNull h p = item_is h p (\<lambda>t. t AND 0xFF = cJSON_NULL)"

definition cJSON_IsNumber_h :: "heap \<Rightarrow> ptr \<Rightarrow> bool option" where
  "cJSON_IsNumber_h h p = item_is h p (\<lambda>t. t AND 0xFF = cJSON_Number)"

definition cJSON_IsString_h :: "heap \<Rightarrow> ptr \<Rightarrow> bool option" where
  "cJSON_IsString_h h p = item_is h p (\<lambda>t. t AND 0xFF = cJSON_String)"

definition cJSON_IsArray_h :: "heap \<Rightarrow> ptr \<Rightarrow> bool option" where
  "cJSON_IsArray_h h p = item_is h p (\<lambda>t. t AND 0xFF = cJSON_Array)"

definition cJSON_IsObject :: "heap \<Rightarrow> ptr \<Rightarrow> bool option" where
  "cJSON_IsObject h p = item_is h p (\<lambda>t. t AND 0xFF = cJSON_Object)"

definition cJSON_IsRaw :: "heap \<Rightarrow> ptr \<Rightarrow> bool option" where
  "cJSON_IsRaw h p = item_is h p (\<lambda>t. t AND 0xFF = cJSON_Raw)"

definition cJSON_GetStringValue_h :: "heap \<Rightarrow> ptr \<Rightarrow> ptr option" where
  "cJSON_GetStringValue_h h p = do {
     is \<leftarrow> cJSON_IsString_h h p;
     if is then map_option i_valuestring (deref h p) else Some None }"

text \<open>NaN is the inner \<open>None\<close>.\<close>

definition cJSON_GetNumberValue :: "heap \<Rightarrow> ptr \<Rightarrow> double option option" where
  "cJSON_GetNumberValue h p = do {
     is \<leftarrow> cJSON_IsNumber_h h p;
     if is then map_option (\<lambda>n. Some (i_valuedouble n)) (deref h p) else Some None }"

section \<open>Changing values\<close>

definition cJSON_SetNumberHelper :: "heap \<Rightarrow> ptr \<Rightarrow> double \<Rightarrow> (double \<times> heap) option" where
  "cJSON_SetNumberHelper h object number = do {
     h \<leftarrow> modify h object (\<lambda>n. n\<lparr>i_valueint := double_to_int number, i_valuedouble := number\<rparr>);
     Some (number, h) }"

text \<open>Two strings overlap only if they are the same block.\<close>

definition cJSON_SetValuestring :: "heap \<Rightarrow> ptr \<Rightarrow> ptr \<Rightarrow> (ptr \<times> heap) option" where
  "cJSON_SetValuestring h object valuestring =
     (if object = None then Some (None, h)
      else do {
        n \<leftarrow> deref h object;
        if i_type n AND cJSON_String = 0 \<or> is_reference n then Some (None, h)
        else case (i_valuestring n, valuestring) of
          (Some b, Some v) \<Rightarrow> do {
            s \<leftarrow> str_at h valuestring;
            t \<leftarrow> str_at h (i_valuestring n);
            if length s \<le> length t then
              if v = b then Some (None, h) else Some (Some b, h\<lparr>strs := (strs h)(b \<mapsto> s)\<rparr>)
            else do {
              (copy, h) \<leftarrow> cJSON_strdup h valuestring;
              if copy = None then Some (None, h)
              else do {
                h \<leftarrow> free_str h (Some b);
                h \<leftarrow> modify h object (i_valuestring_update (\<lambda>_. copy));
                Some (copy, h) } } }
        | _ \<Rightarrow> Some (None, h) })"

section \<open>Creating items\<close>

definition create_typed :: "32 word \<Rightarrow> heap \<Rightarrow> ptr \<times> heap" where
  "create_typed t h =
     (case cJSON_New_Item h of
        (None, h) \<Rightarrow> (None, h)
      | (Some a, h) \<Rightarrow> (Some a, h\<lparr>items := (items h)(a \<mapsto> zero_item\<lparr>i_type := t\<rparr>)\<rparr>))"

definition cJSON_CreateNull :: "heap \<Rightarrow> (ptr \<times> heap) option" where
  "cJSON_CreateNull h = Some (create_typed cJSON_NULL h)"

definition cJSON_CreateTrue :: "heap \<Rightarrow> (ptr \<times> heap) option" where
  "cJSON_CreateTrue h = Some (create_typed cJSON_True h)"

definition cJSON_CreateFalse :: "heap \<Rightarrow> (ptr \<times> heap) option" where
  "cJSON_CreateFalse h = Some (create_typed cJSON_False h)"

definition cJSON_CreateBool :: "bool \<Rightarrow> heap \<Rightarrow> (ptr \<times> heap) option" where
  "cJSON_CreateBool b h = Some (create_typed (if b then cJSON_True else cJSON_False) h)"

definition cJSON_CreateArray :: "heap \<Rightarrow> (ptr \<times> heap) option" where
  "cJSON_CreateArray h = Some (create_typed cJSON_Array h)"

definition cJSON_CreateObject :: "heap \<Rightarrow> (ptr \<times> heap) option" where
  "cJSON_CreateObject h = Some (create_typed cJSON_Object h)"

definition cJSON_CreateNumber :: "double \<Rightarrow> heap \<Rightarrow> (ptr \<times> heap) option" where
  "cJSON_CreateNumber num h =
     (case create_typed cJSON_Number h of
        (None, h) \<Rightarrow> Some (None, h)
      | (Some a, h) \<Rightarrow> do {
          h \<leftarrow> modify h (Some a) (\<lambda>n. n\<lparr>i_valuedouble := num, i_valueint := double_to_int num\<rparr>);
          Some (Some a, h) })"

definition create_text :: "32 word \<Rightarrow> ptr \<Rightarrow> heap \<Rightarrow> (ptr \<times> heap) option" where
  "create_text t s h =
     (case create_typed t h of
        (None, h) \<Rightarrow> Some (None, h)
      | (Some a, h) \<Rightarrow> do {
          (v, h) \<leftarrow> cJSON_strdup h s;
          h \<leftarrow> modify h (Some a) (i_valuestring_update (\<lambda>_. v));
          if v = None then do { h \<leftarrow> cJSON_Delete h (Some a); Some (None, h) }
          else Some (Some a, h) })"

definition cJSON_CreateString :: "ptr \<Rightarrow> heap \<Rightarrow> (ptr \<times> heap) option" where
  "cJSON_CreateString s h = create_text cJSON_String s h"

definition cJSON_CreateRaw :: "ptr \<Rightarrow> heap \<Rightarrow> (ptr \<times> heap) option" where
  "cJSON_CreateRaw raw h = create_text cJSON_Raw raw h"

definition create_ref :: "32 word \<Rightarrow> (cjson \<Rightarrow> cjson) \<Rightarrow> heap \<Rightarrow> (ptr \<times> heap) option" where
  "create_ref t f h =
     (case create_typed (t OR cJSON_IsReference) h of
        (None, h) \<Rightarrow> Some (None, h)
      | (Some a, h) \<Rightarrow> do { h \<leftarrow> modify h (Some a) f; Some (Some a, h) })"

definition cJSON_CreateStringReference :: "ptr \<Rightarrow> heap \<Rightarrow> (ptr \<times> heap) option" where
  "cJSON_CreateStringReference s h = create_ref cJSON_String (i_valuestring_update (\<lambda>_. s)) h"

definition cJSON_CreateObjectReference :: "ptr \<Rightarrow> heap \<Rightarrow> (ptr \<times> heap) option" where
  "cJSON_CreateObjectReference c h = create_ref cJSON_Object (i_child_update (\<lambda>_. c)) h"

definition cJSON_CreateArrayReference :: "ptr \<Rightarrow> heap \<Rightarrow> (ptr \<times> heap) option" where
  "cJSON_CreateArrayReference c h = create_ref cJSON_Array (i_child_update (\<lambda>_. c)) h"

section \<open>Reading the children of an item\<close>

text \<open>The loops follow the chain of \<open>next\<close> pointers.\<close>

partial_function (option) chain_size :: "heap \<Rightarrow> ptr \<Rightarrow> nat option" where
  [code]: "chain_size h child =
     (if child = None then Some 0
      else do { n \<leftarrow> deref h child; k \<leftarrow> chain_size h (i_next n); Some (Suc k) })"

definition cJSON_GetArraySize_h :: "heap \<Rightarrow> ptr \<Rightarrow> nat option" where
  "cJSON_GetArraySize_h h array =
     (if array = None then Some 0 else do { n \<leftarrow> deref h array; chain_size h (i_child n) })"

fun chain_nth :: "heap \<Rightarrow> ptr \<Rightarrow> nat \<Rightarrow> ptr option" where
  "chain_nth h p 0 = Some p"
| "chain_nth h p (Suc i) =
     (if p = None then Some None else do { n \<leftarrow> deref h p; chain_nth h (i_next n) i })"

definition get_array_item :: "heap \<Rightarrow> ptr \<Rightarrow> nat \<Rightarrow> ptr option" where
  "get_array_item h array index =
     (if array = None then Some None else do { n \<leftarrow> deref h array; chain_nth h (i_child n) index })"

definition cJSON_GetArrayItem_h :: "heap \<Rightarrow> ptr \<Rightarrow> int \<Rightarrow> ptr option" where
  "cJSON_GetArrayItem_h h array index =
     (if index < 0 then Some None else get_array_item h array (nat index))"

text \<open>\<open>case_insensitive_strcmp (a, b) == 0\<close>\<close>

definition case_insensitive_equal :: "heap \<Rightarrow> ptr \<Rightarrow> ptr \<Rightarrow> bool option" where
  "case_insensitive_equal h p q =
     (if p = None \<or> q = None then Some False
      else if p = q then Some True
      else do { s \<leftarrow> str_at h p; t \<leftarrow> str_at h q; Some (strcasecmp_eq s t) })"

definition names_differ :: "heap \<Rightarrow> bool \<Rightarrow> ptr \<Rightarrow> ptr \<Rightarrow> bool option" where
  "names_differ h case_sensitive name key =
     (if case_sensitive then
        (if key = None then Some False
         else do { s \<leftarrow> str_at h name; t \<leftarrow> str_at h key; Some (s \<noteq> t) })
      else map_option Not (case_insensitive_equal h name key))"

partial_function (option) chain_find :: "heap \<Rightarrow> bool \<Rightarrow> ptr \<Rightarrow> ptr \<Rightarrow> ptr option" where
  [code]: "chain_find h case_sensitive name p =
     (if p = None then Some None
      else do {
        n \<leftarrow> deref h p;
        d \<leftarrow> names_differ h case_sensitive name (i_string n);
        if d then chain_find h case_sensitive name (i_next n) else Some p })"

definition get_object_item :: "heap \<Rightarrow> ptr \<Rightarrow> ptr \<Rightarrow> bool \<Rightarrow> ptr option" where
  "get_object_item h object name case_sensitive =
     (if object = None \<or> name = None then Some None
      else do {
        ob \<leftarrow> deref h object;
        p \<leftarrow> chain_find h case_sensitive name (i_child ob);
        if p = None then Some None
        else do { n \<leftarrow> deref h p; Some (if i_string n = None then None else p) } })"

definition cJSON_GetObjectItem_h :: "heap \<Rightarrow> ptr \<Rightarrow> ptr \<Rightarrow> ptr option" where
  "cJSON_GetObjectItem_h h object name = get_object_item h object name False"

definition cJSON_GetObjectItemCaseSensitive :: "heap \<Rightarrow> ptr \<Rightarrow> ptr \<Rightarrow> ptr option" where
  "cJSON_GetObjectItemCaseSensitive h object name = get_object_item h object name True"

definition cJSON_HasObjectItem :: "heap \<Rightarrow> ptr \<Rightarrow> ptr \<Rightarrow> bool option" where
  "cJSON_HasObjectItem h object name = map_option (\<lambda>p. p \<noteq> None) (cJSON_GetObjectItem_h h object name)"

section \<open>Adding items\<close>

definition suffix_object :: "heap \<Rightarrow> ptr \<Rightarrow> ptr \<Rightarrow> heap option" where
  "suffix_object h prev item = do {
     h \<leftarrow> modify h prev (i_next_update (\<lambda>_. item));
     modify h item (i_prev_update (\<lambda>_. prev)) }"

definition create_reference :: "heap \<Rightarrow> ptr \<Rightarrow> (ptr \<times> heap) option" where
  "create_reference h item =
     (if item = None then Some (None, h)
      else case cJSON_New_Item h of
        (None, h) \<Rightarrow> Some (None, h)
      | (Some r, h) \<Rightarrow> do {
          n \<leftarrow> deref h item;
          h \<leftarrow> modify h (Some r) (\<lambda>_. n\<lparr>i_string := None, i_type := i_type n OR cJSON_IsReference,
                                       i_next := None, i_prev := None\<rparr>);
          Some (Some r, h) })"

definition add_item_to_array :: "heap \<Rightarrow> ptr \<Rightarrow> ptr \<Rightarrow> (bool \<times> heap) option" where
  "add_item_to_array h array item =
     (if item = None \<or> array = None \<or> array = item then Some (False, h)
      else do {
        a \<leftarrow> deref h array;
        h \<leftarrow> (if i_child a = None then do {
               h \<leftarrow> modify h array (i_child_update (\<lambda>_. item));
               h \<leftarrow> modify h item (i_prev_update (\<lambda>_. item));
               modify h item (i_next_update (\<lambda>_. None)) }
             else do {
               c \<leftarrow> deref h (i_child a);
               if i_prev c \<noteq> None then do {
                 h \<leftarrow> suffix_object h (i_prev c) item;
                 a \<leftarrow> deref h array;
                 modify h (i_child a) (i_prev_update (\<lambda>_. item)) }
               else Some h });
        Some (True, h) })"

definition cJSON_AddItemToArray_h :: "heap \<Rightarrow> ptr \<Rightarrow> ptr \<Rightarrow> (bool \<times> heap) option" where
  "cJSON_AddItemToArray_h h array item = add_item_to_array h array item"

definition add_item_to_object :: "heap \<Rightarrow> ptr \<Rightarrow> ptr \<Rightarrow> ptr \<Rightarrow> bool \<Rightarrow> (bool \<times> heap) option" where
  "add_item_to_object h object string item constant_key =
     (if object = None \<or> string = None \<or> item = None \<or> object = item then Some (False, h)
      else do {
        n \<leftarrow> deref h item;
        (new_key, new_type, h) \<leftarrow>
          (if constant_key then Some (string, i_type n OR cJSON_StringIsConst, h)
           else do {
             (k, h) \<leftarrow> cJSON_strdup h string;
             Some (k, i_type n AND NOT cJSON_StringIsConst, h) });
        if new_key = None then Some (False, h)
        else do {
          h \<leftarrow> (if \<not> string_is_const n \<and> i_string n \<noteq> None then free_str h (i_string n) else Some h);
          h \<leftarrow> modify h item (\<lambda>n. n\<lparr>i_string := new_key, i_type := new_type\<rparr>);
          add_item_to_array h object item } })"

definition cJSON_AddItemToObject_h :: "heap \<Rightarrow> ptr \<Rightarrow> ptr \<Rightarrow> ptr \<Rightarrow> (bool \<times> heap) option" where
  "cJSON_AddItemToObject_h h object string item = add_item_to_object h object string item False"

definition cJSON_AddItemToObjectCS :: "heap \<Rightarrow> ptr \<Rightarrow> ptr \<Rightarrow> ptr \<Rightarrow> (bool \<times> heap) option" where
  "cJSON_AddItemToObjectCS h object string item = add_item_to_object h object string item True"

definition cJSON_AddItemReferenceToArray :: "heap \<Rightarrow> ptr \<Rightarrow> ptr \<Rightarrow> (bool \<times> heap) option" where
  "cJSON_AddItemReferenceToArray h array item =
     (if array = None then Some (False, h)
      else do { (r, h) \<leftarrow> create_reference h item; add_item_to_array h array r })"

definition cJSON_AddItemReferenceToObject :: "heap \<Rightarrow> ptr \<Rightarrow> ptr \<Rightarrow> ptr \<Rightarrow> (bool \<times> heap) option" where
  "cJSON_AddItemReferenceToObject h object string item =
     (if object = None \<or> string = None then Some (False, h)
      else do { (r, h) \<leftarrow> create_reference h item; add_item_to_object h object string r False })"

text \<open>The pattern of the nine functions that create an item and add it to an object.\<close>

definition add_created :: "(heap \<Rightarrow> (ptr \<times> heap) option) \<Rightarrow> heap \<Rightarrow> ptr \<Rightarrow> ptr \<Rightarrow> (ptr \<times> heap) option" where
  "add_created create h object name = do {
     (p, h) \<leftarrow> create h;
     (added, h) \<leftarrow> add_item_to_object h object name p False;
     if added then Some (p, h) else do { h \<leftarrow> cJSON_Delete h p; Some (None, h) } }"

definition cJSON_AddNullToObject :: "heap \<Rightarrow> ptr \<Rightarrow> ptr \<Rightarrow> (ptr \<times> heap) option" where
  "cJSON_AddNullToObject = add_created cJSON_CreateNull"

definition cJSON_AddTrueToObject :: "heap \<Rightarrow> ptr \<Rightarrow> ptr \<Rightarrow> (ptr \<times> heap) option" where
  "cJSON_AddTrueToObject = add_created cJSON_CreateTrue"

definition cJSON_AddFalseToObject :: "heap \<Rightarrow> ptr \<Rightarrow> ptr \<Rightarrow> (ptr \<times> heap) option" where
  "cJSON_AddFalseToObject = add_created cJSON_CreateFalse"

definition cJSON_AddBoolToObject :: "heap \<Rightarrow> ptr \<Rightarrow> ptr \<Rightarrow> bool \<Rightarrow> (ptr \<times> heap) option" where
  "cJSON_AddBoolToObject h object name b = add_created (cJSON_CreateBool b) h object name"

definition cJSON_AddNumberToObject :: "heap \<Rightarrow> ptr \<Rightarrow> ptr \<Rightarrow> double \<Rightarrow> (ptr \<times> heap) option" where
  "cJSON_AddNumberToObject h object name num = add_created (cJSON_CreateNumber num) h object name"

definition cJSON_AddStringToObject_h :: "heap \<Rightarrow> ptr \<Rightarrow> ptr \<Rightarrow> ptr \<Rightarrow> (ptr \<times> heap) option" where
  "cJSON_AddStringToObject_h h object name s = add_created (cJSON_CreateString s) h object name"

definition cJSON_AddRawToObject :: "heap \<Rightarrow> ptr \<Rightarrow> ptr \<Rightarrow> ptr \<Rightarrow> (ptr \<times> heap) option" where
  "cJSON_AddRawToObject h object name raw = add_created (cJSON_CreateRaw raw) h object name"

definition cJSON_AddObjectToObject :: "heap \<Rightarrow> ptr \<Rightarrow> ptr \<Rightarrow> (ptr \<times> heap) option" where
  "cJSON_AddObjectToObject = add_created cJSON_CreateObject"

definition cJSON_AddArrayToObject :: "heap \<Rightarrow> ptr \<Rightarrow> ptr \<Rightarrow> (ptr \<times> heap) option" where
  "cJSON_AddArrayToObject = add_created cJSON_CreateArray"

section \<open>Taking items out\<close>

definition cJSON_DetachItemViaPointer :: "heap \<Rightarrow> ptr \<Rightarrow> ptr \<Rightarrow> (ptr \<times> heap) option" where
  "cJSON_DetachItemViaPointer h parent item =
     (if parent = None \<or> item = None then Some (None, h)
      else do {
        p \<leftarrow> deref h parent;
        n \<leftarrow> deref h item;
        if item \<noteq> i_child p \<and> i_prev n = None then Some (None, h)
        else do {
          h \<leftarrow> (if item \<noteq> i_child p then modify h (i_prev n) (i_next_update (\<lambda>_. i_next n)) else Some h);
          n \<leftarrow> deref h item;
          h \<leftarrow> (if i_next n \<noteq> None then modify h (i_next n) (i_prev_update (\<lambda>_. i_prev n)) else Some h);
          p \<leftarrow> deref h parent;
          n \<leftarrow> deref h item;
          h \<leftarrow> (if item = i_child p then modify h parent (i_child_update (\<lambda>_. i_next n))
                else if i_next n = None then modify h (i_child p) (i_prev_update (\<lambda>_. i_prev n))
                else Some h);
          h \<leftarrow> modify h item (\<lambda>n. n\<lparr>i_prev := None, i_next := None\<rparr>);
          Some (item, h) } })"

definition cJSON_DetachItemFromArray :: "heap \<Rightarrow> ptr \<Rightarrow> int \<Rightarrow> (ptr \<times> heap) option" where
  "cJSON_DetachItemFromArray h array which =
     (if which < 0 then Some (None, h)
      else do { p \<leftarrow> get_array_item h array (nat which); cJSON_DetachItemViaPointer h array p })"

definition cJSON_DeleteItemFromArray :: "heap \<Rightarrow> ptr \<Rightarrow> int \<Rightarrow> heap option" where
  "cJSON_DeleteItemFromArray h array which = do {
     (p, h) \<leftarrow> cJSON_DetachItemFromArray h array which; cJSON_Delete h p }"

definition cJSON_DetachItemFromObject :: "heap \<Rightarrow> ptr \<Rightarrow> ptr \<Rightarrow> (ptr \<times> heap) option" where
  "cJSON_DetachItemFromObject h object string = do {
     p \<leftarrow> cJSON_GetObjectItem_h h object string; cJSON_DetachItemViaPointer h object p }"

definition cJSON_DetachItemFromObjectCaseSensitive :: "heap \<Rightarrow> ptr \<Rightarrow> ptr \<Rightarrow> (ptr \<times> heap) option" where
  "cJSON_DetachItemFromObjectCaseSensitive h object string = do {
     p \<leftarrow> cJSON_GetObjectItemCaseSensitive h object string; cJSON_DetachItemViaPointer h object p }"

definition cJSON_DeleteItemFromObject :: "heap \<Rightarrow> ptr \<Rightarrow> ptr \<Rightarrow> heap option" where
  "cJSON_DeleteItemFromObject h object string = do {
     (p, h) \<leftarrow> cJSON_DetachItemFromObject h object string; cJSON_Delete h p }"

definition cJSON_DeleteItemFromObjectCaseSensitive :: "heap \<Rightarrow> ptr \<Rightarrow> ptr \<Rightarrow> heap option" where
  "cJSON_DeleteItemFromObjectCaseSensitive h object string = do {
     (p, h) \<leftarrow> cJSON_DetachItemFromObjectCaseSensitive h object string; cJSON_Delete h p }"

section \<open>Inserting and replacing\<close>

definition cJSON_InsertItemInArray :: "heap \<Rightarrow> ptr \<Rightarrow> int \<Rightarrow> ptr \<Rightarrow> (bool \<times> heap) option" where
  "cJSON_InsertItemInArray h array which newitem =
     (if which < 0 \<or> newitem = None then Some (False, h)
      else do {
        after \<leftarrow> get_array_item h array (nat which);
        if after = None then add_item_to_array h array newitem
        else do {
          a \<leftarrow> deref h array;
          n \<leftarrow> deref h after;
          if after \<noteq> i_child a \<and> i_prev n = None then Some (False, h)
          else do {
            h \<leftarrow> modify h newitem (\<lambda>m. m\<lparr>i_next := after, i_prev := i_prev n\<rparr>);
            h \<leftarrow> modify h after (i_prev_update (\<lambda>_. newitem));
            h \<leftarrow> (if after = i_child a then modify h array (i_child_update (\<lambda>_. newitem))
                  else do { m \<leftarrow> deref h newitem; modify h (i_prev m) (i_next_update (\<lambda>_. newitem)) });
            Some (True, h) } } })"

definition cJSON_ReplaceItemViaPointer :: "heap \<Rightarrow> ptr \<Rightarrow> ptr \<Rightarrow> ptr \<Rightarrow> (bool \<times> heap) option" where
  "cJSON_ReplaceItemViaPointer h parent item replacement =
     (if parent = None then Some (False, h)
      else do {
        p \<leftarrow> deref h parent;
        if i_child p = None \<or> replacement = None \<or> item = None then Some (False, h)
        else if replacement = item then Some (True, h)
        else do {
          n \<leftarrow> deref h item;
          h \<leftarrow> modify h replacement (\<lambda>m. m\<lparr>i_next := i_next n, i_prev := i_prev n\<rparr>);
          r \<leftarrow> deref h replacement;
          h \<leftarrow> (if i_next r \<noteq> None then modify h (i_next r) (i_prev_update (\<lambda>_. replacement)) else Some h);
          p \<leftarrow> deref h parent;
          h \<leftarrow> (if i_child p = item then do {
                 c \<leftarrow> deref h (i_child p);
                 h \<leftarrow> (if i_prev c = i_child p then modify h replacement (i_prev_update (\<lambda>_. replacement))
                       else Some h);
                 modify h parent (i_child_update (\<lambda>_. replacement)) }
               else do {
                 r \<leftarrow> deref h replacement;
                 h \<leftarrow> (if i_prev r \<noteq> None then modify h (i_prev r) (i_next_update (\<lambda>_. replacement)) else Some h);
                 r \<leftarrow> deref h replacement;
                 if i_next r = None then modify h (i_child p) (i_prev_update (\<lambda>_. replacement)) else Some h });
          h \<leftarrow> modify h item (\<lambda>n. n\<lparr>i_next := None, i_prev := None\<rparr>);
          h \<leftarrow> cJSON_Delete h item;
          Some (True, h) } })"

definition cJSON_ReplaceItemInArray :: "heap \<Rightarrow> ptr \<Rightarrow> int \<Rightarrow> ptr \<Rightarrow> (bool \<times> heap) option" where
  "cJSON_ReplaceItemInArray h array which newitem =
     (if which < 0 then Some (False, h)
      else do { p \<leftarrow> get_array_item h array (nat which); cJSON_ReplaceItemViaPointer h array p newitem })"

definition replace_item_in_object :: "heap \<Rightarrow> ptr \<Rightarrow> ptr \<Rightarrow> ptr \<Rightarrow> bool \<Rightarrow> (bool \<times> heap) option" where
  "replace_item_in_object h object string replacement case_sensitive =
     (if replacement = None \<or> string = None then Some (False, h)
      else do {
        r \<leftarrow> deref h replacement;
        h \<leftarrow> (if \<not> string_is_const r \<and> i_string r \<noteq> None then free_str h (i_string r) else Some h);
        (k, h) \<leftarrow> cJSON_strdup h string;
        h \<leftarrow> modify h replacement (i_string_update (\<lambda>_. k));
        if k = None then Some (False, h)
        else do {
          h \<leftarrow> modify h replacement (i_type_update (\<lambda>t. t AND NOT cJSON_StringIsConst));
          p \<leftarrow> get_object_item h object string case_sensitive;
          cJSON_ReplaceItemViaPointer h object p replacement } })"

definition cJSON_ReplaceItemInObject :: "heap \<Rightarrow> ptr \<Rightarrow> ptr \<Rightarrow> ptr \<Rightarrow> (bool \<times> heap) option" where
  "cJSON_ReplaceItemInObject h object string newitem = replace_item_in_object h object string newitem False"

definition cJSON_ReplaceItemInObjectCaseSensitive :: "heap \<Rightarrow> ptr \<Rightarrow> ptr \<Rightarrow> ptr \<Rightarrow> (bool \<times> heap) option" where
  "cJSON_ReplaceItemInObjectCaseSensitive h object string newitem =
     replace_item_in_object h object string newitem True"

section \<open>Copying items\<close>

definition CJSON_CIRCULAR_LIMIT :: nat where "CJSON_CIRCULAR_LIMIT = 10000"

text \<open>\<open>goto fail\<close>\<close>

definition discard_item :: "heap \<Rightarrow> ptr \<Rightarrow> (ptr \<times> heap) option" where
  "discard_item h newitem = do { h \<leftarrow> cJSON_Delete h newitem; Some (None, h) }"

text \<open>
  The loop over the children: \<open>copy\<close> is the check of the depth and the recursive call, \<open>next\<close> the
  last child copied. The result says whether all were copied.
\<close>

partial_function (option) dup_children ::
  "(heap \<Rightarrow> ptr \<Rightarrow> (ptr \<times> heap) option) \<Rightarrow> heap \<Rightarrow> ptr \<Rightarrow> ptr \<Rightarrow> ptr \<Rightarrow> (bool \<times> ptr \<times> heap) option" where
  [code]: "dup_children copy h newitem child next =
     (if child = None then Some (True, next, h)
      else do {
        (newchild, h) \<leftarrow> copy h child;
        if newchild = None then Some (False, next, h)
        else do {
          h \<leftarrow> (if next \<noteq> None then do {
                 h \<leftarrow> modify h next (i_next_update (\<lambda>_. newchild));
                 modify h newchild (i_prev_update (\<lambda>_. next)) }
               else modify h newitem (i_child_update (\<lambda>_. newchild)));
          n \<leftarrow> deref h child;
          dup_children copy h newitem (i_next n) newchild } })"

function cJSON_Duplicate_rec :: "heap \<Rightarrow> ptr \<Rightarrow> nat \<Rightarrow> bool \<Rightarrow> (ptr \<times> heap) option" where
  "cJSON_Duplicate_rec h item depth recurse =
     (if item = None then Some (None, h)
      else case cJSON_New_Item h of
        (None, h) \<Rightarrow> Some (None, h)
      | (Some a, h) \<Rightarrow> do {
          n \<leftarrow> deref h item;
          h \<leftarrow> modify h (Some a) (\<lambda>m. m\<lparr>i_type := i_type n AND NOT cJSON_IsReference,
                 i_valueint := i_valueint n, i_valuedouble := i_valuedouble n\<rparr>);
          (s, h) \<leftarrow> cJSON_strdup h (i_valuestring n);
          h \<leftarrow> modify h (Some a) (i_valuestring_update (\<lambda>_. s));
          if i_valuestring n \<noteq> None \<and> s = None then discard_item h (Some a)
          else do {
            (k, h) \<leftarrow> (if string_is_const n then Some (i_string n, h) else cJSON_strdup h (i_string n));
            h \<leftarrow> modify h (Some a) (i_string_update (\<lambda>_. k));
            if i_string n \<noteq> None \<and> k = None then discard_item h (Some a)
            else if \<not> recurse then Some (Some a, h)
            else do {
              n \<leftarrow> deref h item;
              (done, newchild, h) \<leftarrow> dup_children
                (\<lambda>h c. if depth \<ge> CJSON_CIRCULAR_LIMIT then Some (None, h)
                        else cJSON_Duplicate_rec h c (Suc depth) True) h (Some a) (i_child n) None;
              if \<not> done then discard_item h (Some a)
              else do {
                m \<leftarrow> deref h (Some a);
                h \<leftarrow> (if i_child m \<noteq> None then modify h (i_child m) (i_prev_update (\<lambda>_. newchild)) else Some h);
                Some (Some a, h) } } } })"
  by pat_completeness auto
termination
  by (relation "measure (\<lambda>(h, item, depth, recurse). CJSON_CIRCULAR_LIMIT - depth)") auto

declare cJSON_Duplicate_rec.simps [simp del]

definition cJSON_Duplicate :: "heap \<Rightarrow> ptr \<Rightarrow> bool \<Rightarrow> (ptr \<times> heap) option" where
  "cJSON_Duplicate h item recurse = cJSON_Duplicate_rec h item 0 recurse"

section \<open>Creating arrays\<close>

text \<open>
  The loop of the four functions: \<open>create\<close> makes an element, \<open>p\<close> is the one made last. An array
  argument is \<open>None\<close> for NULL; reading past its end is undefined.
\<close>

fun create_elements ::
  "('a \<Rightarrow> heap \<Rightarrow> (ptr \<times> heap) option) \<Rightarrow> heap \<Rightarrow> ptr \<Rightarrow> ptr \<Rightarrow> 'a list \<Rightarrow> (bool \<times> ptr \<times> heap) option" where
  "create_elements create h a p [] = Some (True, p, h)"
| "create_elements create h a p (x # xs) = do {
     (n, h) \<leftarrow> create x h;
     if n = None then do { h \<leftarrow> cJSON_Delete h a; Some (False, None, h) }
     else do {
       h \<leftarrow> (if p = None then modify h a (i_child_update (\<lambda>_. n)) else suffix_object h p n);
       create_elements create h a n xs } }"

definition create_array_of ::
  "('a \<Rightarrow> heap \<Rightarrow> (ptr \<times> heap) option) \<Rightarrow> 'a list option \<Rightarrow> int \<Rightarrow> heap \<Rightarrow> (ptr \<times> heap) option" where
  "create_array_of create numbers count h =
     (case numbers of None \<Rightarrow> Some (None, h)
      | Some xs \<Rightarrow>
          if count < 0 then Some (None, h)
          else do {
            (a, h) \<leftarrow> cJSON_CreateArray h;
            if a = None then Some (None, h)
            else do {
              (done, n, h) \<leftarrow> create_elements create h a None (take (nat count) xs);
              if \<not> done then Some (None, h)
              else if length xs < nat count then None
              else do {
                m \<leftarrow> deref h a;
                h \<leftarrow> (if i_child m \<noteq> None then modify h (i_child m) (i_prev_update (\<lambda>_. n)) else Some h);
                Some (a, h) } } })"

definition cJSON_CreateIntArray :: "int list option \<Rightarrow> int \<Rightarrow> heap \<Rightarrow> (ptr \<times> heap) option" where
  "cJSON_CreateIntArray = create_array_of (\<lambda>i. cJSON_CreateNumber (round_double (of_int i)))"

definition cJSON_CreateFloatArray :: "double list option \<Rightarrow> int \<Rightarrow> heap \<Rightarrow> (ptr \<times> heap) option" where
  "cJSON_CreateFloatArray = create_array_of cJSON_CreateNumber"

definition cJSON_CreateDoubleArray :: "double list option \<Rightarrow> int \<Rightarrow> heap \<Rightarrow> (ptr \<times> heap) option" where
  "cJSON_CreateDoubleArray = create_array_of cJSON_CreateNumber"

definition cJSON_CreateStringArray :: "ptr list option \<Rightarrow> int \<Rightarrow> heap \<Rightarrow> (ptr \<times> heap) option" where
  "cJSON_CreateStringArray = create_array_of cJSON_CreateString"

section \<open>Comparing items\<close>

text \<open>
  \<open>cJSON_Compare\<close> and its loops: two items, the elements of two arrays from a position on, the
  members of an object from a position on against another object.
\<close>

datatype compare_call = Items ptr ptr | Elements ptr ptr | Members ptr ptr

definition comparable :: "32 word set" where
  "comparable = {cJSON_False, cJSON_True, cJSON_NULL, cJSON_Number, cJSON_String, cJSON_Raw, cJSON_Array, cJSON_Object}"

partial_function (option) compare_from :: "heap \<Rightarrow> bool \<Rightarrow> compare_call \<Rightarrow> bool option" where
  [code]: "compare_from h cs call =
     (case call of
        Items a b \<Rightarrow>
          if a = None \<or> b = None then Some False
          else do {
            m \<leftarrow> deref h a;
            n \<leftarrow> deref h b;
            let t = i_type m AND 0xFF
            in if t \<noteq> i_type n AND 0xFF then Some False
               else if t \<notin> comparable then Some False
               else if a = b then Some True
               else if t \<in> {cJSON_False, cJSON_True, cJSON_NULL} then Some True
               else if t = cJSON_Number then Some (compare_double (i_valuedouble m) (i_valuedouble n))
               else if t \<in> {cJSON_String, cJSON_Raw} then
                 if i_valuestring m = None \<or> i_valuestring n = None then Some False
                 else do { s \<leftarrow> str_at h (i_valuestring m); u \<leftarrow> str_at h (i_valuestring n); Some (s = u) }
               else if t = cJSON_Array then compare_from h cs (Elements (i_child m) (i_child n))
               else do {
                 r \<leftarrow> compare_from h cs (Members (i_child m) b);
                 if r then compare_from h cs (Members (i_child n) a) else Some False } }
      | Elements p q \<Rightarrow>
          if p = None \<or> q = None then Some (p = q)
          else do {
            r \<leftarrow> compare_from h cs (Items p q);
            if r then do {
              m \<leftarrow> deref h p;
              n \<leftarrow> deref h q;
              compare_from h cs (Elements (i_next m) (i_next n)) }
            else Some False }
      | Members p other \<Rightarrow>
          if p = None then Some True
          else do {
            m \<leftarrow> deref h p;
            q \<leftarrow> get_object_item h other (i_string m) cs;
            if q = None then Some False
            else do {
              r \<leftarrow> compare_from h cs (Items p q);
              if r then compare_from h cs (Members (i_next m) other) else Some False } })"

definition cJSON_Compare :: "heap \<Rightarrow> ptr \<Rightarrow> ptr \<Rightarrow> bool \<Rightarrow> bool option" where
  "cJSON_Compare h a b case_sensitive = compare_from h case_sensitive (Items a b)"

end
