(* ===== verification/Json_Heap_Chains.thy ===== *)
theory Json_Heap_Chains
  imports Json_Heap
begin

text \<open>
  The children of an item are a chain of structs: \<open>next\<close> leads from each to the following one, \<open>prev\<close>
  to the one before, and the first points back to the last. \<open>linked\<close> says that a list of addresses is
  such a chain. The lemmas run the operations of \<open>Json_Heap\<close> on one: adding, detaching, inserting and
  replacing change exactly the list of addresses, and \<open>relinks\<close> records that only links changed.
\<close>

section \<open>Chains of siblings\<close>

abbreviation unlink :: "cjson \<Rightarrow> cjson" where
  "unlink n \<equiv> n\<lparr>i_next := None, i_prev := None\<rparr>"

abbreviation set_next :: "ptr \<Rightarrow> cjson \<Rightarrow> cjson" where
  "set_next p \<equiv> i_next_update (\<lambda>_. p)"

abbreviation set_prev :: "ptr \<Rightarrow> cjson \<Rightarrow> cjson" where
  "set_prev p \<equiv> i_prev_update (\<lambda>_. p)"

abbreviation set_child :: "ptr \<Rightarrow> cjson \<Rightarrow> cjson" where
  "set_child p \<equiv> i_child_update (\<lambda>_. p)"

definition set_at :: "(addr \<Rightarrow> cjson option) \<Rightarrow> addr \<Rightarrow> (cjson \<Rightarrow> cjson) \<Rightarrow> addr \<Rightarrow> cjson option" where
  "set_at I a f = I(a := map_option f (I a))"

lemma set_at_same [simp]: "set_at I a f a = map_option f (I a)"
  by (simp add: set_at_def)

lemma set_at_other [simp]: "b \<noteq> a \<Longrightarrow> set_at I a f b = I b"
  by (simp add: set_at_def)

lemma upd_None [simp]: "set_at I a f b = None \<longleftrightarrow> I b = None"
  by (simp add: set_at_def)

lemma upd_unlink: "(\<And>n. unlink (f n) = unlink n) \<Longrightarrow> map_option unlink (set_at I a f b) = map_option unlink (I b)"
  by (cases "b = a") (simp_all add: option.map_comp comp_def)

lemma modify_Some [simp]: "items h a \<noteq> None \<Longrightarrow> modify h (Some a) f = Some (h\<lparr>items := set_at (items h) a f\<rparr>)"
  by (auto simp: modify_def set_at_def)

lemma deref_Some [simp]: "deref h (Some a) = items h a"
  by (simp add: deref_def)

lemma deref_None [simp]: "deref h None = None"
  by (simp add: deref_def)

text \<open>The first address of a list, or the pointer that follows the list.\<close>

definition front :: "addr list \<Rightarrow> ptr \<Rightarrow> ptr" where
  "front ps r = (case ps of [] \<Rightarrow> r | p # _ \<Rightarrow> Some p)"

lemma front_simps [simp]: "front [] r = r" "front (p # ps) r = Some p"
  by (simp_all add: front_def)

lemma front_append [simp]: "front (ps @ qs) r = front ps (front qs r)"
  by (cases ps) simp_all

fun seg :: "(addr \<Rightarrow> cjson option) \<Rightarrow> addr \<Rightarrow> addr list \<Rightarrow> ptr \<Rightarrow> bool" where
  "seg I q [] r \<longleftrightarrow> True"
| "seg I q (p # ps) r \<longleftrightarrow>
     (case I p of None \<Rightarrow> False | Some n \<Rightarrow> i_prev n = Some q \<and> i_next n = front ps r) \<and> seg I p ps r"

lemma seg_append:
  "seg I q (ps @ qs) r \<longleftrightarrow> seg I q ps (front qs r) \<and> seg I (last (q # ps)) qs r"
  by (induction ps arbitrary: q) (auto split: option.splits)

lemma seg_cong: "(\<And>p. p \<in> set ps \<Longrightarrow> J p = I p) \<Longrightarrow> seg J q ps r = seg I q ps r"
  by (induction ps arbitrary: q) auto

lemma seg_upd [simp]: "a \<notin> set ps \<Longrightarrow> seg (set_at I a f) q ps r = seg I q ps r"
  by (rule seg_cong) (metis set_at_other)

lemma seg_upd_keep:
  "(\<And>n. i_prev (f n) = i_prev n \<and> i_next (f n) = i_next n) \<Longrightarrow> seg (set_at I a f) q ps r = seg I q ps r"
  by (induction ps arbitrary: q) (auto simp: set_at_def split: option.splits)

lemma seg_dom: "seg I q ps r \<Longrightarrow> p \<in> set ps \<Longrightarrow> I p \<noteq> None"
  by (induction ps arbitrary: q) (auto split: option.splits)

text \<open>Changing the pointer into a segment and the pointer out of it.\<close>

lemma seg_set_prev:
  "seg I q (p # ps) r \<Longrightarrow> p \<notin> set ps \<Longrightarrow> seg (set_at I p (set_prev (Some q'))) q' (p # ps) r"
  by (auto split: option.splits)

lemma seg_set_next:
  "seg I q (ps @ [l]) r \<Longrightarrow> l \<notin> set ps \<Longrightarrow> seg (set_at I l (set_next r')) q (ps @ [l]) r'"
  by (auto simp: seg_append split: option.splits)

definition linked :: "(addr \<Rightarrow> cjson option) \<Rightarrow> ptr \<Rightarrow> addr list \<Rightarrow> bool" where
  "linked I c ps \<longleftrightarrow> c = front ps None \<and> (ps \<noteq> [] \<longrightarrow> seg I (last ps) ps None)"

lemma linked_cong: "(\<And>p. p \<in> set ps \<Longrightarrow> J p = I p) \<Longrightarrow> linked J c ps = linked I c ps"
  unfolding linked_def using seg_cong [of ps J I] by auto

lemma linked_dom: "linked I c ps \<Longrightarrow> p \<in> set ps \<Longrightarrow> I p \<noteq> None"
  by (auto simp: linked_def dest: seg_dom)

text \<open>
  An operation on the children of \<open>a\<close>: only links of the items in \<open>S\<close> and the child pointer of
  \<open>a\<close> change, and the chain of \<open>a\<close> is \<open>ps\<close> afterwards.
\<close>

definition relinks :: "heap \<Rightarrow> heap \<Rightarrow> addr \<Rightarrow> addr set \<Rightarrow> addr list \<Rightarrow> bool" where
  "relinks h h' a S ps \<longleftrightarrow>
     h' = h\<lparr>items := items h'\<rparr> \<and> a \<notin> S \<and>
     (\<forall>b. b \<notin> insert a S \<longrightarrow> items h' b = items h b) \<and>
     (\<forall>b\<in>S. map_option unlink (items h' b) = map_option unlink (items h b)) \<and>
     items h' a = map_option (set_child (front ps None)) (items h a) \<and>
     linked (items h') (front ps None) ps"

lemma relinksI:
  assumes "a \<notin> S" "\<And>b. b \<notin> insert a S \<Longrightarrow> J b = items h b"
    "\<And>b. b \<in> S \<Longrightarrow> map_option unlink (J b) = map_option unlink (items h b)"
    "J a = map_option (set_child (front ps None)) (items h a)" "ps \<noteq> [] \<Longrightarrow> seg J (last ps) ps None"
  shows "relinks h (h\<lparr>items := J\<rparr>) a S ps"
  using assms by (auto simp: relinks_def linked_def)

section \<open>The operations on a chain\<close>

lemma suffix_object_run:
  "items h p = Some n \<Longrightarrow> items h q = Some m \<Longrightarrow> p \<noteq> q \<Longrightarrow>
   suffix_object h (Some p) (Some q) =
     Some (h\<lparr>items := set_at (set_at (items h) p (set_next (Some q))) q (set_prev (Some p))\<rparr>)"
  by (simp add: suffix_object_def)

lemma add_item_to_array_run:
  assumes a: "items h a = Some n" and l: "linked (items h) (i_child n) ps"
    and d: "distinct (a # k # ps)" and k: "items h k = Some m" "i_next m = None"
  shows "\<exists>h'. add_item_to_array h (Some a) (Some k) = Some (True, h') \<and>
    relinks h h' a (insert k (set ps)) (ps @ [k])"
proof (cases ps rule: rev_cases)
  case Nil
  define J where "J = set_at (set_at (set_at (items h) a (set_child (Some k))) k (set_prev (Some k))) k (set_next None)"
  have c: "i_child n = None" using l Nil by (simp add: linked_def)
  have "add_item_to_array h (Some a) (Some k) = Some (True, h\<lparr>items := J\<rparr>)"
    using a c d k by (simp add: add_item_to_array_def J_def)
  moreover have "relinks h (h\<lparr>items := J\<rparr>) a (insert k (set ps)) (ps @ [k])"
    using a d k Nil by (intro relinksI) (auto simp: J_def)
  ultimately show ?thesis by blast
next
  case (snoc qs l)
  obtain p rs where p: "ps = p # rs" using snoc by (metis append_is_Nil_conv list.exhaust not_Cons_self2)
  have c: "i_child n = Some p" and s: "seg (items h) (last ps) ps None"
    using assms(2) p by (auto simp: linked_def)
  obtain np where np: "items h p = Some np" "i_prev np = Some l"
    using s unfolding snoc last_snoc unfolding snoc [symmetric] p by (auto split: option.splits)
  obtain nl where nl: "items h l = Some nl" using s snoc by (auto simp: seg_append split: option.splits)
  define I1 where "I1 = set_at (set_at (items h) l (set_next (Some k))) k (set_prev (Some l))"
  define J where "J = set_at I1 p (set_prev (Some k))"
  have pl: "p \<in> set ps" "l \<in> set ps" using p by simp (use snoc in simp)
  then have kp: "k \<noteq> p" "k \<noteq> l" "a \<noteq> k" "a \<noteq> p" "a \<noteq> l" using d by auto
  have "add_item_to_array h (Some a) (Some k) = Some (True, h\<lparr>items := J\<rparr>)"
    using a c k np nl kp
    by (auto simp: add_item_to_array_def suffix_object_run [OF nl k(1)] J_def I1_def)
  moreover have "relinks h (h\<lparr>items := J\<rparr>) a (insert k (set ps)) (ps @ [k])"
  proof (rule relinksI)
    have "seg (set_at (items h) l (set_next (Some k))) l ps (Some k)"
      using s d unfolding snoc by (intro seg_set_next) auto
    then have "seg I1 l ps (Some k)" using d by (simp add: I1_def)
    then have "seg J k ps (Some k)" using d seg_set_prev unfolding J_def p by auto
    moreover have "J k = Some (set_prev (Some l) m)" using k kp by (simp add: J_def I1_def)
    ultimately show "seg J (last (ps @ [k])) (ps @ [k]) None"
      using k snoc by (auto simp: seg_append split: option.splits)
    show "map_option unlink (J b) = map_option unlink (items h b)" if "b \<in> insert k (set ps)" for b
      by (simp add: J_def I1_def upd_unlink)
    show "J b = items h b" if "b \<notin> insert a (insert k (set ps))" for b
    proof -
      have "b \<noteq> p" "b \<noteq> l" "b \<noteq> k" using that pl by auto
      then show ?thesis by (simp add: J_def I1_def)
    qed
    show "J a = map_option (set_child (front (ps @ [k]) None)) (items h a)"
      using a c kp p by (simp add: J_def I1_def)
  qed (use d in auto)
  ultimately show ?thesis by blast
qed

lemma seg_at:
  "seg I q (xs @ k # ys) r \<Longrightarrow>
   \<exists>m. I k = Some m \<and> i_prev m = Some (last (q # xs)) \<and> i_next m = front ys r"
  by (auto simp: seg_append split: option.splits)

lemma seg_splice:
  "seg I q xs r \<Longrightarrow> seg I (last (q # xs)) ys None \<Longrightarrow> r = front ys None \<Longrightarrow> seg I q (xs @ ys) None"
  by (simp add: seg_append)

lemma detach_first:
  assumes a: "items h a = Some n" and l: "linked (items h) (i_child n) (k # ys)"
    and d: "distinct (a # k # ys)"
  shows "\<exists>h'. cJSON_DetachItemViaPointer h (Some a) (Some k) = Some (Some k, h') \<and>
    relinks h h' a (set (k # ys)) ys \<and> items h' k = map_option unlink (items h k)"
proof -
  define I where "I = (case ys of [] \<Rightarrow> items h | y # _ \<Rightarrow> set_at (items h) y (set_prev (Some (last (k # ys)))))"
  define J where "J = set_at (set_at I a (set_child (front ys None))) k (\<lambda>n. n\<lparr>i_prev := None, i_next := None\<rparr>)"
  have s: "seg (items h) (last (k # ys)) (k # ys) None" and c: "i_child n = Some k"
    using l by (simp_all add: linked_def)
  obtain m where m: "items h k = Some m" "i_prev m = Some (last (k # ys))" "i_next m = front ys None"
    using s by (auto split: option.splits)
  have sy: "seg I (last (k # ys)) ys None"
    using s d by (cases ys) (auto simp: I_def split: option.splits)
  have I: "I k = items h k" "I a = items h a"
    using d by (auto simp: I_def split: list.splits)
  have "cJSON_DetachItemViaPointer h (Some a) (Some k) = Some (Some k, h\<lparr>items := J\<rparr>)"
  proof (cases ys)
    case Nil
    then show ?thesis using a c m d by (simp add: cJSON_DetachItemViaPointer_def J_def I_def)
  next
    case (Cons y zs)
    then obtain m' where "items h y = Some m'" using s by (auto split: option.splits)
    then show ?thesis using a c m d Cons by (simp add: cJSON_DetachItemViaPointer_def J_def I_def)
  qed
  moreover have "relinks h (h\<lparr>items := J\<rparr>) a (set (k # ys)) ys"
  proof (rule relinksI)
    show "map_option unlink (J b) = map_option unlink (items h b)" if "b \<in> set (k # ys)" for b
    proof -
      have "map_option unlink (I b) = map_option unlink (items h b)"
        by (simp add: I_def upd_unlink split: list.split)
      moreover have "b \<noteq> a" using that d by auto
      ultimately show ?thesis by (simp add: J_def upd_unlink)
    qed
    show "seg J (last ys) ys None" if "ys \<noteq> []" using sy d that by (simp add: J_def)
  qed (use d I in \<open>auto simp: J_def I_def split: list.splits\<close>)
  moreover have "J k = map_option unlink (items h k)" using d I by (simp add: J_def m)
  ultimately show ?thesis by (metis heap.select_convs(1) heap.surjective heap.update_convs(1))
qed

lemma detach_later:
  assumes a: "items h a = Some n" and l: "linked (items h) (i_child n) (x # xs @ k # ys)"
    and d: "distinct (a # x # xs @ k # ys)"
  shows "\<exists>h'. cJSON_DetachItemViaPointer h (Some a) (Some k) = Some (Some k, h') \<and>
    relinks h h' a (set (x # xs @ k # ys)) (x # xs @ ys) \<and> items h' k = map_option unlink (items h k)"
proof -
  define L where "L = last (x # xs)"
  define I1 where "I1 = set_at (items h) L (set_next (front ys None))"
  define I2 where "I2 = set_at I1 (case ys of [] \<Rightarrow> x | y # _ \<Rightarrow> y) (set_prev (Some L))"
  define J where "J = set_at I2 k (\<lambda>n. n\<lparr>i_prev := None, i_next := None\<rparr>)"
  have s: "seg (items h) (last (k # ys)) (x # xs @ k # ys) None" and c: "i_child n = Some x"
    using l by (simp_all add: linked_def)
  have s1: "seg (items h) (last (k # ys)) (x # xs) (Some k)" and s2: "seg (items h) k ys None"
    and m: "\<exists>m. items h k = Some m \<and> i_prev m = Some L \<and> i_next m = front ys None"
    using s seg_append [of "items h" "last (k # ys)" "x # xs" "k # ys" None]
    by (auto simp: L_def split: option.splits)
  obtain m where m: "items h k = Some m" "i_prev m = Some L" "i_next m = front ys None"
    using m by blast
  have "L \<in> set (x # xs)" unfolding L_def by (rule last_in_set) simp
  then have L: "L \<in> set (x # xs)" "L \<noteq> k" "L \<noteq> a" "L \<notin> set ys" using d by auto
  have L': "butlast (x # xs) @ [L] = x # xs" by (simp add: L_def)
  have iL: "items h L \<noteq> None" "items h x \<noteq> None" using seg_dom [OF s1] L by auto
  have "L \<notin> set (butlast (x # xs))"
    using d L' by (metis Cons_eq_appendI distinct.simps(2) distinct_append not_distinct_conv_prefix)
  then have t1: "seg I1 (last (k # ys)) (x # xs) (front ys None)"
    using s1 seg_set_next [of "items h" "last (k # ys)" "butlast (x # xs)" L "Some k"] unfolding I1_def L' by blast
  have t2: "seg I1 k ys None" using s2 L by (simp add: I1_def)
  have t: "seg J (last (x # xs @ ys)) (x # xs @ ys) None"
  proof (cases ys)
    case Nil
    have "seg I2 L (x # xs) None" using t1 d Nil seg_set_prev [of I1 k x xs None L] by (simp add: I2_def)
    then show ?thesis using d Nil by (simp add: J_def L_def)
  next
    case (Cons y zs)
    have "seg I2 L ys None" using t2 d Cons seg_set_prev by (auto simp: I2_def)
    moreover have "seg I2 (last ys) (x # xs) (Some y)" using t1 d Cons by (simp add: I2_def)
    ultimately have "seg I2 (last ys) ((x # xs) @ ys) None"
      unfolding seg_append using Cons by (simp add: L_def)
    then show ?thesis using d Cons by (simp add: J_def)
  qed
  have "cJSON_DetachItemViaPointer h (Some a) (Some k) = Some (Some k, h\<lparr>items := J\<rparr>)"
  proof (cases ys)
    case Nil
    then show ?thesis using a c d m L iL by (simp add: cJSON_DetachItemViaPointer_def J_def I2_def I1_def)
  next
    case (Cons y zs)
    then have "items h y \<noteq> None" using seg_dom [OF s2, of y] by simp
    then show ?thesis using a c m d L iL Cons
      by (auto simp: cJSON_DetachItemViaPointer_def J_def I2_def I1_def)
  qed
  moreover have "relinks h (h\<lparr>items := J\<rparr>) a (set (x # xs @ k # ys)) (x # xs @ ys)"
  proof (rule relinksI)
    show "map_option unlink (J b) = map_option unlink (items h b)" for b
      by (simp add: J_def I2_def I1_def upd_unlink)
    show "J b = items h b" if "b \<notin> insert a (set (x # xs @ k # ys))" for b
    proof -
      have "b \<noteq> x" "b \<noteq> L" "b \<noteq> k" "b \<notin> set ys" using that L by auto
      then show ?thesis by (auto simp: J_def I2_def I1_def split: list.split)
    qed
    have "a \<noteq> x" "a \<noteq> L" "a \<noteq> k" "a \<notin> set ys" using d L by auto
    then show "J a = map_option (set_child (front (x # xs @ ys) None)) (items h a)"
      using a c by (auto simp: J_def I2_def I1_def split: list.split)
  qed (use d t in auto)
  moreover have "J k = map_option unlink (items h k)"
    using d L by (auto simp: J_def I2_def I1_def m split: list.split)
  ultimately show ?thesis by (metis heap.select_convs(1) heap.surjective heap.update_convs(1))
qed

lemma detach_run:
  assumes "items h a = Some n" "linked (items h) (i_child n) (xs @ k # ys)" "distinct (a # xs @ k # ys)"
  shows "\<exists>h'. cJSON_DetachItemViaPointer h (Some a) (Some k) = Some (Some k, h') \<and>
    relinks h h' a (set (xs @ k # ys)) (xs @ ys) \<and> items h' k = map_option unlink (items h k)"
  using assms detach_first [of h a n k ys] detach_later [of h a n _ _ k ys] by (cases xs) auto

lemma heap_items_self: "h\<lparr>items := J\<rparr> = h' \<Longrightarrow> h\<lparr>items := items h'\<rparr> = h'"
  by auto

text \<open>\<open>cJSON_InsertItemInArray\<close> once the position is found.\<close>

lemma insert_first:
  assumes a: "items h a = Some n" and l: "linked (items h) (i_child n) (k # ys)"
    and d: "distinct (a # j # k # ys)" and j: "items h j = Some m"
    and p: "get_array_item h (Some a) (nat i) = Some (Some k)" "0 \<le> i"
  shows "\<exists>h'. cJSON_InsertItemInArray h (Some a) i (Some j) = Some (True, h') \<and>
    relinks h h' a (insert j (set (k # ys))) (j # k # ys)"
proof -
  have s: "seg (items h) (last (k # ys)) (k # ys) None" and c: "i_child n = Some k"
    using l by (simp_all add: linked_def)
  obtain nk where k: "items h k = Some nk" "i_prev nk = Some (last (k # ys))" "i_next nk = front ys None"
    using s by (auto split: option.splits)
  define I1 where "I1 = set_at (items h) j (\<lambda>m. m\<lparr>i_next := Some k, i_prev := Some (last (k # ys))\<rparr>)"
  define J where "J = set_at (set_at I1 k (set_prev (Some j))) a (set_child (Some j))"
  have "cJSON_InsertItemInArray h (Some a) i (Some j) = Some (True, h\<lparr>items := J\<rparr>)"
    using a c d j k p by (simp add: cJSON_InsertItemInArray_def J_def I1_def)
  moreover have "relinks h (h\<lparr>items := J\<rparr>) a (insert j (set (k # ys))) (j # k # ys)"
  proof (rule relinksI)
    have "seg I1 (last (k # ys)) (k # ys) None" using s d by (simp add: I1_def)
    then have "seg (set_at I1 k (set_prev (Some j))) j (k # ys) None" by (rule seg_set_prev) (use d in simp)
    then have "seg J j (k # ys) None" unfolding J_def using d by (subst seg_upd) auto
    then show "seg J (last (j # k # ys)) (j # k # ys) None" using d j by (simp add: J_def I1_def)
    show "map_option unlink (J b) = map_option unlink (items h b)" if "b \<in> insert j (set (k # ys))" for b
    proof -
      have "b \<noteq> a" using that d by auto
      then show ?thesis by (simp add: J_def I1_def upd_unlink)
    qed
  qed (use d a in \<open>auto simp: J_def I1_def\<close>)
  ultimately show ?thesis by blast
qed

lemma insert_later:
  assumes a: "items h a = Some n" and l: "linked (items h) (i_child n) (x # xs @ k # ys)"
    and d: "distinct (a # j # x # xs @ k # ys)" and j: "items h j = Some m"
    and p: "get_array_item h (Some a) (nat i) = Some (Some k)" "0 \<le> i"
  shows "\<exists>h'. cJSON_InsertItemInArray h (Some a) i (Some j) = Some (True, h') \<and>
    relinks h h' a (insert j (set (x # xs @ k # ys))) (x # xs @ j # k # ys)"
proof -
  define L where "L = last (x # xs)"
  have s: "seg (items h) (last (k # ys)) (x # xs @ k # ys) None" and c: "i_child n = Some x"
    using l by (simp_all add: linked_def)
  have s1: "seg (items h) (last (k # ys)) (x # xs) (Some k)" and s2: "seg (items h) L (k # ys) None"
    using s seg_append [of "items h" "last (k # ys)" "x # xs" "k # ys" None] by (simp_all add: L_def)
  obtain nk where k: "items h k = Some nk" "i_prev nk = Some L" "i_next nk = front ys None"
    using s2 by (auto split: option.splits)
  define I1 where "I1 = set_at (items h) j (\<lambda>m. m\<lparr>i_next := Some k, i_prev := Some L\<rparr>)"
  define J where "J = set_at (set_at I1 k (set_prev (Some j))) L (set_next (Some j))"
  have "L \<in> set (x # xs)" unfolding L_def by (rule last_in_set) simp
  then have L: "L \<in> set (x # xs)" "L \<noteq> k" "L \<noteq> a" "L \<noteq> j" "L \<notin> set ys" using d by auto
  have L': "butlast (x # xs) @ [L] = x # xs" by (simp add: L_def)
  have iL: "items h L \<noteq> None" using seg_dom [OF s1] L by auto
  have "cJSON_InsertItemInArray h (Some a) i (Some j) = Some (True, h\<lparr>items := J\<rparr>)"
    using a c d j k p L iL by (auto simp: cJSON_InsertItemInArray_def J_def I1_def)
  moreover have "relinks h (h\<lparr>items := J\<rparr>) a (insert j (set (x # xs @ k # ys))) (x # xs @ j # k # ys)"
  proof (rule relinksI)
    have "L \<notin> set (butlast (x # xs))"
      using d L' by (metis Cons_eq_appendI distinct.simps(2) distinct_append not_distinct_conv_prefix)
    moreover have "seg (set_at I1 k (set_prev (Some j))) (last (k # ys)) (butlast (x # xs) @ [L]) (Some k)"
      using s1 d unfolding L' I1_def by simp
    ultimately have t1: "seg J (last (k # ys)) (x # xs) (Some j)"
      using seg_set_next unfolding J_def L' by (metis L')
    have "seg I1 L (k # ys) None" using s2 d unfolding I1_def by simp
    then have "seg (set_at I1 k (set_prev (Some j))) j (k # ys) None" by (rule seg_set_prev) (use d in simp)
    then have "seg J j (k # ys) None" unfolding J_def using L by (subst seg_upd) auto
    moreover have "J j = Some (m\<lparr>i_next := Some k, i_prev := Some L\<rparr>)" using d j L by (simp add: J_def I1_def)
    ultimately have "seg J L (j # k # ys) None" by simp
    then show "seg J (last (x # xs @ j # k # ys)) (x # xs @ j # k # ys) None"
      using t1 seg_append [of J "last (k # ys)" "x # xs" "j # k # ys" None] by (simp add: L_def)
    show "map_option unlink (J b) = map_option unlink (items h b)" for b
      by (simp add: J_def I1_def upd_unlink)
    show "J b = items h b" if "b \<notin> insert a (insert j (set (x # xs @ k # ys)))" for b
    proof -
      have "b \<noteq> L" "b \<noteq> k" "b \<noteq> j" using that L by auto
      then show ?thesis by (simp add: J_def I1_def)
    qed
  qed (use d a c L in \<open>auto simp: J_def I1_def\<close>)
  ultimately show ?thesis by blast
qed

text \<open>\<open>cJSON_ReplaceItemViaPointer\<close> up to the release of the item that is replaced.\<close>

definition detached :: "cjson option \<Rightarrow> bool" where
  "detached n \<longleftrightarrow> (\<exists>m. n = Some m \<and> i_next m = None \<and> i_prev m = None)"

lemma replace_first:
  assumes a: "items h a = Some n" and l: "linked (items h) (i_child n) (k # ys)"
    and d: "distinct (a # j # k # ys)" and j: "items h j = Some m"
  shows "\<exists>h'. cJSON_ReplaceItemViaPointer h (Some a) (Some k) (Some j) =
      (do { h \<leftarrow> cJSON_Delete h' (Some k); Some (True, h) }) \<and>
    relinks h h' a (insert j (set (k # ys))) (j # ys) \<and> detached (items h' k)"
proof -
  have s: "seg (items h) (last (k # ys)) (k # ys) None" and c: "i_child n = Some k"
    using l by (simp_all add: linked_def)
  obtain nk where k: "items h k = Some nk" "i_prev nk = Some (last (k # ys))" "i_next nk = front ys None"
    using s by (auto split: option.splits)
  define I1 where "I1 = set_at (items h) j (\<lambda>m. m\<lparr>i_next := front ys None, i_prev := Some (last (k # ys))\<rparr>)"
  define I2 where "I2 = (case ys of [] \<Rightarrow> set_at I1 j (set_prev (Some j)) | y # _ \<Rightarrow> set_at I1 y (set_prev (Some j)))"
  define J where "J = set_at (set_at I2 a (set_child (Some j))) k (\<lambda>n. n\<lparr>i_next := None, i_prev := None\<rparr>)"
  have r: "cJSON_ReplaceItemViaPointer h (Some a) (Some k) (Some j) =
      (do { h \<leftarrow> cJSON_Delete (h\<lparr>items := J\<rparr>) (Some k); Some (True, h) })"
  proof (cases ys)
    case Nil
    then show ?thesis
      using a c d j k by (simp add: cJSON_ReplaceItemViaPointer_def J_def I2_def I1_def)
  next
    case (Cons y zs)
    then have y: "items h y \<noteq> None" "last ys \<noteq> k" using s d by (auto split: option.splits)
    then show ?thesis
      using a c d j k Cons by (simp add: cJSON_ReplaceItemViaPointer_def J_def I2_def I1_def)
  qed
  have "relinks h (h\<lparr>items := J\<rparr>) a (insert j (set (k # ys))) (j # ys)"
  proof (rule relinksI)
    show "seg J (last (j # ys)) (j # ys) None"
    proof (cases ys)
      case Nil
      then show ?thesis using d j by (simp add: J_def I2_def I1_def)
    next
      case (Cons y zs)
      have "seg I1 k (y # zs) None" using s d Cons by (simp add: I1_def split: option.splits)
      then have "seg (set_at I1 y (set_prev (Some j))) j (y # zs) None"
        by (rule seg_set_prev) (use d Cons in simp)
      then have "seg I2 j ys None" by (simp only: I2_def Cons list.case)
      then have "seg J j ys None" unfolding J_def using d by simp
      then show ?thesis using d j Cons by (simp add: J_def I2_def I1_def)
    qed
    show "map_option unlink (J b) = map_option unlink (items h b)" if "b \<in> insert j (set (k # ys))" for b
    proof -
      have "map_option unlink (I2 b) = map_option unlink (items h b)"
        by (simp add: I2_def I1_def upd_unlink split: list.split)
      moreover have "b \<noteq> a" using that d by auto
      ultimately show ?thesis by (simp add: J_def upd_unlink)
    qed
  qed (use d a in \<open>auto simp: J_def I2_def I1_def split: list.splits\<close>)
  moreover have "detached (J k)" using d k by (auto simp: J_def I2_def I1_def detached_def split: list.split)
  ultimately show ?thesis using r by (metis heap.select_convs(1) heap.surjective heap.update_convs(1))
qed

lemma replace_later:
  assumes a: "items h a = Some n" and l: "linked (items h) (i_child n) (x # xs @ k # ys)"
    and d: "distinct (a # j # x # xs @ k # ys)" and j: "items h j = Some m"
  shows "\<exists>h'. cJSON_ReplaceItemViaPointer h (Some a) (Some k) (Some j) =
      (do { h \<leftarrow> cJSON_Delete h' (Some k); Some (True, h) }) \<and>
    relinks h h' a (insert j (set (x # xs @ k # ys))) (x # xs @ j # ys) \<and> detached (items h' k)"
proof -
  define L where "L = last (x # xs)"
  have s: "seg (items h) (last (k # ys)) (x # xs @ k # ys) None" and c: "i_child n = Some x"
    using l by (simp_all add: linked_def)
  have s1: "seg (items h) (last (k # ys)) (x # xs) (Some k)" and s2: "seg (items h) L (k # ys) None"
    using s seg_append [of "items h" "last (k # ys)" "x # xs" "k # ys" None] by (simp_all add: L_def)
  obtain nk where k: "items h k = Some nk" "i_prev nk = Some L" "i_next nk = front ys None"
    using s2 by (auto split: option.splits)
  define I1 where "I1 = set_at (items h) j (\<lambda>m. m\<lparr>i_next := front ys None, i_prev := Some L\<rparr>)"
  define I2 where "I2 = (case ys of [] \<Rightarrow> I1 | y # _ \<Rightarrow> set_at I1 y (set_prev (Some j)))"
  define I3 where "I3 = set_at I2 L (set_next (Some j))"
  define I4 where "I4 = (if ys = [] then set_at I3 x (set_prev (Some j)) else I3)"
  define J where "J = set_at I4 k (\<lambda>n. n\<lparr>i_next := None, i_prev := None\<rparr>)"
  note defs = J_def I4_def I3_def I2_def I1_def
  have "L \<in> set (x # xs)" unfolding L_def by (rule last_in_set) simp
  then have L: "L \<in> set (x # xs)" "L \<noteq> k" "L \<noteq> a" "L \<noteq> j" "L \<notin> set ys" using d by auto
  have L': "butlast (x # xs) @ [L] = x # xs" by (simp add: L_def)
  have iL: "items h L \<noteq> None" "items h x \<noteq> None" using seg_dom [OF s1] L by auto
  have r: "cJSON_ReplaceItemViaPointer h (Some a) (Some k) (Some j) =
      (do { h \<leftarrow> cJSON_Delete (h\<lparr>items := J\<rparr>) (Some k); Some (True, h) })"
  proof (cases ys)
    case Nil
    then show ?thesis
      using a c d j k L iL by (simp add: cJSON_ReplaceItemViaPointer_def defs)
  next
    case (Cons y zs)
    then have y: "items h y \<noteq> None" using s2 by (auto split: option.splits)
    then show ?thesis
      using a c d j k L iL Cons by (simp add: cJSON_ReplaceItemViaPointer_def defs)
  qed
  have I1: "seg I1 (last (k # ys)) (x # xs) (Some k)" "seg I1 k ys None"
    using s1 s2 d by (simp_all add: I1_def)
  have "seg I2 (last (k # ys)) (x # xs) (Some k)"
  proof (cases ys)
    case Nil
    then show ?thesis using I1(1) by (simp add: I2_def)
  next
    case (Cons y zs)
    then have "y \<notin> set (x # xs)" using d by auto
    then have "seg I2 q (x # xs) r = seg I1 q (x # xs) r" for q r
      unfolding I2_def Cons list.case by (rule seg_upd)
    then show ?thesis using I1(1) by blast
  qed
  moreover have "L \<notin> set (butlast (x # xs))"
    using d L' by (metis Cons_eq_appendI distinct.simps(2) distinct_append not_distinct_conv_prefix)
  ultimately have t1: "seg I3 (last (k # ys)) (x # xs) (Some j)"
    using seg_set_next unfolding I3_def by (metis L')
  have t2: "seg I2 j ys None"
  proof (cases ys)
    case (Cons y zs)
    have "seg (set_at I1 y (set_prev (Some j))) j (y # zs) None"
      by (rule seg_set_prev [OF I1(2) [unfolded Cons]]) (use d Cons in simp)
    then show ?thesis by (simp only: I2_def Cons list.case)
  qed simp
  have t3: "J j = Some (m\<lparr>i_next := front ys None, i_prev := Some L\<rparr>)"
    using j d L by (auto simp: defs split: list.split)
  have t: "seg J (last (x # xs @ j # ys)) (x # xs @ j # ys) None"
  proof -
    have "seg J j ys None"
    proof -
      have "seg I3 j ys None" using t2 L by (simp add: I3_def)
      then show ?thesis using d by (auto simp: J_def I4_def)
    qed
    then have "seg J L (j # ys) None" using t3 by simp
    moreover have "seg J (last (j # ys)) (x # xs) (Some j)"
    proof (cases "ys = []")
      case True
      have "seg (set_at I3 x (set_prev (Some j))) j (x # xs) (Some j)"
        by (rule seg_set_prev [OF t1]) (use d in auto)
      moreover have "I4 = set_at I3 x (set_prev (Some j))" using True by (simp add: I4_def)
      ultimately have "seg I4 j (x # xs) (Some j)" by (simp only:)
      then show ?thesis using d True by (simp add: J_def)
    next
      case False
      then show ?thesis using t1 d by (simp add: J_def I4_def)
    qed
    ultimately show ?thesis
      using seg_append [of J "last (j # ys)" "x # xs" "j # ys" None] by (simp add: L_def)
  qed
  have "relinks h (h\<lparr>items := J\<rparr>) a (insert j (set (x # xs @ k # ys))) (x # xs @ j # ys)"
  proof (rule relinksI)
    show "map_option unlink (J b) = map_option unlink (items h b)" for b
      by (simp add: defs upd_unlink split: list.split)
    show "J b = items h b" if "b \<notin> insert a (insert j (set (x # xs @ k # ys)))" for b
    proof -
      have "b \<noteq> x" "b \<noteq> L" "b \<noteq> k" "b \<noteq> j" "b \<notin> set ys" using that L by auto
      then show ?thesis by (auto simp: defs split: list.split)
    qed
    have "a \<noteq> x" "a \<noteq> L" "a \<noteq> k" "a \<noteq> j" "a \<notin> set ys" using d L by auto
    then show "J a = map_option (set_child (front (x # xs @ j # ys) None)) (items h a)"
      using a c by (auto simp: defs split: list.split)
  qed (use d t in auto)
  moreover have "detached (J k)" using d k L by (auto simp: defs detached_def split: list.split)
  ultimately show ?thesis using r by (metis heap.select_convs(1) heap.surjective heap.update_convs(1))
qed

text \<open>The three operations at any position.\<close>

lemma insert_run:
  assumes "items h a = Some n" "linked (items h) (i_child n) (xs @ k # ys)" "distinct (a # j # xs @ k # ys)"
    "items h j = Some m" "get_array_item h (Some a) (nat i) = Some (Some k)" "0 \<le> i"
  shows "\<exists>h'. cJSON_InsertItemInArray h (Some a) i (Some j) = Some (True, h') \<and>
    relinks h h' a (insert j (set (xs @ k # ys))) (xs @ j # k # ys)"
proof (cases xs)
  case Nil
  then show ?thesis using assms insert_first [of h a n k ys j m i] by simp
next
  case (Cons x zs)
  then show ?thesis using assms insert_later [of h a n x zs k ys j m i] by simp
qed

lemma replace_run:
  assumes "items h a = Some n" "linked (items h) (i_child n) (xs @ k # ys)" "distinct (a # j # xs @ k # ys)"
    "items h j = Some m"
  shows "\<exists>h'. cJSON_ReplaceItemViaPointer h (Some a) (Some k) (Some j) =
      (do { h \<leftarrow> cJSON_Delete h' (Some k); Some (True, h) }) \<and>
    relinks h h' a (insert j (set (xs @ k # ys))) (xs @ j # ys) \<and> detached (items h' k)"
proof (cases xs)
  case Nil
  then show ?thesis using assms replace_first [of h a n k ys j m] by simp
next
  case (Cons x zs)
  then show ?thesis using assms replace_later [of h a n x zs k ys j m] by simp
qed

section \<open>Walking along a chain\<close>

lemma chain_size_simps [simp]:
  "chain_size h None = Some 0"
  "items h a = Some n \<Longrightarrow> chain_size h (Some a) = map_option Suc (chain_size h (i_next n))"
  by (subst chain_size.simps, simp add: map_option_case split: option.split)+

lemma chain_size_seg: "seg (items h) q ps None \<Longrightarrow> chain_size h (front ps None) = Some (length ps)"
  by (induction ps arbitrary: q) (auto split: option.splits)

lemma chain_nth_None [simp]: "chain_nth h None i = Some None"
  by (cases i) simp_all

lemma chain_nth_seg:
  "seg (items h) q ps None \<Longrightarrow>
   chain_nth h (front ps None) i = Some (if i < length ps then Some (ps ! i) else None)"
proof (induction ps arbitrary: q i)
  case (Cons p ps)
  then show ?case by (cases i) (auto split: option.splits)
qed simp

lemma linked_seg: "linked I c ps \<Longrightarrow> seg I (last ps) ps None"
  by (cases ps) (auto simp: linked_def)

lemma get_array_item_linked:
  "items h a = Some n \<Longrightarrow> linked (items h) (i_child n) ps \<Longrightarrow>
   get_array_item h (Some a) i = Some (if i < length ps then Some (ps ! i) else None)"
  using chain_nth_seg [OF linked_seg, of h "i_child n" ps i] by (auto simp: get_array_item_def linked_def)

lemma cJSON_GetArraySize_linked:
  "items h a = Some n \<Longrightarrow> linked (items h) (i_child n) ps \<Longrightarrow>
   cJSON_GetArraySize_h h (Some a) = Some (length ps)"
  using chain_size_seg [OF linked_seg, of h "i_child n" ps] by (auto simp: cJSON_GetArraySize_h_def linked_def)

end
