(* ===== verification/Json_Heap_Props.thy ===== *)
theory Json_Heap_Props
  imports Json_Heap_Chains
begin

text \<open>
  The structs of \<open>Json_Heap\<close> represent the values of \<open>Json\<close>. A tree is the skeleton of addresses of an
  item, \<open>tree_ok\<close> says that the heap holds it the way cJSON links it, \<open>owned\<close> are the strings it has to
  release, and \<open>json_at\<close> is the value it stands for. The trees are those the program builds: no
  references and no constant keys. Shown are which changes of the heap keep a tree (\<open>keeps\<close>), and
  that deleting an item releases exactly what it owns.
\<close>

section \<open>Trees of items\<close>

datatype tree = Tree (root: addr) (kids: "tree list")

fun addrs :: "tree \<Rightarrow> addr list" where
  "addrs (Tree a ks) = a # concat (map addrs ks)"

definition ptrs :: "ptr \<Rightarrow> addr list" where
  "ptrs p = (case p of None \<Rightarrow> [] | Some a \<Rightarrow> [a])"

lemma ptrs_simps [simp]: "ptrs None = []" "ptrs (Some a) = [a]"
  by (simp_all add: ptrs_def)

definition node_strs :: "cjson \<Rightarrow> addr list" where
  "node_strs n = ptrs (i_valuestring n) @ ptrs (i_string n)"

fun owned :: "heap \<Rightarrow> tree \<Rightarrow> addr list" where
  "owned h (Tree a ks) = (case items h a of None \<Rightarrow> [] | Some n \<Rightarrow> node_strs n) @ concat (map (owned h) ks)"

definition text_of :: "heap \<Rightarrow> ptr \<Rightarrow> string" where
  "text_of h p = (case str_at h p of None \<Rightarrow> [] | Some s \<Rightarrow> s)"

definition key_at :: "heap \<Rightarrow> tree \<Rightarrow> string" where
  "key_at h k = (case items h (root k) of None \<Rightarrow> [] | Some n \<Rightarrow> text_of h (i_string n))"

definition named :: "heap \<Rightarrow> tree \<Rightarrow> bool" where
  "named h k \<longleftrightarrow> (case items h (root k) of None \<Rightarrow> False | Some n \<Rightarrow> i_string n \<noteq> None)"

text \<open>The value of a struct with the given members.\<close>

definition json_node :: "heap \<Rightarrow> cjson \<Rightarrow> (string \<times> json) list \<Rightarrow> json" where
  "json_node h n ms =
     (if i_type n = cJSON_False then JBool False
      else if i_type n = cJSON_True then JBool True
      else if i_type n = cJSON_Number then JNumber (i_valuedouble n)
      else if i_type n = cJSON_String then JString (text_of h (i_valuestring n))
      else if i_type n = cJSON_Array then JArray (map snd ms)
      else if i_type n = cJSON_Object then JObject ms
      else JNull)"

fun json_at :: "heap \<Rightarrow> tree \<Rightarrow> json" where
  "json_at h (Tree a ks) =
     (case items h a of None \<Rightarrow> JNull | Some n \<Rightarrow> json_node h n (map (\<lambda>k. (key_at h k, json_at h k)) ks))"

definition members_at :: "heap \<Rightarrow> tree list \<Rightarrow> (string \<times> json) list" where
  "members_at h ks = map (\<lambda>k. (key_at h k, json_at h k)) ks"

definition item_types :: "32 word set" where
  "item_types = {cJSON_False, cJSON_True, cJSON_NULL, cJSON_Number, cJSON_String, cJSON_Array, cJSON_Object}"

definition node_ok :: "heap \<Rightarrow> cjson \<Rightarrow> tree list \<Rightarrow> bool" where
  "node_ok h n ks \<longleftrightarrow>
     i_type n \<in> item_types \<and>
     (i_valuestring n = None \<or> str_at h (i_valuestring n) \<noteq> None) \<and>
     (i_string n = None \<or> str_at h (i_string n) \<noteq> None) \<and>
     (i_type n = cJSON_String \<longrightarrow> i_valuestring n \<noteq> None) \<and>
     (i_type n = cJSON_Number \<longrightarrow> i_valueint n = double_to_int (i_valuedouble n)) \<and>
     (ks = [] \<or> i_type n = cJSON_Array \<or> i_type n = cJSON_Object) \<and>
     (i_type n = cJSON_Object \<longrightarrow> (\<forall>k\<in>set ks. named h k))"

fun tree_ok :: "heap \<Rightarrow> tree \<Rightarrow> bool" where
  "tree_ok h (Tree a ks) \<longleftrightarrow>
     (case items h a of None \<Rightarrow> False
      | Some n \<Rightarrow> node_ok h n ks \<and> linked (items h) (i_child n) (map root ks)) \<and>
     (\<forall>k\<in>set ks. tree_ok h k)"

definition item_ok :: "heap \<Rightarrow> tree \<Rightarrow> bool" where
  "item_ok h t \<longleftrightarrow> tree_ok h t \<and> distinct (addrs t) \<and> distinct (owned h t)"

text \<open>No item or string lies beyond the addresses handed out so far.\<close>

definition heap_ok :: "heap \<Rightarrow> bool" where
  "heap_ok h \<longleftrightarrow> (\<forall>a \<ge> brk h. items h a = None \<and> strs h a = None)"

lemma root_in_addrs [simp]: "root t \<in> set (addrs t)"
  by (cases t) simp

lemma roots_sub: "p \<in> set (map root ks) \<Longrightarrow> p \<in> set (concat (map addrs ks))"
  by (induction ks) auto

lemma tree_ok_root: "tree_ok h t \<Longrightarrow> \<exists>n. items h (root t) = Some n \<and> node_ok h n (kids t) \<and>
    linked (items h) (i_child n) (map root (kids t))"
  by (cases t) (auto split: option.splits)

lemma tree_ok_kid: "tree_ok h t \<Longrightarrow> k \<in> set (kids t) \<Longrightarrow> tree_ok h k"
  by (cases t) auto

lemma addrs_split: "addrs t = root t # concat (map addrs (kids t))"
  by (cases t) simp

lemma kid_addrs: "k \<in> set (kids t) \<Longrightarrow> set (addrs k) \<subseteq> set (addrs t)"
  by (cases t) auto

lemma kid_owned: "k \<in> set (kids t) \<Longrightarrow> set (owned h k) \<subseteq> set (owned h t)"
  by (cases t) auto

lemma tree_ok_dom: "tree_ok h t \<Longrightarrow> a \<in> set (addrs t) \<Longrightarrow> items h a \<noteq> None"
  by (induction t) (auto split: option.splits)

lemma str_at_None [simp]: "str_at h None = None"
  by (simp add: str_at_def)

lemma str_at_Some [simp]: "str_at h (Some a) = strs h a"
  by (simp add: str_at_def)

lemma node_ok_strs: "node_ok h n ks \<Longrightarrow> p \<in> set (node_strs n) \<Longrightarrow> strs h p \<noteq> None"
  by (cases "i_valuestring n"; cases "i_string n") (auto simp: node_ok_def node_strs_def)

lemma tree_ok_owned_dom: "tree_ok h t \<Longrightarrow> p \<in> set (owned h t) \<Longrightarrow> strs h p \<noteq> None"
proof (induction t)
  case (Tree a ks)
  then obtain n where n: "items h a = Some n" "node_ok h n ks" by (auto split: option.splits)
  show ?case
  proof (cases "p \<in> set (node_strs n)")
    case False
    then obtain k where "k \<in> set ks" "p \<in> set (owned h k)" using Tree.prems(2) n by auto
    then show ?thesis using Tree.IH Tree.prems(1) by auto
  qed (use n node_ok_strs in blast)
qed

section \<open>What does not change a tree\<close>

text \<open>The links of the root belong to the chain it is in, everything else to the tree.\<close>

definition keeps :: "heap \<Rightarrow> heap \<Rightarrow> tree \<Rightarrow> bool" where
  "keeps h h' t \<longleftrightarrow>
     (\<forall>a\<in>set (addrs t). a \<noteq> root t \<longrightarrow> items h' a = items h a) \<and>
     map_option unlink (items h' (root t)) = map_option unlink (items h (root t)) \<and>
     (\<forall>p\<in>set (owned h t). strs h' p = strs h p)"

lemma unlink_eq:
  "unlink m = unlink n \<longleftrightarrow> i_child m = i_child n \<and> i_type m = i_type n \<and> i_valuestring m = i_valuestring n \<and>
     i_valueint m = i_valueint n \<and> i_valuedouble m = i_valuedouble n \<and> i_string m = i_string n"
  by (cases m; cases n) auto

lemma named_keeps: "keeps h h' k \<Longrightarrow> named h' k = named h k"
  by (cases "items h (root k)"; cases "items h' (root k)") (auto simp: keeps_def named_def unlink_eq)

lemma root_strs_owned: "items h (root t) = Some n \<Longrightarrow> p \<in> set (node_strs n) \<Longrightarrow> p \<in> set (owned h t)"
  by (cases t) auto

lemma keeps_root:
  assumes "keeps h h' t" "items h (root t) = Some n"
  obtains m where "items h' (root t) = Some m" "unlink m = unlink n"
    "\<And>p. p \<in> {i_valuestring n, i_string n} \<Longrightarrow> str_at h' p = str_at h p"
proof -
  obtain m where "items h' (root t) = Some m" "unlink m = unlink n"
    using assms by (auto simp: keeps_def)
  moreover have "str_at h' p = str_at h p" if "p \<in> {i_valuestring n, i_string n}" for p
  proof (cases p)
    case (Some a)
    then have "a \<in> set (node_strs n)" using that by (auto simp: node_strs_def ptrs_def split: option.splits)
    then show ?thesis using assms root_strs_owned Some by (auto simp: keeps_def)
  qed simp
  ultimately show ?thesis using that by blast
qed

lemma key_at_keeps: "keeps h h' k \<Longrightarrow> key_at h' k = key_at h k"
proof (cases "items h (root k)")
  case None
  moreover assume "keeps h h' k"
  ultimately show ?thesis by (simp add: key_at_def keeps_def)
next
  case (Some n)
  assume k: "keeps h h' k"
  obtain m where "items h' (root k) = Some m" "unlink m = unlink n"
    "str_at h' (i_string n) = str_at h (i_string n)"
    using keeps_root [OF k Some] by (metis insertCI)
  then show ?thesis using Some by (simp add: key_at_def text_of_def unlink_eq)
qed

lemma keeps_same:
  "(\<And>a. a \<in> set (addrs t) \<Longrightarrow> items h' a = items h a) \<Longrightarrow>
   (\<And>p. p \<in> set (owned h t) \<Longrightarrow> strs h' p = strs h p) \<Longrightarrow> keeps h h' t"
  by (simp add: keeps_def)

lemma keeps_kid:
  assumes "keeps h h' t" "distinct (addrs t)" "k \<in> set (kids t)"
  shows "keeps h h' k"
proof (rule keeps_same)
  fix a assume a: "a \<in> set (addrs k)"
  then have "a \<noteq> root t" using assms(2,3) by (cases t) auto
  moreover have "a \<in> set (addrs t)" using a assms(3) kid_addrs by blast
  ultimately show "items h' a = items h a" using assms(1) by (simp add: keeps_def)
next
  fix p assume "p \<in> set (owned h k)"
  then have "p \<in> set (owned h t)" using kid_owned assms(3) by blast
  then show "strs h' p = strs h p" using assms(1) by (simp add: keeps_def)
qed

lemma distinct_kid: "distinct (addrs t) \<Longrightarrow> k \<in> set (kids t) \<Longrightarrow> distinct (addrs k)"
  by (cases t) (auto simp: distinct_concat_iff)

lemma owned_keeps: "keeps h h' t \<Longrightarrow> distinct (addrs t) \<Longrightarrow> owned h' t = owned h t"
proof (induction t)
  case (Tree a ks)
  have "owned h' k = owned h k" if "k \<in> set ks" for k
    using Tree.IH [OF that] keeps_kid [OF Tree.prems] distinct_kid [OF Tree.prems(2)] that by simp
  moreover have "map_option node_strs (items h' a) = map_option node_strs (items h a)"
    using Tree.prems(1)
    by (cases "items h a"; cases "items h' a") (auto simp: keeps_def unlink_eq node_strs_def)
  ultimately show ?case by (auto simp: case_map_option split: option.splits intro!: arg_cong [of _ _ concat])
qed

lemma json_at_keeps: "keeps h h' t \<Longrightarrow> distinct (addrs t) \<Longrightarrow> json_at h' t = json_at h t"
proof (induction t)
  case (Tree a ks)
  have k: "keeps h h' k \<and> json_at h' k = json_at h k" if "k \<in> set ks" for k
    using Tree.IH [OF that] keeps_kid [OF Tree.prems] distinct_kid [OF Tree.prems(2)] that by simp
  then have ms: "map (\<lambda>k. (key_at h' k, json_at h' k)) ks = map (\<lambda>k. (key_at h k, json_at h k)) ks"
    by (simp add: key_at_keeps)
  show ?case
  proof (cases "items h a")
    case None
    then show ?thesis using Tree.prems(1) by (simp add: keeps_def)
  next
    case (Some n)
    then obtain m where "items h' a = Some m" "unlink m = unlink n"
      "str_at h' (i_valuestring n) = str_at h (i_valuestring n)"
      using keeps_root [OF Tree.prems(1), of n] by (metis insertCI tree.sel(1))
    then show ?thesis using Some ms by (simp add: json_node_def text_of_def unlink_eq)
  qed
qed

lemma node_ok_keeps:
  assumes "node_ok h n ks" "unlink m = unlink n" "\<And>p. p \<in> {i_valuestring n, i_string n} \<Longrightarrow> str_at h' p = str_at h p"
    "\<And>k. k \<in> set ks \<Longrightarrow> named h' k = named h k"
  shows "node_ok h' m ks"
proof -
  have "str_at h' (i_valuestring n) = str_at h (i_valuestring n)" "str_at h' (i_string n) = str_at h (i_string n)"
    using assms(3) by auto
  then show ?thesis using assms(1,2,4) unfolding node_ok_def unlink_eq by simp
qed

lemma tree_ok_keeps: "tree_ok h t \<Longrightarrow> keeps h h' t \<Longrightarrow> distinct (addrs t) \<Longrightarrow> tree_ok h' t"
proof (induction t)
  case (Tree a ks)
  have k: "keeps h h' k" "tree_ok h' k" if "k \<in> set ks" for k
    using Tree.IH [OF that] keeps_kid [OF Tree.prems(2,3)] distinct_kid [OF Tree.prems(3)] Tree.prems(1) that by auto
  obtain n where n: "items h a = Some n" "node_ok h n ks" "linked (items h) (i_child n) (map root ks)"
    using Tree.prems(1) by (auto split: option.splits)
  obtain m where m: "items h' a = Some m" "unlink m = unlink n"
    "\<And>p. p \<in> {i_valuestring n, i_string n} \<Longrightarrow> str_at h' p = str_at h p"
    using keeps_root [OF Tree.prems(2), of n] n(1) by auto
  have "node_ok h' m ks" using node_ok_keeps [OF n(2) m(2,3)] k(1) named_keeps by blast
  moreover have "linked (items h') (i_child m) (map root ks)"
  proof -
    have "items h' p = items h p" if p: "p \<in> set (map root ks)" for p
    proof -
      have "p \<in> set (concat (map addrs ks))" using p by (rule roots_sub)
      then have p: "p \<in> set (addrs (Tree a ks))" "p \<noteq> root (Tree a ks)" using Tree.prems(3) by auto
      have "\<forall>b\<in>set (addrs (Tree a ks)). b \<noteq> root (Tree a ks) \<longrightarrow> items h' b = items h b"
        using Tree.prems(2) unfolding keeps_def by (rule conjunct1)
      from bspec [OF this p(1)] p(2) show ?thesis by (rule mp)
    qed
    then have "linked (items h') (i_child n) (map root ks)" using linked_cong n(3) by blast
    then show ?thesis using m(2) by (simp add: unlink_eq)
  qed
  ultimately show ?case using m(1) k(2) by simp
qed

lemmas keeps_facts = tree_ok_keeps json_at_keeps owned_keeps

text \<open>An item after the links of its children were rearranged.\<close>

lemma relinks_keeps:
  assumes "relinks h h' a S ps" "a \<notin> set (addrs k)" "S \<inter> set (addrs k) \<subseteq> {root k}"
  shows "keeps h h' k"
  unfolding keeps_def
proof (intro conjI ballI impI)
  fix b assume "b \<in> set (addrs k)" "b \<noteq> root k"
  then show "items h' b = items h b" using assms by (auto simp: relinks_def)
next
  show "map_option unlink (items h' (root k)) = map_option unlink (items h (root k))"
  proof (cases "root k \<in> S")
    case False
    moreover have "root k \<noteq> a" using assms(2) by auto
    ultimately show ?thesis using assms(1) by (simp add: relinks_def)
  qed (use assms(1) in \<open>simp add: relinks_def\<close>)
next
  show "strs h' p = strs h p" for p
    using assms(1) unfolding relinks_def by (metis heap.ext_inject heap.surjective heap.update_convs(1))
qed

lemma relinks_tree:
  assumes r: "relinks h h' a S (map root ks)" and n: "items h a = Some n" "node_ok h n ks"
    and ks: "\<And>k. k \<in> set ks \<Longrightarrow> tree_ok h k" and d: "distinct (addrs (Tree a ks))"
    and S: "\<And>k. k \<in> set ks \<Longrightarrow> S \<inter> set (addrs k) \<subseteq> {root k}"
  shows "tree_ok h' (Tree a ks)" "json_at h' (Tree a ks) = json_node h n (members_at h ks)"
    "owned h' (Tree a ks) = node_strs n @ concat (map (owned h) ks)"
proof -
  have k: "keeps h h' k" "distinct (addrs k)" if "k \<in> set ks" for k
    using relinks_keeps [OF r _ S] d that distinct_kid [OF d] by auto
  have m: "items h' a = Some (set_child (front (map root ks) None) n)"
    and l: "linked (items h') (front (map root ks) None) (map root ks)" and s: "strs h' = strs h"
    using r n(1) unfolding relinks_def by simp_all (metis heap.ext_inject heap.surjective heap.update_convs(1))
  have st: "str_at h' p = str_at h p" for p using s by (cases p) simp_all
  then have nk: "node_ok h' (set_child c n) ks" for c
    using n(2) k(1) named_keeps [of h h'] by (simp add: node_ok_def)
  show "tree_ok h' (Tree a ks)"
    using m l nk tree_ok_keeps [OF ks k] by simp
  show "json_at h' (Tree a ks) = json_node h n (members_at h ks)"
    using m st json_at_keeps [OF k] key_at_keeps [OF k(1)]
    by (simp add: json_node_def members_at_def text_of_def cong: map_cong)
  show "owned h' (Tree a ks) = node_strs n @ concat (map (owned h) ks)"
    using m owned_keeps [OF k] by (simp add: node_strs_def cong: map_cong)
qed

section \<open>Deleting releases exactly what is owned\<close>

definition release :: "heap \<Rightarrow> addr set \<Rightarrow> addr set \<Rightarrow> heap" where
  "release h A P = h\<lparr>items := (\<lambda>a. if a \<in> A then None else items h a),
                     strs := (\<lambda>p. if p \<in> P then None else strs h p)\<rparr>"

lemma release_simps [simp]:
  "items (release h A P) = (\<lambda>a. if a \<in> A then None else items h a)"
  "strs (release h A P) = (\<lambda>p. if p \<in> P then None else strs h p)"
  "brk (release h A P) = brk h" "oom (release h A P) = oom h"
  by (simp_all add: release_def)

lemma release_release [simp]: "release (release h A P) B Q = release h (A \<union> B) (P \<union> Q)"
  by (auto simp: release_def fun_eq_iff)

lemma release_empty [simp]: "release h {} {} = h"
  by (simp add: release_def)

lemma no_flags: "i_type n \<in> item_types \<Longrightarrow> \<not> is_reference n \<and> \<not> string_is_const n"
  by (auto simp: item_types_def is_reference_def string_is_const_def)

lemma cJSON_Delete_None [simp]: "cJSON_Delete h None = Some h"
  by (subst cJSON_Delete.simps) simp

text \<open>One of the two strings of an item is released.\<close>

lemma free_field_run:
  assumes "items h a = Some n" "p = None \<or> str_at h p \<noteq> None" "p = None \<Longrightarrow> f n = n"
  shows "(if c \<and> p \<noteq> None then do { h \<leftarrow> free_str h p; modify h (Some a) f } else Some h) =
    Some (if c then (release h {} (set (ptrs p)))\<lparr>items := (items h)(a \<mapsto> f n)\<rparr> else h)"
proof (cases p)
  case None
  then have "h = h\<lparr>items := (items h)(a \<mapsto> f n)\<rparr>" using assms by (simp add: map_upd_triv)
  then show ?thesis using None by simp
next
  case (Some q)
  then show ?thesis using assms by (auto simp: free_str_def release_def modify_def fun_upd_def fun_eq_iff)
qed

lemma delete_run:
  assumes n: "items h a = Some n" "i_type n \<in> item_types" and c: "cJSON_Delete h (i_child n) = Some h1"
    and h1: "items h1 a = Some n" "distinct (node_strs n)" "\<And>p. p \<in> set (node_strs n) \<Longrightarrow> strs h1 p \<noteq> None"
  shows "cJSON_Delete h (Some a) = cJSON_Delete (release h1 {a} (set (node_strs n))) (i_next n)"
proof -
  define n2 where "n2 = i_valuestring_update (\<lambda>_. None) n"
  define n3 where "n3 = i_string_update (\<lambda>_. None) n2"
  define h2 where "h2 = (release h1 {} (set (ptrs (i_valuestring n))))\<lparr>items := (items h1)(a \<mapsto> n2)\<rparr>"
  define h3 where "h3 = (release h2 {} (set (ptrs (i_string n))))\<lparr>items := (items h2)(a \<mapsto> n3)\<rparr>"
  have f: "\<not> is_reference n" "\<not> string_is_const n2" "i_string n2 = i_string n" "i_next n2 = i_next n"
    using no_flags [OF n(2)] by (simp_all add: n2_def n3_def is_reference_def string_is_const_def)
  have e: "i_valuestring n = None \<Longrightarrow> i_valuestring_update (\<lambda>_. None) n = n"
    "i_string n = None \<Longrightarrow> i_string_update (\<lambda>_. None) n2 = n2"
    by (cases n; simp add: n2_def)+
  have s: "i_valuestring n = None \<or> str_at h1 (i_valuestring n) \<noteq> None"
    "i_string n = None \<or> str_at h2 (i_string n) \<noteq> None"
    using h1(2,3) by (cases "i_valuestring n"; cases "i_string n"; auto simp: node_strs_def h2_def)+
  have i2: "items h2 a = Some n2" and i3: "items h3 a = Some n3" by (simp_all add: h2_def h3_def)
  have a1: "(if \<not> is_reference n \<and> i_child n \<noteq> None then cJSON_Delete h (i_child n) else Some h) = Some h1"
    using c f(1) by (cases "i_child n") auto
  have a2: "(if \<not> is_reference n \<and> i_valuestring n \<noteq> None
      then do { h \<leftarrow> free_str h1 (i_valuestring n); modify h (Some a) (i_valuestring_update (\<lambda>_. None)) }
      else Some h1) = Some h2" (is "?L = _")
  proof -
    have "?L = Some (if \<not> is_reference n
        then (release h1 {} (set (ptrs (i_valuestring n))))\<lparr>items := (items h1)(a \<mapsto> i_valuestring_update (\<lambda>_. None) n)\<rparr>
        else h1)"
      by (rule free_field_run) (fact h1(1), fact s(1), simp add: e(1))
    then show ?thesis using f(1) by (simp only: h2_def n2_def simp_thms if_True)
  qed
  have a3: "(if \<not> string_is_const n2 \<and> i_string n2 \<noteq> None
      then do { h \<leftarrow> free_str h2 (i_string n2); modify h (Some a) (i_string_update (\<lambda>_. None)) }
      else Some h2) = Some h3" (is "?L = _")
  proof -
    have "?L = Some (if \<not> string_is_const n2
        then (release h2 {} (set (ptrs (i_string n))))\<lparr>items := (items h2)(a \<mapsto> i_string_update (\<lambda>_. None) n2)\<rparr>
        else h2)"
      unfolding f(3) by (rule free_field_run) (fact i2, fact s(2), simp add: e(2))
    then show ?thesis using f(2) by (simp only: h3_def n3_def simp_thms if_True)
  qed
  have a4: "free_item h3 (Some a) = Some (release h1 {a} (set (node_strs n)))"
    using i3 by (auto simp: free_item_def h3_def h2_def node_strs_def release_def fun_eq_iff)
  show ?thesis
    by (subst cJSON_Delete.simps) (simp only: deref_Some n(1) Option.bind.simps a1 h1(1) a2 i2 a3 i3 a4 f(4) option.distinct if_False)
qed

text \<open>What \<open>cJSON_Delete\<close> follows: the \<open>next\<close> pointers.\<close>

fun nexts :: "(addr \<Rightarrow> cjson option) \<Rightarrow> addr list \<Rightarrow> bool" where
  "nexts I [] \<longleftrightarrow> True"
| "nexts I (p # ps) \<longleftrightarrow> (case I p of None \<Rightarrow> False | Some n \<Rightarrow> i_next n = front ps None) \<and> nexts I ps"

lemma seg_nexts: "seg I q ps None \<Longrightarrow> nexts I ps"
  by (induction ps arbitrary: q) (auto split: option.splits)

lemma linked_nexts: "linked I c ps \<Longrightarrow> nexts I ps"
  using linked_seg seg_nexts by blast

lemma nexts_cong: "(\<And>p. p \<in> set ps \<Longrightarrow> J p = I p) \<Longrightarrow> nexts J ps = nexts I ps"
  by (induction ps) auto

definition forest_ok :: "heap \<Rightarrow> tree list \<Rightarrow> bool" where
  "forest_ok h ks \<longleftrightarrow> (\<forall>k\<in>set ks. tree_ok h k) \<and> distinct (concat (map addrs ks)) \<and>
     distinct (concat (map (owned h) ks))"

lemma forest_ok_Nil [simp]: "forest_ok h []"
  by (simp add: forest_ok_def)

lemma forest_ok_Cons:
  "forest_ok h (k # ks) \<longleftrightarrow> item_ok h k \<and> forest_ok h ks \<and>
     set (addrs k) \<inter> set (concat (map addrs ks)) = {} \<and>
     set (owned h k) \<inter> set (concat (map (owned h) ks)) = {}"
  by (auto simp: forest_ok_def item_ok_def)

lemma forest_ok_append:
  "forest_ok h (ks @ ls) \<longleftrightarrow> forest_ok h ks \<and> forest_ok h ls \<and>
     set (concat (map addrs ks)) \<inter> set (concat (map addrs ls)) = {} \<and>
     set (concat (map (owned h) ks)) \<inter> set (concat (map (owned h) ls)) = {}"
  by (auto simp: forest_ok_def)

lemma item_ok_Tree:
  assumes "items h a = Some n"
  shows "item_ok h (Tree a ks) \<longleftrightarrow>
    node_ok h n ks \<and> linked (items h) (i_child n) (map root ks) \<and> forest_ok h ks \<and>
    a \<notin> set (concat (map addrs ks)) \<and> distinct (node_strs n) \<and>
    set (node_strs n) \<inter> set (concat (map (owned h) ks)) = {}"
  using assms by (auto simp: item_ok_def forest_ok_def)

lemma forest_item: "forest_ok h ks \<Longrightarrow> k \<in> set ks \<Longrightarrow> item_ok h k"
  by (induction ks) (auto simp: forest_ok_Cons)

lemma forest_ok_keeps:
  assumes "forest_ok h ks" "\<And>k. k \<in> set ks \<Longrightarrow> keeps h h' k"
  shows "forest_ok h' ks"
proof -
  have "distinct (addrs k)" "tree_ok h k" if "k \<in> set ks" for k
    using forest_item [OF assms(1) that] by (simp_all add: item_ok_def)
  then have "owned h' k = owned h k" "tree_ok h' k" if "k \<in> set ks" for k
    using owned_keeps [OF assms(2)] tree_ok_keeps [OF _ assms(2)] that by blast+
  then have m: "map (owned h') ks = map (owned h) ks" and "\<forall>k\<in>set ks. tree_ok h' k" by simp_all
  then show ?thesis using assms(1) unfolding forest_ok_def m by blast
qed

lemma release_keeps:
  "set (addrs t) \<inter> A = {} \<Longrightarrow> set (owned h t) \<inter> P = {} \<Longrightarrow> keeps h (release h A P) t"
  by (rule keeps_same) auto

lemma release_forest:
  assumes "forest_ok h ks" "set (concat (map addrs ks)) \<inter> A = {}" "set (concat (map (owned h) ks)) \<inter> P = {}"
  shows "forest_ok (release h A P) ks" "map (owned (release h A P)) ks = map (owned h) ks"
proof -
  have k: "keeps h (release h A P) k" "distinct (addrs k)" if "k \<in> set ks" for k
    using assms that forest_item [OF assms(1) that] by (auto intro!: release_keeps simp: item_ok_def)
  then show "map (owned (release h A P)) ks = map (owned h) ks" using owned_keeps by simp
  show "forest_ok (release h A P) ks" using assms(1) k(1) by (rule forest_ok_keeps)
qed

lemma delete_forest:
  "forest_ok h ks \<Longrightarrow> nexts (items h) (map root ks) \<Longrightarrow>
   cJSON_Delete h (front (map root ks) None) =
     Some (release h (set (concat (map addrs ks))) (set (concat (map (owned h) ks))))"
proof (induction "length (concat (map addrs ks))" arbitrary: h ks rule: less_induct)
  case less
  show ?case
  proof (cases ks)
    case (Cons t rest)
    obtain a cs where t: "t = Tree a cs" by (cases t)
    have ok: "item_ok h (Tree a cs)" and rest: "forest_ok h rest"
      and disj: "set (addrs t) \<inter> set (concat (map addrs rest)) = {}"
        "set (owned h t) \<inter> set (concat (map (owned h) rest)) = {}"
      using less.prems(1) by (simp_all add: Cons t forest_ok_Cons)
    obtain n where n: "items h a = Some n" using ok by (auto simp: item_ok_def split: option.splits)
    note i = ok [unfolded item_ok_Tree [OF n]]
    define A P where "A = set (concat (map addrs cs))" and "P = set (concat (map (owned h) cs))"
    have "cJSON_Delete h (front (map root cs) None) = Some (release h A P)"
      unfolding A_def P_def using i linked_nexts by (intro less.hyps) (auto simp: Cons t)
    then have c: "cJSON_Delete h (i_child n) = Some (release h A P)"
      using i by (simp add: linked_def)
    have "cJSON_Delete h (Some a) =
        cJSON_Delete (release (release h A P) {a} (set (node_strs n))) (i_next n)"
      using n _ c
    proof (rule delete_run)
      show "i_type n \<in> item_types" "distinct (node_strs n)" using i by (auto simp: node_ok_def)
      show "items (release h A P) a = Some n" using i n by (auto simp: A_def)
      show "strs (release h A P) p \<noteq> None" if "p \<in> set (node_strs n)" for p
        using i that node_ok_strs by (auto simp: P_def)
    qed
    moreover have "i_next n = front (map root rest) None" using less.prems(2) n by (simp add: Cons t)
    moreover define B Q where "B = A \<union> {a}" and "Q = P \<union> set (node_strs n)"
    ultimately have d: "cJSON_Delete h (Some a) = cJSON_Delete (release h B Q) (front (map root rest) None)"
      by simp
    have B: "B = set (addrs t)" and Q: "Q = set (owned h t)" using n by (auto simp: B_def A_def Q_def P_def t)
    have "set (concat (map addrs rest)) \<inter> B = {}" "set (concat (map (owned h) rest)) \<inter> Q = {}"
      using disj unfolding B Q by (simp_all only: Int_commute)
    note f = release_forest [OF rest this]
    have "items (release h B Q) p = items h p" if p: "p \<in> set (map root rest)" for p
    proof -
      have "p \<in> set (concat (map addrs rest))" using p by (rule roots_sub)
      then show ?thesis using disj B by auto
    qed
    then have "nexts (items (release h B Q)) (map root rest) = nexts (items h) (map root rest)"
      by (rule nexts_cong)
    then have nx: "nexts (items (release h B Q)) (map root rest)" using less.prems(2) by (simp add: Cons)
    have "cJSON_Delete (release h B Q) (front (map root rest) None) =
        Some (release (release h B Q) (set (concat (map addrs rest))) (set (concat (map (owned (release h B Q)) rest))))"
      using f(1) nx by (intro less.hyps) (simp_all add: Cons t)
    then show ?thesis using d f(2) B Q by (simp add: Cons t)
  qed simp
qed

lemma delete_item:
  assumes "item_ok h t" "items h (root t) = Some n" "i_next n = None"
  shows "cJSON_Delete h (Some (root t)) = Some (release h (set (addrs t)) (set (owned h t)))"
  using delete_forest [of h "[t]"] assms by (simp add: forest_ok_Cons)

end
