(* ===== verification/Json_Heap_Ops.thy ===== *)
theory Json_Heap_Ops
  imports Json_Heap_Props
begin

text \<open>
  Operations on linked arrays and objects against those on values: a change of the links of the children
  leaves a tree with the value of the new order, lookups return the node of the value found, and a
  member is added under a copy of its name. \<open>Json_Array_Edits\<close> builds the edits of arrays on this,
  \<open>Json_Heap_Copy\<close> copying and creating.
\<close>

section \<open>Operations on the members of an item\<close>

lemma roots_other:
  "distinct (concat (map addrs ls)) \<Longrightarrow> k \<in> set ls \<Longrightarrow> set (map root ls) \<inter> set (addrs k) \<subseteq> {root k}"
proof (induction ls)
  case (Cons l ls)
  show ?case
  proof (cases "k = l")
    case True
    have "set (map root ls) \<inter> set (addrs k) = {}" using Cons.prems(1) True roots_sub by fastforce
    then show ?thesis using True by simp
  next
    case False
    then have "k \<in> set ls" using Cons.prems(2) by simp
    then have "set (addrs k) \<subseteq> set (concat (map addrs ls))" by auto
    moreover have "set (addrs l) \<inter> set (concat (map addrs ls)) = {}" using Cons.prems(1) by auto
    ultimately have "root l \<notin> set (addrs k)" using root_in_addrs [of l] by blast
    moreover have "set (map root ls) \<inter> set (addrs k) \<subseteq> {root k}"
      using Cons.IH Cons.prems(1) \<open>k \<in> set ls\<close> by simp
    ultimately show ?thesis by auto
  qed
qed simp

lemma distinct_roots: "distinct (concat (map addrs ks)) \<Longrightarrow> distinct (map root ks)"
proof (induction ks)
  case (Cons k ks)
  have "set (addrs k) \<inter> set (concat (map addrs ks)) = {}" using Cons.prems by auto
  then have "root k \<notin> set (map root ks)" using roots_sub root_in_addrs [of k] by blast
  then show ?case using Cons by simp
qed simp

lemma relinks_strs: "relinks h h' a S ps \<Longrightarrow> strs h' = strs h \<and> brk h' = brk h \<and> oom h' = oom h"
  unfolding relinks_def by (metis heap.ext_inject heap.surjective heap.update_convs(1))

lemma relinks_dom: "relinks h h' a S ps \<Longrightarrow> items h' b = None \<longleftrightarrow> items h b = None"
  by (cases "b = a"; cases "b \<in> S") (auto simp: relinks_def dest!: bspec)

lemma relinks_heap_ok: "relinks h h' a S ps \<Longrightarrow> heap_ok h' = heap_ok h"
  using relinks_dom [of h h' a S ps] relinks_strs [of h h' a S ps] by (simp add: heap_ok_def)

text \<open>The item \<open>a\<close> after its children became \<open>ks\<close>, all of them from the forest \<open>ls\<close>.\<close>

lemma relinks_item:
  assumes r: "relinks h h' a (set (map root ls)) (map root ks)" and n: "items h a = Some n" "node_ok h n ks"
    and ls: "forest_ok h ls" "a \<notin> set (concat (map addrs ls))" and ks: "set ks \<subseteq> set ls" "forest_ok h ks"
    and s: "distinct (node_strs n)" "set (node_strs n) \<inter> set (concat (map (owned h) ks)) = {}"
  shows "item_ok h' (Tree a ks)" "json_at h' (Tree a ks) = json_node h n (members_at h ks)"
    "owned h' (Tree a ks) = node_strs n @ concat (map (owned h) ks)"
proof -
  have S: "set (map root ls) \<inter> set (addrs k) \<subseteq> {root k}" if "k \<in> set ks" for k
    using roots_other ls(1) ks(1) that unfolding forest_ok_def by blast
  have d: "distinct (addrs (Tree a ks))"
    using ks ls(2) by (auto simp: forest_ok_def)
  have t: "tree_ok h k" if "k \<in> set ks" for k using ks(2) that by (simp add: forest_ok_def)
  note * = relinks_tree [OF r n t d S]
  show "json_at h' (Tree a ks) = json_node h n (members_at h ks)" by (rule *(2))
  show o: "owned h' (Tree a ks) = node_strs n @ concat (map (owned h) ks)" by (rule *(3))
  have "distinct (owned h' (Tree a ks))" using s ks(2) unfolding o forest_ok_def by simp
  then show "item_ok h' (Tree a ks)" using *(1) d by (simp only: item_ok_def simp_thms)
qed

text \<open>A single item apart from the forest keeps its value, too.\<close>

lemma relinks_other:
  assumes "relinks h h' a S ps" "item_ok h t" "a \<notin> set (addrs t)" "S \<inter> set (addrs t) \<subseteq> {root t}"
  shows "item_ok h' t" "json_at h' t = json_at h t" "owned h' t = owned h t"
proof -
  have k: "keeps h h' t" using assms by (intro relinks_keeps) auto
  have d: "distinct (addrs t)" "tree_ok h t" using assms(2) by (simp_all add: item_ok_def)
  show "json_at h' t = json_at h t" by (rule json_at_keeps [OF k d(1)])
  show o: "owned h' t = owned h t" by (rule owned_keeps [OF k d(1)])
  show "item_ok h' t" using tree_ok_keeps [OF d(2) k d(1)] assms(2) by (simp add: item_ok_def o)
qed

lemma add_item:
  assumes ok: "item_ok h (Tree a ks)" and n: "items h a = Some n" "node_ok h n (ks @ [k])"
    and k: "item_ok h k" "items h (root k) = Some m" "i_next m = None"
    and disj: "set (addrs (Tree a ks)) \<inter> set (addrs k) = {}" "set (owned h (Tree a ks)) \<inter> set (owned h k) = {}"
  shows "\<exists>h'. add_item_to_array h (Some a) (Some (root k)) = Some (True, h') \<and>
    item_ok h' (Tree a (ks @ [k])) \<and> json_at h' (Tree a (ks @ [k])) = json_node h n (members_at h (ks @ [k])) \<and>
    relinks h h' a (set (map root (ks @ [k]))) (map root (ks @ [k]))"
proof -
  note i = ok [unfolded item_ok_Tree [OF n(1)]]
  have f: "forest_ok h (ks @ [k])"
    using i k(1) disj n(1) unfolding forest_ok_append by (auto simp: forest_ok_Cons)
  have a: "a \<notin> set (concat (map addrs (ks @ [k])))" using i disj by auto
  have "distinct (map root (ks @ [k]))" using f by (intro distinct_roots) (simp add: forest_ok_def)
  then have "distinct (a # root k # map root ks)" using roots_sub a by fastforce
  then obtain h' where h': "add_item_to_array h (Some a) (Some (root k)) = Some (True, h')"
    "relinks h h' a (insert (root k) (set (map root ks))) (map root ks @ [root k])"
    using add_item_to_array_run [OF n(1) _ _ k(2,3)] i by blast
  then have r: "relinks h h' a (set (map root (ks @ [k]))) (map root (ks @ [k]))" by simp
  have "set (node_strs n) \<inter> set (concat (map (owned h) (ks @ [k]))) = {}" "distinct (node_strs n)"
    using i disj(2) n(1) by auto
  note * = relinks_item [OF r n f a subset_refl f this(2,1)]
  show ?thesis using h'(1) r *(1,2) by blast
qed

lemma roots_fresh:
  "forest_ok h ks \<Longrightarrow> a \<notin> set (concat (map addrs ks)) \<Longrightarrow> distinct (a # map root ks)"
  using roots_sub distinct_roots by (auto simp: forest_ok_def)

lemma release_item:
  assumes "item_ok h t" "set (addrs t) \<inter> A = {}" "set (owned h t) \<inter> P = {}"
  shows "item_ok (release h A P) t" "json_at (release h A P) t = json_at h t"
proof -
  have k: "keeps h (release h A P) t" using assms(2,3) by (rule release_keeps)
  have d: "distinct (addrs t)" "tree_ok h t" using assms(1) by (simp_all add: item_ok_def)
  show "json_at (release h A P) t = json_at h t" by (rule json_at_keeps [OF k d(1)])
  show "item_ok (release h A P) t"
    using tree_ok_keeps [OF d(2) k d(1)] owned_keeps [OF k d(1)] assms(1) by (simp add: item_ok_def)
qed

section \<open>Arrays\<close>

definition separate :: "heap \<Rightarrow> tree \<Rightarrow> tree \<Rightarrow> bool" where
  "separate h t u \<longleftrightarrow> set (addrs t) \<inter> set (addrs u) = {} \<and> set (owned h t) \<inter> set (owned h u) = {}"

lemma members_simps [simp]:
  "members_at h [] = []" "members_at h (k # ks) = (key_at h k, json_at h k) # members_at h ks"
  "members_at h (ks @ ls) = members_at h ks @ members_at h ls"
  by (simp_all add: members_at_def)

lemma snd_members [simp]: "map snd (members_at h ks) = map (json_at h) ks"
  by (simp add: members_at_def)

lemma json_node_array: "i_type n = cJSON_Array \<Longrightarrow> json_node h n ms = JArray (map snd ms)"
  by (simp add: json_node_def)

lemma json_node_object: "i_type n = cJSON_Object \<Longrightarrow> json_node h n ms = JObject ms"
  by (simp add: json_node_def)

lemma json_at_array: "items h a = Some n \<Longrightarrow> i_type n = cJSON_Array \<Longrightarrow>
    json_at h (Tree a ks) = JArray (map (json_at h) ks)"
  by (simp add: json_node_array comp_def)

lemma json_at_object: "items h a = Some n \<Longrightarrow> i_type n = cJSON_Object \<Longrightarrow>
    json_at h (Tree a ks) = JObject (members_at h ks)"
  by (simp add: json_node_object members_at_def)

text \<open>An array or object has no string value, and its kind does not depend on its elements.\<close>

lemma node_ok_array: "i_type n = cJSON_Array \<Longrightarrow> node_ok h n ks \<Longrightarrow> node_ok h n ls"
  by (auto simp: node_ok_def)

lemma take_drop_split: "i < length ks \<Longrightarrow> take i ks @ ks ! i # drop (Suc i) ks = ks"
  by (simp add: Cons_nth_drop_Suc)

lemma array_get:
  assumes "item_ok h (Tree a ks)" "items h a = Some n"
  shows "cJSON_GetArraySize_h h (Some a) = Some (length ks)"
    "cJSON_GetArrayItem_h h (Some a) i =
      Some (if 0 \<le> i \<and> nat i < length ks then Some (root (ks ! nat i)) else None)"
  using assms cJSON_GetArraySize_linked [OF assms(2), of "map root ks"]
    get_array_item_linked [OF assms(2), of "map root ks" "nat i"]
  by (auto simp: item_ok_Tree cJSON_GetArrayItem_h_def)

lemma item_ok_node: "item_ok h (Tree a ks) \<Longrightarrow> items h a = Some n \<Longrightarrow> node_ok h n ks"
  by (simp add: item_ok_Tree)

section \<open>Objects\<close>

definition key_matches :: "bool \<Rightarrow> string \<Rightarrow> string \<Rightarrow> bool" where
  "key_matches case_sensitive name key = (if case_sensitive then name = key else strcasecmp_eq name key)"

lemma strcasecmp_eq_refl [simp]: "strcasecmp_eq s s"
  by (simp add: strcasecmp_eq_def)

lemma str_at_ptr: "str_at h p = Some s \<Longrightarrow> p \<noteq> None"
  by (cases p) simp_all

lemma names_differ_run:
  assumes "str_at h p = Some s" "str_at h q = Some t"
  shows "names_differ h cs p q = Some (\<not> key_matches cs s t)"
proof -
  have "p \<noteq> None" "q \<noteq> None" "p = q \<Longrightarrow> s = t" using assms str_at_ptr by auto
  then show ?thesis using assms by (auto simp: names_differ_def case_insensitive_equal_def key_matches_def)
qed

lemma chain_find_simps [simp]:
  "chain_find h cs name None = Some None"
  by (subst chain_find.simps) simp

lemma chain_find_step:
  "items h a = Some n \<Longrightarrow> names_differ h cs name (i_string n) = Some d \<Longrightarrow>
   chain_find h cs name (Some a) = (if d then chain_find h cs name (i_next n) else Some (Some a))"
  by (subst chain_find.simps) simp

lemma tree_key:
  assumes "tree_ok h k" "named h k" "items h (root k) = Some n"
  shows "str_at h (i_string n) = Some (key_at h k)"
  using tree_ok_root [OF assms(1)] assms(2,3)
  by (auto simp: node_ok_def named_def key_at_def text_of_def)

lemma chain_find_forest:
  assumes "str_at h p = Some name"
  shows "nexts (items h) (map root ks) \<Longrightarrow> \<forall>k\<in>set ks. tree_ok h k \<and> named h k \<Longrightarrow>
    chain_find h cs p (front (map root ks) None) =
      Some (map_option root (find (\<lambda>k. key_matches cs name (key_at h k)) ks))"
proof (induction ks)
  case (Cons k ks)
  then obtain n where n: "items h (root k) = Some n" "i_next n = front (map root ks) None"
    by (auto split: option.splits)
  have "names_differ h cs p (i_string n) = Some (\<not> key_matches cs name (key_at h k))"
    using Cons.prems(2) n(1) by (intro names_differ_run [OF assms] tree_key) auto
  then show ?case using Cons n by (simp add: chain_find_step)
qed simp

lemma object_find:
  assumes t: "item_ok h (Tree a ks)" "items h a = Some n" "i_type n = cJSON_Object" and p: "str_at h p = Some name"
  shows "get_object_item h (Some a) p cs =
    Some (map_option root (find (\<lambda>k. key_matches cs name (key_at h k)) ks))"
proof -
  have ks: "\<forall>k\<in>set ks. tree_ok h k \<and> named h k" "nexts (items h) (map root ks)" "i_child n = front (map root ks) None"
    using t linked_nexts by (auto simp: item_ok_Tree node_ok_def forest_ok_def linked_def)
  note f = chain_find_forest [OF p ks(2,1), of cs]
  have "p \<noteq> None" using p by (rule str_at_ptr)
  moreover have "\<exists>m. items h (root k) = Some m \<and> i_string m \<noteq> None" if "find P ks = Some k" for P k
  proof -
    have "k \<in> set ks" using that by (auto simp: find_Some_iff)
    then show ?thesis using ks(1) by (auto simp: named_def split: option.splits)
  qed
  ultimately show ?thesis
    using t(2) f ks(3) by (cases "find (\<lambda>k. key_matches cs name (key_at h k)) ks") (fastforce simp: get_object_item_def)+
qed

lemma find_map: "find P (map f xs) = map_option f (find (P \<circ> f) xs)"
  by (induction xs) auto

text \<open>The lookup on the heap finds the item of the value that the lookup on the value finds.\<close>

lemma object_get:
  assumes t: "item_ok h (Tree a ks)" "items h a = Some n" "i_type n = cJSON_Object" and p: "str_at h p = Some name"
  shows "\<exists>r. cJSON_GetObjectItem_h h (Some a) p = Some (map_option root r) \<and>
    map_option (json_at h) r = cJSON_GetObjectItem (Some (json_at h (Tree a ks))) name \<and> set_option r \<subseteq> set ks"
proof (intro exI conjI)
  let ?r = "find (\<lambda>k. key_matches False name (key_at h k)) ks"
  show "cJSON_GetObjectItem_h h (Some a) p = Some (map_option root ?r)"
    unfolding cJSON_GetObjectItem_h_def by (rule object_find [OF assms])
  show "map_option (json_at h) ?r = cJSON_GetObjectItem (Some (json_at h (Tree a ks))) name"
    unfolding json_at_object [OF t(2,3)]
    by (simp add: cJSON_GetObjectItem_def members_at_def find_map comp_def key_matches_def option.map_comp)
  show "set_option ?r \<subseteq> set ks"
    by (cases ?r) (auto simp: find_Some_iff)
qed

lemma type_no_const: "i_type n \<in> item_types \<Longrightarrow> i_type n AND NOT cJSON_StringIsConst = i_type n"
  by (auto simp: item_types_def)

lemma owned_below: "heap_ok h \<Longrightarrow> tree_ok h t \<Longrightarrow> p \<in> set (owned h t) \<Longrightarrow> p < brk h"
  using tree_ok_owned_dom [of h t p] by (auto simp: heap_ok_def not_le [symmetric])

lemma cJSON_strdup_None [simp]: "cJSON_strdup h None = Some (None, h)"
  by (simp add: cJSON_strdup_def)

lemma cJSON_strdup_run:
  "strs h p = Some s \<Longrightarrow> cJSON_strdup h (Some p) =
     Some (if oom h (brk h) then (None, h\<lparr>brk := Suc (brk h)\<rparr>)
           else (Some (brk h), h\<lparr>brk := Suc (brk h), strs := (strs h)(brk h \<mapsto> s)\<rparr>))"
  by (simp add: cJSON_strdup_def Let_def)

lemma set_same_type: "(n :: cjson)\<lparr>i_string := x, i_type := i_type n\<rparr> = n\<lparr>i_string := x\<rparr>"
  by simp

text \<open>An item gets a new name: the string \<open>s\<close> at a fresh address.\<close>

definition rename_item :: "heap \<Rightarrow> addr \<Rightarrow> cjson \<Rightarrow> string \<Rightarrow> heap" where
  "rename_item h j m s = h\<lparr>brk := Suc (brk h),
     strs := (\<lambda>p. if p = brk h then Some s else if Some p = i_string m then None else strs h p),
     items := (items h)(j \<mapsto> m\<lparr>i_string := Some (brk h)\<rparr>)\<rparr>"

lemma rename_other:
  assumes "heap_ok h" "item_ok h t" "j \<notin> set (addrs t)" "set (ptrs (i_string m)) \<inter> set (owned h t) = {}"
  shows "item_ok (rename_item h j m s) t" "json_at (rename_item h j m s) t = json_at h t"
    "owned (rename_item h j m s) t = owned h t" "key_at (rename_item h j m s) t = key_at h t"
    "named (rename_item h j m s) t = named h t"
proof -
  have t: "tree_ok h t" "distinct (addrs t)" using assms(2) by (simp_all add: item_ok_def)
  have k: "keeps h (rename_item h j m s) t"
  proof (rule keeps_same)
    show "items (rename_item h j m s) b = items h b" if "b \<in> set (addrs t)" for b
      using that assms(3) by (auto simp: rename_item_def)
    show "strs (rename_item h j m s) p = strs h p" if "p \<in> set (owned h t)" for p
    proof -
      have "Some p \<noteq> i_string m" using that assms(4) by (cases "i_string m") auto
      then show ?thesis using owned_below [OF assms(1) t(1) that] by (simp add: rename_item_def)
    qed
  qed
  show "json_at (rename_item h j m s) t = json_at h t" by (rule json_at_keeps [OF k t(2)])
  show o: "owned (rename_item h j m s) t = owned h t" by (rule owned_keeps [OF k t(2)])
  show "key_at (rename_item h j m s) t = key_at h t" by (rule key_at_keeps [OF k])
  show "named (rename_item h j m s) t = named h t" by (rule named_keeps [OF k])
  show "item_ok (rename_item h j m s) t"
    using tree_ok_keeps [OF t(1) k t(2)] assms(2) by (simp add: item_ok_def o)
qed

lemma rename_same:
  assumes h: "heap_ok h" and j: "item_ok h (Tree b ls)" "items h b = Some m"
  shows "item_ok (rename_item h b m s) (Tree b ls)"
    "json_at (rename_item h b m s) (Tree b ls) = json_at h (Tree b ls)"
    "key_at (rename_item h b m s) (Tree b ls) = s" "named (rename_item h b m s) (Tree b ls)"
    "set (owned (rename_item h b m s) (Tree b ls)) \<subseteq> insert (brk h) (set (owned h (Tree b ls)))"
proof -
  note i = j(1) [unfolded item_ok_Tree [OF j(2)]]
  define g n where "g = rename_item h b m s" and "n = m\<lparr>i_string := Some (brk h)\<rparr>"
  have n: "items g b = Some n" by (simp add: g_def n_def rename_item_def)
  have ls: "item_ok g k" "json_at g k = json_at h k" "owned g k = owned h k" "key_at g k = key_at h k"
      "named g k = named h k" "keeps h g k" if "k \<in> set ls" for k
  proof -
    have k: "item_ok h k" "b \<notin> set (addrs k)" "set (ptrs (i_string m)) \<inter> set (owned h k) = {}"
      using i that forest_item by (auto simp: node_strs_def)
    note * = rename_other [OF h k, of s, folded g_def]
    show "item_ok g k" "json_at g k = json_at h k" "owned g k = owned h k" "key_at g k = key_at h k"
      "named g k = named h k" by (rule *)+
    have "items g c = items h c" if "c \<in> set (addrs k)" for c
      using that k(2) by (auto simp: g_def rename_item_def)
    moreover have "strs g p = strs h p" if "p \<in> set (owned h k)" for p
    proof -
      have "Some p \<noteq> i_string m" using that k(3) by (cases "i_string m") auto
      then show ?thesis
        using owned_below [OF h _ that] k(1) by (auto simp: g_def rename_item_def item_ok_def)
    qed
    ultimately show "keeps h g k" by (rule keeps_same)
  qed
  have o: "map (owned g) ls = map (owned h) ls" using ls(3) by simp
  have below: "p < brk h" if "p \<in> set (owned h (Tree b ls))" for p
    using owned_below [OF h _ that] j(1) by (simp add: item_ok_def)
  have v: "str_at g (i_valuestring m) = str_at h (i_valuestring m)"
  proof (cases "i_valuestring m")
    case (Some p)
    then have "p \<in> set (owned h (Tree b ls))" "Some p \<noteq> i_string m"
      using i j(2) by (cases "i_string m"; auto simp: node_strs_def)+
    then show ?thesis using below [of p] Some by (simp add: g_def rename_item_def)
  qed simp
  have k: "str_at g (i_string n) = Some s" by (simp add: g_def n_def rename_item_def)
  have "node_ok g n ls" using i v k ls(5) by (simp add: node_ok_def n_def)
  moreover have "linked (items g) (i_child n) (map root ls)"
  proof -
    have "items g p = items h p" if p: "p \<in> set (map root ls)" for p
      using roots_sub [OF p] i by (auto simp: g_def rename_item_def)
    then have "linked (items g) (i_child m) (map root ls) = linked (items h) (i_child m) (map root ls)"
      by (rule linked_cong)
    then show ?thesis using i by (simp add: n_def)
  qed
  moreover have "forest_ok g ls" using i ls(6) forest_ok_keeps by blast
  moreover have "distinct (node_strs n)" "set (node_strs n) \<inter> set (concat (map (owned g) ls)) = {}"
    using i j(2) below unfolding o by (auto simp: node_strs_def n_def ptrs_def split: option.splits)
  ultimately have "item_ok g (Tree b ls)" using i by (simp only: item_ok_Tree [OF n] simp_thms)
  then show "item_ok (rename_item h b m s) (Tree b ls)" by (simp add: g_def)
  show "json_at (rename_item h b m s) (Tree b ls) = json_at h (Tree b ls)"
    using n j(2) ls(2,4) v by (simp add: g_def [symmetric] json_node_def n_def text_of_def cong: map_cong)
  show "key_at (rename_item h b m s) (Tree b ls) = s" "named (rename_item h b m s) (Tree b ls)"
    using n k by (simp_all add: key_at_def named_def text_of_def n_def g_def [symmetric])
  show "set (owned (rename_item h b m s) (Tree b ls)) \<subseteq> insert (brk h) (set (owned h (Tree b ls)))"
    using n j(2) ls(3) by (auto simp: g_def [symmetric] node_strs_def n_def)
qed

lemma rename_brk: "heap_ok h \<Longrightarrow> items h b \<noteq> None \<Longrightarrow> heap_ok (rename_item h b m s)"
  by (auto simp: heap_ok_def rename_item_def Suc_le_eq)

text \<open>\<open>cJSON_AddItemToObject\<close>: the member is appended under a copy of the name.\<close>

lemma object_add:
  assumes h: "heap_ok h" and t: "item_ok h (Tree a ks)" "items h a = Some n" "i_type n = cJSON_Object"
    and j: "item_ok h j" "items h (root j) = Some m" "i_next m = None" "separate h (Tree a ks) j"
    and p: "str_at h p = Some name"
  shows "oom h (brk h) \<Longrightarrow> cJSON_AddItemToObject_h h (Some a) p (Some (root j)) = Some (False, h\<lparr>brk := Suc (brk h)\<rparr>)"
    "\<not> oom h (brk h) \<Longrightarrow> \<exists>h'. cJSON_AddItemToObject_h h (Some a) p (Some (root j)) = Some (True, h') \<and>
      heap_ok h' \<and> item_ok h' (Tree a (ks @ [j])) \<and>
      json_at h' (Tree a (ks @ [j])) = cJSON_AddItemToObject (json_at h (Tree a ks)) name (Some (json_at h j))"
proof -
  obtain b ls where jT: "j = Tree b ls" by (cases j)
  have m: "items h b = Some m" using j(2) by (simp add: jT)
  have disj: "set (addrs (Tree a ks)) \<inter> set (addrs j) = {}" "set (owned h (Tree a ks)) \<inter> set (owned h j) = {}"
    using j(4) by (simp_all add: separate_def)
  have ab: "a \<noteq> b" using disj(1) by (auto simp: jT)
  have p': "p \<noteq> None" using p by (rule str_at_ptr)
  have "i_type m \<in> item_types" using j(1) m by (simp add: jT item_ok_Tree node_ok_def)
  note ty = no_flags [OF this] type_no_const [OF this]
  show "cJSON_AddItemToObject_h h (Some a) p (Some (root j)) = Some (False, h\<lparr>brk := Suc (brk h)\<rparr>)"
    if "oom h (brk h)"
    using that p p' m ab by (cases p) (simp_all add: jT cJSON_AddItemToObject_h_def add_item_to_object_def cJSON_strdup_def)
  assume ok: "\<not> oom h (brk h)"
  define g where "g = rename_item h b m name"
  have old: "i_string m = None \<or> strs h (the (i_string m)) \<noteq> None" "i_string m \<noteq> Some (brk h)"
    using j(1) m h by (auto simp: jT item_ok_Tree node_ok_def heap_ok_def)
  have run: "cJSON_AddItemToObject_h h (Some a) p (Some (root j)) = add_item_to_array g (Some a) (Some b)"
  proof -
    obtain q where q: "p = Some q" "strs h q = Some name" using p p' by (cases p) auto
    have g: "g = h\<lparr>brk := Suc (brk h),
        strs := (\<lambda>p. if p = brk h then Some name else if Some p = i_string m then None else strs h p),
        items := (items h)(b \<mapsto> m\<lparr>i_string := Some (brk h), i_type := i_type m\<rparr>)\<rparr>"
      by (simp add: g_def rename_item_def set_same_type)
    show ?thesis
    proof (cases "i_string m")
      case None
      then have "g = h\<lparr>brk := Suc (brk h), strs := (strs h)(brk h \<mapsto> name),
          items := (items h)(b \<mapsto> m\<lparr>i_string := Some (brk h), i_type := i_type m\<rparr>)\<rparr>"
        unfolding g by (simp add: fun_upd_def cong: if_cong)
      then show ?thesis using q m ab ok ty None
        by (simp add: jT cJSON_AddItemToObject_h_def add_item_to_object_def cJSON_strdup_run modify_def)
    next
      case (Some r)
      then have "g = h\<lparr>brk := Suc (brk h), strs := ((strs h)(brk h \<mapsto> name))(r := None),
          items := (items h)(b \<mapsto> m\<lparr>i_string := Some (brk h), i_type := i_type m\<rparr>)\<rparr>"
        unfolding g using old(2) by (auto simp: fun_upd_def fun_eq_iff)
      then show ?thesis using q m ab ok ty old Some
        by (auto simp: jT cJSON_AddItemToObject_h_def add_item_to_object_def cJSON_strdup_run free_str_def modify_def)
    qed
  qed
  note j' = rename_same [OF h j(1) [unfolded jT] m, of name, folded g_def jT]
  have c: "set (ptrs (i_string m)) \<inter> set (owned h (Tree a ks)) = {}"
    using disj(2) m by (auto simp: jT node_strs_def)
  have bt: "b \<notin> set (addrs (Tree a ks))" using disj(1) by (auto simp: jT)
  note t' = rename_other [OF h t(1) bt c, of name, folded g_def]
  have ks': "key_at g k = key_at h k \<and> json_at g k = json_at h k \<and> named g k = named h k" if "k \<in> set ks" for k
  proof -
    have k: "item_ok h k" "b \<notin> set (addrs k)" "set (ptrs (i_string m)) \<inter> set (owned h k) = {}"
      using t(1,2) that forest_item bt c by (auto simp: item_ok_Tree)
    from rename_other [OF h k, of name, folded g_def] show ?thesis by simp
  qed
  have n: "items g a = Some n" using t(2) ab by (simp add: g_def rename_item_def)
  have "node_ok g n ks" using t'(1) n by (rule item_ok_node)
  then have nk: "node_ok g n (ks @ [j])" using j'(4) t(3) by (auto simp: node_ok_def)
  have "set (owned g (Tree a ks)) \<inter> set (owned g j) = {}"
  proof -
    have "brk h \<notin> set (owned h (Tree a ks))"
    proof
      assume "brk h \<in> set (owned h (Tree a ks))"
      moreover have "tree_ok h (Tree a ks)" using t(1) unfolding item_ok_def by blast
      ultimately have "brk h < brk h" using owned_below [OF h] by blast
      then show False by simp
    qed
    moreover have "set (owned g j) \<subseteq> insert (brk h) (set (owned h j))" by (rule j'(5))
    ultimately show ?thesis using disj(2) unfolding t'(3) disjoint_iff by fast
  qed
  moreover have "items g (root j) = Some (m\<lparr>i_string := Some (brk h)\<rparr>)" by (simp add: g_def rename_item_def jT)
  ultimately obtain h' where h': "add_item_to_array g (Some a) (Some b) = Some (True, h')"
    "item_ok h' (Tree a (ks @ [j]))" "json_at h' (Tree a (ks @ [j])) = json_node g n (members_at g (ks @ [j]))"
    "relinks g h' a (set (map root (ks @ [j]))) (map root (ks @ [j]))"
    using add_item [OF t'(1) n nk j'(1), of "m\<lparr>i_string := Some (brk h)\<rparr>"] disj(1) j(3) by (auto simp: jT)
  have "heap_ok g" unfolding g_def using rename_brk [OF h] m by simp
  then have "heap_ok h'" using relinks_heap_ok [OF h'(4)] by simp
  moreover have "members_at g ks = members_at h ks" using ks' by (simp add: members_at_def)
  ultimately show "\<exists>h'. cJSON_AddItemToObject_h h (Some a) p (Some (root j)) = Some (True, h') \<and>
      heap_ok h' \<and> item_ok h' (Tree a (ks @ [j])) \<and>
      json_at h' (Tree a (ks @ [j])) = cJSON_AddItemToObject (json_at h (Tree a ks)) name (Some (json_at h j))"
    using h'(1,2,3) run j'(2,3) unfolding json_at_object [OF t(2,3)]
    by (simp add: json_node_object [OF t(3)])
qed

end
