(* ===== verification/Json_Heap_Copy.thy ===== *)
theory Json_Heap_Copy
  imports Json_Heap_Ops
begin

text \<open>
  Copies and new items. Whichever allocations fail, \<open>cJSON_Duplicate\<close> and the functions that create
  items either return a new item at fresh addresses or NULL with the heap as it was: nothing is
  shared with the original, nothing is lost and nothing is released twice.
\<close>

section \<open>What an operation allocates\<close>

text \<open>From \<open>h\<close> to \<open>h'\<close> the items \<open>A\<close> and the strings \<open>P\<close> are new; the rest is as before.\<close>

definition extends :: "heap \<Rightarrow> heap \<Rightarrow> addr set \<Rightarrow> addr set \<Rightarrow> bool" where
  "extends h h' A P \<longleftrightarrow>
     (\<forall>b. b \<notin> A \<longrightarrow> items h' b = items h b) \<and> (\<forall>p. p \<notin> P \<longrightarrow> strs h' p = strs h p) \<and>
     (\<forall>b\<in>A. items h b = None) \<and> (\<forall>p\<in>P. strs h p = None) \<and>
     brk h \<le> brk h' \<and> oom h' = oom h"

lemma extends_refl [simp]: "extends h h {} {}"
  by (simp add: extends_def)

lemma extends_trans:
  assumes "extends h h1 A P" "extends h1 h2 B Q"
  shows "extends h h2 (A \<union> B) (P \<union> Q)"
proof -
  have "items h b = None" if "b \<in> B" for b
    using assms that by (cases "b \<in> A") (auto simp: extends_def)
  moreover have "strs h p = None" if "p \<in> Q" for p
    using assms that by (cases "p \<in> P") (auto simp: extends_def)
  ultimately show ?thesis using assms by (auto simp: extends_def)
qed

lemma extends_strs: "extends h h' A P \<Longrightarrow> strs h p \<noteq> None \<Longrightarrow> strs h' p = strs h p"
  by (cases "p \<in> P") (auto simp: extends_def)

lemma extends_keeps:
  assumes "extends h h' A P" "tree_ok h t"
  shows "keeps h h' t" "set (addrs t) \<inter> A = {}" "set (owned h t) \<inter> P = {}"
proof -
  show A: "set (addrs t) \<inter> A = {}" using tree_ok_dom [OF assms(2)] assms(1) by (fastforce simp: extends_def)
  show P: "set (owned h t) \<inter> P = {}" using tree_ok_owned_dom [OF assms(2)] assms(1) by (fastforce simp: extends_def)
  show "keeps h h' t" using assms(1) A P by (intro keeps_same) (auto simp: extends_def)
qed

text \<open>A step that changes only items that are new already.\<close>

lemma extends_items:
  "extends h h1 A P \<Longrightarrow> (\<And>b. b \<notin> A \<Longrightarrow> J b = items h1 b) \<Longrightarrow> extends h (h1\<lparr>items := J\<rparr>) A P"
  by (simp add: extends_def)

lemma extends_release:
  "extends h h1 (A \<union> B) (P \<union> Q) \<Longrightarrow> A \<inter> B = {} \<Longrightarrow> P \<inter> Q = {} \<Longrightarrow> extends h (release h1 B Q) A P"
  by (auto simp: extends_def)

section \<open>Deleting an item that is being built\<close>

lemma delete_partial:
  assumes n: "items h a = Some n" "i_type n \<in> item_types" "i_next n = None"
    "i_child n = front (map root ks) None" "distinct (node_strs n)" "\<And>p. p \<in> set (node_strs n) \<Longrightarrow> strs h p \<noteq> None"
    and ks: "forest_ok h ks" "nexts (items h) (map root ks)" "a \<notin> set (concat (map addrs ks))"
      "set (node_strs n) \<inter> set (concat (map (owned h) ks)) = {}"
  shows "cJSON_Delete h (Some a) =
    Some (release h (insert a (set (concat (map addrs ks)))) (set (node_strs n) \<union> set (concat (map (owned h) ks))))"
proof -
  let ?h = "release h (set (concat (map addrs ks))) (set (concat (map (owned h) ks)))"
  have "cJSON_Delete h (i_child n) = Some ?h" unfolding n(4) using ks(1,2) by (rule delete_forest)
  then have "cJSON_Delete h (Some a) = cJSON_Delete (release ?h {a} (set (node_strs n))) (i_next n)"
    using n ks(3,4) by (intro delete_run) auto
  then show ?thesis using n(3) by (simp add: Un_commute)
qed

section \<open>Copies\<close>

fun height :: "tree \<Rightarrow> nat" where
  "height (Tree a ks) = foldr max (map (Suc \<circ> height) ks) 0"

lemma height_kid: "k \<in> set ks \<Longrightarrow> Suc (height k) \<le> height (Tree a ks)"
  by (induction ks) auto

text \<open>\<open>u\<close> is a copy of \<open>t\<close>, with its name.\<close>

definition copy_of :: "heap \<Rightarrow> tree \<Rightarrow> heap \<Rightarrow> tree \<Rightarrow> bool" where
  "copy_of h t h' u \<longleftrightarrow> json_at h' u = json_at h t \<and> key_at h' u = key_at h t \<and> (named h' u \<longleftrightarrow> named h t)"

definition copied :: "heap \<Rightarrow> tree \<Rightarrow> ptr \<Rightarrow> heap \<Rightarrow> bool" where
  "copied h t p h' \<longleftrightarrow> heap_ok h' \<and>
     (case p of
        None \<Rightarrow> extends h h' {} {}
      | Some r \<Rightarrow> \<exists>u. root u = r \<and> item_ok h' u \<and> detached (items h' r) \<and> copy_of h t h' u \<and>
          extends h h' (set (addrs u)) (set (owned h' u)))"

lemma copy_of_keeps:
  assumes "copy_of h t g u" "keeps g h' u" "distinct (addrs u)"
  shows "copy_of h t h' u"
  using assms json_at_keeps [OF assms(2,3)] key_at_keeps [OF assms(2)] named_keeps [OF assms(2)]
  by (simp add: copy_of_def)

lemma copy_of_same:
  assumes "copy_of g t h' u" "keeps h g t" "distinct (addrs t)"
  shows "copy_of h t h' u"
  using assms json_at_keeps [OF assms(2,3)] key_at_keeps [OF assms(2)] named_keeps [OF assms(2)]
  by (simp add: copy_of_def)

section \<open>The children copied so far\<close>

text \<open>A chain whose first element does not point back yet.\<close>

definition half_linked :: "(addr \<Rightarrow> cjson option) \<Rightarrow> addr list \<Rightarrow> bool" where
  "half_linked I ps \<longleftrightarrow> (case ps of [] \<Rightarrow> True
     | p # qs \<Rightarrow> (\<exists>m. I p = Some m \<and> i_next m = front qs None) \<and> seg I p qs None)"

lemma half_linked_nexts: "half_linked I ps \<Longrightarrow> nexts I ps"
  by (cases ps) (auto simp: half_linked_def intro: seg_nexts)

lemma half_linked_close:
  assumes "half_linked I (p # qs)" "distinct (p # qs)"
  shows "linked (set_at I p (set_prev (Some (last (p # qs))))) (Some p) (p # qs)"
  using assms by (auto simp: half_linked_def linked_def)

lemma half_linked_snoc:
  assumes h: "half_linked I ps" "ps \<noteq> []" and d: "distinct ps" "r \<notin> set ps" and r: "I r = Some m" "i_next m = None"
  shows "half_linked (set_at (set_at I (last ps) (set_next (Some r))) r (set_prev (Some (last ps)))) (ps @ [r])"
proof (cases ps rule: rev_cases)
  case (snoc qs l)
  have ln: "l \<notin> set qs" "l \<noteq> r" "r \<notin> set qs" using d snoc by auto
  show ?thesis
  proof (cases qs)
    case Nil
    then show ?thesis using h r snoc ln by (auto simp: half_linked_def)
  next
    case (Cons p rs)
    have "seg (set_at I l (set_next (Some r))) p (rs @ [l]) (Some r)"
      by (rule seg_set_next) (use h snoc Cons ln in \<open>auto simp: half_linked_def\<close>)
    then show ?thesis using h r snoc Cons ln by (auto simp: half_linked_def seg_append split: option.splits)
  qed
qed (use h in simp)

definition building :: "heap \<Rightarrow> heap \<Rightarrow> addr \<Rightarrow> cjson \<Rightarrow> tree list \<Rightarrow> tree list \<Rightarrow> bool" where
  "building h0 h a n os ds \<longleftrightarrow>
     heap_ok h \<and> items h a = Some (set_child (front (map root ds) None) n) \<and>
     extends h0 h (insert a (set (concat (map addrs ds)))) (set (node_strs n) \<union> set (concat (map (owned h) ds))) \<and>
     (\<forall>p\<in>set (node_strs n). strs h p \<noteq> None) \<and>
     set (node_strs n) \<inter> set (concat (map (owned h) ds)) = {} \<and>
     a \<notin> set (concat (map addrs ds)) \<and> forest_ok h ds \<and> half_linked (items h) (map root ds) \<and>
     list_all2 (\<lambda>t u. copy_of h0 t h u) os ds"

text \<open>A change of links inside the forest that is being built.\<close>

lemma building_relink:
  assumes h: "heap_ok g" "items g a = Some n'" "a \<notin> set (concat (map addrs ds))"
    and x: "extends h0 g (insert a (set (concat (map addrs ds)))) (set (node_strs n) \<union> set (concat (map (owned g) ds)))"
    and n: "\<forall>p\<in>set (node_strs n). strs g p \<noteq> None" "set (node_strs n) \<inter> set (concat (map (owned g) ds)) = {}"
    and f: "forest_ok g ds" and c: "list_all2 (\<lambda>t u. copy_of h0 t g u) os ds"
    and J: "\<And>b. b \<notin> insert a (set (map root ds)) \<Longrightarrow> J b = items g b"
      "\<And>b. b \<in> set (map root ds) \<Longrightarrow> map_option unlink (J b) = map_option unlink (items g b)"
      "J a = Some (set_child (front (map root ds) None) n)" "half_linked J (map root ds)"
  shows "building h0 (g\<lparr>items := J\<rparr>) a n os ds"
proof -
  let ?h = "g\<lparr>items := J\<rparr>"
  have k: "keeps g ?h u" "distinct (addrs u)" if "u \<in> set ds" for u
  proof -
    have o: "set (map root ds) \<inter> set (addrs u) \<subseteq> {root u}"
      using roots_other f that unfolding forest_ok_def by blast
    have "items ?h b = items g b" if "b \<in> set (addrs u)" "b \<noteq> root u" for b
      using J(1) [of b] o h(3) that \<open>u \<in> set ds\<close> by auto
    then show "keeps g ?h u" using J(2) [of "root u"] that by (simp add: keeps_def)
    show "distinct (addrs u)" using forest_item [OF f that] by (simp add: item_ok_def)
  qed
  have o: "map (owned ?h) ds = map (owned g) ds" using owned_keeps [OF k] by simp
  have "J b = None" if "items g b = None" for b
  proof -
    have "b \<noteq> a" using that h(2) by auto
    moreover have "b \<notin> set (map root ds)"
    proof
      assume "b \<in> set (map root ds)"
      then obtain u where u: "u \<in> set ds" "b = root u" by auto
      have "tree_ok g u" using forest_item [OF f u(1)] by (simp add: item_ok_def)
      then have "items g (root u) \<noteq> None" using root_in_addrs by (rule tree_ok_dom)
      then show False using that u(2) by simp
    qed
    ultimately show ?thesis using J(1) that by simp
  qed
  then have "heap_ok ?h" using h(1) by (simp add: heap_ok_def)
  moreover have "extends h0 ?h (insert a (set (concat (map addrs ds)))) (set (node_strs n) \<union> set (concat (map (owned g) ds)))"
    using x by (rule extends_items) (use J(1) roots_sub in blast)
  moreover have "forest_ok ?h ds" using f k(1) by (rule forest_ok_keeps)
  moreover have "list_all2 (\<lambda>t u. copy_of h0 t ?h u) os ds"
    using c by (rule list.rel_mono_strong) (use copy_of_keeps k in blast)
  ultimately show ?thesis using n h(3) J(3,4) by (simp only: building_def o) simp
qed

text \<open>What the loop does with a child that was copied.\<close>

definition attach :: "heap \<Rightarrow> addr \<Rightarrow> tree list \<Rightarrow> addr \<Rightarrow> addr \<Rightarrow> cjson option" where
  "attach g a ds r =
     (if ds = [] then set_at (items g) a (set_child (Some r))
      else set_at (set_at (items g) (last (map root ds)) (set_next (Some r))) r (set_prev (Some (last (map root ds)))))"

lemma building_snoc:
  assumes b: "building h0 h a n os ds" and k: "keeps h0 h k" "distinct (addrs k)" and c: "copied h k (Some r) g"
  shows "\<exists>u. root u = r \<and> building h0 (g\<lparr>items := attach g a ds r\<rparr>) a n (os @ [k]) (ds @ [u])"
proof -
  obtain u where u: "root u = r" "item_ok g u" "detached (items g r)" "copy_of h k g u"
      "extends h g (set (addrs u)) (set (owned g u))" "heap_ok g"
    using c by (auto simp: copied_def)
  obtain m where m: "items g r = Some m" "i_next m = None" using u(3) by (auto simp: detached_def)
  note B = b [unfolded building_def]
  have f: "forest_ok h ds" and ha: "items h a \<noteq> None" using B by auto
  have au: "a \<notin> set (addrs u)" using u(5) ha by (auto simp: extends_def)
  have t: "tree_ok h d" "distinct (addrs d)" if "d \<in> set ds" for d
    using forest_item [OF f that] by (simp_all add: item_ok_def)
  note d = extends_keeps [OF u(5) t(1)]
  have o: "map (owned g) ds = map (owned h) ds" using owned_keeps [OF d(1) t(2)] by simp
  have ns: "strs g p = strs h p" if "strs h p \<noteq> None" for p
    by (rule extends_strs [OF u(5) that])
  have "set (node_strs n) \<inter> set (owned g u) = {}" using B u(5) by (auto simp: extends_def)
  moreover have "forest_ok g ds" using f d(1) by (rule forest_ok_keeps)
  moreover have disj: "set (concat (map addrs ds)) \<inter> set (addrs u) = {}"
    "set (concat (map (owned g) ds)) \<inter> set (owned g u) = {}"
    using d(2,3) unfolding o by auto
  ultimately have f': "forest_ok g (ds @ [u])" "set (node_strs n) \<inter> set (concat (map (owned g) (ds @ [u]))) = {}"
    using u(2) B o by (auto simp: forest_ok_append forest_ok_Cons)
  have x: "extends h0 g (insert a (set (concat (map addrs (ds @ [u])))))
      (set (node_strs n) \<union> set (concat (map (owned g) (ds @ [u]))))"
  proof -
    have "extends h0 h (insert a (set (concat (map addrs ds)))) (set (node_strs n) \<union> set (concat (map (owned h) ds)))"
      using B by blast
    from extends_trans [OF this u(5)] show ?thesis
      unfolding map_append concat_append set_append o by (simp add: Un_assoc)
  qed
  have "list_all2 (\<lambda>t v. copy_of h0 t g v) os ds"
    using B d(1) t(2) by (auto elim!: list.rel_mono_strong intro: copy_of_keeps)
  then have c': "list_all2 (\<lambda>t v. copy_of h0 t g v) (os @ [k]) (ds @ [u])"
    using copy_of_same [OF u(4) k] by (simp add: list_all2_appendI)
  have ga: "items g a = Some (set_child (front (map root ds) None) n)"
    using B u(5) au by (simp add: extends_def)
  have same: "items g p = items h p" if "p \<in> set (map root ds)" for p
  proof -
    have "p \<notin> set (addrs u)" using roots_sub [OF that] disj(1) by auto
    then show ?thesis using u(5) by (simp add: extends_def)
  qed
  have hl: "half_linked (items g) (map root ds)"
  proof (cases "map root ds")
    case (Cons p qs)
    then have "seg (items g) p qs None = seg (items h) p qs None" "items g p = items h p"
      using same by (auto intro!: seg_cong)
    then show ?thesis using B Cons by (simp add: half_linked_def)
  qed (simp add: half_linked_def)
  have dr: "distinct (map root (ds @ [u]))" using f'(1) distinct_roots by (simp only: forest_ok_def)
  have ar: "a \<notin> set (map root (ds @ [u]))" using B au roots_sub by fastforce
  have "building h0 (g\<lparr>items := attach g a ds r\<rparr>) a n (os @ [k]) (ds @ [u])"
  proof (rule building_relink [OF u(6) ga _ x _ f'(2,1) c'])
    show "a \<notin> set (concat (map addrs (ds @ [u])))" using B au by simp
    show "\<forall>p\<in>set (node_strs n). strs g p \<noteq> None" using B ns by auto
    show "attach g a ds r b = items g b" if "b \<notin> insert a (set (map root (ds @ [u])))" for b
    proof -
      have "ds \<noteq> [] \<Longrightarrow> b \<noteq> last (map root ds)" using that last_in_set [of "map root ds"] by auto
      then show ?thesis using that u(1) by (auto simp: attach_def)
    qed
    show "map_option unlink (attach g a ds r b) = map_option unlink (items g b)"
      if "b \<in> set (map root (ds @ [u]))" for b
    proof -
      have "b \<noteq> a" using that ar by auto
      then show ?thesis by (simp add: attach_def upd_unlink)
    qed
    have "ds \<noteq> [] \<Longrightarrow> a \<noteq> last (map root ds)" using ar last_in_set [of "map root ds"] by auto
    then show "attach g a ds r a = Some (set_child (front (map root (ds @ [u])) None) n)"
      using ga ar u(1) by (cases ds) (auto simp: attach_def)
    show "half_linked (attach g a ds r) (map root (ds @ [u]))"
    proof (cases "ds = []")
      case True
      then show ?thesis using m u(1) ar by (simp add: attach_def half_linked_def)
    next
      case False
      then show ?thesis using half_linked_snoc [OF hl _ _ _ m] dr u(1) by (simp add: attach_def)
    qed
  qed
  then show ?thesis using u(1) by blast
qed

lemma building_idle:
  assumes b: "building h0 h a n os ds" and g: "extends h g {} {}" "heap_ok g"
  shows "building h0 g a n os ds"
proof -
  note B = b [unfolded building_def]
  have e: "items g = items h" "strs g = strs h" using g(1) by (auto simp: extends_def)
  have f: "forest_ok h ds" using B by blast
  have d: "keeps h g u" "distinct (addrs u)" if "u \<in> set ds" for u
    using forest_item [OF f that] by (auto intro: keeps_same simp: e item_ok_def)
  have o: "map (owned g) ds = map (owned h) ds" using owned_keeps [OF d] by simp
  have "list_all2 (\<lambda>t v. copy_of h0 t g v) os ds"
    using B d by (auto elim!: list.rel_mono_strong intro: copy_of_keeps)
  moreover have "forest_ok g ds" using f d(1) by (rule forest_ok_keeps)
  moreover have "extends h0 g (insert a (set (concat (map addrs ds)))) (set (node_strs n) \<union> set (concat (map (owned h) ds)))"
    using extends_trans [OF _ g(1)] B by fastforce
  ultimately show ?thesis using B g(2) by (simp add: building_def o e)
qed

definition last_ptr :: "tree list \<Rightarrow> ptr" where
  "last_ptr ds = (if ds = [] then None else Some (last (map root ds)))"

lemma last_ptr_simps [simp]: "last_ptr [] = None" "last_ptr (ds @ [u]) = Some (root u)"
  by (simp_all add: last_ptr_def)

lemma attach_run:
  assumes "items g a \<noteq> None" "items g r \<noteq> None" "ds \<noteq> [] \<longrightarrow> items g (last (map root ds)) \<noteq> None"
  shows "(if last_ptr ds \<noteq> None then do {
            h \<leftarrow> modify g (last_ptr ds) (i_next_update (\<lambda>_. Some r));
            modify h (Some r) (i_prev_update (\<lambda>_. last_ptr ds)) }
          else modify g (Some a) (i_child_update (\<lambda>_. Some r))) = Some (g\<lparr>items := attach g a ds r\<rparr>)"
  using assms by (cases ds rule: rev_cases) (auto simp: attach_def)

lemma dup_children_None: "dup_children copy h a None l = Some (True, l, h)"
  by (subst dup_children.simps) simp

lemma dup_children_fail:
  "copy h (Some c) = Some (None, g) \<Longrightarrow> dup_children copy h a (Some c) l = Some (False, l, g)"
  by (subst dup_children.simps) simp

lemma dup_children_step:
  assumes "copy h (Some c) = Some (Some r, g)" "items g a \<noteq> None" "items g r \<noteq> None"
    "ds \<noteq> [] \<longrightarrow> items g (last (map root ds)) \<noteq> None" "attach g a ds r c = Some m"
  shows "dup_children copy h (Some a) (Some c) (last_ptr ds) =
    dup_children copy (g\<lparr>items := attach g a ds r\<rparr>) (Some a) (i_next m) (Some r)"
proof -
  note l = attach_run [of g a r ds, OF assms(2,3,4)]
  have c: "deref (g\<lparr>items := attach g a ds r\<rparr>) (Some c) = Some m" using assms(5) by simp
  show ?thesis
    by (subst dup_children.simps) (simp only: assms(1) l c Option.bind.simps prod.case option.distinct if_False)
qed

lemma dup_children_run:
  assumes copy: "\<And>g k. k \<in> set all \<Longrightarrow> heap_ok g \<Longrightarrow> tree_ok g k \<Longrightarrow> distinct (addrs k) \<Longrightarrow> oom g = oom h0 \<Longrightarrow>
      \<exists>p g'. copy g (Some (root k)) = Some (p, g') \<and> copied g k p g' \<and> (sure \<longrightarrow> p \<noteq> None)"
  shows "building h0 h a n os ds \<Longrightarrow> set ks \<subseteq> set all \<Longrightarrow>
    \<forall>k\<in>set ks. tree_ok h0 k \<and> distinct (addrs k) \<Longrightarrow> nexts (items h0) (map root ks) \<Longrightarrow>
    \<exists>done p h' os' ds'. dup_children copy h (Some a) (front (map root ks) None) (last_ptr ds) = Some (done, p, h') \<and>
      building h0 h' a n os' ds' \<and> (done \<longrightarrow> os' = os @ ks \<and> p = last_ptr ds') \<and> (sure \<longrightarrow> done) \<and>
      (\<forall>p. strs h p \<noteq> None \<longrightarrow> strs h' p = strs h p)"
proof (induction ks arbitrary: h os ds)
  case Nil
  then show ?case by (fastforce simp: dup_children_None)
next
  case (Cons k ks)
  have x: "extends h0 h (insert a (set (concat (map addrs ds)))) (set (node_strs n) \<union> set (concat (map (owned h) ds)))"
    and hh: "heap_ok h" using Cons.prems(1) by (auto simp: building_def)
  have k0: "tree_ok h0 k" "distinct (addrs k)" using Cons.prems(3) by auto
  note k = extends_keeps [OF x k0(1)]
  have "tree_ok h k" using tree_ok_keeps [OF k0(1) k(1) k0(2)] .
  moreover have "oom h = oom h0" using x by (simp add: extends_def)
  ultimately obtain p g where p: "copy h (Some (root k)) = Some (p, g)" "copied h k p g" "sure \<longrightarrow> p \<noteq> None"
    using copy [of k h] hh k0(2) Cons.prems(2) by auto
  have kept: "strs g q = strs h q" if "strs h q \<noteq> None" for q
    using p(2) that by (auto simp: copied_def extends_strs split: option.splits)
  show ?case
  proof (cases p)
    case None
    then have "building h0 g a n os ds" using p(2) building_idle [OF Cons.prems(1)] by (simp add: copied_def)
    moreover have "dup_children copy h (Some a) (front (map root (k # ks)) None) (last_ptr ds) =
        Some (False, last_ptr ds, g)"
      using dup_children_fail [of copy h "root k" g] p(1) None by simp
    ultimately show ?thesis using p(3) None kept by blast
  next
    case (Some r)
    obtain u where u: "root u = r" "building h0 (g\<lparr>items := attach g a ds r\<rparr>) a n (os @ [k]) (ds @ [u])"
      using building_snoc [OF Cons.prems(1) k(1) k0(2)] p(2) Some by blast
    let ?h = "g\<lparr>items := attach g a ds r\<rparr>"
    note B = u(2) [unfolded building_def]
    have fin: "items ?h b \<noteq> None" if b: "b \<in> insert a (set (map root (ds @ [u])))" for b
    proof (cases "b = a")
      case False
      then obtain v where v: "v \<in> set (ds @ [u])" "b = root v" using b by auto
      have "tree_ok ?h v" using forest_item [OF _ v(1)] B by (auto simp: item_ok_def)
      then show ?thesis using tree_ok_dom [OF _ root_in_addrs] v(2) by blast
    qed (use B in simp)
    have up: "items ?h b = None \<longleftrightarrow> items g b = None" for b by (simp add: attach_def)
    have "ds \<noteq> [] \<longrightarrow> last (map root ds) \<in> set (map root (ds @ [u]))"
      using last_in_set [of "map root ds"] by simp
    then have g: "items g a \<noteq> None" "items g r \<noteq> None" "ds \<noteq> [] \<longrightarrow> items g (last (map root ds)) \<noteq> None"
      using fin [unfolded up] u(1) by simp_all
    have "extends h0 ?h (insert a (set (concat (map addrs (ds @ [u])))))
        (set (node_strs n) \<union> set (concat (map (owned ?h) (ds @ [u]))))"
      using B by blast
    from extends_keeps(2) [OF this k0(1)] have "items ?h (root k) = items h0 (root k)"
      using B root_in_addrs [of k] unfolding extends_def by blast
    moreover obtain m where m: "items h0 (root k) = Some m" "i_next m = front (map root ks) None"
      using Cons.prems(4) by (auto split: option.splits)
    ultimately have "attach g a ds r (root k) = Some m" by simp
    from dup_children_step [of copy h "root k" r g a ds m, OF p(1) [unfolded Some] g this]
    have "dup_children copy h (Some a) (front (map root (k # ks)) None) (last_ptr ds) =
        dup_children copy ?h (Some a) (front (map root ks) None) (last_ptr (ds @ [u]))"
      using m(2) u(1) by simp
    moreover obtain dn p' h' os' ds' where
      "dup_children copy ?h (Some a) (front (map root ks) None) (last_ptr (ds @ [u])) = Some (dn, p', h')"
      "building h0 h' a n os' ds'" "dn \<longrightarrow> os' = (os @ [k]) @ ks \<and> p' = last_ptr ds'" "sure \<longrightarrow> dn"
      "\<forall>p. strs ?h p \<noteq> None \<longrightarrow> strs h' p = strs ?h p"
      using Cons.IH [OF u(2)] Cons.prems(2,3,4) by (auto split: option.splits)
    moreover from this(5) have "\<forall>p. strs h p \<noteq> None \<longrightarrow> strs h' p = strs h p" using kept by simp
    ultimately show ?thesis by auto
  qed
qed

section \<open>Giving up and closing the chain\<close>

lemma building_delete:
  assumes b: "building h0 h a n os ds" and n: "i_type n \<in> item_types" "i_next n = None" "distinct (node_strs n)"
  shows "\<exists>h'. cJSON_Delete h (Some a) = Some h' \<and> heap_ok h' \<and> extends h0 h' {} {}"
proof -
  note B = b [unfolded building_def]
  let ?A = "insert a (set (concat (map addrs ds)))" and ?P = "set (node_strs n) \<union> set (concat (map (owned h) ds))"
  have s: "node_strs (set_child c n) = node_strs n" for c by (simp add: node_strs_def)
  have "cJSON_Delete h (Some a) = Some (release h ?A ?P)"
    unfolding s [symmetric, of "front (map root ds) None"] using B n half_linked_nexts
    by (intro delete_partial) (auto simp: s)
  moreover have "heap_ok (release h ?A ?P)" using B by (simp add: heap_ok_def)
  moreover have "extends h0 (release h ?A ?P) {} {}" by (rule extends_release) (use B in auto)
  ultimately show ?thesis by blast
qed

lemma building_close:
  assumes b: "building h0 h a n os ds" and n: "node_ok h n ds" "i_next n = None" "i_prev n = None" "distinct (node_strs n)"
  shows "\<exists>h'. (do { m \<leftarrow> deref h (Some a);
        if i_child m \<noteq> None then modify h (i_child m) (set_prev (last_ptr ds)) else Some h }) = Some h' \<and>
    heap_ok h' \<and> item_ok h' (Tree a ds) \<and> items h' a = items h a \<and> strs h' = strs h \<and>
    json_at h' (Tree a ds) = json_node h n (members_at h ds) \<and>
    extends h0 h' (set (addrs (Tree a ds))) (set (owned h' (Tree a ds)))"
proof -
  note B = b [unfolded building_def]
  define m where "m = set_child (front (map root ds) None) n"
  define J where "J = (case ds of [] \<Rightarrow> items h | d # _ \<Rightarrow> set_at (items h) (root d) (set_prev (last_ptr ds)))"
  have ha: "items h a = Some m" using B by (simp add: m_def)
  have f: "forest_ok h ds" "a \<notin> set (concat (map addrs ds))" using B by auto
  have dr: "distinct (a # map root ds)" by (rule roots_fresh [OF f])
  have run: "(do { m \<leftarrow> deref h (Some a);
      if i_child m \<noteq> None then modify h (i_child m) (set_prev (last_ptr ds)) else Some h }) = Some (h\<lparr>items := J\<rparr>)"
  proof (cases ds)
    case (Cons d es)
    then have "items h (root d) \<noteq> None"
      using forest_item [OF f(1), of d] tree_ok_dom [OF _ root_in_addrs] by (simp add: item_ok_def)
    then show ?thesis using ha Cons by (simp add: J_def m_def)
  qed (use ha in \<open>simp add: J_def m_def\<close>)
  have r: "relinks h (h\<lparr>items := J\<rparr>) a (set (map root ds)) (map root ds)"
  proof (rule relinksI)
    show "map_option unlink (J b) = map_option unlink (items h b)" for b
      by (simp add: J_def upd_unlink split: list.split)
    show "J b = items h b" if "b \<notin> insert a (set (map root ds))" for b
      using that by (auto simp: J_def split: list.split)
    show "J a = map_option (set_child (front (map root ds) None)) (items h a)"
      using dr ha by (auto simp: J_def m_def split: list.split)
    show "seg J (last (map root ds)) (map root ds) None" if ne: "map root ds \<noteq> []"
    proof -
      obtain d es where "ds = d # es" using ne by (cases ds) auto
      then show ?thesis
        using half_linked_close [of "items h" "root d" "map root es"] B dr
        by (simp add: J_def last_ptr_def linked_def)
    qed
  qed (use dr in auto)
  have m: "node_ok h m ds" "distinct (node_strs m)" "set (node_strs m) \<inter> set (concat (map (owned h) ds)) = {}"
    "node_strs m = node_strs n" "json_node h m = json_node h n"
    using n B by (auto simp: m_def node_ok_def node_strs_def json_node_def fun_eq_iff)
  note new = relinks_item [OF r ha m(1) f subset_refl f(1) m(2,3)]
  have "extends h0 (h\<lparr>items := J\<rparr>) (insert a (set (concat (map addrs ds))))
      (set (node_strs n) \<union> set (concat (map (owned h) ds)))"
  proof (rule extends_items)
    show "J b = items h b" if "b \<notin> insert a (set (concat (map addrs ds)))" for b
    proof -
      have "b \<notin> set (map root ds)" using that roots_sub [of b ds] by blast
      then show ?thesis by (auto simp: J_def split: list.split)
    qed
  qed (use B in blast)
  then have "extends h0 (h\<lparr>items := J\<rparr>) (set (addrs (Tree a ds))) (set (owned (h\<lparr>items := J\<rparr>) (Tree a ds)))"
    unfolding new(3) m(4) by simp
  moreover have "heap_ok (h\<lparr>items := J\<rparr>)" using relinks_heap_ok [OF r] B by simp
  moreover have "J a = items h a" using dr by (auto simp: J_def split: list.split)
  ultimately show ?thesis using run new(1,2) m(5) by auto
qed

section \<open>The new item and its strings\<close>

lemma building_start:
  assumes "heap_ok h" "\<not> oom h (brk h)" "i_child n = None" "node_strs n = []"
  shows "building h (h\<lparr>brk := Suc (brk h), items := (items h)(brk h \<mapsto> n)\<rparr>) (brk h) n [] []"
proof -
  have "set_child None n = n" using assms(3) by (cases n) simp
  then show ?thesis
    using assms by (auto simp: building_def extends_def heap_ok_def half_linked_def Suc_le_eq)
qed

lemma building_text:
  assumes b: "building h0 g a n [] []" and p: "p = None \<or> str_at h0 p \<noteq> None"
    and f: "\<And>q c. f q (set_child c n) = set_child c (f q n)"
      "\<And>q. set (node_strs (f q n)) = set (ptrs q) \<union> set (node_strs n)" "f None n = n"
  shows "\<exists>q g1 g2. cJSON_strdup g p = Some (q, g1) \<and> modify g1 (Some a) (f q) = Some g2 \<and>
    building h0 g2 a (f q n) [] [] \<and> (q = None \<longrightarrow> p = None \<or> (\<exists>i. oom h0 i)) \<and> (p = None \<longrightarrow> q = None) \<and>
    (q \<noteq> None \<longrightarrow> str_at g2 q = str_at h0 p) \<and>
    (\<forall>s. strs g s \<noteq> None \<longrightarrow> strs g2 s = strs g s \<and> Some s \<noteq> q)"
proof -
  note B = b [unfolded building_def, simplified]
  have ga: "items g a = Some (set_child None n)" and x: "extends h0 g {a} (set (node_strs n))" using B by auto
  have keep: "set_at (items g) a (f None) = items g" using f(1) [of None None] f(3) ga by (simp add: set_at_def fun_upd_idem)
  show ?thesis
  proof (cases p)
    case None
    then show ?thesis using b ga keep f(3) by simp
  next
    case (Some y)
    then obtain s where s: "strs h0 y = Some s" using p by auto
    then have y: "strs g y = Some s" using x by (cases "y \<in> set (node_strs n)") (auto simp: extends_def)
    show ?thesis
    proof (cases "oom g (brk g)")
      case True
      let ?g = "g\<lparr>brk := Suc (brk g)\<rparr>"
      have "building h0 ?g a n [] []"
        using b by (rule building_idle) (use B in \<open>auto simp: extends_def heap_ok_def\<close>)
      moreover have "modify ?g (Some a) (f None) = Some ?g" using ga keep by simp
      moreover have "\<exists>i. oom h0 i" using True x by (auto simp: extends_def)
      ultimately show ?thesis using True Some y f(3) by (simp add: cJSON_strdup_run)
    next
      case False
      let ?q = "Some (brk g)"
      define g2 where "g2 = g\<lparr>brk := Suc (brk g), strs := (strs g)(brk g \<mapsto> s), items := set_at (items g) a (f ?q)\<rparr>"
      have new: "strs g (brk g) = None" using B by (auto simp: heap_ok_def)
      then have "strs h0 (brk g) = None" using x by (cases "brk g \<in> set (node_strs n)") (auto simp: extends_def)
      then have "extends h0 g2 {a} (set (node_strs (f ?q n)))"
        using x by (auto simp: g2_def f(2) extends_def)
      moreover have "heap_ok g2" using B by (auto simp: g2_def heap_ok_def Suc_le_eq)
      moreover have "\<forall>p\<in>set (node_strs (f ?q n)). strs g2 p \<noteq> None" using B by (auto simp: g2_def f(2))
      ultimately have "building h0 g2 a (f ?q n) [] []"
        using ga f(1) by (simp add: building_def g2_def half_linked_def)
      moreover have "\<forall>s. strs g s \<noteq> None \<longrightarrow> strs g2 s = strs g s \<and> Some s \<noteq> ?q"
        using new by (auto simp: g2_def)
      moreover have "cJSON_strdup g p = Some (?q, g\<lparr>brk := Suc (brk g), strs := (strs g)(brk g \<mapsto> s)\<rparr>)"
        using Some y False by (simp add: cJSON_strdup_run)
      moreover have "modify (g\<lparr>brk := Suc (brk g), strs := (strs g)(brk g \<mapsto> s)\<rparr>) (Some a) (f ?q) = Some g2"
        using ga by (simp add: g2_def)
      moreover have "str_at g2 ?q = str_at h0 p" using s Some by (simp add: g2_def)
      ultimately show ?thesis using Some by blast
    qed
  qed
qed

lemma copy_members:
  "list_all2 (\<lambda>t u. copy_of h t g u) ts us \<Longrightarrow> members_at g us = members_at h ts"
  by (induction rule: list_all2_induct) (simp_all add: copy_of_def)

lemma copy_named:
  "list_all2 (\<lambda>t u. copy_of h t g u) ts us \<Longrightarrow> (\<forall>u\<in>set us. named g u) \<longleftrightarrow> (\<forall>t\<in>set ts. named h t)"
  by (induction rule: list_all2_induct) (simp_all add: copy_of_def)

text \<open>The copy is whole once the chain of its children is closed.\<close>

lemma copied_close:
  assumes b: "building h g a m ks ds" and t: "items h b = Some n" "node_ok h n ks"
    and m: "i_type m = i_type n" "i_valueint m = i_valueint n" "i_valuedouble m = i_valuedouble n"
      "i_next m = None" "i_prev m = None" "distinct (node_strs m)"
      "i_valuestring m = None \<longleftrightarrow> i_valuestring n = None" "i_string m = None \<longleftrightarrow> i_string n = None"
      "i_valuestring n \<noteq> None \<Longrightarrow> str_at g (i_valuestring m) = str_at h (i_valuestring n)"
      "i_string n \<noteq> None \<Longrightarrow> str_at g (i_string m) = str_at h (i_string n)"
  shows "\<exists>h'. (do { m \<leftarrow> deref g (Some a);
        if i_child m \<noteq> None then modify g (i_child m) (set_prev (last_ptr ds)) else Some g }) = Some h' \<and>
    copied h (Tree b ks) (Some a) h'"
proof -
  have c: "list_all2 (\<lambda>t u. copy_of h t g u) ks ds" using b by (simp add: building_def)
  have e: "ds = [] \<longleftrightarrow> ks = []" using list_all2_lengthD [OF c] by auto
  have st: "text_of g (i_valuestring m) = text_of h (i_valuestring n)" "text_of g (i_string m) = text_of h (i_string n)"
    using m(7-10) by (cases "i_valuestring n"; cases "i_string n"; auto simp: text_of_def)+
  have "node_ok g m ds"
    using t(2) m copy_named [OF c] e unfolding node_ok_def by auto
  from building_close [OF b this m(4,5,6)] obtain h' where
    run: "(do { m \<leftarrow> deref g (Some a);
        if i_child m \<noteq> None then modify g (i_child m) (set_prev (last_ptr ds)) else Some g }) = Some h'"
    and h': "heap_ok h'" "item_ok h' (Tree a ds)" "items h' a = items g a" "strs h' = strs g"
      "json_at h' (Tree a ds) = json_node g m (members_at g ds)"
      "extends h h' (set (addrs (Tree a ds))) (set (owned h' (Tree a ds)))" by blast
  have ga: "items g a = Some (set_child (front (map root ds) None) m)" using b by (simp add: building_def)
  have "str_at h' p = str_at g p" for p using h'(4) by (cases p) simp_all
  then have "key_at h' (Tree a ds) = key_at h (Tree b ks)" "named h' (Tree a ds) = named h (Tree b ks)"
    using h'(3) ga t(1) st(2) m(8) by (simp_all add: key_at_def named_def text_of_def)
  moreover have "json_at h' (Tree a ds) = json_at h (Tree b ks)"
    using t(1) h'(5) st(1) m(1,3) copy_members [OF c] by (simp add: json_node_def members_at_def)
  ultimately have "copy_of h (Tree b ks) h' (Tree a ds)" by (simp add: copy_of_def)
  moreover have "detached (items h' a)" using h'(3) ga m(4,5) by (simp add: detached_def)
  ultimately have "copied h (Tree b ks) (Some a) h'"
    using h'(1,2,6) by (auto simp: copied_def intro!: exI [of _ "Tree a ds"])
  with run show ?thesis by blast
qed

section \<open>The copy of an item\<close>

lemma dup_children_all:
  assumes b: "building h g a m [] []" and ks: "\<forall>k\<in>set ks. tree_ok h k \<and> distinct (addrs k)" "nexts (items h) (map root ks)"
    and copy: "\<And>g k. k \<in> set ks \<Longrightarrow> heap_ok g \<Longrightarrow> tree_ok g k \<Longrightarrow> distinct (addrs k) \<Longrightarrow> oom g = oom h \<Longrightarrow>
      \<exists>p g'. copy g (Some (root k)) = Some (p, g') \<and> copied g k p g' \<and> (sure \<longrightarrow> p \<noteq> None)"
  shows "\<exists>done p h' os ds. dup_children copy g (Some a) (front (map root ks) None) None = Some (done, p, h') \<and>
      building h h' a m os ds \<and> (done \<longrightarrow> os = ks \<and> p = last_ptr ds) \<and> (sure \<longrightarrow> done) \<and>
      (\<forall>p. strs g p \<noteq> None \<longrightarrow> strs h' p = strs g p)"
  using dup_children_run [where ds = "[]" and os = "[]", OF copy b subset_refl ks]
  by (simp only: last_ptr_simps append_Nil)

lemma discard_item_run:
  "building h g a m os ds \<Longrightarrow> i_type m \<in> item_types \<Longrightarrow> i_next m = None \<Longrightarrow> distinct (node_strs m) \<Longrightarrow>
   \<exists>h'. discard_item g (Some a) = Some (None, h') \<and> copied h t None h'"
  using building_delete [of h g a m os ds] by (auto simp: discard_item_def copied_def)

lemma duplicate_run:
  "heap_ok h \<Longrightarrow> tree_ok h t \<Longrightarrow> distinct (addrs t) \<Longrightarrow>
   \<exists>p h'. cJSON_Duplicate_rec h (Some (root t)) depth True = Some (p, h') \<and> copied h t p h' \<and>
     ((\<forall>i. \<not> oom h i) \<and> depth + height t \<le> CJSON_CIRCULAR_LIMIT \<longrightarrow> p \<noteq> None)"
proof (induction t arbitrary: h depth)
  case (Tree b ks)
  define sure where "sure \<longleftrightarrow> (\<forall>i. \<not> oom h i) \<and> depth + height (Tree b ks) \<le> CJSON_CIRCULAR_LIMIT"
  define copy where "copy = (\<lambda>h c. if depth \<ge> CJSON_CIRCULAR_LIMIT then Some (None, h)
      else cJSON_Duplicate_rec h c (Suc depth) True)"
  obtain n where n: "items h b = Some n" "node_ok h n ks" "linked (items h) (i_child n) (map root ks)"
    using Tree.prems(2) by (auto split: option.splits)
  have ty: "i_type n \<in> item_types" using n(2) by (simp add: node_ok_def)
  have ks: "\<forall>k\<in>set ks. tree_ok h k \<and> distinct (addrs k)"
    using Tree.prems(2) distinct_kid [OF Tree.prems(3)] by simp
  have cp: "\<exists>p g'. copy g (Some (root k)) = Some (p, g') \<and> copied g k p g' \<and> (sure \<longrightarrow> p \<noteq> None)"
    if "k \<in> set ks" "heap_ok g" "tree_ok g k" "distinct (addrs k)" "oom g = oom h" for g k
    using Tree.IH [OF that(1-4), of "Suc depth"] that height_kid [OF that(1), of b]
    by (auto simp: copy_def sure_def copied_def)
  define a where "a = brk h"
  define n1 where "n1 = zero_item\<lparr>i_type := i_type n, i_valueint := i_valueint n, i_valuedouble := i_valuedouble n\<rparr>"
  note z = n1_def zero_item_def
  have new: "items h a = None" using Tree.prems(1) by (simp add: heap_ok_def a_def)
  have ref: "i_type n AND NOT cJSON_IsReference = i_type n" using ty by (auto simp: item_types_def)
  show ?case unfolding sure_def [symmetric]
  proof (cases "oom h a")
    case True
    then show "\<exists>p h'. cJSON_Duplicate_rec h (Some (root (Tree b ks))) depth True = Some (p, h') \<and>
        copied h (Tree b ks) p h' \<and> (sure \<longrightarrow> p \<noteq> None)"
      using Tree.prems(1)
      by (auto simp: cJSON_Duplicate_rec.simps [of h] cJSON_New_Item_def a_def copied_def extends_def heap_ok_def sure_def)
  next
    case False
    define g0 where "g0 = h\<lparr>brk := Suc a, items := (items h)(a \<mapsto> zero_item)\<rparr>"
    define g1 where "g1 = h\<lparr>brk := Suc a, items := (items h)(a \<mapsto> n1)\<rparr>"
    have s0: "cJSON_New_Item h = (Some a, g0)" using False by (simp add: cJSON_New_Item_def g0_def a_def Let_def)
    have s1: "deref g0 (Some b) = Some n" using n(1) new by (auto simp: g0_def)
    have s2: "modify g0 (Some a) (\<lambda>m. m\<lparr>i_type := i_type n AND NOT cJSON_IsReference,
        i_valueint := i_valueint n, i_valuedouble := i_valuedouble n\<rparr>) = Some g1"
      unfolding ref by (simp add: g0_def g1_def modify_def n1_def)
    have b1: "building h g1 a n1 [] []"
      using building_start [of h n1] Tree.prems(1) False by (simp add: g1_def a_def z node_strs_def)
    have p1: "i_valuestring n = None \<or> str_at h (i_valuestring n) \<noteq> None"
      and p2: "i_string n = None \<or> str_at h (i_string n) \<noteq> None" using n(2) by (auto simp: node_ok_def)
    have f1: "i_valuestring_update (\<lambda>_. q) (set_child c n1) = set_child c (i_valuestring_update (\<lambda>_. q) n1)"
      "set (node_strs (i_valuestring_update (\<lambda>_. q) n1)) = set (ptrs q) \<union> set (node_strs n1)"
      "i_valuestring_update (\<lambda>_. None) n1 = n1" for q c by (simp_all add: z node_strs_def)
    from building_text [where f = "\<lambda>q. i_valuestring_update (\<lambda>_. q)", OF b1 p1 f1]
    obtain q g1' g2 where q: "cJSON_strdup g1 (i_valuestring n) = Some (q, g1')"
        "modify g1' (Some a) (i_valuestring_update (\<lambda>_. q)) = Some g2"
      and b2: "building h g2 a (i_valuestring_update (\<lambda>_. q) n1) [] []"
      and q': "q = None \<longrightarrow> i_valuestring n = None \<or> (\<exists>i. oom h i)" "i_valuestring n = None \<longrightarrow> q = None"
        "q \<noteq> None \<longrightarrow> str_at g2 q = str_at h (i_valuestring n)"
      by (elim exE conjE) (rule that)
    show "\<exists>p h'. cJSON_Duplicate_rec h (Some (root (Tree b ks))) depth True = Some (p, h') \<and>
        copied h (Tree b ks) p h' \<and> (sure \<longrightarrow> p \<noteq> None)"
    proof (cases "i_valuestring n \<noteq> None \<and> q = None")
      case True
      obtain h' where h': "discard_item g2 (Some a) = Some (None, h')" "copied h (Tree b ks) None h'"
        using discard_item_run [OF b2] ty True by (auto simp: z node_strs_def)
      have c: "(i_valuestring n \<noteq> None \<and> q = None) = True" using True by simp
      have "cJSON_Duplicate_rec h (Some (root (Tree b ks))) depth True = Some (None, h')"
        by (subst cJSON_Duplicate_rec.simps)
          (simp only: tree.sel option.distinct if_False s0 prod.case option.case s1 s2 q Option.bind.simps c if_True h'(1))
      moreover have "\<not> sure" using True q'(1) by (auto simp: sure_def)
      ultimately show ?thesis using h'(2) by blast
    next
      case ok1: False
      define n2 where "n2 = i_valuestring_update (\<lambda>_. q) n1"
      have f2: "i_string_update (\<lambda>_. k) (set_child c n2) = set_child c (i_string_update (\<lambda>_. k) n2)"
        "set (node_strs (i_string_update (\<lambda>_. k) n2)) = set (ptrs k) \<union> set (node_strs n2)"
        "i_string_update (\<lambda>_. None) n2 = n2" for k c by (auto simp: n2_def z node_strs_def)
      from building_text [where f = "\<lambda>q. i_string_update (\<lambda>_. q)", OF b2 [folded n2_def] p2 f2]
      obtain k g2' g3 where k: "cJSON_strdup g2 (i_string n) = Some (k, g2')"
          "modify g2' (Some a) (i_string_update (\<lambda>_. k)) = Some g3"
        and b3: "building h g3 a (i_string_update (\<lambda>_. k) n2) [] []"
        and k': "k = None \<longrightarrow> i_string n = None \<or> (\<exists>i. oom h i)" "i_string n = None \<longrightarrow> k = None"
          "k \<noteq> None \<longrightarrow> str_at g3 k = str_at h (i_string n)"
          "\<forall>s. strs g2 s \<noteq> None \<longrightarrow> strs g3 s = strs g2 s \<and> Some s \<noteq> k"
        by (elim exE conjE) (rule that)
      define n3 where "n3 = i_string_update (\<lambda>_. k) n2"
      note b3 = b3 [folded n3_def]
      have st2: "strs g2 s \<noteq> None" if "q = Some s" for s
        using b2 that by (simp add: building_def node_strs_def)
      have d3: "distinct (node_strs n3)"
        using k'(4) st2 by (cases q; cases k) (auto simp: n3_def n2_def z node_strs_def)
      have n3: "i_type n3 = i_type n" "i_valueint n3 = i_valueint n" "i_valuedouble n3 = i_valuedouble n"
        "i_next n3 = None" "i_prev n3 = None" "i_valuestring n3 = q" "i_string n3 = k"
        by (simp_all add: n3_def n2_def z)
      have type3: "i_type n3 \<in> item_types" using ty n3(1) by simp
      have const: "\<not> string_is_const n" using no_flags [OF ty] by blast
      show ?thesis
      proof (cases "i_string n \<noteq> None \<and> k = None")
        case True
        obtain h' where h': "discard_item g3 (Some a) = Some (None, h')" "copied h (Tree b ks) None h'"
          using discard_item_run [OF b3 type3 n3(4) d3] by blast
        have c: "(i_string n \<noteq> None \<and> k = None) = True" using True by simp
        have "cJSON_Duplicate_rec h (Some (root (Tree b ks))) depth True = Some (None, h')"
          by (subst cJSON_Duplicate_rec.simps)
            (simp only: tree.sel option.distinct if_False s0 prod.case option.case s1 s2 q Option.bind.simps ok1
              const k c if_True h'(1))
        moreover have "\<not> sure" using True k'(1) by (auto simp: sure_def)
        ultimately show ?thesis using h'(2) by blast
      next
        case ok2: False
        have x3: "extends h g3 {a} (set (node_strs n3))" using b3 by (simp add: building_def)
        have "b \<noteq> a" using n(1) new by auto
        then have s8: "deref g3 (Some b) = Some n" using x3 n(1) by (simp add: extends_def)
        have ch: "i_child n = front (map root ks) None" using n(3) by (simp add: linked_def)
        obtain dn l g4 os ds where s9: "dup_children copy g3 (Some a) (i_child n) None = Some (dn, l, g4)"
          and b4: "building h g4 a n3 os ds" and dn: "dn \<longrightarrow> os = ks \<and> l = last_ptr ds" "sure \<longrightarrow> dn"
            "\<forall>p. strs g3 p \<noteq> None \<longrightarrow> strs g4 p = strs g3 p"
          using dup_children_all [OF b3 ks linked_nexts [OF n(3)] cp] unfolding ch by blast
        note s9 = s9 [unfolded copy_def]
        show ?thesis
        proof (cases dn)
          case False
          obtain h' where h': "discard_item g4 (Some a) = Some (None, h')" "copied h (Tree b ks) None h'"
            using discard_item_run [OF b4 type3 n3(4) d3] by blast
          have "cJSON_Duplicate_rec h (Some (root (Tree b ks))) depth True = Some (None, h')"
            by (subst cJSON_Duplicate_rec.simps)
              (simp only: tree.sel option.distinct if_False s0 prod.case option.case s1 s2 q Option.bind.simps ok1
                const k ok2 s8 s9 False simp_thms if_True h'(1))
          then show ?thesis using h'(2) dn(2) False by blast
        next
          case True
          have kept: "str_at g4 p = str_at g3 p" if "p = None \<or> str_at g3 p \<noteq> None" for p
            using that dn(3) by (cases p) auto
          have "str_at g4 (i_valuestring n3) = str_at h (i_valuestring n)" if v: "i_valuestring n \<noteq> None"
          proof -
            obtain s where s: "q = Some s" using v ok1 by auto
            then have "strs g3 s = strs g2 s" "strs g2 s \<noteq> None" using st2 k'(4) by auto
            then show ?thesis using kept [of q] s q'(3) n3(6) by simp
          qed
          moreover have "str_at g4 (i_string n3) = str_at h (i_string n)" if "i_string n \<noteq> None"
            using that ok2 k'(3) kept [of k] n3(7) p2 by auto
          ultimately obtain h' where h': "(do { m \<leftarrow> deref g4 (Some a);
              if i_child m \<noteq> None then modify g4 (i_child m) (set_prev (last_ptr ds)) else Some g4 }) = Some h'"
            "copied h (Tree b ks) (Some a) h'"
            using copied_close [OF b4 [unfolded conjunct1 [OF dn(1) [rule_format, OF True]]] n(1,2) n3(1-5) d3]
              n3(6,7) ok1 ok2 q'(2) k'(2) by blast
          obtain m where m: "deref g4 (Some a) = Some m" using b4 by (simp add: building_def)
          note h1 = h'(1) [unfolded m Option.bind.simps]
          have l: "l = last_ptr ds" using dn(1) True by blast
          have "cJSON_Duplicate_rec h (Some (root (Tree b ks))) depth True = Some (Some a, h')"
            by (subst cJSON_Duplicate_rec.simps)
              (simp only: tree.sel option.distinct if_False s0 prod.case option.case s1 s2 q Option.bind.simps ok1
                const k ok2 s8 s9 True l simp_thms if_True m h1)
          then show ?thesis using h'(2) by blast
        qed
      qed
    qed
  qed
qed

text \<open>C7: Copying an item with its members, with any allocation failing: the original is as before; the
  copy has its value and shares no item and no string with it, or the result is NULL and nothing is
  left behind; deleting the copy releases exactly what was allocated. Without a failure an item within the
  depth limit is copied.\<close>

theorem duplicate_delete:
  assumes h: "heap_ok h" "item_ok h t"
  shows "\<exists>p g h'. cJSON_Duplicate h (Some (root t)) True = Some (p, g) \<and>
    item_ok g t \<and> json_at g t = json_at h t \<and>
    (p = None \<or> (\<exists>u. p = Some (root u) \<and> item_ok g u \<and> json_at g u = json_at h t \<and> separate g t u)) \<and>
    ((\<forall>i. \<not> oom h i) \<and> height t \<le> CJSON_CIRCULAR_LIMIT \<longrightarrow> p \<noteq> None) \<and>
    cJSON_Delete g p = Some h' \<and> items h' = items h \<and> strs h' = strs h"
proof -
  have t: "tree_ok h t" "distinct (addrs t)" using h(2) by (simp_all add: item_ok_def)
  obtain p g where p: "cJSON_Duplicate h (Some (root t)) True = Some (p, g)" "copied h t p g"
    "(\<forall>i. \<not> oom h i) \<and> height t \<le> CJSON_CIRCULAR_LIMIT \<longrightarrow> p \<noteq> None"
    using duplicate_run [OF h(1) t, of 0] by (auto simp: cJSON_Duplicate_def)
  show ?thesis
  proof (cases p)
    case None
    then have e: "extends h g {} {}" using p(2) by (simp add: copied_def)
    then have "keeps h g t" using t(1) by (rule extends_keeps)
    then have "item_ok g t" "json_at g t = json_at h t"
      using tree_ok_keeps [OF t(1) _ t(2)] owned_keeps [OF _ t(2)] json_at_keeps [OF _ t(2)] h(2)
      by (auto simp: item_ok_def)
    then show ?thesis using p None e by (auto simp: extends_def fun_eq_iff)
  next
    case (Some r)
    then obtain u where u: "root u = r" "item_ok g u" "detached (items g r)" "copy_of h t g u"
      "extends h g (set (addrs u)) (set (owned g u))" using p(2) by (auto simp: copied_def)
    note k = extends_keeps [OF u(5) t(1)]
    have "item_ok g t" "json_at g t = json_at h t" and o: "owned g t = owned h t"
      using tree_ok_keeps [OF t(1) k(1) t(2)] owned_keeps [OF k(1) t(2)] json_at_keeps [OF k(1) t(2)] h(2)
      by (auto simp: item_ok_def)
    moreover have "separate g t u" using k(2,3) o by (simp add: separate_def)
    moreover have "cJSON_Delete g p = Some (release g (set (addrs u)) (set (owned g u)))"
      using delete_item [OF u(2)] u(1,3) Some by (auto simp: detached_def)
    moreover have "extends h (release g (set (addrs u)) (set (owned g u))) {} {}"
      by (rule extends_release) (use u(5) in auto)
    moreover have "json_at g u = json_at h t" using u(4) by (simp add: copy_of_def)
    ultimately show ?thesis using p(1,3) Some u(1,2) by (auto simp: extends_def fun_eq_iff)
  qed
qed

section \<open>New items and new members\<close>

definition created :: "heap \<Rightarrow> json \<Rightarrow> ptr \<Rightarrow> heap \<Rightarrow> bool" where
  "created h v p g \<longleftrightarrow> heap_ok g \<and>
     (case p of
        None \<Rightarrow> extends h g {} {} \<and> (\<exists>i. oom h i)
      | Some r \<Rightarrow> \<exists>u. root u = r \<and> item_ok g u \<and> detached (items g r) \<and> json_at g u = v \<and>
          extends h g (set (addrs u)) (set (owned g u)))"

lemma created_leaf:
  assumes b: "building h g a m [] []" and m: "node_ok g m []" "i_next m = None" "i_prev m = None" "i_string m = None"
    "i_child m = None"
  shows "created h (json_node g m []) (Some a) g"
proof -
  have ga: "items g a = Some m" using b m(5) by (cases m) (simp add: building_def)
  have "distinct (node_strs m)" using m(4) by (auto simp: node_strs_def ptrs_def split: option.split)
  from building_close [OF b m(1,2,3) this]
  have "item_ok g (Tree a [])" "heap_ok g" "extends h g {a} (set (owned g (Tree a [])))"
    "json_at g (Tree a []) = json_node g m []"
    using ga m(5) by (auto simp: members_at_def)
  then show ?thesis using ga m(2,3) by (auto simp: created_def detached_def intro!: exI [of _ "Tree a []"])
qed

lemma create_typed_run:
  assumes h: "heap_ok h" and t: "t \<in> item_types" "t \<noteq> cJSON_String" "t \<noteq> cJSON_Number"
  shows "\<exists>p g. create_typed t h = (p, g) \<and> created h (json_node g (zero_item\<lparr>i_type := t\<rparr>) []) p g"
proof (cases "oom h (brk h)")
  case True
  then show ?thesis using h
    by (auto simp: create_typed_def cJSON_New_Item_def Let_def created_def extends_def heap_ok_def)
next
  case False
  let ?m = "zero_item\<lparr>i_type := t\<rparr>"
  let ?g = "h\<lparr>brk := Suc (brk h), items := (items h)(brk h \<mapsto> ?m)\<rparr>"
  have "building h ?g (brk h) ?m [] []"
    using building_start [OF h False, of ?m] by (simp add: zero_item_def node_strs_def)
  then have "created h (json_node ?g ?m []) (Some (brk h)) ?g"
    using t by (intro created_leaf) (auto simp: zero_item_def node_ok_def)
  then show ?thesis using False by (simp add: create_typed_def cJSON_New_Item_def Let_def)
qed

lemma create_number_run:
  assumes h: "heap_ok h"
  shows "\<exists>p g. cJSON_CreateNumber d h = Some (p, g) \<and> created h (JNumber d) p g"
proof (cases "oom h (brk h)")
  case True
  then show ?thesis using h
    by (auto simp: cJSON_CreateNumber_def create_typed_def cJSON_New_Item_def Let_def created_def extends_def heap_ok_def)
next
  case False
  let ?m = "zero_item\<lparr>i_type := cJSON_Number, i_valuedouble := d, i_valueint := double_to_int d\<rparr>"
  let ?g = "h\<lparr>brk := Suc (brk h), items := (items h)(brk h \<mapsto> ?m)\<rparr>"
  have "building h ?g (brk h) ?m [] []"
    using building_start [OF h False, of ?m] by (simp add: zero_item_def node_strs_def)
  then have "created h (json_node ?g ?m []) (Some (brk h)) ?g"
    by (rule created_leaf) (auto simp: zero_item_def node_ok_def item_types_def)
  moreover have "json_node ?g ?m [] = JNumber d" by (simp add: json_node_def)
  ultimately show ?thesis using False
    by (simp add: cJSON_CreateNumber_def create_typed_def cJSON_New_Item_def Let_def modify_def)
qed

lemma create_text_run:
  assumes h: "heap_ok h" and s: "str_at h p = Some s"
  shows "\<exists>r g. cJSON_CreateString p h = Some (r, g) \<and> created h (JString s) r g"
proof (cases "oom h (brk h)")
  case True
  then show ?thesis using h
    by (auto simp: cJSON_CreateString_def create_text_def create_typed_def cJSON_New_Item_def Let_def
        created_def extends_def heap_ok_def)
next
  case False
  define a m where "a = brk h" and "m = zero_item\<lparr>i_type := cJSON_String\<rparr>"
  define g0 where "g0 = h\<lparr>brk := Suc a, items := (items h)(a \<mapsto> m)\<rparr>"
  have s0: "create_typed cJSON_String h = (Some a, g0)"
    using False by (simp add: create_typed_def cJSON_New_Item_def Let_def a_def g0_def m_def)
  have b0: "building h g0 a m [] []"
    using building_start [OF h False, of m] by (simp add: a_def g0_def m_def zero_item_def node_strs_def)
  have f: "i_valuestring_update (\<lambda>_. q) (set_child c m) = set_child c (i_valuestring_update (\<lambda>_. q) m)"
    "set (node_strs (i_valuestring_update (\<lambda>_. q) m)) = set (ptrs q) \<union> set (node_strs m)"
    "i_valuestring_update (\<lambda>_. None) m = m" for q c by (simp_all add: m_def zero_item_def node_strs_def)
  have p: "p = None \<or> str_at h p \<noteq> None" using s by simp
  from building_text [where f = "\<lambda>q. i_valuestring_update (\<lambda>_. q)", OF b0 p f]
  obtain q g1 g2 where q: "cJSON_strdup g0 p = Some (q, g1)" "modify g1 (Some a) (i_valuestring_update (\<lambda>_. q)) = Some g2"
    and b2: "building h g2 a (i_valuestring_update (\<lambda>_. q) m) [] []"
    and q': "q = None \<longrightarrow> p = None \<or> (\<exists>i. oom h i)" "q \<noteq> None \<longrightarrow> str_at g2 q = str_at h p"
    by (elim exE conjE) (rule that)
  let ?n = "i_valuestring_update (\<lambda>_. q) m"
  have n: "i_type ?n = cJSON_String" "i_next ?n = None" "i_prev ?n = None" "i_string ?n = None" "i_child ?n = None"
    "i_valuestring ?n = q" by (simp_all add: m_def zero_item_def)
  show ?thesis
  proof (cases q)
    case None
    obtain g where "cJSON_Delete g2 (Some a) = Some g" "heap_ok g" "extends h g {} {}"
      using building_delete [OF b2] n None by (auto simp: item_types_def node_strs_def ptrs_def split: option.splits)
    moreover have "\<exists>i. oom h i" using q'(1) None str_at_ptr [OF s] by blast
    ultimately show ?thesis using q None
      by (simp add: cJSON_CreateString_def create_text_def s0 created_def)
  next
    case (Some r)
    then have st: "str_at g2 q = Some s" using q'(2) s by simp
    then have "node_ok g2 ?n []" using n Some by (simp add: node_ok_def item_types_def)
    then have "created h (json_node g2 ?n []) (Some a) g2" using b2 n by (intro created_leaf)
    moreover have "json_node g2 ?n [] = JString s" using n st by (simp add: json_node_def text_of_def)
    ultimately show ?thesis using q Some
      by (simp add: cJSON_CreateString_def create_text_def s0)
  qed
qed

text \<open>Creating an item and adding it to an object: all or nothing.\<close>

lemma add_created_run:
  assumes h: "heap_ok h" and t: "item_ok h (Tree a ks)" "items h a = Some n" "i_type n = cJSON_Object"
    and p: "str_at h p = Some name" and c: "create h = Some (r, g)" "created h v r g"
  shows "\<exists>q h'. add_created create h (Some a) p = Some (q, h') \<and> heap_ok h' \<and>
    (q = None \<and> extends h h' {} {} \<and> (\<exists>i. oom h i) \<or>
     (\<exists>u. q = Some (root u) \<and> item_ok h' (Tree a (ks @ [u])) \<and>
       json_at h' (Tree a (ks @ [u])) = cJSON_AddItemToObject (json_at h (Tree a ks)) name (Some v)))"
proof (cases r)
  case None
  then have "add_created create h (Some a) p = Some (None, g)"
    using c(1) by (simp add: add_created_def add_item_to_object_def)
  then show ?thesis using c(2) None by (auto simp: created_def)
next
  case (Some b)
  obtain u where u: "root u = b" "item_ok g u" "detached (items g b)" "json_at g u = v"
    "extends h g (set (addrs u)) (set (owned g u))" and g: "heap_ok g"
    using c(2) Some by (auto simp: created_def)
  have tk: "tree_ok h (Tree a ks)" "distinct (addrs (Tree a ks))" using t(1) unfolding item_ok_def by blast+
  note k = extends_keeps [OF u(5) tk(1)]
  have "tree_ok g (Tree a ks)" by (rule tree_ok_keeps [OF tk(1) k(1) tk(2)])
  moreover have o: "owned g (Tree a ks) = owned h (Tree a ks)" by (rule owned_keeps [OF k(1) tk(2)])
  ultimately have tg: "item_ok g (Tree a ks)" using t(1) by (simp only: item_ok_def simp_thms)
  have v: "json_at g (Tree a ks) = json_at h (Tree a ks)" by (rule json_at_keeps [OF k(1) tk(2)])
  have "a \<notin> set (addrs u)" using k(2) by auto
  then have n: "items g a = Some n" using t(2) u(5) by (simp add: extends_def)
  have sep: "separate g (Tree a ks) u" using k(2,3) o by (simp add: separate_def)
  have pg: "str_at g p = Some name"
  proof (cases p)
    case (Some x)
    then show ?thesis using p extends_strs [OF u(5), of x] by simp
  qed (use p in simp)
  obtain m where m: "items g (root u) = Some m" "i_next m = None" using u(1,3) by (auto simp: detached_def)
  note add = object_add [OF g tg n t(3) u(2) m sep pg]
  show ?thesis
  proof (cases "oom g (brk g)")
    case True
    let ?g = "g\<lparr>brk := Suc (brk g)\<rparr>"
    have "keeps g ?g u" by (rule keeps_same) simp_all
    then have ok: "item_ok ?g u" and ou: "owned ?g u = owned g u"
      using tree_ok_keeps owned_keeps u(2) by (auto simp: item_ok_def)
    have "cJSON_Delete ?g (Some b) = Some (release ?g (set (addrs u)) (set (owned g u)))"
      using delete_item [OF ok] m u(1) ou by simp
    then have "add_created create h (Some a) p = Some (None, release ?g (set (addrs u)) (set (owned g u)))"
      using add(1) [OF True] c(1) Some u(1) by (simp add: add_created_def cJSON_AddItemToObject_h_def)
    moreover have "extends h ?g ({} \<union> set (addrs u)) ({} \<union> set (owned g u))" using u(5) by (simp add: extends_def)
    then have "extends h (release ?g (set (addrs u)) (set (owned g u))) {} {}" by (rule extends_release) auto
    moreover have "heap_ok (release ?g (set (addrs u)) (set (owned g u)))" using g by (auto simp: heap_ok_def)
    moreover have "\<exists>i. oom h i" using True u(5) by (auto simp: extends_def)
    ultimately show ?thesis by blast
  next
    case False
    obtain h' where "cJSON_AddItemToObject_h g (Some a) p (Some (root u)) = Some (True, h')" "heap_ok h'"
      "item_ok h' (Tree a (ks @ [u]))"
      "json_at h' (Tree a (ks @ [u])) = cJSON_AddItemToObject (json_at h (Tree a ks)) name (Some v)"
      using add(2) [OF False] v u(4) by metis
    moreover from this(1) have "add_created create h (Some a) p = Some (Some (root u), h')"
      using c(1) Some u(1) by (simp add: add_created_def cJSON_AddItemToObject_h_def)
    ultimately show ?thesis by blast
  qed
qed

text \<open>C18: \<open>cJSON_AddStringToObject\<close> is all or nothing: it appends a member with copies of name and text
  as the operation on values does, or, when an allocation failed, returns NULL and every item and
  string is as it was.\<close>

theorem object_add_string:
  assumes "heap_ok h" "item_ok h (Tree a ks)" "items h a = Some n" "i_type n = cJSON_Object"
    and "str_at h p = Some name" "str_at h s = Some text"
  shows "\<exists>q h'. cJSON_AddStringToObject_h h (Some a) p s = Some (q, h') \<and> heap_ok h' \<and>
    (q = None \<and> items h' = items h \<and> strs h' = strs h \<and> (\<exists>i. oom h i) \<or>
     (\<exists>u. q = Some (root u) \<and> item_ok h' (Tree a (ks @ [u])) \<and>
       json_at h' (Tree a (ks @ [u])) = cJSON_AddStringToObject (json_at h (Tree a ks)) name (Some text)))"
proof -
  obtain r g where "cJSON_CreateString s h = Some (r, g)" "created h (JString text) r g"
    using create_text_run [OF assms(1,6)] by blast
  from add_created_run [where create = "cJSON_CreateString s", OF assms(1-5) this] show ?thesis
    unfolding cJSON_AddStringToObject_h_def by (fastforce simp: extends_def fun_eq_iff)
qed

section \<open>An example\<close>

text \<open>The object with the member \<open>k\<close>, and two strings of the caller.\<close>

definition demo_object :: "(nat \<Rightarrow> bool) \<Rightarrow> heap" where
  "demo_object fails = \<lparr>
     items = [0 \<mapsto> zero_item\<lparr>i_type := cJSON_Object, i_child := Some 1\<rparr>,
              1 \<mapsto> zero_item\<lparr>i_type := cJSON_String, i_prev := Some 1, i_valuestring := Some 2, i_string := Some 3\<rparr>],
     strs = [2 \<mapsto> ''v'', 3 \<mapsto> ''k'', 4 \<mapsto> ''n'', 5 \<mapsto> ''t''], brk = 6, oom = fails\<rparr>"

lemma demo_object_ok: "heap_ok (demo_object f)" "item_ok (demo_object f) (Tree 0 [Tree 1 []])"
  "json_at (demo_object f) (Tree 0 [Tree 1 []]) = JObject [(''k'', JString ''v'')]"
  "height (Tree 0 [Tree 1 []]) = 1"
  by (auto simp: heap_ok_def item_ok_def demo_object_def zero_item_def node_ok_def item_types_def linked_def
      node_strs_def named_def json_node_def key_at_def text_of_def)

theorem duplicate_delete_witness:
  "\<exists>p g h' u. cJSON_Duplicate (demo_object (\<lambda>_. False)) (Some 0) True = Some (p, g) \<and> p = Some (root u) \<and>
     json_at g u = JObject [(''k'', JString ''v'')] \<and> separate g (Tree 0 [Tree 1 []]) u \<and>
     cJSON_Delete g p = Some h' \<and> items h' = items (demo_object (\<lambda>_. False)) \<and> strs h' = strs (demo_object (\<lambda>_. False))"
  using duplicate_delete [OF demo_object_ok(1,2), of "\<lambda>_. False"]
  unfolding demo_object_ok(3,4) by (fastforce simp: demo_object_def CJSON_CIRCULAR_LIMIT_def)

theorem object_add_string_witness:
  "\<exists>q h' u. cJSON_AddStringToObject_h (demo_object (\<lambda>_. False)) (Some 0) (Some 4) (Some 5) = Some (q, h') \<and>
     json_at h' (Tree 0 [Tree 1 [], u]) = JObject [(''k'', JString ''v''), (''n'', JString ''t'')]"
proof -
  have "items (demo_object (\<lambda>_. False)) 0 = Some (zero_item\<lparr>i_type := cJSON_Object, i_child := Some 1\<rparr>)"
    "str_at (demo_object (\<lambda>_. False)) (Some 4) = Some ''n''" "str_at (demo_object (\<lambda>_. False)) (Some 5) = Some ''t''"
    "\<not> (\<exists>i. oom (demo_object (\<lambda>_. False)) i)"
    "cJSON_AddStringToObject (JObject [(''k'', JString ''v'')]) ''n'' (Some ''t'') = JObject [(''k'', JString ''v''), (''n'', JString ''t'')]"
    by (simp_all add: demo_object_def)
  then show ?thesis
    using object_add_string [OF demo_object_ok(1,2), of "\<lambda>_. False" _ "Some 4" _ "Some 5"]
    unfolding demo_object_ok(3) by (fastforce simp del: json_at.simps)
qed

section \<open>A name that is the item's own\<close>

text \<open>
  \<open>replace_item_in_object\<close> releases the name of the replacement before it copies the new one, so the
  call with the replacement's own name reads memory that is released.
\<close>

lemma replace_own_name_invalid:
  assumes "items h r = Some m" "\<not> string_is_const m" "i_string m = Some p" "strs h p \<noteq> None"
  shows "cJSON_ReplaceItemInObject h object (Some p) (Some r) = None"
  using assms
  by (simp add: cJSON_ReplaceItemInObject_def replace_item_in_object_def deref_def free_str_def cJSON_strdup_def)

end
