(* ===== verification/Json_Array_Edits.thy ===== *)
theory Json_Array_Edits
  imports Json_Heap_Ops "HOL-Library.Multiset"
begin

text \<open>
  A sequence of edits of an array of \<open>src/core/cJSON.c\<close>: items are appended, inserted, detached,
  replaced, deleted and discarded by a client that keeps the items it holds in a pool. The
  specification is the same sequence on lists of values. Besides the values, the theorem accounts for the
  memory: what is allocated afterwards is the array and the pool, and nothing else has changed.
\<close>

section \<open>Edits\<close>

datatype edit = Append nat | Insert int nat | Detach int | Replace int nat | Delete int | Discard nat

definition drop_at :: "nat \<Rightarrow> 'a list \<Rightarrow> 'a list" where
  "drop_at i xs = take i xs @ drop (Suc i) xs"

text \<open>On lists: the elements of the array and the pool. Positions in the pool have to exist.\<close>

fun edit_list :: "'a list \<times> 'a list \<Rightarrow> edit \<Rightarrow> 'a list \<times> 'a list" where
  "edit_list (xs, ps) (Append p) = (if p < length ps then (xs @ [ps ! p], drop_at p ps) else (xs, ps))"
| "edit_list (xs, ps) (Insert i p) =
     (if p < length ps \<and> 0 \<le> i then (take (nat i) xs @ ps ! p # drop (nat i) xs, drop_at p ps) else (xs, ps))"
| "edit_list (xs, ps) (Detach i) =
     (if 0 \<le> i \<and> nat i < length xs then (drop_at (nat i) xs, xs ! nat i # ps) else (xs, ps))"
| "edit_list (xs, ps) (Replace i p) =
     (if p < length ps \<and> 0 \<le> i \<and> nat i < length xs then (xs[nat i := ps ! p], drop_at p ps) else (xs, ps))"
| "edit_list (xs, ps) (Delete i) = (if 0 \<le> i \<and> nat i < length xs then (drop_at (nat i) xs, ps) else (xs, ps))"
| "edit_list (xs, ps) (Discard p) = (if p < length ps then (xs, drop_at p ps) else (xs, ps))"

text \<open>On the heap, by the calls of the library.\<close>

fun edit_heap :: "addr \<Rightarrow> heap \<times> addr list \<Rightarrow> edit \<Rightarrow> (heap \<times> addr list) option" where
  "edit_heap a (h, ps) (Append p) =
     (if p < length ps then do {
        (ok, h) \<leftarrow> cJSON_AddItemToArray_h h (Some a) (Some (ps ! p));
        Some (h, if ok then drop_at p ps else ps) }
      else Some (h, ps))"
| "edit_heap a (h, ps) (Insert i p) =
     (if p < length ps then do {
        (ok, h) \<leftarrow> cJSON_InsertItemInArray h (Some a) i (Some (ps ! p));
        Some (h, if ok then drop_at p ps else ps) }
      else Some (h, ps))"
| "edit_heap a (h, ps) (Detach i) = do {
     (q, h) \<leftarrow> cJSON_DetachItemFromArray h (Some a) i;
     Some (h, case q of None \<Rightarrow> ps | Some r \<Rightarrow> r # ps) }"
| "edit_heap a (h, ps) (Replace i p) =
     (if p < length ps then do {
        (ok, h) \<leftarrow> cJSON_ReplaceItemInArray h (Some a) i (Some (ps ! p));
        Some (h, if ok then drop_at p ps else ps) }
      else Some (h, ps))"
| "edit_heap a (h, ps) (Delete i) = do { h \<leftarrow> cJSON_DeleteItemFromArray h (Some a) i; Some (h, ps) }"
| "edit_heap a (h, ps) (Discard p) =
     (if p < length ps then do { h \<leftarrow> cJSON_Delete h (Some (ps ! p)); Some (h, drop_at p ps) } else Some (h, ps))"

fun edits_heap :: "addr \<Rightarrow> heap \<times> addr list \<Rightarrow> edit list \<Rightarrow> (heap \<times> addr list) option" where
  "edits_heap a s [] = Some s"
| "edits_heap a s (e # es) = do { s \<leftarrow> edit_heap a s e; edits_heap a s es }"

lemma mset_drop_at: "i < length xs \<Longrightarrow> mset (drop_at i xs) + {#xs ! i#} = mset xs"
  unfolding drop_at_def
  by (metis add_mset_add_single id_take_nth_drop mset_append mset.simps(2) union_mset_add_mset_right)

lemma map_drop_at: "map f (drop_at i xs) = drop_at i (map f xs)"
  by (simp add: drop_at_def take_map drop_map)

lemma set_drop_at: "set (drop_at i xs) \<subseteq> set xs"
  unfolding drop_at_def using set_take_subset set_drop_subset by fastforce

text \<open>The edits move elements without looking at them.\<close>

lemma edit_list_map:
  "edit_list (map f xs, map f ps) e = (\<lambda>(xs, ps). (map f xs, map f ps)) (edit_list (xs, ps) e)"
  by (cases e) (auto simp: map_drop_at take_map drop_map map_update)

section \<open>The array and the pool\<close>

definition bench :: "heap \<Rightarrow> addr \<Rightarrow> tree list \<Rightarrow> tree list \<Rightarrow> bool" where
  "bench h a ks pool \<longleftrightarrow> forest_ok h (Tree a ks # pool) \<and>
     (\<exists>n. items h a = Some n \<and> i_type n = cJSON_Array) \<and> (\<forall>p\<in>set pool. detached (items h (root p)))"

text \<open>From one set of addresses and strings to another: the rest is untouched, what left is released.\<close>

definition evolves :: "heap \<Rightarrow> addr set \<times> addr set \<Rightarrow> heap \<Rightarrow> addr set \<times> addr set \<Rightarrow> bool" where
  "evolves h X h' Y \<longleftrightarrow> fst Y \<subseteq> fst X \<and> snd Y \<subseteq> snd X \<and>
     (\<forall>b. b \<notin> fst X \<longrightarrow> items h' b = items h b) \<and> (\<forall>b\<in>fst X. items h' b \<noteq> None \<longleftrightarrow> b \<in> fst Y) \<and>
     (\<forall>p. p \<notin> snd X \<longrightarrow> strs h' p = strs h p) \<and> (\<forall>p\<in>snd X. strs h' p \<noteq> None \<longleftrightarrow> p \<in> snd Y)"

definition cells :: "heap \<Rightarrow> tree list \<Rightarrow> addr set \<times> addr set" where
  "cells h ts = (set (concat (map addrs ts)), set (concat (map (owned h) ts)))"

lemma evolves_trans:
  assumes 1: "evolves h X h1 Y" and 2: "evolves h1 Y h2 Z"
  shows "evolves h X h2 Z"
proof -
  note a = 1 [unfolded evolves_def] and b = 2 [unfolded evolves_def]
  have "items h2 c \<noteq> None \<longleftrightarrow> c \<in> fst Z" if "c \<in> fst X" for c
    using a b that by (cases "c \<in> fst Y") (simp_all, blast)
  moreover have "strs h2 c \<noteq> None \<longleftrightarrow> c \<in> snd Z" if "c \<in> snd X" for c
    using a b that by (cases "c \<in> snd Y") (simp_all, blast)
  moreover have "items h2 c = items h c" if "c \<notin> fst X" for c using a b that by (metis subsetD)
  moreover have "strs h2 c = strs h c" if "c \<notin> snd X" for c using a b that by (metis subsetD)
  moreover have "fst Z \<subseteq> fst X" "snd Z \<subseteq> snd X" using a b by (meson subset_trans)+
  ultimately show ?thesis unfolding evolves_def by blast
qed

lemma forest_ok_mset: "mset ks = mset ls \<Longrightarrow> forest_ok h ks = forest_ok h ls"
proof -
  assume m: "mset ks = mset ls"
  have "distinct (concat (map f ks)) = distinct (concat (map f ls))" for f :: "tree \<Rightarrow> addr list"
    using m by (intro mset_eq_imp_distinct_iff) (simp only: mset_concat sum_mset_sum_list [symmetric] mset_map)
  then show ?thesis using mset_eq_setD [OF m] by (simp add: forest_ok_def)
qed

lemma relinks_mono: "relinks h h' a S ps \<Longrightarrow> S \<subseteq> T \<Longrightarrow> a \<notin> T \<Longrightarrow> relinks h h' a T ps"
  unfolding relinks_def by (metis insert_iff subsetD)

lemma relinks_out: "relinks h h' a S ps \<Longrightarrow> b \<notin> insert a S \<Longrightarrow> items h' b = items h b"
  unfolding relinks_def by blast

lemma benchE:
  assumes "bench h a ks pool"
  obtains n where "items h a = Some n" "i_type n = cJSON_Array" "node_ok h n ks"
    "linked (items h) (i_child n) (map root ks)" "forest_ok h (ks @ pool)" "a \<notin> set (concat (map addrs (ks @ pool)))"
    "distinct (node_strs n)" "set (node_strs n) \<inter> set (concat (map (owned h) (ks @ pool))) = {}"
    "distinct (a # map root (ks @ pool))" "\<forall>p\<in>set pool. detached (items h (root p))"
proof -
  obtain n where n: "items h a = Some n" "i_type n = cJSON_Array" using assms by (auto simp: bench_def)
  have f: "item_ok h (Tree a ks)" "forest_ok h pool" "set (addrs (Tree a ks)) \<inter> set (concat (map addrs pool)) = {}"
    "set (owned h (Tree a ks)) \<inter> set (concat (map (owned h) pool)) = {}"
    using assms unfolding bench_def forest_ok_Cons by simp_all
  note i = f(1) [unfolded item_ok_Tree [OF n(1)]]
  have 1: "forest_ok h (ks @ pool)" "a \<notin> set (concat (map addrs (ks @ pool)))"
    using i f(2-4) n(1) unfolding forest_ok_append by auto
  have "set (node_strs n) \<inter> set (concat (map (owned h) (ks @ pool))) = {}" using i f(4) n(1) by auto
  then show ?thesis using that n i 1 roots_fresh [OF 1] assms unfolding bench_def by blast
qed

lemma benchI:
  assumes "items h a = Some n" "i_type n = cJSON_Array" "item_ok h (Tree a ks)" "forest_ok h (ks @ pool)"
    "a \<notin> set (concat (map addrs (ks @ pool)))" "set (node_strs n) \<inter> set (concat (map (owned h) (ks @ pool))) = {}"
    "\<And>p. p \<in> set pool \<Longrightarrow> detached (items h (root p))"
  shows "bench h a ks pool"
  using assms unfolding bench_def forest_ok_Cons forest_ok_append by auto

definition moves :: "addr \<Rightarrow> heap \<Rightarrow> tree list \<Rightarrow> tree list \<Rightarrow> heap \<Rightarrow> tree list \<Rightarrow> tree list \<Rightarrow> bool" where
  "moves a h ks pool h' ks' pool' \<longleftrightarrow> bench h' a ks' pool' \<and> set (ks' @ pool') \<subseteq> set (ks @ pool) \<and>
     (\<forall>t\<in>set (ks' @ pool'). json_at h' t = json_at h t) \<and>
     evolves h (cells h (Tree a ks # pool)) h' (cells h' (Tree a ks' # pool'))"

lemma moves_trans: "moves a h ks pool h1 ls pool1 \<Longrightarrow> moves a h1 ls pool1 h2 ms pool2 \<Longrightarrow> moves a h ks pool h2 ms pool2"
  unfolding moves_def using evolves_trans by (metis (no_types, lifting) subset_trans subsetD)

lemma cells_dom: "forest_ok h ts \<Longrightarrow> b \<in> fst (cells h ts) \<Longrightarrow> items h b \<noteq> None"
  "forest_ok h ts \<Longrightarrow> p \<in> snd (cells h ts) \<Longrightarrow> strs h p \<noteq> None"
  using tree_ok_dom tree_ok_owned_dom by (auto simp: cells_def forest_ok_def)

lemma moves_refl: "bench h a ks pool \<Longrightarrow> moves a h ks pool h ks pool"
  using cells_dom [of h "Tree a ks # pool"] by (auto simp: moves_def evolves_def bench_def)

text \<open>Any change of the links that arranges the same items in another way.\<close>

lemma bench_relinks:
  assumes b: "bench h a ks pool" and r: "relinks h h' a S (map root ks')" and S: "S \<subseteq> set (map root (ks @ pool))"
    and m: "mset (ks' @ pool') = mset (ks @ pool)" and d: "\<And>p. p \<in> set pool' \<Longrightarrow> detached (items h' (root p))"
  shows "moves a h ks pool h' ks' pool'"
proof -
  obtain n where n: "items h a = Some n" "i_type n = cJSON_Array" "node_ok h n ks" and
    l: "linked (items h) (i_child n) (map root ks)" and f: "forest_ok h (ks @ pool)" "a \<notin> set (concat (map addrs (ks @ pool)))" "distinct (node_strs n)"
      "set (node_strs n) \<inter> set (concat (map (owned h) (ks @ pool))) = {}" "distinct (a # map root (ks @ pool))"
      and u: "\<forall>p\<in>set pool. detached (items h (root p))"
    using b by (rule benchE)
  note eq = mset_eq_setD [OF m]
  have r': "relinks h h' a (set (map root (ks @ pool))) (map root ks')"
    using relinks_mono [OF r S] f(5) by (simp only: distinct.simps simp_thms)
  have f': "forest_ok h (ks' @ pool')" using f(1) forest_ok_mset [OF m] by simp
  then have fk: "forest_ok h ks'" by (simp add: forest_ok_append)
  have sub: "set ks' \<subseteq> set (ks @ pool)" using eq by (metis Un_upper1 set_append)
  have s: "set (node_strs n) \<inter> set (concat (map (owned h) ks')) = {}" using f(4) sub by fastforce
  note new = relinks_item [OF r' n(1) node_ok_array [OF n(2,3)] f(1,2) sub fk f(3) s]
  have old: "item_ok h' t" "json_at h' t = json_at h t" "owned h' t = owned h t" if t: "t \<in> set (ks @ pool)" for t
  proof -
    have "a \<notin> set (addrs t)" using f(2) t by fastforce
    moreover have "set (map root (ks @ pool)) \<inter> set (addrs t) \<subseteq> {root t}"
      using f(1) t roots_other unfolding forest_ok_def by blast
    ultimately show "item_ok h' t" "json_at h' t = json_at h t" "owned h' t = owned h t"
      using relinks_other [OF r' forest_item [OF f(1) t]] by blast+
  qed
  obtain n' where n': "items h' a = Some n'" "i_type n' = cJSON_Array" "node_strs n' = node_strs n"
    using r n unfolding relinks_def by (auto simp: node_strs_def)
  have st: "strs h' = strs h" using relinks_strs [OF r] by simp
  have o: "map (owned h') (ks' @ pool') = map (owned h) (ks' @ pool')"
    by (rule map_cong [OF refl]) (use old(3) eq in blast)
  have F': "forest_ok h' (ks' @ pool')"
    using f' old(1) eq unfolding forest_ok_def o by (auto simp: item_ok_def)
  have "set (concat (map addrs (ks' @ pool'))) = set (concat (map addrs (ks @ pool)))"
    "set (concat (map (owned h) (ks' @ pool'))) = set (concat (map (owned h) (ks @ pool)))" using eq by auto
  note same = this
  have B: "bench h' a ks' pool'"
    by (rule benchI [OF n'(1,2) new(1) F']) (use f(2,4) same d in \<open>simp_all only: o n'(3) simp_thms\<close>)
  have c: "cells h' (Tree a ks' # pool') = cells h (Tree a ks # pool)"
    using same o n n' unfolding cells_def by (simp add: new(3) image_Un Un_assoc)
  have "evolves h (cells h (Tree a ks # pool)) h' (cells h' (Tree a ks' # pool'))"
    unfolding c evolves_def
  proof (intro conjI allI ballI impI subset_refl)
    fix x assume "x \<notin> fst (cells h (Tree a ks # pool))"
    then have "x \<notin> insert a (set (map root (ks @ pool)))" using roots_sub by (fastforce simp: cells_def)
    then show "items h' x = items h x" by (rule relinks_out [OF r'])
  next
    fix x assume "x \<in> fst (cells h (Tree a ks # pool))"
    then have "items h' x \<noteq> None"
      using B cells_dom(1) [of h' "Tree a ks' # pool'" x] c unfolding bench_def by simp
    then show "(items h' x \<noteq> None) = (x \<in> fst (cells h (Tree a ks # pool)))"
      using \<open>x \<in> fst (cells h (Tree a ks # pool))\<close> by simp
  next
    fix x assume x: "x \<in> snd (cells h (Tree a ks # pool))"
    have "strs h x \<noteq> None" using b cells_dom(2) [OF _ x] unfolding bench_def by simp
    then show "(strs h' x \<noteq> None) = (x \<in> snd (cells h (Tree a ks # pool)))" using x st by simp
  qed (simp add: st)
  then show ?thesis using B old(2) eq unfolding moves_def by simp
qed


lemma evolves_release:
  assumes "fst Y \<inter> A = {}" "snd Y \<inter> P = {}" "\<And>b. b \<in> fst Y \<Longrightarrow> items h b \<noteq> None" "\<And>p. p \<in> snd Y \<Longrightarrow> strs h p \<noteq> None"
  shows "evolves h (A \<union> fst Y, P \<union> snd Y) (release h A P) Y"
  using assms unfolding evolves_def by (auto simp: disjoint_iff)

text \<open>An item of the pool is deleted.\<close>

lemma bench_release:
  assumes b: "bench h a ks pool" and p: "p < length pool"
  shows "\<exists>h'. cJSON_Delete h (Some (root (pool ! p))) = Some h' \<and> moves a h ks pool h' ks (drop_at p pool)"
proof -
  define k where "k = pool ! p"
  define q where "q = drop_at p pool"
  define h' where "h' = release h (set (addrs k)) (set (owned h k))"
  have m: "mset (k # Tree a ks # q) = mset (Tree a ks # pool)"
    using mset_drop_at [OF p] by (simp add: k_def q_def flip: mset_drop_at [OF p])
  have eq: "insert k (set q) = set pool" using mset_eq_setD [OF m] b p
    by (metis add_mset_add_single k_def mset.simps(2) mset_drop_at q_def set_mset_mset list.simps(15))
  obtain n where n: "items h a = Some n" "i_type n = cJSON_Array" and d: "\<forall>p\<in>set pool. detached (items h (root p))"
    and F: "forest_ok h (Tree a ks # pool)" using b unfolding bench_def by blast
  have f: "item_ok h k" "forest_ok h (Tree a ks # q)" "set (addrs k) \<inter> set (concat (map addrs (Tree a ks # q))) = {}"
    "set (owned h k) \<inter> set (concat (map (owned h) (Tree a ks # q))) = {}"
    using F unfolding forest_ok_mset [OF m, symmetric] forest_ok_Cons [of h k "Tree a ks # q"] by blast+
  have kp: "k \<in> set pool" using eq by blast
  then obtain m where "items h (root k) = Some m" "i_next m = None" using d unfolding detached_def by blast
  with f(1) have del: "cJSON_Delete h (Some (root k)) = Some h'" unfolding h'_def by (rule delete_item)
  have r: "forest_ok h' (Tree a ks # q)" "map (owned h') (Tree a ks # q) = map (owned h) (Tree a ks # q)"
    unfolding h'_def using release_forest [OF f(2)] f(3,4) by (simp_all only: Int_commute)
  have a: "a \<notin> set (addrs k)" using f(3) by auto
  have j: "json_at h' t = json_at h t" if "t \<in> set (ks @ q)" for t
  proof -
    have "set (addrs t) \<inter> set (addrs k) = {}" using f(3) that by fastforce
    moreover have "set (owned h t) \<inter> set (owned h k) = {}" using f(4) that n(1) by fastforce
    moreover have "item_ok h t"
      using that f(2) n(1) by (auto simp: forest_ok_Cons item_ok_Tree dest: forest_item)
    ultimately show ?thesis unfolding h'_def using release_item(2) by blast
  qed
  have rt: "root t \<notin> set (addrs k)" if "t \<in> set q" for t
  proof -
    have "root t \<in> set (concat (map addrs (Tree a ks # q)))" using roots_sub [of "root t" q] that by simp
    then show ?thesis using f(3) by blast
  qed
  have B: "bench h' a ks q"
    using r(1) n a d eq rt unfolding bench_def h'_def by auto
  have c: "cells h (Tree a ks # pool) =
      (set (addrs k) \<union> fst (cells h (Tree a ks # q)), set (owned h k) \<union> snd (cells h (Tree a ks # q)))"
    unfolding cells_def using eq by auto
  have c': "cells h' (Tree a ks # q) = cells h (Tree a ks # q)" unfolding cells_def r(2) ..
  have d: "fst (cells h (Tree a ks # q)) \<inter> set (addrs k) = {}" "snd (cells h (Tree a ks # q)) \<inter> set (owned h k) = {}"
    using f(3,4) unfolding cells_def by (simp_all only: Int_commute fst_conv snd_conv)
  have "evolves h (cells h (Tree a ks # pool)) h' (cells h' (Tree a ks # q))"
    unfolding c c' unfolding h'_def by (rule evolves_release [OF d cells_dom [OF f(2)]])
  then show ?thesis using del B j eq unfolding moves_def k_def q_def by auto
qed


section \<open>Every edit\<close>

lemma moves_pool:
  assumes "bench h a ks pool" "p < length pool"
  shows "\<exists>m. items h (root (pool ! p)) = Some m \<and> i_next m = None" "pool ! p \<in> set pool"
  using assms unfolding bench_def detached_def by (auto dest: nth_mem)

lemma pool_roots:
  assumes d: "distinct (a # map root (ks @ pool))" and p: "p < length pool"
  shows "distinct (a # root (pool ! p) # map root ks)"
    "q \<in> set (drop_at p pool) \<Longrightarrow> root q \<notin> insert a (insert (root (pool ! p)) (set (map root ks)))"
proof -
  have "distinct (a # map root (pool ! p # drop_at p pool @ ks)) \<longleftrightarrow> distinct (a # map root (ks @ pool))"
    by (intro mset_eq_imp_distinct_iff) (simp flip: mset_drop_at [OF p])
  then have *: "distinct (a # map root (pool ! p # drop_at p pool @ ks))" using d by blast
  then show "distinct (a # root (pool ! p) # map root ks)" by auto
  assume "q \<in> set (drop_at p pool)"
  then have "root q \<in> set (map root (drop_at p pool))" by simp
  moreover have "root (pool ! p) \<notin> set (map root (drop_at p pool))" "a \<notin> set (map root (drop_at p pool))"
    "set (map root (drop_at p pool)) \<inter> set (map root ks) = {}"
    using * unfolding list.map map_append distinct.simps distinct_append by auto
  ultimately show "root q \<notin> insert a (insert (root (pool ! p)) (set (map root ks)))"
    by (metis disjoint_iff insert_iff)
qed

text \<open>What appending, inserting and replacing share: the item comes from the pool.\<close>

lemma moves_from_pool:
  assumes b: "bench h a ks pool" and p: "p < length pool"
    and r: "relinks h h' a (insert (root (pool ! p)) (set (map root ks))) (map root ks')"
    and m: "mset (ks' @ out) = mset (pool ! p # ks)" and d: "\<forall>t\<in>set out. detached (items h' (root t))"
  shows "moves a h ks pool h' ks' (out @ drop_at p pool)"
proof (rule bench_relinks [OF b r])
  have "distinct (a # map root (ks @ pool))" and u: "\<forall>p\<in>set pool. detached (items h (root p))"
    using benchE [OF b] by metis+
  note * = pool_roots(2) [OF this(1) p]
  show "insert (root (pool ! p)) (set (map root ks)) \<subseteq> set (map root (ks @ pool))" using p by auto
  show "mset (ks' @ out @ drop_at p pool) = mset (ks @ pool)"
    using m by (simp add: ac_simps flip: mset_drop_at [OF p])
  fix t assume "t \<in> set (out @ drop_at p pool)"
  then consider "t \<in> set out" | "t \<in> set (drop_at p pool)" by auto
  then show "detached (items h' (root t))"
  proof cases
    case 2
    then show ?thesis using relinks_out [OF r *] u set_drop_at by (metis subsetD)
  qed (use d in blast)
qed

lemma append_step:
  assumes b: "bench h a ks pool" and p: "p < length pool"
  shows "\<exists>h'. add_item_to_array h (Some a) (Some (root (pool ! p))) = Some (True, h') \<and>
    moves a h ks pool h' (ks @ [pool ! p]) (drop_at p pool)"
proof -
  obtain n where n: "items h a = Some n" "linked (items h) (i_child n) (map root ks)" "distinct (a # map root (ks @ pool))"
    using benchE [OF b] by metis
  obtain m where m: "items h (root (pool ! p)) = Some m" "i_next m = None" using moves_pool(1) [OF b p] by blast
  obtain h' where h': "add_item_to_array h (Some a) (Some (root (pool ! p))) = Some (True, h')"
    "relinks h h' a (insert (root (pool ! p)) (set (map root ks))) (map root (ks @ [pool ! p]))"
    using add_item_to_array_run [OF n(1,2) pool_roots(1) [OF n(3) p] m] by auto
  with moves_from_pool [OF b p h'(2), of "[]"] show ?thesis by auto
qed

lemma take_insert: "i < length xs \<Longrightarrow> take i xs @ x # xs ! i # drop (Suc i) xs = take i xs @ x # drop i xs"
  by (simp add: Cons_nth_drop_Suc)

lemma insert_step:
  assumes b: "bench h a ks pool" and p: "p < length pool" and i: "0 \<le> i"
  shows "\<exists>h'. cJSON_InsertItemInArray h (Some a) i (Some (root (pool ! p))) = Some (True, h') \<and>
    moves a h ks pool h' (take (nat i) ks @ pool ! p # drop (nat i) ks) (drop_at p pool)"
proof -
  obtain n where n: "items h a = Some n" "linked (items h) (i_child n) (map root ks)" "distinct (a # map root (ks @ pool))"
    using benchE [OF b] by metis
  obtain m where m: "items h (root (pool ! p)) = Some m" using moves_pool(1) [OF b p] by blast
  note g = get_array_item_linked [OF n(1,2), of "nat i"]
  show ?thesis
  proof (cases "nat i < length ks")
    case True
    define ts where "ts = take (nat i) ks"
    define us where "us = drop (Suc (nat i)) ks"
    have ks: "ks = ts @ ks ! nat i # us" using take_drop_split [OF True] by (simp add: ts_def us_def)
    then have e: "map root ks = map root ts @ root (ks ! nat i) # map root us" by (metis list.simps(9) map_append)
    have "get_array_item h (Some a) (nat i) = Some (Some (root (ks ! nat i)))" using g True by simp
    from insert_run [OF n(1) n(2) [unfolded e] pool_roots(1) [OF n(3) p, unfolded e] m this i, folded e]
    obtain h' where h': "cJSON_InsertItemInArray h (Some a) i (Some (root (pool ! p))) = Some (True, h')"
      "relinks h h' a (insert (root (pool ! p)) (set (map root ks))) (map root (ts @ pool ! p # ks ! nat i # us))"
      unfolding map_append list.map by blast
    have "mset ((ts @ pool ! p # ks ! nat i # us) @ []) = mset (pool ! p # ks)" using arg_cong [OF ks, of mset] by simp
    from moves_from_pool [OF b p h'(2) this] h'(1) show ?thesis
      using take_insert [OF True] by (auto simp: ts_def us_def)
  next
    case False
    then have "get_array_item h (Some a) (nat i) = Some None" using g by simp
    then show ?thesis using append_step [OF b p] i False by (simp add: cJSON_InsertItemInArray_def)
  qed
qed


lemma array_split:
  assumes "i < length ks"
  shows "map root ks = map root (take i ks) @ root (ks ! i) # map root (drop (Suc i) ks)"
    "mset (take i ks @ drop (Suc i) ks) + {#ks ! i#} = mset ks"
  using take_drop_split [OF assms] mset_drop_at [OF assms] by (metis list.simps(9) map_append, simp add: drop_at_def)

lemma detach_step:
  assumes b: "bench h a ks pool" and i: "0 \<le> i" "nat i < length ks"
  shows "\<exists>h'. cJSON_DetachItemFromArray h (Some a) i = Some (Some (root (ks ! nat i)), h') \<and>
    moves a h ks pool h' (drop_at (nat i) ks) (ks ! nat i # pool)"
proof -
  obtain n where n: "items h a = Some n" "linked (items h) (i_child n) (map root ks)" "forest_ok h (ks @ pool)"
    and d: "distinct (a # map root (ks @ pool))" and u: "\<forall>p\<in>set pool. detached (items h (root p))"
    using benchE [OF b] by metis
  note e = array_split(1) [OF i(2)]
  have dk: "distinct (a # map root ks)" using d by simp
  have g: "get_array_item h (Some a) (nat i) = Some (Some (root (ks ! nat i)))"
    using get_array_item_linked [OF n(1,2), of "nat i"] i by simp
  from detach_run [OF n(1) n(2) [unfolded e] dk [unfolded e], folded e]
  obtain h' where h': "cJSON_DetachItemViaPointer h (Some a) (Some (root (ks ! nat i))) = Some (Some (root (ks ! nat i)), h')"
    "relinks h h' a (set (map root ks)) (map root (drop_at (nat i) ks))"
    "items h' (root (ks ! nat i)) = map_option unlink (items h (root (ks ! nat i)))"
    unfolding drop_at_def map_append by blast
  have "item_ok h (ks ! nat i)" using n(3) i(2) by (auto simp: forest_ok_append intro: forest_item)
  then have "items h (root (ks ! nat i)) \<noteq> None" using tree_ok_dom [OF _ root_in_addrs] by (simp add: item_ok_def)
  then have k: "detached (items h' (root (ks ! nat i)))" using h'(3) by (auto simp: detached_def)
  have "moves a h ks pool h' (drop_at (nat i) ks) (ks ! nat i # pool)"
  proof (rule bench_relinks [OF b h'(2)])
    show "mset (drop_at (nat i) ks @ ks ! nat i # pool) = mset (ks @ pool)"
      using mset_drop_at [OF i(2)] by simp
    fix t assume "t \<in> set (ks ! nat i # pool)"
    moreover have "detached (items h' (root t))" if t: "t \<in> set pool"
    proof -
      have "root t \<notin> set (map root ks)" "root t \<noteq> a" using d t by auto
      then show ?thesis using relinks_out [OF h'(2), of "root t"] u t by simp
    qed
    ultimately show "detached (items h' (root t))" using k by auto
  qed simp
  with h'(1) g i(1) show ?thesis by (simp add: cJSON_DetachItemFromArray_def)
qed

lemma delete_step:
  assumes b: "bench h a ks pool" and i: "0 \<le> i" "nat i < length ks"
  shows "\<exists>h'. cJSON_DeleteItemFromArray h (Some a) i = Some h' \<and> moves a h ks pool h' (drop_at (nat i) ks) pool"
proof -
  obtain h1 where h1: "cJSON_DetachItemFromArray h (Some a) i = Some (Some (root (ks ! nat i)), h1)"
    "moves a h ks pool h1 (drop_at (nat i) ks) (ks ! nat i # pool)" using detach_step [OF b i] by blast
  then have "bench h1 a (drop_at (nat i) ks) (ks ! nat i # pool)" by (simp add: moves_def)
  from bench_release [OF this, of 0]
  obtain h2 where "cJSON_Delete h1 (Some (root (ks ! nat i))) = Some h2"
    "moves a h1 (drop_at (nat i) ks) (ks ! nat i # pool) h2 (drop_at (nat i) ks) pool"
    by (auto simp: drop_at_def)
  with h1 moves_trans show ?thesis unfolding cJSON_DeleteItemFromArray_def by fastforce
qed

lemma replace_step:
  assumes b: "bench h a ks pool" and p: "p < length pool" and i: "0 \<le> i" "nat i < length ks"
  shows "\<exists>h'. cJSON_ReplaceItemInArray h (Some a) i (Some (root (pool ! p))) = Some (True, h') \<and>
    moves a h ks pool h' (ks[nat i := pool ! p]) (drop_at p pool)"
proof -
  obtain n where n: "items h a = Some n" "linked (items h) (i_child n) (map root ks)"
    and d: "distinct (a # map root (ks @ pool))"
    using benchE [OF b] by metis
  obtain m where m: "items h (root (pool ! p)) = Some m" using moves_pool(1) [OF b p] by blast
  note e = array_split(1) [OF i(2)]
  have g: "get_array_item h (Some a) (nat i) = Some (Some (root (ks ! nat i)))"
    using get_array_item_linked [OF n(1,2), of "nat i"] i by simp
  have up: "ks[nat i := pool ! p] = take (nat i) ks @ pool ! p # drop (Suc (nat i)) ks"
    using i(2) by (rule upd_conv_take_nth_drop)
  from replace_run [OF n(1) n(2) [unfolded e] pool_roots(1) [OF d p, unfolded e] m, folded e]
  obtain h1 where h1: "cJSON_ReplaceItemViaPointer h (Some a) (Some (root (ks ! nat i))) (Some (root (pool ! p))) =
      (do { h \<leftarrow> cJSON_Delete h1 (Some (root (ks ! nat i))); Some (True, h) })"
    "relinks h h1 a (insert (root (pool ! p)) (set (map root ks))) (map root (ks[nat i := pool ! p]))"
    "detached (items h1 (root (ks ! nat i)))"
    unfolding up map_append list.map by blast
  have "mset (ks[nat i := pool ! p] @ [ks ! nat i]) = mset (pool ! p # ks)"
    using array_split(2) [OF i(2)] unfolding up by simp
  then have m1: "moves a h ks pool h1 (ks[nat i := pool ! p]) (ks ! nat i # drop_at p pool)"
    using moves_from_pool [OF b p h1(2), of "[ks ! nat i]"] h1(3) by simp
  then have "bench h1 a (ks[nat i := pool ! p]) (ks ! nat i # drop_at p pool)" by (simp add: moves_def)
  from bench_release [OF this, of 0]
  obtain h2 where "cJSON_Delete h1 (Some (root (ks ! nat i))) = Some h2"
    "moves a h1 (ks[nat i := pool ! p]) (ks ! nat i # drop_at p pool) h2 (ks[nat i := pool ! p]) (drop_at p pool)"
    by (auto simp: drop_at_def)
  with h1(1) g i m1 moves_trans show ?thesis unfolding cJSON_ReplaceItemInArray_def by fastforce
qed


lemma outside:
  assumes b: "bench h a ks pool" and i: "i < 0 \<or> length ks \<le> nat i"
  shows "cJSON_DetachItemFromArray h (Some a) i = Some (None, h)"
    "cJSON_DeleteItemFromArray h (Some a) i = Some h"
    "cJSON_ReplaceItemInArray h (Some a) i (Some r) = Some (False, h)"
    "i < 0 \<Longrightarrow> cJSON_InsertItemInArray h (Some a) i q = Some (False, h)"
proof -
  obtain n where n: "items h a = Some n" "linked (items h) (i_child n) (map root ks)" using benchE [OF b] by metis
  have g: "\<not> i < 0 \<Longrightarrow> get_array_item h (Some a) (nat i) = Some None"
    using get_array_item_linked [OF n, of "nat i"] i by auto
  show d: "cJSON_DetachItemFromArray h (Some a) i = Some (None, h)"
    using g by (auto simp: cJSON_DetachItemFromArray_def cJSON_DetachItemViaPointer_def)
  show "cJSON_DeleteItemFromArray h (Some a) i = Some h" by (simp add: cJSON_DeleteItemFromArray_def d)
  show "cJSON_ReplaceItemInArray h (Some a) i (Some r) = Some (False, h)"
    using g n by (auto simp: cJSON_ReplaceItemInArray_def cJSON_ReplaceItemViaPointer_def deref_def)
qed (simp add: cJSON_InsertItemInArray_def)

lemma edit_step:
  assumes b: "bench h a ks pool" and e: "edit_list (ks, pool) e = (ks', pool')"
  shows "\<exists>h'. edit_heap a (h, map root pool) e = Some (h', map root pool') \<and> moves a h ks pool h' ks' pool'"
proof (cases e)
  case (Append p)
  with e append_step [OF b, of p] moves_refl [OF b] show ?thesis
    by (auto simp: cJSON_AddItemToArray_h_def map_drop_at split: if_splits)
next
  case (Insert i p)
  with e insert_step [OF b, of p i] outside(4) [OF b] moves_refl [OF b] show ?thesis
    by (cases "0 \<le> i") (auto simp: map_drop_at split: if_splits)
next
  case (Detach i)
  with e detach_step [OF b, of i] outside(1) [OF b, of i] moves_refl [OF b] show ?thesis
    by (cases "0 \<le> i \<and> nat i < length ks") auto
next
  case (Replace i p)
  with e replace_step [OF b, of p i] outside(3) [OF b, of i] moves_refl [OF b] show ?thesis
    by (cases "0 \<le> i \<and> nat i < length ks") (auto simp: map_drop_at split: if_splits)
next
  case (Delete i)
  with e delete_step [OF b, of i] outside(2) [OF b, of i] moves_refl [OF b] show ?thesis
    by (cases "0 \<le> i \<and> nat i < length ks") auto
next
  case (Discard p)
  with e bench_release [OF b, of p] moves_refl [OF b] show ?thesis
    by (auto simp: map_drop_at split: if_splits)
qed

lemma edits_step:
  assumes "bench h a ks pool" "foldl edit_list (ks, pool) es = (ks', pool')"
  shows "\<exists>h'. edits_heap a (h, map root pool) es = Some (h', map root pool') \<and> moves a h ks pool h' ks' pool'"
  using assms
proof (induction es arbitrary: h ks pool)
  case Nil
  then show ?case using moves_refl by simp
next
  case (Cons e es)
  obtain ls qs where e: "edit_list (ks, pool) e = (ls, qs)" by fastforce
  obtain h1 where h1: "edit_heap a (h, map root pool) e = Some (h1, map root qs)" "moves a h ks pool h1 ls qs"
    using edit_step [OF Cons.prems(1) e] by blast
  then have "bench h1 a ls qs" by (simp add: moves_def)
  with Cons.IH Cons.prems(2) e obtain h2 where
    "edits_heap a (h1, map root qs) es = Some (h2, map root pool')" "moves a h1 ls qs h2 ks' pool'" by fastforce
  with h1 moves_trans show ?case by fastforce
qed

lemma edits_map:
  "foldl edit_list (map f xs, map f ps) es = (\<lambda>(xs, ps). (map f xs, map f ps)) (foldl edit_list (xs, ps) es)"
proof (induction es arbitrary: xs ps)
  case (Cons e es)
  obtain ys qs where "edit_list (xs, ps) e = (ys, qs)" by fastforce
  then show ?case using Cons edit_list_map [of f xs ps e] by simp
qed simp

text \<open>C5: Any sequence of calls that append, insert, detach, replace and delete elements of an array,
  and delete items the client holds, with positions in or out of range, ends without an invalid access
  and gives the values the same edits give on lists; what is allocated afterwards is exactly the array
  and the items the client holds, and no other memory has changed.\<close>

theorem array_edits_refine:
  assumes b: "bench h a ks pool"
  shows "\<exists>h' ks' pool'. edits_heap a (h, map root pool) es = Some (h', map root pool') \<and> bench h' a ks' pool' \<and>
    (map (json_at h') ks', map (json_at h') pool') =
      foldl edit_list (map (json_at h) ks, map (json_at h) pool) es \<and>
    json_at h' (Tree a ks') = JArray (map (json_at h') ks') \<and>
    evolves h (cells h (Tree a ks # pool)) h' (cells h' (Tree a ks' # pool'))"
proof -
  obtain ks' pool' where e: "foldl edit_list (ks, pool) es = (ks', pool')" by fastforce
  obtain h' where h': "edits_heap a (h, map root pool) es = Some (h', map root pool')" "moves a h ks pool h' ks' pool'"
    using edits_step [OF b e] by blast
  then have m: "bench h' a ks' pool'" "\<forall>t\<in>set (ks' @ pool'). json_at h' t = json_at h t"
    "evolves h (cells h (Tree a ks # pool)) h' (cells h' (Tree a ks' # pool'))" by (simp_all add: moves_def)
  have "map (json_at h') ks' = map (json_at h) ks'" "map (json_at h') pool' = map (json_at h) pool'"
    using m(2) by simp_all
  then have "(map (json_at h') ks', map (json_at h') pool') =
      foldl edit_list (map (json_at h) ks, map (json_at h) pool) es" by (simp only: edits_map e prod.case)
  moreover have "json_at h' (Tree a ks') = JArray (map (json_at h') ks')"
    using m(1) json_at_array unfolding bench_def by blast
  ultimately show ?thesis using h'(1) m(1,3) by blast
qed

definition demo_array :: heap where
  "demo_array = \<lparr>
     items = [0 \<mapsto> zero_item\<lparr>i_type := cJSON_Array, i_child := Some 1\<rparr>,
              1 \<mapsto> zero_item\<lparr>i_type := cJSON_NULL, i_prev := Some 2, i_next := Some 2\<rparr>,
              2 \<mapsto> zero_item\<lparr>i_type := cJSON_True, i_prev := Some 1\<rparr>,
              3 \<mapsto> zero_item\<lparr>i_type := cJSON_String, i_valuestring := Some 4\<rparr>],
     strs = [4 \<mapsto> ''s''], brk = 5, oom = (\<lambda>_. False)\<rparr>"

lemma demo_bench: "bench demo_array 0 [Tree 1 [], Tree 2 []] [Tree 3 []]"
  by (simp add: bench_def forest_ok_def demo_array_def zero_item_def node_ok_def item_types_def linked_def
      detached_def node_strs_def named_def)

theorem array_edits_refine_witness:
  "\<exists>h' ks' pool'. edits_heap 0 (demo_array, [3]) [Append 0, Detach 0, Replace 1 0, Delete 7] = Some (h', map root pool') \<and>
     bench h' 0 ks' pool' \<and> json_at h' (Tree 0 ks') = JArray [JBool True, JNull] \<and> pool' = []"
proof -
  have j: "map (json_at demo_array) [Tree 1 [], Tree 2 []] = [JNull, JBool True]"
    "map (json_at demo_array) [Tree 3 []] = [JString ''s'']"
    by (simp_all add: demo_array_def zero_item_def json_node_def text_of_def)
  show ?thesis
    using array_edits_refine [OF demo_bench, of "[Append 0, Detach 0, Replace 1 0, Delete 7]", unfolded j]
    by (fastforce simp: drop_at_def simp del: json_at.simps)
qed

end
