(* ===== verification/Registry.thy ===== *)
theory Registry
  imports Json
begin

text \<open>
  The contract shared by the program's registries (tools, channels): entries are only appended,
  at most \<open>cap\<close> of them, and a name finds its first entry. The clients' lemmas follow: a
  registered entry can not be displaced by later registrations.
\<close>

locale registry =
  fixes key :: "'e \<Rightarrow> string option"
    and entries :: "'r \<Rightarrow> 'e list"
    and add :: "'e \<Rightarrow> 'r \<Rightarrow> 'r"
    and lookup :: "'r \<Rightarrow> string \<Rightarrow> 'e option"
    and cap :: nat
  assumes lookup_first: "lookup r n = find (\<lambda>e. key e = Some n) (entries r)"
    and add_appends: "entries (add e r) = entries r \<or> entries (add e r) = entries r @ [e]"
    and add_bounded: "length (entries r) \<le> cap \<Longrightarrow> length (entries (add e r)) \<le> cap"
begin

lemma lookup_stable: "lookup r n = Some e \<Longrightarrow> lookup (add e' r) n = Some e"
  using add_appends [of e' r] by (auto simp: lookup_first find_append)

lemma lookup_stable_fold: "lookup r n = Some e \<Longrightarrow> lookup (fold add es r) n = Some e"
  by (induction es arbitrary: r) (auto intro: lookup_stable)

lemma lookup_new:
  "lookup r n = None \<Longrightarrow> key e = Some n \<Longrightarrow> entries (add e r) = entries r @ [e] \<Longrightarrow>
   lookup (add e r) n = Some e"
  by (auto simp: lookup_first find_append)

lemma lookup_key: "lookup r n = Some e \<Longrightarrow> key e = Some n \<and> e \<in> set (entries r)"
  by (auto simp: lookup_first dest: find_Some_mem)

lemma fold_bounded: "length (entries r) \<le> cap \<Longrightarrow> length (entries (fold add es r)) \<le> cap"
  by (induction es arbitrary: r) (auto intro: add_bounded)

lemma lookup_other:
  "key e \<noteq> Some n \<Longrightarrow> lookup (add e r) n = lookup r n"
  using add_appends [of e r] by (auto simp: lookup_first find_append split: option.splits)

end

end
