(* ===== verification/Tool_Registry.thy ===== *)
theory Tool_Registry
  imports Registry
begin

text \<open>
  Model of \<open>src/agent/tool_registry.c\<close>. A tool's \<open>execute\<close> function acts on the outside world
  \<open>'w\<close> and gives a result string (NULL is None); the pair \<open>execute, user_data\<close> of the C struct
  is the one function of the model. The global array \<open>g_tools\<close> with \<open>g_tool_count\<close> is a list.
\<close>

type_synonym 'w tool_fn = "json \<Rightarrow> 'w \<Rightarrow> string option \<times> 'w"

record 'w tool =
  tool_name :: "string option"
  description :: "string option"
  parameters_schema :: "string option"
  execute :: "'w tool_fn option"

type_synonym 'w tools = "'w tool list"

definition MAX_TOOLS :: nat where "MAX_TOOLS = 64"

definition tool_registry_init :: "'w tools" where
  "tool_registry_init = []"

definition tool_register :: "'w tool \<Rightarrow> 'w tools \<Rightarrow> result \<times> 'w tools" where
  "tool_register t reg =
     (if length reg \<ge> MAX_TOOLS then (err ERR_GENERIC (''Max tools reached ('' @ nat_str MAX_TOOLS @ '')''), reg)
      else if tool_name t = None \<or> execute t = None then
        (err ERR_GENERIC ''Tool must have name and execute fn'', reg)
      else (ok, reg @ [t]))"

text \<open>
  \<open>tool_find\<close> compares with \<open>strcmp\<close>, so a NULL name is undefined behaviour (the outer None)
  as soon as a tool is registered.
\<close>

definition tool_find :: "'w tools \<Rightarrow> string option \<Rightarrow> 'w tool option option" where
  "tool_find reg name =
     (case name of
        None \<Rightarrow> if reg = [] then Some None else None
      | Some n \<Rightarrow> Some (find (\<lambda>t. tool_name t = Some n) reg))"

definition tool_count :: "'w tools \<Rightarrow> nat" where
  "tool_count reg = length reg"

definition tool_get :: "'w tools \<Rightarrow> int \<Rightarrow> 'w tool option" where
  "tool_get reg i = (if i < 0 \<or> int (length reg) \<le> i then None else Some (reg ! nat i))"

definition tool_entry :: "'w tool \<Rightarrow> json" where
  "tool_entry t =
     (let func0 = cJSON_AddStringToObject (JObject []) ''name'' (tool_name t);
          func1 = cJSON_AddStringToObject func0 ''description''
                    (Some (case description t of None \<Rightarrow> '''' | Some d \<Rightarrow> d));
          func = (case parameters_schema t of
                    None \<Rightarrow> func1
                  | Some s \<Rightarrow> cJSON_AddItemToObject func1 ''parameters'' (cJSON_Parse s));
          obj = cJSON_AddStringToObject (JObject []) ''type'' (Some ''function'')
      in cJSON_AddItemToObject obj ''function'' (Some func))"

definition tool_generate_json :: "'w tools \<Rightarrow> string" where
  "tool_generate_json reg = cJSON_PrintUnformatted (JArray (map tool_entry reg))"

definition tool_registry_shutdown :: "'w tools \<Rightarrow> 'w tools" where
  "tool_registry_shutdown reg = []"

text \<open>Registrations that \<open>tool_register\<close> refuses leave the registry alone.\<close>

definition tool_add :: "'w tool \<Rightarrow> 'w tools \<Rightarrow> 'w tools" where
  "tool_add t reg = snd (tool_register t reg)"

definition tool_lookup :: "'w tools \<Rightarrow> string \<Rightarrow> 'w tool option" where
  "tool_lookup reg n = (case tool_find reg (Some n) of Some r \<Rightarrow> r | None \<Rightarrow> None)"

interpretation tools: registry tool_name "\<lambda>reg. reg" tool_add tool_lookup MAX_TOOLS
  by unfold_locales (auto simp: tool_lookup_def tool_find_def tool_add_def tool_register_def)

lemma tool_find_lookup: "tool_find reg (Some n) = Some (tool_lookup reg n)"
  by (simp add: tool_lookup_def tool_find_def)

lemma tool_find_null: "tool_find reg None = None \<longleftrightarrow> reg \<noteq> []"
  by (simp add: tool_find_def)

lemma tool_register_ok_iff:
  "r_status (fst (tool_register t reg)) = OK \<longleftrightarrow>
     length reg < MAX_TOOLS \<and> tool_name t \<noteq> None \<and> execute t \<noteq> None"
  by (auto simp: tool_register_def ok_def err_def)

text \<open>Every registered tool has a name and a function.\<close>

definition tools_ok :: "'w tools \<Rightarrow> bool" where
  "tools_ok reg \<longleftrightarrow> length reg \<le> MAX_TOOLS \<and> list_all (\<lambda>t. tool_name t \<noteq> None \<and> execute t \<noteq> None) reg"

lemma tools_ok_init: "tools_ok tool_registry_init"
  by (simp add: tools_ok_def tool_registry_init_def)

lemma tools_ok_add: "tools_ok reg \<Longrightarrow> tools_ok (tool_add t reg)"
  by (auto simp: tools_ok_def tool_add_def tool_register_def)

text \<open>The first registration of a name stays the one \<open>tool_find\<close> returns, whatever is registered
  after it, and the registry never exceeds its array of \<open>MAX_TOOLS\<close> slots.\<close>

theorem tool_find_stable:
  assumes "tools_ok reg" "tool_find reg (Some n) = Some (Some t)"
  shows "tool_find (fold tool_add ts reg) (Some n) = Some (Some t)
    \<and> tool_count (fold tool_add ts reg) \<le> MAX_TOOLS
    \<and> tool_name t = Some n"
  using assms tools.lookup_stable_fold [of reg n t ts] tools.fold_bounded [of reg ts] tools.lookup_key [of reg n t]
  by (simp add: tool_find_lookup tools_ok_def tool_count_def)

lemma tool_find_stable_witness:
  "let t = \<lparr>tool_name = Some ''shell'', description = None, parameters_schema = None,
       execute = Some (\<lambda>a w. (None, w :: unit))\<rparr>
   in tool_find (fold tool_add [t\<lparr>description := Some ''other''\<rparr>] [t]) (Some ''shell'') = Some (Some t)"
proof -
  let ?t = "\<lparr>tool_name = Some ''shell'', description = None, parameters_schema = None,
       execute = Some (\<lambda>a w. (None, w :: unit))\<rparr>"
  have "tools_ok [?t]" by (simp add: tools_ok_def MAX_TOOLS_def)
  moreover have "tool_find [?t] (Some ''shell'') = Some (Some ?t)" by (simp add: tool_find_def)
  ultimately show ?thesis
    using tool_find_stable [of "[?t]" "''shell''" ?t "[?t\<lparr>description := Some ''other''\<rparr>]"]
    by (simp add: Let_def)
qed

text \<open>\<open>tool_register\<close> succeeds exactly when there is room and the tool has a name and a
  function; then the tool is appended, otherwise the registry does not change.\<close>

theorem tool_register_spec:
  "(r_status (fst (tool_register t reg)) = OK) =
     (length reg < MAX_TOOLS \<and> tool_name t \<noteq> None \<and> execute t \<noteq> None)
   \<and> snd (tool_register t reg) =
     (if length reg < MAX_TOOLS \<and> tool_name t \<noteq> None \<and> execute t \<noteq> None then reg @ [t] else reg)"
  by (auto simp: tool_register_def ok_def err_def)

end
