(* ===== verification/Agent.thy ===== *)
theory Agent
  imports Tool_Registry
begin

text \<open>
  Model of \<open>src/agent/agent.c\<close> and of the types of \<open>src/agent/agent.h\<close> and
  \<open>src/providers/provider.h\<close>: the message history with its compaction, the serialisation of
  the history, and the agentic tool loop \<open>agent_chat\<close>. The array \<open>messages\<close> with
  \<open>message_count\<close> is a list. The provider's \<open>chat_complete\<close> and the tools act on the world
  \<open>'w\<close>, which is threaded through. The progress callbacks (\<open>on_thinking\<close>) and log lines
  have no effect on the state and are not modelled. A dereference of NULL is an explicit
  outcome (\<open>Crash\<close>).
\<close>

section \<open>Types\<close>

record msg_format =
  tool_result_include_name :: bool
  assistant_tool_call_empty_content :: bool
  send_tool_choice_auto :: bool
  tool_args_as_object :: bool

record llm_response =
  lr_content :: "string option"
  lr_tool_calls :: "json option"
  lr_error :: "string option"
  lr_prompt_tokens :: int
  lr_completion_tokens :: int

record 'w provider =
  p_fmt :: msg_format
  chat_complete :: "string \<Rightarrow> string \<Rightarrow> 'w \<Rightarrow> llm_response \<times> 'w"

record message =
  role :: string
  content :: string
  tool_call_id :: "string option"
  msg_name :: "string option"
  tool_calls :: "json option"

record agent =
  messages :: "message list"
  max_iterations :: int
  max_messages :: int
  system_parts :: "string list"

definition MAX_MESSAGES :: int where "MAX_MESSAGES = 128"
definition MAX_ITERATIONS :: int where "MAX_ITERATIONS = 10"
definition MAX_SYSTEM_PARTS :: nat where "MAX_SYSTEM_PARTS = 16"

section \<open>History\<close>

definition message_has_tool_calls :: "message \<Rightarrow> bool" where
  "message_has_tool_calls m \<longleftrightarrow> tool_calls m \<noteq> None \<and> 0 < cJSON_GetArraySize (tool_calls m)"

text \<open>The number of messages at which the history is compacted; at least 1.\<close>

definition agent_limit :: "agent \<Rightarrow> nat" where
  "agent_limit a =
     nat (if 0 < max_messages a \<and> max_messages a \<le> MAX_MESSAGES then max_messages a else MAX_MESSAGES)"

text \<open>The loop that walks the cut back over assistant messages with pending tool calls.\<close>

fun walk_back :: "message list \<Rightarrow> nat \<Rightarrow> nat" where
  "walk_back ms e =
     (if e > 1 + 1 \<and> message_has_tool_calls (ms ! (e - 1)) then walk_back ms (e - 1) else e)"

declare walk_back.simps [simp del]

definition agent_compact_history :: "agent \<Rightarrow> agent" where
  "agent_compact_history a =
     (let keep = 1;
          remove_count = (let r = agent_limit a div 4 in if r < 1 then 1 else r);
          cut0 = (if keep + remove_count > length (messages a) then length (messages a)
                  else keep + remove_count);
          cut_end = walk_back (messages a) cut0
      in if cut_end \<le> keep then a
         else a\<lparr>messages := take keep (messages a) @ drop cut_end (messages a)\<rparr>)"

definition agent_add_message ::
  "agent \<Rightarrow> string \<Rightarrow> string option \<Rightarrow> string option \<Rightarrow> string option \<Rightarrow> json option \<Rightarrow> agent" where
  "agent_add_message a rl cont call_id name calls =
     (let b = (if length (messages a) \<ge> agent_limit a then agent_compact_history a else a);
          m = \<lparr>role = rl, content = (case cont of Some c \<Rightarrow> c | None \<Rightarrow> ''''), tool_call_id = call_id,
               msg_name = name, tool_calls = calls\<rparr>
      in b\<lparr>messages := messages b @ [m]\<rparr>)"

definition agent_pop_last_message :: "agent \<Rightarrow> agent" where
  "agent_pop_last_message a = (if messages a = [] then a else a\<lparr>messages := butlast (messages a)\<rparr>)"

text \<open>The roll-back loop of \<open>agent_chat\<close>.\<close>

function rollback :: "nat \<Rightarrow> agent \<Rightarrow> agent" where
  "rollback pre a = (if length (messages a) > pre then rollback pre (agent_pop_last_message a) else a)"
  by pat_completeness auto
termination
  by (relation "measure (\<lambda>(pre, a). length (messages a))") (auto simp: agent_pop_last_message_def)

declare rollback.simps [simp del]

definition agent_create :: agent where
  "agent_create = \<lparr>messages = [], max_iterations = MAX_ITERATIONS, max_messages = 0, system_parts = []\<rparr>"

definition agent_add_system_part :: "agent \<Rightarrow> string option \<Rightarrow> agent" where
  "agent_add_system_part a part =
     (case part of
        None \<Rightarrow> a
      | Some p \<Rightarrow> if length (system_parts a) \<ge> MAX_SYSTEM_PARTS then a
                else a\<lparr>system_parts := system_parts a @ [p]\<rparr>)"

definition agent_new_conversation :: "agent \<Rightarrow> agent" where
  "agent_new_conversation a = a\<lparr>messages := []\<rparr>"

definition agent_message_count :: "agent option \<Rightarrow> nat" where
  "agent_message_count a = (case a of None \<Rightarrow> 0 | Some a \<Rightarrow> length (messages a))"

section \<open>Prompt and wire format\<close>

definition build_system_prompt :: "agent \<Rightarrow> string" where
  "build_system_prompt a = concat (map (\<lambda>p. p @ [NL, NL]) (system_parts a))"

text \<open>One entry of \<open>tool_calls\<close>, rebuilt with the fields all providers need.\<close>

definition wire_args :: "msg_format \<Rightarrow> json option \<Rightarrow> json" where
  "wire_args fmt args_item =
     (if tool_args_as_object fmt then
        (case args_item of
           None \<Rightarrow> JObject []
         | Some (JString s) \<Rightarrow> (case cJSON_Parse s of None \<Rightarrow> JObject [] | Some j \<Rightarrow> j)
         | Some j \<Rightarrow> j)
      else
        (case args_item of
           None \<Rightarrow> JString ''{}''
         | Some (JString s) \<Rightarrow> JString s
         | Some j \<Rightarrow> JString (cJSON_PrintUnformatted j)))"

definition wire_tool_call :: "msg_format \<Rightarrow> json \<Rightarrow> json option" where
  "wire_tool_call fmt tc =
     (case cJSON_GetObjectItem (Some tc) ''function'' of
        None \<Rightarrow> None
      | Some func \<Rightarrow>
          let otc0 = cJSON_AddStringToObject (JObject []) ''id'' (get_str (Some tc) ''id'');
              otc1 = cJSON_AddStringToObject otc0 ''type'' (Some ''function'');
              of0 = cJSON_AddStringToObject (JObject []) ''name'' (get_str (Some func) ''name'');
              of1 = cJSON_AddItemToObject of0 ''arguments''
                      (Some (wire_args fmt (cJSON_GetObjectItem (Some func) ''arguments'')))
          in Some (cJSON_AddItemToObject otc1 ''function'' (Some of1)))"

definition wire_message :: "msg_format \<Rightarrow> message \<Rightarrow> json" where
  "wire_message fmt m =
     (let o0 = cJSON_AddStringToObject (JObject []) ''role'' (Some (role m));
          tool_only = (role m = ''assistant'' \<and> message_has_tool_calls m \<and> content m = '''');
          o1 = (if tool_only then
                  (if assistant_tool_call_empty_content fmt
                   then cJSON_AddStringToObject o0 ''content'' (Some '''') else o0)
                else cJSON_AddStringToObject o0 ''content'' (Some (content m)));
          o2 = (if role m = ''tool'' then
                  (let o' = cJSON_AddStringToObject o1 ''tool_call_id'' (tool_call_id m)
                   in if tool_result_include_name fmt
                      then cJSON_AddStringToObject o' ''name'' (msg_name m) else o')
                else o1)
      in case tool_calls m of
           None \<Rightarrow> o2
         | Some calls \<Rightarrow> cJSON_AddItemToObject o2 ''tool_calls''
             (Some (JArray (List.map_filter (wire_tool_call fmt) (map snd (children calls))))))"

definition build_messages_json :: "msg_format \<Rightarrow> agent \<Rightarrow> json" where
  "build_messages_json fmt a = JArray (map (wire_message fmt) (messages a))"

section \<open>Text of the model\<close>

text \<open>\<open>strip_think_tags\<close>: blocks are removed, an unclosed block discards the remainder.\<close>

function strip_think :: "string \<Rightarrow> string" where
  "strip_think p =
     (case strstr p ''<think>'' of
        None \<Rightarrow> p
      | Some start \<Rightarrow>
          take (length p - length start) p @
          (case strstr (drop 7 start) ''</think>'' of
             None \<Rightarrow> []
           | Some fin \<Rightarrow> strip_think (drop 8 fin)))"
  by pat_completeness auto
termination
  by (relation "measure length") (auto dest!: strstr_length)

declare strip_think.simps [simp del]

definition strip_think_tags :: "string option \<Rightarrow> string option" where
  "strip_think_tags inp = map_option (\<lambda>s. str_trim (strip_think s)) inp"

definition parse_tool_arguments :: "json option \<Rightarrow> json" where
  "parse_tool_arguments func =
     (case cJSON_GetObjectItem func ''arguments'' of
        None \<Rightarrow> JObject []
      | Some (JString s) \<Rightarrow>
          if s = '''' \<or> s = ''{}'' then JObject []
          else (case cJSON_Parse s of None \<Rightarrow> JObject [] | Some j \<Rightarrow> j)
      | Some j \<Rightarrow> j)"

section \<open>The tool loop\<close>

datatype chat_result = Crash | Reply string

definition unknown_tool :: string where
  \<open>unknown_tool = ''{"error": "Unknown tool"}''\<close>

text \<open>The tool's result and the new world; None is a call through a NULL pointer.\<close>

definition run_tool :: "'w tool option \<Rightarrow> json option \<Rightarrow> 'w \<Rightarrow> (string option \<times> 'w) option" where
  "run_tool tool func w =
     (case tool of
        None \<Rightarrow> Some (Some unknown_tool, w)
      | Some t \<Rightarrow> (case execute t of None \<Rightarrow> None | Some f \<Rightarrow> Some (f (parse_tool_arguments func) w)))"

text \<open>The loop over the tool calls of one response; None when \<open>tool_find\<close> gets a NULL name.\<close>

fun run_tool_calls :: "'w tools \<Rightarrow> json list \<Rightarrow> agent \<Rightarrow> 'w \<Rightarrow> (agent \<times> 'w) option" where
  "run_tool_calls tools [] a w = Some (a, w)"
| "run_tool_calls tools (tc # tcs) a w =
     (let func = cJSON_GetObjectItem (Some tc) ''function'';
          name = get_str func ''name'';
          call_id = get_str (Some tc) ''id''
      in case tool_find tools name of
           None \<Rightarrow> None
         | Some tool \<Rightarrow>
             (case run_tool tool func w of
                None \<Rightarrow> None
              | Some (res, w') \<Rightarrow>
                  run_tool_calls tools tcs (agent_add_message a ''tool'' res call_id name None) w'))"

definition max_iter_reply :: string where
  "max_iter_reply = ''[Dobby: max tool iterations reached. Please try again.]''"

text \<open>The iterations of \<open>agent_chat\<close>; the first argument is \<open>max_iterations - iter\<close>.\<close>

fun chat_loop :: "nat \<Rightarrow> 'w provider \<Rightarrow> 'w tools \<Rightarrow> nat \<Rightarrow> agent \<Rightarrow> 'w \<Rightarrow> chat_result \<times> agent \<times> 'w" where
  "chat_loop 0 prov tools pre a w = (Reply max_iter_reply, rollback pre a, w)"
| "chat_loop (Suc n) prov tools pre a w =
     (let (resp, w1) = chat_complete prov (cJSON_PrintUnformatted (build_messages_json (p_fmt prov) a))
                         (tool_generate_json tools) w
      in case lr_error resp of
           Some e \<Rightarrow> (Reply e, rollback pre a, w1)
         | None \<Rightarrow>
             if lr_tool_calls resp \<noteq> None \<and> 0 < cJSON_GetArraySize (lr_tool_calls resp) then
               (let a1 = agent_add_message a ''assistant'' (strip_think_tags (lr_content resp)) None None
                           (lr_tool_calls resp)
                in case run_tool_calls tools (map snd (children (the (lr_tool_calls resp)))) a1 w1 of
                     None \<Rightarrow> (Crash, a1, w1)
                   | Some (a2, w2) \<Rightarrow> chat_loop n prov tools pre a2 w2)
             else
               (case strip_think_tags (lr_content resp) of
                  None \<Rightarrow> (Crash, agent_add_message a ''assistant'' None None None None, w1)
                | Some fin \<Rightarrow> (Reply fin, agent_add_message a ''assistant'' (Some fin) None None None, w1)))"

text \<open>The system message is made the first entry of an empty history.\<close>

definition ensure_system :: "agent \<Rightarrow> agent" where
  "ensure_system a =
     (if messages a = [] then agent_add_message a ''system'' (Some (build_system_prompt a)) None None None
      else a)"

definition agent_chat ::
  "'w provider \<Rightarrow> 'w tools \<Rightarrow> agent \<Rightarrow> string option \<Rightarrow> 'w \<Rightarrow> chat_result \<times> agent \<times> 'w" where
  "agent_chat prov tools a user_message w =
     (case user_message of
        None \<Rightarrow> (Reply ''[Error: empty message]'', a, w)
      | Some u \<Rightarrow>
          if u = [] then (Reply ''[Error: empty message]'', a, w)
          else
            let a0 = ensure_system a;
                pre = length (messages a0)
            in chat_loop (nat (max_iterations a0)) prov tools pre
                 (agent_add_message a0 ''user'' (Some u) None None None) w)"

end
