(* ===== verification/Agent_Props.thy ===== *)
theory Agent_Props
  imports Agent
begin

text \<open>
  Correctness of the agent: bounds of the history array, preservation of the system message,
  the exact effect of compaction, roll-back on failure, the number of provider calls, and the
  wire format.
\<close>

section \<open>The history array\<close>

lemma agent_limit_bounds: "1 \<le> agent_limit a \<and> agent_limit a \<le> 128"
  by (auto simp: agent_limit_def MAX_MESSAGES_def)

lemma walk_back_bounds: "2 \<le> e \<Longrightarrow> 2 \<le> walk_back ms e \<and> walk_back ms e \<le> e"
proof (induction ms e rule: walk_back.induct)
  case (1 ms e)
  show ?case
  proof (cases "e > 1 + 1 \<and> message_has_tool_calls (ms ! (e - 1))")
    case True
    then have "2 \<le> walk_back ms (e - 1) \<and> walk_back ms (e - 1) \<le> e - 1" using 1 by auto
    moreover have "walk_back ms e = walk_back ms (e - 1)" using True by (simp add: walk_back.simps [of ms e])
    ultimately show ?thesis by linarith
  next
    case False
    then have "walk_back ms e = e" by (subst walk_back.simps) (simp only: if_False)
    with 1 show ?thesis by simp
  qed
qed

lemma walk_back_small: "e \<le> 2 \<Longrightarrow> walk_back ms e = e"
  by (simp add: walk_back.simps)

lemma walk_back_safe: "walk_back ms e \<le> 2 \<or> \<not> message_has_tool_calls (ms ! (walk_back ms e - 1))"
proof (induction ms e rule: walk_back.induct)
  case (1 ms e)
  then show ?case by (cases "e > 1 + 1 \<and> message_has_tool_calls (ms ! (e - 1))")
      (auto simp: walk_back.simps [of ms e])
qed

definition compact_cut :: "agent \<Rightarrow> nat" where
  "compact_cut a = min (1 + max 1 (agent_limit a div 4)) (length (messages a))"

lemma agent_compact_history_alt:
  "agent_compact_history a =
     (let c = walk_back (messages a) (compact_cut a)
      in if c \<le> 1 then a else a\<lparr>messages := take 1 (messages a) @ drop c (messages a)\<rparr>)"
proof -
  have "(if 1 + r > l then l else 1 + r) = min (1 + r) l" for r l :: nat by simp
  moreover have "(if r < 1 then 1 else r) = max 1 r" for r :: nat by simp
  ultimately show ?thesis
    unfolding agent_compact_history_def compact_cut_def Let_def by simp
qed

lemma agent_limit_messages [simp]: "agent_limit (a\<lparr>messages := ms\<rparr>) = agent_limit a"
  by (simp add: agent_limit_def)

lemma compact_frame [simp]:
  "max_messages (agent_compact_history a) = max_messages a"
  "max_iterations (agent_compact_history a) = max_iterations a"
  "system_parts (agent_compact_history a) = system_parts a"
  "agent_limit (agent_compact_history a) = agent_limit a"
  by (auto simp: agent_compact_history_alt Let_def agent_limit_def)

lemma add_frame [simp]:
  "max_messages (agent_add_message a r c i n t) = max_messages a"
  "max_iterations (agent_add_message a r c i n t) = max_iterations a"
  "system_parts (agent_add_message a r c i n t) = system_parts a"
  "agent_limit (agent_add_message a r c i n t) = agent_limit a"
  by (auto simp: agent_add_message_def Let_def agent_limit_def)

lemma compact_removes:
  assumes "2 \<le> length (messages a)"
  shows "\<exists>c. 2 \<le> c \<and> c \<le> compact_cut a \<and> c \<le> length (messages a)
    \<and> messages (agent_compact_history a) = hd (messages a) # drop c (messages a)
    \<and> (c = 2 \<or> \<not> message_has_tool_calls (messages a ! (c - 1)))"
proof -
  let ?c = "walk_back (messages a) (compact_cut a)"
  have "2 \<le> compact_cut a" using assms by (simp add: compact_cut_def)
  then have c: "2 \<le> ?c" "?c \<le> compact_cut a" using walk_back_bounds by blast+
  have "messages (agent_compact_history a) = hd (messages a) # drop ?c (messages a)"
    using c(1) assms by (cases "messages a") (auto simp: agent_compact_history_alt)
  moreover have "?c = 2 \<or> \<not> message_has_tool_calls (messages a ! (?c - 1))"
    using walk_back_safe [of "messages a" "compact_cut a"] c(1) by auto
  moreover have "?c \<le> length (messages a)" using c(2) by (simp add: compact_cut_def)
  ultimately show ?thesis using c by blast
qed

lemma compact_single: "length (messages a) \<le> 1 \<Longrightarrow> agent_compact_history a = a"
  by (simp add: agent_compact_history_alt compact_cut_def walk_back_small)

lemma compact_hd: "messages a \<noteq> [] \<Longrightarrow>
    messages (agent_compact_history a) \<noteq> [] \<and> hd (messages (agent_compact_history a)) = hd (messages a)"
  using compact_removes [of a] compact_single [of a] by (cases "2 \<le> length (messages a)") auto

text \<open>At most the limit, but never fewer than two messages; the C array has 128.\<close>

definition hist_ok :: "agent \<Rightarrow> bool" where
  "hist_ok a \<longleftrightarrow> length (messages a) \<le> max (agent_limit a) 2"

lemma hist_ok_array: "hist_ok a \<Longrightarrow> length (messages a) \<le> 128"
  using agent_limit_bounds [of a] by (auto simp: hist_ok_def)

lemma hist_ok_add: "hist_ok a \<Longrightarrow> hist_ok (agent_add_message a r c i n t)"
proof -
  assume ok: "hist_ok a"
  show ?thesis
  proof (cases "length (messages a) \<ge> agent_limit a \<and> 2 \<le> length (messages a)")
    case True
    then obtain k where k: "2 \<le> k" "k \<le> length (messages a)"
        "messages (agent_compact_history a) = hd (messages a) # drop k (messages a)"
      using compact_removes by blast
    with True ok show ?thesis by (auto simp: hist_ok_def agent_add_message_def Let_def)
  next
    case False
    then show ?thesis
      using ok compact_single [of a] by (auto simp: hist_ok_def agent_add_message_def Let_def)
  qed
qed

lemma add_hd: "messages a \<noteq> [] \<Longrightarrow>
    messages (agent_add_message a r c i n t) \<noteq> [] \<and> hd (messages (agent_add_message a r c i n t)) = hd (messages a)"
  using compact_hd [of a] by (auto simp: agent_add_message_def Let_def)

lemma add_last: "last (messages (agent_add_message a r c i n t)) =
    \<lparr>role = r, content = (case c of Some c \<Rightarrow> c | None \<Rightarrow> ''''), tool_call_id = i, msg_name = n, tool_calls = t\<rparr>"
  by (simp add: agent_add_message_def Let_def)

lemma add_below_limit: "length (messages a) < agent_limit a \<Longrightarrow>
    messages (agent_add_message a r c i n t) = messages a @
      [\<lparr>role = r, content = (case c of Some c \<Rightarrow> c | None \<Rightarrow> ''''), tool_call_id = i, msg_name = n, tool_calls = t\<rparr>]"
  by (simp add: agent_add_message_def)

lemma rollback_take: "rollback pre a = a\<lparr>messages := take pre (messages a)\<rparr>"
proof (induction pre a rule: rollback.induct)
  case (1 pre a)
  show ?case
  proof (cases "length (messages a) > pre")
    case True
    then have "rollback pre a = a\<lparr>messages := take pre (butlast (messages a))\<rparr>"
      using 1 by (auto simp: rollback.simps [of pre a] agent_pop_last_message_def)
    moreover have "take pre (butlast (messages a)) = take pre (messages a)"
      using True by (simp add: take_butlast)
    ultimately show ?thesis by simp
  next
    case False
    then show ?thesis by (simp add: rollback.simps)
  qed
qed

section \<open>Invariants of a turn\<close>

lemma run_tool_calls_inv:
  assumes "\<And>a r c i n t. P a \<Longrightarrow> P (agent_add_message a r c i n t)"
  shows "P a \<Longrightarrow> run_tool_calls tools tcs a w = Some (a', w') \<Longrightarrow> P a'"
  by (induction tools tcs a w rule: run_tool_calls.induct)
    (auto simp: Let_def assms split: option.splits prod.splits)

text \<open>What \<open>agent_add_message\<close> and \<open>rollback\<close> keep, the tool loop keeps on every path.\<close>

lemma chat_loop_inv:
  assumes add: "\<And>a r c i n t. P a \<Longrightarrow> P (agent_add_message a r c i n t)"
    and roll: "\<And>a. P a \<Longrightarrow> P (rollback pre a)"
  shows "P a \<Longrightarrow> P (fst (snd (chat_loop k prov tools pre a w)))"
proof (induction k arbitrary: a w)
  case (Suc k)
  have "P a2" if "run_tool_calls tools tcs (agent_add_message a r c i n t) w1 = Some (a2, w2)" for tcs r c i n t w1 a2 w2
    by (rule run_tool_calls_inv [of P, OF _ _ that]) (auto intro: add Suc.prems)
  then show ?case
    using Suc by (auto simp: Let_def add roll split: option.splits prod.splits)
qed (simp add: roll)


lemma hist_ok_rollback: "hist_ok a \<Longrightarrow> hist_ok (rollback pre a)"
  by (auto simp: hist_ok_def rollback_take)

lemma chat_loop_error:
  "0 < k \<Longrightarrow> chat_complete prov (cJSON_PrintUnformatted (build_messages_json (p_fmt prov) a))
      (tool_generate_json tools) w = (resp, w1) \<Longrightarrow> lr_error resp = Some e \<Longrightarrow>
   chat_loop k prov tools pre a w = (Reply e, rollback pre a, w1)"
  by (cases k) auto

lemma agent_chat_loop: "u \<noteq> [] \<Longrightarrow> agent_chat prov tools a (Some u) w =
    chat_loop (nat (max_iterations a)) prov tools (length (messages (ensure_system a)))
      (agent_add_message (ensure_system a) ''user'' (Some u) None None None) w"
  by (simp add: agent_chat_def Let_def ensure_system_def)

lemma ensure_system_ne: "messages (ensure_system a) \<noteq> []"
  by (simp add: ensure_system_def agent_add_message_def Let_def)

lemma ensure_system_frame [simp]: "agent_limit (ensure_system a) = agent_limit a"
  by (simp add: ensure_system_def)

lemma ensure_system_messages: "messages (ensure_system a) =
    (if messages a = [] then [\<lparr>role = ''system'', content = build_system_prompt a, tool_call_id = None,
       msg_name = None, tool_calls = None\<rparr>] else messages a)"
  using agent_limit_bounds [of a] by (simp add: ensure_system_def add_below_limit)

lemma agent_chat_inv:
  assumes "\<And>a r c i n t. P a \<Longrightarrow> P (agent_add_message a r c i n t)"
    and "\<And>a pre. P a \<Longrightarrow> P (rollback pre a)"
  shows "P a \<Longrightarrow> P (fst (snd (agent_chat prov tools a u w)))"
  by (auto simp: agent_chat_def Let_def ensure_system_def intro!: chat_loop_inv assms split: option.splits)

text \<open>C10: a turn of \<open>agent_chat\<close>, on every path (answer, provider error, iteration limit, tool
  loops of any length), keeps the history within the limit it is configured for (or two
  messages), so no message is written outside the array of \<open>MAX_MESSAGES\<close> entries.\<close>

theorem agent_chat_bounded:
  assumes "hist_ok a"
  shows "hist_ok (fst (snd (agent_chat prov tools a u w)))
    \<and> length (messages (fst (snd (agent_chat prov tools a u w)))) \<le> nat MAX_MESSAGES"
  using agent_chat_inv [of hist_ok a prov tools u w, OF hist_ok_add hist_ok_rollback assms] hist_ok_array
  by (simp add: MAX_MESSAGES_def)

text \<open>The system message stays first.\<close>

lemma run_tool_calls_hd:
  "messages a \<noteq> [] \<Longrightarrow> run_tool_calls tools tcs a w = Some (a', w') \<Longrightarrow>
   messages a' \<noteq> [] \<and> hd (messages a') = hd (messages a)"
  using run_tool_calls_inv [of "\<lambda>b. messages b \<noteq> [] \<and> hd (messages b) = hd (messages a)" a tools tcs w a' w']
  by (auto simp: add_hd)

lemma chat_loop_hd:
  assumes "messages a \<noteq> []" "1 \<le> pre"
  shows "messages (fst (snd (chat_loop k prov tools pre a w))) \<noteq> []
    \<and> hd (messages (fst (snd (chat_loop k prov tools pre a w)))) = hd (messages a)"
  by (rule chat_loop_inv [of "\<lambda>b. messages b \<noteq> [] \<and> hd (messages b) = hd (messages a)"])
    (use assms in \<open>auto simp: add_hd rollback_take hd_take\<close>)

text \<open>C11: the first message of the history survives every turn, compaction and roll-back
  included; in an empty history a turn first places the system prompt there.\<close>

theorem agent_chat_system_first:
  assumes "u \<noteq> []"
  shows "let ms = messages (fst (snd (agent_chat prov tools a (Some u) w)))
    in ms \<noteq> [] \<and>
       (if messages a = []
        then role (hd ms) = ''system'' \<and> content (hd ms) = build_system_prompt a \<and> tool_calls (hd ms) = None
        else hd ms = hd (messages a))"
proof -
  have "1 \<le> length (messages (ensure_system a))" using ensure_system_ne [of a] by (simp add: Suc_le_eq)
  then have "let ms = messages (fst (snd (agent_chat prov tools a (Some u) w)))
      in ms \<noteq> [] \<and> hd ms = hd (messages (ensure_system a))"
    unfolding agent_chat_loop [OF assms] Let_def
    using chat_loop_hd add_hd [OF ensure_system_ne] by metis
  then show ?thesis by (auto simp: Let_def ensure_system_messages)
qed

text \<open>Compaction of a full history removes the oldest messages after the system message, at
  least one and at most a quarter of the limit (or one), keeps all others in order, and never
  ends the removed block at an assistant message with tool calls unless it removes only one.\<close>

theorem agent_compact_history_effect:
  assumes "2 \<le> length (messages a)"
  shows "\<exists>c. 2 \<le> c \<and> c \<le> 1 + max 1 (agent_limit a div 4)
    \<and> messages (agent_compact_history a) = hd (messages a) # drop c (messages a)
    \<and> (c = 2 \<or> \<not> message_has_tool_calls (messages a ! (c - 1)))"
  using compact_removes [OF assms] unfolding compact_cut_def by fastforce

section \<open>Turns that fit in the history\<close>

definition calls_at_most :: "nat \<Rightarrow> 'w provider \<Rightarrow> bool" where
  "calls_at_most K prov \<longleftrightarrow>
     (\<forall>m t w. cJSON_GetArraySize (lr_tool_calls (fst (chat_complete prov m t w))) \<le> K)"

lemma run_tool_calls_fits:
  "run_tool_calls tools tcs a w = Some (a', w') \<Longrightarrow> length (messages a) + length tcs \<le> agent_limit a \<Longrightarrow>
   prefix (messages a) (messages a') \<and> length (messages a') = length (messages a) + length tcs
   \<and> agent_limit a' = agent_limit a"
proof (induction tools tcs a w rule: run_tool_calls.induct)
  case (2 tools tc tcs a w)
  let ?name = "get_str (cJSON_GetObjectItem (Some tc) ''function'') ''name''"
  obtain res w1 where step: "run_tool_calls tools tcs
      (agent_add_message a ''tool'' res (get_str (Some tc) ''id'') ?name None) w1 = Some (a', w')"
    and pre: "\<exists>tool. tool_find tools ?name = Some tool \<and>
       run_tool tool (cJSON_GetObjectItem (Some tc) ''function'') w = Some (res, w1)"
    using "2.prems"(1) by (auto simp: Let_def split: option.splits)
  have add: "messages (agent_add_message a ''tool'' res (get_str (Some tc) ''id'') ?name None) =
      messages a @ [\<lparr>role = ''tool'', content = (case res of Some c \<Rightarrow> c | None \<Rightarrow> ''''),
        tool_call_id = get_str (Some tc) ''id'', msg_name = ?name, tool_calls = None\<rparr>]"
    using "2.prems"(2) by (intro add_below_limit) simp
  obtain tool where "tool_find tools ?name = Some tool"
      "run_tool tool (cJSON_GetObjectItem (Some tc) ''function'') w = Some (res, w1)" using pre by blast
  from "2.IH" [OF refl refl refl this refl step] "2.prems"(2) add
  show ?case by (auto simp: prefix_def)
qed simp

lemma chat_loop_fits:
  assumes "calls_at_most K prov"
  shows "chat_loop k prov tools (length base) a w = (Reply r, a', w') \<Longrightarrow> prefix base (messages a) \<Longrightarrow>
     length (messages a) + k * (K + 1) \<le> agent_limit a \<Longrightarrow>
     messages a' = base \<or>
     (prefix base (messages a') \<and> last (messages a') =
        \<lparr>role = ''assistant'', content = r, tool_call_id = None, msg_name = None, tool_calls = None\<rparr>)"
proof (induction k arbitrary: a w)
  case 0
  then show ?case by (auto simp: rollback_take prefix_def)
next
  case (Suc k)
  obtain resp w1 where resp: "chat_complete prov (cJSON_PrintUnformatted (build_messages_json (p_fmt prov) a))
      (tool_generate_json tools) w = (resp, w1)" by fastforce
  have K: "cJSON_GetArraySize (lr_tool_calls resp) \<le> K"
    using assms resp by (metis calls_at_most_def fst_conv)
  have room: "length (messages a) < agent_limit a" using Suc.prems(3) by simp
  show ?case
  proof (cases "lr_error resp")
    case (Some e)
    then show ?thesis using Suc.prems resp by (auto simp: rollback_take prefix_def)
  next
    case None
    note noerr = this
    show ?thesis
    proof (cases "lr_tool_calls resp \<noteq> None \<and> 0 < cJSON_GetArraySize (lr_tool_calls resp)")
      case False
      then obtain f where "strip_think_tags (lr_content resp) = Some f" "f = r"
          "a' = agent_add_message a ''assistant'' (Some f) None None None"
        using Suc.prems(1) resp noerr by (auto split: option.splits)
      then show ?thesis using Suc.prems(2) add_below_limit [OF room] by (auto simp: prefix_def)
    next
      case True
      define a1 where "a1 = agent_add_message a ''assistant'' (strip_think_tags (lr_content resp)) None None
        (lr_tool_calls resp)"
      obtain a2 w2 where run: "run_tool_calls tools (map snd (children (the (lr_tool_calls resp)))) a1 w1 = Some (a2, w2)"
        and rest: "chat_loop k prov tools (length base) a2 w2 = (Reply r, a', w')"
        using Suc.prems(1) resp noerr True by (auto simp: a1_def Let_def split: option.splits)
      have len: "length (map snd (children (the (lr_tool_calls resp)))) \<le> K"
        using K True by (auto simp: cJSON_GetArraySize_def)
      have a1: "prefix (messages a) (messages a1)" "length (messages a1) = Suc (length (messages a))"
          "agent_limit a1 = agent_limit a"
        using add_below_limit [OF room] by (auto simp: a1_def)
      have fit: "length (messages a1) + length (map snd (children (the (lr_tool_calls resp)))) \<le> agent_limit a1"
        using Suc.prems(3) len a1 by simp
      note a2 = run_tool_calls_fits [OF run fit]
      have "prefix base (messages a2)" using Suc.prems(2) a1 a2 by (meson prefix_order.trans)
      moreover have "length (messages a2) + k * (K + 1) \<le> agent_limit a2"
        using Suc.prems(3) a1 a2 len by simp
      ultimately show ?thesis by (rule Suc.IH [OF rest])
    qed
  qed
qed


text \<open>At the limit the roll-back keeps part of the failed turn: compaction has shortened the
  history after \<open>pre_turn_count\<close> was taken.\<close>

definition plain_msg :: "string \<Rightarrow> string \<Rightarrow> message" where
  "plain_msg r c = \<lparr>role = r, content = c, tool_call_id = None, msg_name = None, tool_calls = None\<rparr>"

definition failing_provider :: "unit provider" where
  "failing_provider = \<lparr>p_fmt = \<lparr>tool_result_include_name = False, assistant_tool_call_empty_content = False,
      send_tool_choice_auto = False, tool_args_as_object = False\<rparr>,
    chat_complete = (\<lambda>m t w. (\<lparr>lr_content = None, lr_tool_calls = None, lr_error = Some ''HTTP 500'',
      lr_prompt_tokens = 0, lr_completion_tokens = 0\<rparr>, w))\<rparr>"

definition full_agent :: agent where
  "full_agent = \<lparr>messages = [plain_msg ''system'' '''', plain_msg ''user'' ''a'', plain_msg ''assistant'' ''b'',
     plain_msg ''user'' ''c''], max_iterations = 10, max_messages = 4, system_parts = []\<rparr>"

text \<open>At the message limit the roll-back after a provider error is incomplete: the user
  message of the failed turn stays in the history, and an older message is lost.\<close>

theorem agent_chat_rollback_at_limit:
  "agent_chat failing_provider [] full_agent (Some ''hello'') () =
     (Reply ''HTTP 500'', full_agent\<lparr>messages := [plain_msg ''system'' '''', plain_msg ''assistant'' ''b'',
        plain_msg ''user'' ''c'', plain_msg ''user'' ''hello'']\<rparr>, ())"
proof -
  have "agent_limit full_agent = 4" by (simp add: agent_limit_def full_agent_def MAX_MESSAGES_def)
  then have add: "agent_add_message full_agent ''user'' (Some ''hello'') None None None =
      full_agent\<lparr>messages := [plain_msg ''system'' '''', plain_msg ''assistant'' ''b'',
        plain_msg ''user'' ''c'', plain_msg ''user'' ''hello'']\<rparr>"
    by (simp add: agent_add_message_def agent_compact_history_alt compact_cut_def walk_back.simps
        full_agent_def plain_msg_def)
  have "ensure_system full_agent = full_agent" by (simp add: ensure_system_def full_agent_def)
  moreover have "0 < nat (max_iterations full_agent)" "length (messages full_agent) = 4"
    by (simp_all add: full_agent_def)
  ultimately show ?thesis
    by (simp add: agent_chat_loop add chat_loop_error rollback_take failing_provider_def)
qed

section \<open>Calls of the provider and the tools\<close>

text \<open>A world that counts the provider calls, and tools that do not touch the counter.\<close>

definition counts_calls :: "nat provider \<Rightarrow> bool" where
  "counts_calls prov \<longleftrightarrow> (\<forall>m t w. snd (chat_complete prov m t w) = Suc w)"

definition tools_keep_world :: "'w tools \<Rightarrow> bool" where
  "tools_keep_world tools \<longleftrightarrow> (\<forall>t \<in> set tools. \<forall>f. execute t = Some f \<longrightarrow> (\<forall>j w. snd (f j w) = w))"

lemma run_tool_keeps:
  assumes "tools_keep_world tools" "tool_find tools name = Some tool" "run_tool tool func w = Some (res, w')"
  shows "w' = w"
proof (cases tool)
  case None
  with assms show ?thesis by (simp add: run_tool_def)
next
  case (Some t)
  with assms(2) have "t \<in> set tools"
    by (auto simp: tool_find_def dest: find_Some_mem split: option.splits if_splits)
  moreover obtain f where "execute t = Some f" "f (parse_tool_arguments func) w = (res, w')"
    using assms(3) Some by (auto simp: run_tool_def split: option.splits)
  ultimately show ?thesis using assms(1) unfolding tools_keep_world_def by (metis snd_conv)
qed

lemma run_tool_calls_keeps:
  "tools_keep_world tools \<Longrightarrow> run_tool_calls tools tcs a w = Some (a', w') \<Longrightarrow> w' = w"
  by (induction tools tcs a w rule: run_tool_calls.induct)
    (auto simp: Let_def dest: run_tool_keeps split: option.splits)

lemma chat_loop_calls:
  assumes "counts_calls prov" "tools_keep_world tools"
  shows "snd (snd (chat_loop k prov tools pre a w)) \<le> w + k"
proof (induction k arbitrary: a w)
  case (Suc k)
  obtain resp where resp: "chat_complete prov (cJSON_PrintUnformatted (build_messages_json (p_fmt prov) a))
      (tool_generate_json tools) w = (resp, Suc w)"
    using assms(1) by (metis counts_calls_def prod.collapse)
  then show ?case
    using Suc.IH [of _ "Suc w"] run_tool_calls_keeps [OF assms(2)]
    by (auto simp: Let_def split: option.splits) (metis add_Suc)+
qed simp

text \<open>C25: a turn calls the provider at most \<open>max_iterations\<close> times, whatever tool calls the model
  asks for.\<close>

theorem agent_chat_calls_bounded:
  assumes "counts_calls prov" "tools_keep_world tools"
  shows "snd (snd (agent_chat prov tools a u w)) \<le> w + nat (max_iterations a)"
  using chat_loop_calls [OF assms]
  by (auto simp: agent_chat_def Let_def ensure_system_def split: option.splits)

text \<open>With tools registered, processing the tool calls of a response dereferences NULL exactly
  when one of them has no function name; otherwise every call gets its result message.\<close>

theorem run_tool_calls_crash_iff:
  assumes "tools_ok tools"
  shows "run_tool_calls tools tcs a w = None \<longleftrightarrow>
    tools \<noteq> [] \<and> (\<exists>tc \<in> set tcs. get_str (cJSON_GetObjectItem (Some tc) ''function'') ''name'' = None)"
proof (induction tcs arbitrary: a w)
  case (Cons tc tcs)
  let ?func = "cJSON_GetObjectItem (Some tc) ''function''"
  show ?case
  proof (cases "tool_find tools (get_str ?func ''name'')")
    case None
    then show ?thesis by (auto simp: tool_find_def Let_def split: option.splits if_splits)
  next
    case (Some tool)
    have "run_tool tool ?func w \<noteq> None"
    proof (cases tool)
      case (Some t)
      with \<open>tool_find tools (get_str ?func ''name'') = Some tool\<close> have "t \<in> set tools"
        by (auto simp: tool_find_def dest: find_Some_mem split: option.splits if_splits)
      then have "execute t \<noteq> None" using assms by (auto simp: tools_ok_def list_all_iff)
      with Some show ?thesis by (auto simp: run_tool_def)
    qed (simp add: run_tool_def)
    then obtain res w' where r: "run_tool tool ?func w = Some (res, w')" by auto
    have n: "get_str ?func ''name'' = None \<longrightarrow> tools = []"
      using Some by (auto simp: tool_find_def split: if_splits option.splits)
    from Some r n Cons.IH show ?thesis by (auto simp: Let_def)
  qed
qed simp

text \<open>The history of \<open>[FIX-3]\<close>: a call with two tool results, cut between the results.\<close>

definition split_agent :: agent where
  "split_agent = \<lparr>messages = [plain_msg ''system'' '''',
      (plain_msg ''assistant'' '''')\<lparr>tool_calls := Some (JArray [JNull, JNull])\<rparr>,
      plain_msg ''tool'' ''one'', plain_msg ''tool'' ''two'',
      plain_msg ''assistant'' ''done'', plain_msg ''user'' ''a'', plain_msg ''assistant'' ''b'', plain_msg ''user'' ''c''],
    max_iterations = 10, max_messages = 8, system_parts = []\<rparr>"

text \<open>Compaction can separate a tool result from the assistant message that asked for it:
  after it, the oldest message of this history is a tool result without its tool call.\<close>

theorem agent_compact_history_splits_pair:
  "message_has_tool_calls (messages split_agent ! 1) \<and> role (messages split_agent ! 3) = ''tool'' \<and>
   messages (agent_compact_history split_agent) =
     [messages split_agent ! 0] @ drop 3 (messages split_agent)"
proof -
  have "agent_limit split_agent = 8" by (simp add: agent_limit_def split_agent_def MAX_MESSAGES_def)
  then show ?thesis
    by (simp add: agent_compact_history_alt compact_cut_def walk_back.simps split_agent_def plain_msg_def
        message_has_tool_calls_def cJSON_GetArraySize_def)
qed

section \<open>Wire format\<close>

lemma find_append_None [simp]: "find P xs = None \<Longrightarrow> find P (xs @ ys) = find P ys"
  by (simp add: find_append)

text \<open>With providers that take tool arguments as strings, every rebuilt tool call carries its
  arguments as a string, and the call's id and function name unchanged.\<close>

theorem wire_tool_call_arguments:
  assumes "\<not> tool_args_as_object fmt" "wire_tool_call fmt tc = Some otc"
  shows "cJSON_IsString (cJSON_GetObjectItem (cJSON_GetObjectItem (Some otc) ''function'') ''arguments'')
    \<and> get_str (Some otc) ''id'' = get_str (Some tc) ''id''
    \<and> get_str (cJSON_GetObjectItem (Some otc) ''function'') ''name'' =
        get_str (cJSON_GetObjectItem (Some tc) ''function'') ''name''"
proof -
  have eqs: "strcasecmp_eq ''arguments'' ''name'' = False" "strcasecmp_eq ''arguments'' ''arguments'' = True"
    "strcasecmp_eq ''function'' ''id'' = False" "strcasecmp_eq ''function'' ''type'' = False"
    "strcasecmp_eq ''function'' ''function'' = True" "strcasecmp_eq ''id'' ''id'' = True"
    "strcasecmp_eq ''id'' ''type'' = False" "strcasecmp_eq ''id'' ''function'' = False"
    "strcasecmp_eq ''name'' ''name'' = True" "strcasecmp_eq ''name'' ''arguments'' = False"
    by code_simp+
  obtain func where func: "cJSON_GetObjectItem (Some tc) ''function'' = Some func"
    using assms(2) by (auto simp: wire_tool_call_def split: option.splits)
  have "\<exists>s. wire_args fmt arg = JString s" for arg
    using assms(1) by (simp add: wire_args_def split: option.split json.split)
  then obtain s where args: "wire_args fmt (cJSON_GetObjectItem (Some func) ''arguments'') = JString s" by blast
  show ?thesis
    using assms(2) func args
    by (cases "get_str (Some tc) ''id''"; cases "get_str (Some func) ''name''")
      (auto simp: wire_tool_call_def Let_def cJSON_GetObjectItem_def cJSON_IsString_def
        cJSON_GetStringValue_def eqs)
qed

section \<open>Reasoning blocks\<close>

lemma strstr_at_lt:
  "CHR ''<'' \<notin> set a \<Longrightarrow> strstr (a @ CHR ''<'' # n @ r) (CHR ''<'' # n) = Some (CHR ''<'' # n @ r)"
  by (induction a) auto

lemma strip_think_none: "\<not> contains s ''<think>'' \<Longrightarrow> strip_think s = s"
  by (simp add: strip_think.simps)

lemma strip_think_block:
  assumes "CHR ''<'' \<notin> set a" "CHR ''<'' \<notin> set b"
  shows "strip_think (a @ ''<think>'' @ b @ ''</think>'' @ c) = a @ strip_think c"
proof -
  have 1: "strstr (a @ ''<think>'' @ b @ ''</think>'' @ c) ''<think>'' = Some (''<think>'' @ b @ ''</think>'' @ c)"
    using strstr_at_lt [OF assms(1), of "''think>''" "b @ ''</think>'' @ c"] by simp
  have 2: "strstr (b @ ''</think>'' @ c) ''</think>'' = Some (''</think>'' @ c)"
    using strstr_at_lt [OF assms(2), of "''/think>''" c] by simp
  show ?thesis
    by (subst strip_think.simps) (simp add: 1 [simplified] 2 [simplified])
qed

lemma strip_think_open:
  assumes "CHR ''<'' \<notin> set a" "\<not> contains b ''</think>''"
  shows "strip_think (a @ ''<think>'' @ b) = a"
proof -
  have 1: "strstr (a @ ''<think>'' @ b) ''<think>'' = Some (''<think>'' @ b)"
    using strstr_at_lt [OF assms(1), of "''think>''" b] by simp
  show ?thesis
    using assms(2) by (subst strip_think.simps) (simp add: 1 [simplified])
qed

text \<open>The text between blocks is kept, in order and trimmed at the ends, the blocks and an
  unclosed block's remainder are dropped (text outside the blocks, and in them, without \<open><\<close>).\<close>

theorem strip_think_tags_blocks:
  assumes "list_all (\<lambda>(a, b). CHR ''<'' \<notin> set a \<and> CHR ''<'' \<notin> set b) blocks" "CHR ''<'' \<notin> set rest"
    and "\<not> contains tail ''</think>''"
  shows "strip_think_tags (Some (concat (map (\<lambda>(a, b). a @ ''<think>'' @ b @ ''</think>'') blocks) @ rest)) =
      Some (str_trim (concat (map fst blocks) @ rest))
    \<and> strip_think_tags (Some (concat (map (\<lambda>(a, b). a @ ''<think>'' @ b @ ''</think>'') blocks) @
        rest @ ''<think>'' @ tail)) = Some (str_trim (concat (map fst blocks) @ rest))"
proof -
  have nolt: "\<not> contains s ''<think>''" if "CHR ''<'' \<notin> set s" for s
    using that by (metis contains_sublist in_mono list.set_intros(1) set_mono_sublist)
  have blocks: "strip_think (concat (map (\<lambda>(a, b). a @ ''<think>'' @ b @ ''</think>'') blocks) @ t) =
      concat (map fst blocks) @ strip_think t" for t
    using assms(1)
  proof (induction blocks)
    case (Cons ab blocks)
    obtain a b where ab: "ab = (a, b)" by (cases ab)
    then show ?case
      using Cons strip_think_block [of a b "concat (map (\<lambda>(a, b). a @ ''<think>'' @ b @ ''</think>'') blocks) @ t"]
      by simp
  qed simp
  show ?thesis
    using strip_think_none [OF nolt [OF assms(2)]] strip_think_open [OF assms(2,3)]
    by (simp only: strip_think_tags_def option.map blocks)
qed

section \<open>The properties at concrete inputs\<close>

lemma full_agent_ok: "hist_ok full_agent"
  by (simp add: hist_ok_def full_agent_def agent_limit_def MAX_MESSAGES_def)

lemma agent_chat_bounded_witness:
  "hist_ok (fst (snd (agent_chat failing_provider [] full_agent (Some ''hi'') ())))"
  by (rule conjunct1 [OF agent_chat_bounded [OF full_agent_ok]])

lemma agent_chat_system_first_witness:
  "hd (messages (fst (snd (agent_chat failing_provider [] full_agent (Some ''hi'') ())))) = plain_msg ''system'' ''''"
  using agent_chat_system_first [of "''hi''" failing_provider "[]" full_agent "()"]
  by (simp add: Let_def full_agent_def)

lemma agent_compact_history_effect_witness:
  "\<exists>c. 2 \<le> c \<and> c \<le> 2 \<and> messages (agent_compact_history full_agent) =
      hd (messages full_agent) # drop c (messages full_agent)"
proof -
  have "agent_limit full_agent = 4" by (simp add: agent_limit_def full_agent_def MAX_MESSAGES_def)
  then show ?thesis
    using agent_compact_history_effect [of full_agent] by (auto simp: full_agent_def)
qed


definition counting_provider :: "nat provider" where
  "counting_provider = \<lparr>p_fmt = p_fmt failing_provider,
    chat_complete = (\<lambda>m t w. (\<lparr>lr_content = Some ''ok'', lr_tool_calls = None, lr_error = None,
      lr_prompt_tokens = 0, lr_completion_tokens = 0\<rparr>, Suc w))\<rparr>"

lemma agent_chat_calls_bounded_witness:
  "snd (snd (agent_chat counting_provider [] agent_create (Some ''hi'') 0)) \<le> 10"
  using agent_chat_calls_bounded [of counting_provider "[]" agent_create "Some ''hi''" 0]
  by (simp add: counts_calls_def counting_provider_def tools_keep_world_def agent_create_def MAX_ITERATIONS_def)

lemma run_tool_calls_crash_iff_witness:
  "let t = \<lparr>tool_name = Some ''shell'', description = None, parameters_schema = None,
       execute = Some (\<lambda>a w. (None, w :: unit))\<rparr>
   in run_tool_calls [t] [JObject [(''id'', JString ''1'')]] agent_create () = None"
  using run_tool_calls_crash_iff [of "[\<lparr>tool_name = Some ''shell'', description = None, parameters_schema = None,
       execute = Some (\<lambda>a w. (None, w :: unit))\<rparr>]" "[JObject [(''id'', JString ''1'')]]" agent_create "()"]
  by (simp add: Let_def tools_ok_def MAX_TOOLS_def cJSON_GetObjectItem_def cJSON_GetStringValue_def
      strcasecmp_eq_def)

lemma wire_tool_call_arguments_witness:
  "\<exists>otc. wire_tool_call (p_fmt failing_provider) (JObject [(''function'', JObject [(''name'', JString ''shell'')])]) = Some otc
    \<and> cJSON_IsString (cJSON_GetObjectItem (cJSON_GetObjectItem (Some otc) ''function'') ''arguments'')"
proof -
  have "wire_tool_call (p_fmt failing_provider) (JObject [(''function'', JObject [(''name'', JString ''shell'')])]) \<noteq> None"
    by (simp add: wire_tool_call_def cJSON_GetObjectItem_def strcasecmp_eq_def Let_def)
  moreover have "\<not> tool_args_as_object (p_fmt failing_provider)" by (simp add: failing_provider_def)
  ultimately show ?thesis using wire_tool_call_arguments by blast
qed

lemma strip_think_tags_blocks_witness:
  "strip_think_tags (Some ('' hi '' @ ''<think>'' @ ''plan'' @ ''</think>'' @ ''there'')) = Some ''hi there''"
  using strip_think_tags_blocks [of "[('' hi '', ''plan'')]" "''there''" "[]"] by (simp, code_simp)

end
