(* ===== verification/Session.thy ===== *)
theory Session
  imports Json
begin

text \<open>
  Model of \<open>src/session/session.c\<close>: the table of sessions, one agent per (channel, chat) key.
  The agent type \<open>'a\<close> is a parameter; the result of the factory call and the current time are
  arguments. The mutex makes each operation atomic, so an operation is a function of the table.
\<close>

definition SESSION_MAX :: nat where "SESSION_MAX = 64"
definition SESSION_KEY_MAX :: nat where "SESSION_KEY_MAX = 320"
definition SESSION_TTL_DEFAULT :: int where "SESSION_TTL_DEFAULT = 3600"

record 'a session =
  s_key :: string
  s_agent :: "'a option"
  last_active :: int
  in_use :: bool

record 'a session_manager =
  slots :: "'a session list"
  ttl_seconds :: int
  s_count :: int

text \<open>A zeroed slot (\<open>calloc\<close>, \<open>memset\<close>).\<close>

definition empty_slot :: "'a session" where
  "empty_slot = \<lparr>s_key = '''', s_agent = None, last_active = 0, in_use = False\<rparr>"

definition session_manager_create :: "int \<Rightarrow> 'a session_manager" where
  "session_manager_create ttl =
     \<lparr>slots = replicate SESSION_MAX empty_slot,
      ttl_seconds = (if ttl > 0 then ttl else SESSION_TTL_DEFAULT), s_count = 0\<rparr>"

definition session_manager_destroy :: "'a session_manager \<Rightarrow> 'a session_manager" where
  "session_manager_destroy sm = sm\<lparr>slots := map (\<lambda>s. s\<lparr>in_use := False\<rparr>) (slots sm)\<rparr>"

text \<open>\<open>djb2\<close>: 32-bit arithmetic that wraps around.\<close>

definition djb2 :: "string \<Rightarrow> 32 word" where
  "djb2 s = foldl (\<lambda>h c. xor (h * 33) (of_nat (byte c))) 5381 s"

text \<open>The probe loop of \<open>find_slot\<close>; the last argument is \<open>first_empty\<close>.\<close>

fun probe :: "'a session list \<Rightarrow> string \<Rightarrow> nat list \<Rightarrow> nat option \<Rightarrow> nat option" where
  "probe sl key [] first_empty = first_empty"
| "probe sl key (i # idxs) first_empty =
     (if in_use (sl ! i) \<and> s_key (sl ! i) = key then Some i
      else probe sl key idxs (if \<not> in_use (sl ! i) \<and> first_empty = None then Some i else first_empty))"

definition probe_order :: "string \<Rightarrow> nat list" where
  "probe_order key =
     (let start = unat (djb2 key) mod SESSION_MAX in map (\<lambda>i. (start + i) mod SESSION_MAX) [0..<SESSION_MAX])"

definition find_slot :: "'a session_manager \<Rightarrow> string \<Rightarrow> nat option" where
  "find_slot sm key = probe (slots sm) key (probe_order key) None"

definition stale :: "int \<Rightarrow> int \<Rightarrow> 'a session \<Rightarrow> bool" where
  "stale now ttl s \<longleftrightarrow> in_use s \<and> now - last_active s \<ge> ttl"

definition evict_locked :: "int \<Rightarrow> 'a session_manager \<Rightarrow> nat \<times> 'a session_manager" where
  "evict_locked now sm =
     (let n = length (filter (stale now (ttl_seconds sm)) (slots sm))
      in (n, sm\<lparr>slots := map (\<lambda>s. if stale now (ttl_seconds sm) s then empty_slot else s) (slots sm),
               s_count := s_count sm - int n\<rparr>))"

definition session_key :: "string \<Rightarrow> string \<Rightarrow> string" where
  "session_key channel chat_id = trunc_to SESSION_KEY_MAX (channel @ '':'' @ chat_id)"

text \<open>The part after the slot is found: an empty slot is filled from the factory.\<close>

definition fill_slot ::
  "'a option \<Rightarrow> int \<Rightarrow> 'a session_manager \<Rightarrow> string \<Rightarrow> nat \<Rightarrow> nat option \<times> 'a session_manager" where
  "fill_slot fresh now sm key idx =
     (if in_use (slots sm ! idx) then (Some idx, sm)
      else case fresh of
             None \<Rightarrow> (None, sm)
           | Some agent \<Rightarrow>
               (Some idx, sm\<lparr>slots := (slots sm)[idx := \<lparr>s_key = trunc_to SESSION_KEY_MAX key, s_agent = Some agent,
                                                     last_active = now, in_use = True\<rparr>],
                             s_count := s_count sm + 1\<rparr>))"

definition session_get_or_create ::
  "'a option \<Rightarrow> int \<Rightarrow> 'a session_manager \<Rightarrow> string option \<Rightarrow> string option \<Rightarrow> nat option \<times> 'a session_manager" where
  "session_get_or_create fresh now sm channel chat_id =
     (case (channel, chat_id) of
        (Some ch, Some cid) \<Rightarrow>
          (let key = session_key ch cid
           in case find_slot sm key of
                Some idx \<Rightarrow> fill_slot fresh now sm key idx
              | None \<Rightarrow>
                  (let sm' = snd (evict_locked now sm)
                   in case find_slot sm' key of
                        None \<Rightarrow> (None, sm')
                      | Some idx \<Rightarrow> fill_slot fresh now sm' key idx))
      | _ \<Rightarrow> (None, sm))"

definition session_release :: "int \<Rightarrow> 'a session_manager \<Rightarrow> nat option \<Rightarrow> 'a session_manager" where
  "session_release now sm s =
     (case s of None \<Rightarrow> sm
      | Some i \<Rightarrow> sm\<lparr>slots := (slots sm)[i := (slots sm ! i)\<lparr>last_active := now\<rparr>]\<rparr>)"

definition session_evict_stale :: "int \<Rightarrow> 'a session_manager \<Rightarrow> nat \<times> 'a session_manager" where
  "session_evict_stale now sm = evict_locked now sm"

definition session_count :: "'a session_manager option \<Rightarrow> int" where
  "session_count sm = (case sm of None \<Rightarrow> 0 | Some sm \<Rightarrow> s_count sm)"

text \<open>The worker's write through \<open>sess->agent\<close> after a turn.\<close>

definition set_agent :: "'a session_manager \<Rightarrow> nat \<Rightarrow> 'a \<Rightarrow> 'a session_manager" where
  "set_agent sm i a = sm\<lparr>slots := (slots sm)[i := (slots sm ! i)\<lparr>s_agent := Some a\<rparr>]\<rparr>"

text \<open>
  \<open>session_snapshot\<close>: one line per session, written into a buffer of \<open>n\<close> bytes that stops
  growing when it is full. \<open>msgs\<close> is \<open>agent_message_count\<close>.
\<close>


definition snapshot_line :: "('a option \<Rightarrow> nat) \<Rightarrow> int \<Rightarrow> 'a session \<Rightarrow> string" where
  "snapshot_line msgs now s =
     ''  '' @ pad_right 36 (s_key s) @ ''  msgs:'' @ pad_right 4 (nat_str (msgs (s_agent s))) @
     ''  idle:'' @ int_str (now - last_active s) @ ''s'' @ [NL]"

definition session_snapshot :: "('a option \<Rightarrow> nat) \<Rightarrow> int \<Rightarrow> 'a session_manager \<Rightarrow> nat \<Rightarrow> nat \<times> string" where
  "session_snapshot msgs now sm n =
     (if n = 0 then (0, '''')
      else let used = filter in_use (slots sm)
        in (length used,
            fold (\<lambda>s buf. buf @ trunc_to (n - length buf) (snapshot_line msgs now s)) used ''''))"

section \<open>The probe loop\<close>

lemma probe_find:
  "probe sl key idxs fe =
     (case find (\<lambda>i. in_use (sl ! i) \<and> s_key (sl ! i) = key) idxs of
        Some i \<Rightarrow> Some i
      | None \<Rightarrow> (case fe of Some e \<Rightarrow> Some e | None \<Rightarrow> find (\<lambda>i. \<not> in_use (sl ! i)) idxs))"
  by (induction idxs arbitrary: fe) (auto split: option.splits)

lemma rotation_surj: "set (map (\<lambda>i. (st + i) mod n) [0..<n]) = {0..<n}"
proof (cases "n = 0")
  case False
  have "j \<in> (\<lambda>i. (st + i) mod n) ` {0..<n}" if "j < n" for j
  proof -
    have "(st + (j + (n - st mod n)) mod n) mod n = (st mod n + (j + (n - st mod n))) mod n"
      by (simp add: mod_simps)
    also have "st mod n + (j + (n - st mod n)) = j + n"
      using False mod_less_divisor [of n st] by linarith
    finally have "(st + (j + (n - st mod n)) mod n) mod n = j" using that by simp
    moreover have "(j + (n - st mod n)) mod n < n" using False by simp
    ultimately show ?thesis by (metis atLeastLessThan_iff image_eqI le0)
  qed
  then show ?thesis using False by auto
qed simp

lemma set_probe_order: "set (probe_order key) = {0..<SESSION_MAX}"
  unfolding probe_order_def Let_def by (rule rotation_surj)

lemma find_slot_Some:
  assumes "find_slot sm key = Some i"
  shows "i < SESSION_MAX \<and> (in_use (slots sm ! i) \<longrightarrow> s_key (slots sm ! i) = key)"
  using assms set_probe_order [of key]
  by (auto simp: find_slot_def probe_find dest!: find_Some_mem split: option.splits)

lemma find_slot_existing:
  assumes "i < SESSION_MAX" "in_use (slots sm ! i)" "s_key (slots sm ! i) = key"
  shows "\<exists>j. find_slot sm key = Some j \<and> j < SESSION_MAX \<and> in_use (slots sm ! j) \<and> s_key (slots sm ! j) = key"
proof -
  have "find (\<lambda>i. in_use (slots sm ! i) \<and> s_key (slots sm ! i) = key) (probe_order key) \<noteq> None"
    using assms set_probe_order [of key] by (auto simp: find_None_iff)
  then obtain j where j: "find (\<lambda>i. in_use (slots sm ! i) \<and> s_key (slots sm ! i) = key) (probe_order key) = Some j"
    by auto
  then show ?thesis
    using set_probe_order [of key] by (auto simp: find_slot_def probe_find dest: find_Some_mem)
qed

lemma find_slot_fresh:
  assumes "find_slot sm key = Some i" "\<not> in_use (slots sm ! i)" "j < SESSION_MAX" "in_use (slots sm ! j)"
  shows "s_key (slots sm ! j) \<noteq> key"
  using assms find_slot_existing [of j sm key] by auto

lemma find_slot_None:
  "find_slot sm key = None \<longleftrightarrow>
     (\<forall>i < SESSION_MAX. in_use (slots sm ! i) \<and> s_key (slots sm ! i) \<noteq> key)"
  using set_probe_order [of key]
  by (auto simp: find_slot_def probe_find find_None_iff split: option.splits dest!: find_Some_mem)

section \<open>The invariant of the table\<close>

definition live :: "'a session_manager \<Rightarrow> nat \<Rightarrow> bool" where
  "live sm i \<longleftrightarrow> i < SESSION_MAX \<and> in_use (slots sm ! i)"

definition sm_ok :: "'a session_manager \<Rightarrow> bool" where
  "sm_ok sm \<longleftrightarrow> length (slots sm) = SESSION_MAX
    \<and> s_count sm = int (length (filter in_use (slots sm)))
    \<and> (\<forall>i j. live sm i \<longrightarrow> live sm j \<longrightarrow> s_key (slots sm ! i) = s_key (slots sm ! j) \<longrightarrow> i = j)
    \<and> (\<forall>i. live sm i \<longrightarrow> s_agent (slots sm ! i) \<noteq> None)"

text \<open>What the table means: the agent of each key.\<close>

definition agents :: "'a session_manager \<Rightarrow> string \<Rightarrow> 'a option" where
  "agents sm key = (case find (\<lambda>s. in_use s \<and> s_key s = key) (slots sm) of
     None \<Rightarrow> None | Some s \<Rightarrow> s_agent s)"

lemma filter_update_new:
  "i < length xs \<Longrightarrow> \<not> P (xs ! i) \<Longrightarrow> P y \<Longrightarrow> length (filter P (xs[i := y])) = Suc (length (filter P xs))"
  by (induction xs arbitrary: i) (auto split: nat.splits)

lemma filter_update_same:
  "i < length xs \<Longrightarrow> P (xs ! i) = P y \<Longrightarrow> length (filter P (xs[i := y])) = length (filter P xs)"
  by (induction xs arbitrary: i) (auto split: nat.splits)

lemma sm_ok_create: "sm_ok (session_manager_create ttl)"
  by (auto simp: sm_ok_def session_manager_create_def live_def empty_slot_def)

lemma filter_evict_length:
  "length (filter in_use (map (\<lambda>s. if stale now t s then empty_slot else s) sl)) + length (filter (stale now t) sl)
   = length (filter in_use sl)"
  by (induction sl) (auto simp: stale_def empty_slot_def)

lemma sm_ok_evict: "sm_ok sm \<Longrightarrow> sm_ok (snd (evict_locked now sm))"
proof -
  assume ok: "sm_ok sm"
  let ?sm = "snd (evict_locked now sm)"
  have nth: "slots ?sm ! i = (if stale now (ttl_seconds sm) (slots sm ! i) then empty_slot else slots sm ! i)"
    if "i < SESSION_MAX" for i
    using ok that by (simp add: evict_locked_def Let_def sm_ok_def)
  have lv: "live sm i \<and> slots ?sm ! i = slots sm ! i" if "live ?sm i" for i
    using that nth [of i] by (auto simp: live_def empty_slot_def split: if_splits)
  have "s_count ?sm = int (length (filter in_use (slots ?sm)))"
    using ok filter_evict_length [of now "ttl_seconds sm" "slots sm"]
    by (simp add: evict_locked_def Let_def sm_ok_def)
  moreover have "length (slots ?sm) = SESSION_MAX" using ok by (simp add: evict_locked_def Let_def sm_ok_def)
  ultimately show ?thesis using ok lv unfolding sm_ok_def by metis
qed

lemma session_key_trunc [simp]: "trunc_to SESSION_KEY_MAX (session_key c d) = session_key c d"
  by (simp only: session_key_def trunc_to_def take_take min.idem)

lemma fill_slot_ok:
  assumes "sm_ok sm" "find_slot sm (session_key c d) = Some idx"
  shows "sm_ok (snd (fill_slot fresh now sm (session_key c d) idx))"
proof (cases "in_use (slots sm ! idx) \<or> fresh = None")
  case True
  then show ?thesis using assms(1) by (auto simp: fill_slot_def split: option.splits)
next
  case False
  then obtain agent where fresh: "fresh = Some agent" and free: "\<not> in_use (slots sm ! idx)" by auto
  let ?sm = "snd (fill_slot fresh now sm (session_key c d) idx)"
  have idx: "idx < SESSION_MAX" using find_slot_Some [OF assms(2)] by simp
  have len: "length (slots sm) = SESSION_MAX" using assms(1) by (simp add: sm_ok_def)
  have sl: "slots ?sm = (slots sm)[idx := \<lparr>s_key = session_key c d, s_agent = Some agent,
      last_active = now, in_use = True\<rparr>]"
    using fresh free by (simp add: fill_slot_def)
  have other: "s_key (slots sm ! j) \<noteq> session_key c d" if "live sm j" for j
    using find_slot_fresh [OF assms(2) free] that by (simp add: live_def)
  have here: "slots ?sm ! idx = \<lparr>s_key = session_key c d, s_agent = Some agent, last_active = now, in_use = True\<rparr>"
    and there: "\<And>k. k \<noteq> idx \<Longrightarrow> slots ?sm ! k = slots sm ! k"
    using sl len idx by simp_all
  have lv: "k \<noteq> idx \<Longrightarrow> live ?sm k \<Longrightarrow> live sm k" for k
    using there by (simp add: live_def)
  have "s_count ?sm = int (length (filter in_use (slots ?sm)))"
    using assms(1) fresh free idx len
    by (simp add: fill_slot_def filter_update_new sm_ok_def)
  moreover have "length (slots ?sm) = SESSION_MAX" using sl len by simp
  moreover have "i = j" if ij: "live ?sm i" "live ?sm j" "s_key (slots ?sm ! i) = s_key (slots ?sm ! j)" for i j
  proof (cases "i = idx \<or> j = idx")
    case True
    then show ?thesis using ij here there other lv by (metis session.select_convs(1))
  next
    case False
    then show ?thesis using ij there lv assms(1) unfolding sm_ok_def by metis
  qed
  moreover have "s_agent (slots ?sm ! i) \<noteq> None" if "live ?sm i" for i
    using that here there lv assms(1) unfolding sm_ok_def by (cases "i = idx") auto
  ultimately show ?thesis unfolding sm_ok_def by metis
qed

lemma sm_ok_get_or_create: "sm_ok sm \<Longrightarrow> sm_ok (snd (session_get_or_create fresh now sm ch cid))"
  by (auto simp: session_get_or_create_def Let_def fill_slot_ok sm_ok_evict split: option.splits)

lemma sm_ok_update:
  assumes "sm_ok sm" "i < SESSION_MAX" "in_use s' = in_use (slots sm ! i)" "s_key s' = s_key (slots sm ! i)"
    "s_agent s' \<noteq> None \<or> s_agent s' = s_agent (slots sm ! i)"
  shows "sm_ok (sm\<lparr>slots := (slots sm)[i := s']\<rparr>)"
proof -
  have lv: "live (sm\<lparr>slots := (slots sm)[i := s']\<rparr>) j = live sm j
      \<and> (live sm j \<longrightarrow> s_key ((slots sm)[i := s'] ! j) = s_key (slots sm ! j))
      \<and> (live sm j \<longrightarrow> s_agent (slots sm ! j) \<noteq> None \<longrightarrow> s_agent ((slots sm)[i := s'] ! j) \<noteq> None)" for j
    using assms by (auto simp: live_def nth_list_update sm_ok_def)
  then show ?thesis using assms by (simp add: sm_ok_def filter_update_same)
qed

lemma sm_ok_release: "sm_ok sm \<Longrightarrow> (\<And>i. s = Some i \<Longrightarrow> i < SESSION_MAX) \<Longrightarrow> sm_ok (session_release now sm s)"
  by (auto simp: session_release_def intro!: sm_ok_update split: option.splits)

lemma sm_ok_set_agent: "sm_ok sm \<Longrightarrow> i < SESSION_MAX \<Longrightarrow> sm_ok (set_agent sm i a)"
  by (auto simp: set_agent_def intro!: sm_ok_update)

section \<open>The table as a map from keys to agents\<close>

lemma agents_live:
  assumes "sm_ok sm" "live sm i"
  shows "agents sm (s_key (slots sm ! i)) = s_agent (slots sm ! i)"
proof -
  have mem: "slots sm ! i \<in> set (slots sm)" using assms by (simp add: sm_ok_def live_def)
  then have "find (\<lambda>s. in_use s \<and> s_key s = s_key (slots sm ! i)) (slots sm) \<noteq> None"
    using assms(2) by (auto simp: find_None_iff live_def)
  then obtain s where s: "find (\<lambda>s. in_use s \<and> s_key s = s_key (slots sm ! i)) (slots sm) = Some s" by auto
  then obtain j where j: "j < SESSION_MAX" "slots sm ! j = s"
    using assms(1) find_Some_mem [OF s] by (auto simp: in_set_conv_nth sm_ok_def)
  then have "j = i" using find_Some_mem [OF s] assms unfolding sm_ok_def live_def by metis
  with s j show ?thesis by (simp add: agents_def)
qed

lemma agents_dead:
  assumes "sm_ok sm" "\<And>i. live sm i \<Longrightarrow> s_key (slots sm ! i) \<noteq> k"
  shows "agents sm k = None"
proof -
  have "find (\<lambda>s. in_use s \<and> s_key s = k) (slots sm) = None"
    using assms by (auto simp: find_None_iff in_set_conv_nth live_def sm_ok_def)
  then show ?thesis by (simp add: agents_def)
qed

lemma agents_eqI:
  assumes "sm_ok sm" "sm_ok sm'"
    and "\<And>i. live sm i \<Longrightarrow> s_key (slots sm ! i) = k \<Longrightarrow>
          \<exists>j. live sm' j \<and> s_key (slots sm' ! j) = k \<and> s_agent (slots sm' ! j) = s_agent (slots sm ! i)"
    and "\<And>j. live sm' j \<Longrightarrow> s_key (slots sm' ! j) = k \<Longrightarrow> \<exists>i. live sm i \<and> s_key (slots sm ! i) = k"
  shows "agents sm' k = agents sm k"
proof (cases "\<exists>i. live sm i \<and> s_key (slots sm ! i) = k")
  case True
  then show ?thesis using assms agents_live by metis
next
  case False
  then have "\<not> (\<exists>j. live sm' j \<and> s_key (slots sm' ! j) = k)" using assms(4) by blast
  then have "agents sm' k = None" using agents_dead [OF assms(2)] by blast
  moreover have "agents sm k = None" using False agents_dead [OF assms(1)] by blast
  ultimately show ?thesis by simp
qed

text \<open>\<open>evict_locked\<close> forgets the stale sessions only.\<close>

lemma evict_nth:
  "sm_ok sm \<Longrightarrow> i < SESSION_MAX \<Longrightarrow> slots (snd (evict_locked now sm)) ! i =
     (if stale now (ttl_seconds sm) (slots sm ! i) then empty_slot else slots sm ! i)"
  by (simp add: evict_locked_def Let_def sm_ok_def)

lemma live_evict:
  "sm_ok sm \<Longrightarrow> live (snd (evict_locked now sm)) i \<longleftrightarrow> live sm i \<and> \<not> stale now (ttl_seconds sm) (slots sm ! i)"
  by (cases "i < SESSION_MAX") (auto simp: live_def evict_nth empty_slot_def)

text \<open>C3: every operation of the session table keeps it well formed: 64 slots, no key in two
  slots, the counter equal to the number of sessions, and an agent in every session.\<close>

theorem session_table_invariant:
  assumes "sm_ok sm" "i < SESSION_MAX"
  shows "sm_ok (snd (session_get_or_create fresh now sm ch cid))
    \<and> sm_ok (snd (session_evict_stale now sm))
    \<and> sm_ok (session_release now sm (Some i))
    \<and> sm_ok (set_agent sm i a)
    \<and> 0 \<le> session_count (Some sm) \<and> session_count (Some sm) \<le> int SESSION_MAX"
proof -
  have "length (filter in_use (slots sm)) \<le> SESSION_MAX"
    using assms(1) length_filter_le [of in_use "slots sm"] by (simp add: sm_ok_def)
  then have "0 \<le> session_count (Some sm) \<and> session_count (Some sm) \<le> int SESSION_MAX"
    using assms(1) by (simp add: sm_ok_def session_count_def)
  then show ?thesis
    using assms sm_ok_get_or_create [of sm] sm_ok_evict [of sm] sm_ok_release [of sm "Some i"] sm_ok_set_agent [of sm i]
    by (simp add: session_evict_stale_def)
qed

lemma session_table_invariant_witness:
  "sm_ok (snd (session_get_or_create (Some (7::nat)) 0 (session_manager_create 0) (Some ''cli'') (Some ''local'')))"
  using session_table_invariant [OF sm_ok_create, of 0 "Some (7::nat)" 0 0 "Some ''cli''" "Some ''local''"]
  by (simp add: SESSION_MAX_def)

lemma get_or_create_live:
  assumes "sm_ok sm" "session_get_or_create fresh now sm (Some ch) (Some cid) = (Some i, sm')"
  shows "live sm' i \<and> s_key (slots sm' ! i) = session_key ch cid"
proof -
  have fill: "live sm2 i \<and> s_key (slots sm2 ! i) = session_key ch cid"
    if "sm_ok sm1" "find_slot sm1 (session_key ch cid) = Some k"
      "fill_slot fresh now sm1 (session_key ch cid) k = (Some i, sm2)" for sm1 sm2 k
    using that find_slot_Some [OF that(2)]
    by (auto simp: fill_slot_def live_def sm_ok_def split: if_splits option.splits)
  show ?thesis
    using assms fill [OF assms(1)] fill [OF sm_ok_evict [OF assms(1)]]
    by (auto simp: session_get_or_create_def Let_def split: option.splits)
qed

text \<open>C8: conversations are isolated. A session returned for (channel, chat) is the one of its key;
  it is the existing one if the key has a session, otherwise a new one with the factory's agent;
  and every other session that is not idle past the TTL keeps its agent.\<close>

theorem session_isolation:
  assumes "sm_ok sm" "session_get_or_create fresh now sm (Some ch) (Some cid) = (Some i, sm')"
  shows "live sm' i \<and> s_key (slots sm' ! i) = session_key ch cid
    \<and> s_agent (slots sm' ! i) =
        (case agents sm (session_key ch cid) of Some a \<Rightarrow> Some a | None \<Rightarrow> fresh)
    \<and> (\<forall>j. live sm j \<and> \<not> stale now (ttl_seconds sm) (slots sm ! j) \<and> j \<noteq> i \<longrightarrow> slots sm' ! j = slots sm ! j)"
proof -
  let ?key = "session_key ch cid"
  show ?thesis
  proof (cases "find_slot sm ?key")
    case (Some k)
    then have fs: "fill_slot fresh now sm ?key k = (Some i, sm')"
      using assms(2) by (simp add: session_get_or_create_def Let_def)
    have k: "k < SESSION_MAX" "in_use (slots sm ! k) \<longrightarrow> s_key (slots sm ! k) = ?key"
      using find_slot_Some [OF Some] by auto
    show ?thesis
    proof (cases "in_use (slots sm ! k)")
      case True
      then have "sm' = sm" "i = k" "live sm k" using fs k by (auto simp: fill_slot_def live_def)
      moreover from this have "agents sm ?key = s_agent (slots sm ! k)" "s_agent (slots sm ! k) \<noteq> None"
        using agents_live [OF assms(1), of k] k True assms(1) by (auto simp: sm_ok_def)
      ultimately show ?thesis using k True by auto
    next
      case False
      have "agents sm ?key = None"
        using find_slot_fresh [OF Some False] by (intro agents_dead [OF assms(1)]) (auto simp: live_def)
      then show ?thesis
        using fs False k get_or_create_live [OF assms] assms(1)
        by (auto simp: fill_slot_def live_def sm_ok_def nth_list_update split: option.splits)
    qed
  next
    case None
    let ?sm1 = "snd (evict_locked now sm)"
    have ok1: "sm_ok ?sm1" using sm_ok_evict assms(1) by blast
    obtain k where k: "find_slot ?sm1 ?key = Some k" and fs: "fill_slot fresh now ?sm1 ?key k = (Some i, sm')"
      using assms(2) None by (auto simp: session_get_or_create_def Let_def split: option.splits)
    have nokey: "\<not> (live sm j \<and> s_key (slots sm ! j) = ?key)" for j
      using None by (auto simp: find_slot_None live_def)
    then have "agents sm ?key = None" by (intro agents_dead [OF assms(1)]) blast
    moreover have "\<not> in_use (slots ?sm1 ! k)"
      using find_slot_Some [OF k] nokey [of k] live_evict [OF assms(1), of now k] evict_nth [OF assms(1), of k now]
      by (auto simp: live_def split: if_splits)
    ultimately show ?thesis
      using fs find_slot_Some [OF k] get_or_create_live [OF assms] ok1 evict_nth [OF assms(1)]
      by (auto simp: fill_slot_def sm_ok_def live_def nth_list_update split: option.splits)
  qed
qed

lemma session_isolation_witness:
  "\<exists>i sm'. session_get_or_create (Some (7::nat)) 0 (session_manager_create 0) (Some ''cli'') (Some ''local'') = (Some i, sm')
    \<and> s_agent (slots sm' ! i) = Some 7"
proof -
  let ?sm = "session_manager_create 0 :: nat session_manager"
  have "find_slot ?sm (session_key ''cli'' ''local'') \<noteq> None"
    unfolding find_slot_None by (auto simp: session_manager_create_def empty_slot_def SESSION_MAX_def intro: exI [of _ 0])
  then obtain i where "find_slot ?sm (session_key ''cli'' ''local'') = Some i" by auto
  then obtain sm' where r: "session_get_or_create (Some 7) 0 ?sm (Some ''cli'') (Some ''local'') = (Some i, sm')"
    by (cases "in_use (slots ?sm ! i)") (simp_all add: session_get_or_create_def fill_slot_def)
  have "agents ?sm (session_key ''cli'' ''local'') = None"
    by (rule agents_dead [OF sm_ok_create]) (auto simp: live_def session_manager_create_def empty_slot_def)
  then show ?thesis using session_isolation [OF sm_ok_create r] r by auto
qed

lemma agents_set_agent:
  assumes "sm_ok sm" "live sm i"
  shows "agents (set_agent sm i a) k = (if k = s_key (slots sm ! i) then Some a else agents sm k)"
proof -
  have len: "i < length (slots sm)" using assms by (simp add: live_def sm_ok_def)
  have ok: "sm_ok (set_agent sm i a)" using assms sm_ok_set_agent by (auto simp: live_def)
  have lv: "live (set_agent sm i a) j = live sm j" "s_key (slots (set_agent sm i a) ! j) = s_key (slots sm ! j)"
    "j \<noteq> i \<Longrightarrow> s_agent (slots (set_agent sm i a) ! j) = s_agent (slots sm ! j)"
    "s_agent (slots (set_agent sm i a) ! i) = Some a" for j
    using len by (auto simp: live_def set_agent_def nth_list_update)
  show ?thesis
  proof (cases "k = s_key (slots sm ! i)")
    case True
    then show ?thesis using agents_live [OF ok, of i] lv assms(2) by simp
  next
    case False
    then have "agents (set_agent sm i a) k = agents sm k"
      by (intro agents_eqI [OF assms(1) ok]) (metis lv)+
    with False show ?thesis by simp
  qed
qed

text \<open>After a session is created, asking for the same key again, at any time before the
  session is evicted, gives the same session with its current agent, and changes nothing.\<close>

theorem session_lookup_after_create:
  assumes "sm_ok sm" "session_get_or_create fresh now sm (Some ch) (Some cid) = (Some i, sm')"
  shows "session_get_or_create fresh2 now2 (set_agent sm' i a) (Some ch) (Some cid) = (Some i, set_agent sm' i a)
    \<and> agents (set_agent sm' i a) (session_key ch cid) = Some a"
proof -
  let ?key = "session_key ch cid" and ?sm = "set_agent sm' i a"
  have lv: "live sm' i" "s_key (slots sm' ! i) = ?key" using get_or_create_live [OF assms] by auto
  have ok': "sm_ok sm'" using sm_ok_get_or_create [OF assms(1), of fresh now "Some ch" "Some cid"] assms(2) by simp
  have ok: "sm_ok ?sm" using sm_ok_set_agent [OF ok'] lv(1) by (simp add: live_def)
  have len: "i < length (slots sm')" using lv(1) ok' by (simp add: live_def sm_ok_def)
  have at: "in_use (slots ?sm ! i)" "s_key (slots ?sm ! i) = ?key" "i < SESSION_MAX"
    using lv len by (auto simp: live_def set_agent_def)
  then obtain j where j: "find_slot ?sm ?key = Some j" "j < SESSION_MAX" "in_use (slots ?sm ! j)" "s_key (slots ?sm ! j) = ?key"
    using find_slot_existing by blast
  then have "j = i" using ok at unfolding sm_ok_def live_def by metis
  with j show ?thesis
    using agents_set_agent [OF ok' lv(1), of a ?key] lv(2)
    by (simp add: session_get_or_create_def fill_slot_def)
qed

lemma session_lookup_after_create_witness:
  "\<exists>i sm'. session_get_or_create (Some (7::nat)) 0 (session_manager_create 0) (Some ''cli'') (Some ''local'') = (Some i, sm')
    \<and> agents (set_agent sm' i 8) ''cli:local'' = Some 8"
proof -
  obtain i sm' where r: "session_get_or_create (Some (7::nat)) 0 (session_manager_create 0) (Some ''cli'') (Some ''local'') = (Some i, sm')"
    using session_isolation_witness by blast
  show ?thesis
    using r session_lookup_after_create [OF sm_ok_create r, of None 1 8]
    by (auto simp: session_key_def SESSION_KEY_MAX_def trunc_to_def)
qed

text \<open>No session is returned only when the factory fails, or all 64 slots hold other keys and
  none of them is idle past the TTL.\<close>

theorem session_table_full:
  assumes "sm_ok sm" "fst (session_get_or_create (Some a) now sm (Some ch) (Some cid)) = None"
  shows "\<forall>i < SESSION_MAX. in_use (slots sm ! i) \<and> s_key (slots sm ! i) \<noteq> session_key ch cid
    \<and> \<not> stale now (ttl_seconds sm) (slots sm ! i)"
proof -
  have n: "find_slot sm (session_key ch cid) = None"
    "find_slot (snd (evict_locked now sm)) (session_key ch cid) = None"
    using assms(2) by (auto simp: session_get_or_create_def Let_def fill_slot_def split: option.splits if_splits)
  show ?thesis
  proof (intro allI impI)
    fix i assume i: "i < SESSION_MAX"
    have "in_use (slots (snd (evict_locked now sm)) ! i)" using n(2) i by (simp add: find_slot_None)
    then have "\<not> stale now (ttl_seconds sm) (slots sm ! i)"
      using evict_nth [OF assms(1) i, of now] by (auto simp: empty_slot_def)
    with n(1) i show "in_use (slots sm ! i) \<and> s_key (slots sm ! i) \<noteq> session_key ch cid
        \<and> \<not> stale now (ttl_seconds sm) (slots sm ! i)"
      by (simp add: find_slot_None)
  qed
qed

definition busy_table :: "nat session_manager" where
  "busy_table = \<lparr>slots = map (\<lambda>i. \<lparr>s_key = replicate i (CHR ''x''), s_agent = Some 0, last_active = 0, in_use = True\<rparr>)
     [0..<SESSION_MAX], ttl_seconds = 3600, s_count = int SESSION_MAX\<rparr>"

lemma session_table_full_witness:
  "in_use (slots busy_table ! 63)
    \<and> fst (session_get_or_create (Some 1) 0 busy_table (Some ''cli'') (Some ''local'')) = None"
proof -
  have all_used: "filter in_use (map (\<lambda>i. \<lparr>s_key = replicate i (CHR ''x''), s_agent = Some (0::nat), last_active = 0, in_use = True\<rparr>)
     xs) = map (\<lambda>i. \<lparr>s_key = replicate i (CHR ''x''), s_agent = Some 0, last_active = 0, in_use = True\<rparr>) xs" for xs
    by (induction xs) auto
  have ok: "sm_ok busy_table"
    unfolding sm_ok_def by (auto simp: busy_table_def live_def all_used replicate_eq_replicate)
  have key: "session_key ''cli'' ''local'' \<noteq> replicate i (CHR ''x'')" for i
    by (cases i) (auto simp: session_key_def SESSION_KEY_MAX_def trunc_to_def)
  have same: "snd (evict_locked 0 busy_table) = busy_table"
  proof -
    have "filter (stale 0 3600) (slots busy_table) = []" by (auto simp: busy_table_def stale_def filter_empty_conv)
    moreover have "map (\<lambda>s. if stale 0 3600 s then empty_slot else s) (slots busy_table) = slots busy_table"
      by (auto simp: busy_table_def stale_def)
    ultimately show ?thesis by (simp add: evict_locked_def Let_def) (simp add: busy_table_def)
  qed
  have "find_slot busy_table (session_key ''cli'' ''local'') = None"
    using key [symmetric] by (simp add: find_slot_None busy_table_def)
  then have none: "fst (session_get_or_create (Some 1) 0 busy_table (Some ''cli'') (Some ''local'')) = None"
    by (simp add: session_get_or_create_def Let_def same)
  have "(63::nat) < SESSION_MAX" by (simp add: SESSION_MAX_def)
  with session_table_full [OF ok none] none show ?thesis by blast
qed

section \<open>A property of all agents\<close>

definition agents_all :: "('a \<Rightarrow> bool) \<Rightarrow> 'a session_manager \<Rightarrow> bool" where
  "agents_all P sm \<longleftrightarrow> (\<forall>i. live sm i \<longrightarrow> (\<exists>a. s_agent (slots sm ! i) = Some a \<and> P a))"

lemma agents_all_create: "agents_all P (session_manager_create ttl)"
  by (auto simp: agents_all_def live_def session_manager_create_def empty_slot_def)

lemma agents_all_evict: "sm_ok sm \<Longrightarrow> agents_all P sm \<Longrightarrow> agents_all P (snd (evict_locked now sm))"
  by (auto simp: agents_all_def live_evict evict_nth live_def empty_slot_def)

lemma agents_all_fill:
  assumes "sm_ok sm" "agents_all P sm" "\<And>a. fresh = Some a \<Longrightarrow> P a" "idx < SESSION_MAX"
  shows "agents_all P (snd (fill_slot fresh now sm key idx))"
proof (cases "in_use (slots sm ! idx) \<or> fresh = None")
  case True
  then show ?thesis using assms(2) by (auto simp: fill_slot_def split: option.splits)
next
  case False
  then show ?thesis
    using assms by (auto simp: fill_slot_def agents_all_def live_def sm_ok_def nth_list_update)
qed

lemma agents_all_get_or_create:
  assumes "sm_ok sm" "agents_all P sm" "\<And>a. fresh = Some a \<Longrightarrow> P a"
  shows "agents_all P (snd (session_get_or_create fresh now sm ch cid))"
  using agents_all_fill [OF assms] agents_all_fill [OF sm_ok_evict [OF assms(1)] agents_all_evict [OF assms(1,2)] assms(3)]
    agents_all_evict [OF assms(1,2)] assms(2)
  by (auto simp: session_get_or_create_def Let_def dest: find_slot_Some split: option.splits)

lemma agents_all_set: "sm_ok sm \<Longrightarrow> agents_all P sm \<Longrightarrow> P a \<Longrightarrow> agents_all P (set_agent sm i a)"
  by (cases "i < length (slots sm)") (auto simp: agents_all_def live_def set_agent_def sm_ok_def nth_list_update)

lemma agents_all_release: "sm_ok sm \<Longrightarrow> agents_all P sm \<Longrightarrow> agents_all P (session_release now sm s)"
proof (cases s)
  case (Some i)
  assume "sm_ok sm" "agents_all P sm"
  with Some show ?thesis
    by (cases "i < length (slots sm)")
      (auto simp: agents_all_def live_def session_release_def sm_ok_def nth_list_update)
qed (simp add: session_release_def)

end
