(* ===== verification/Bus.thy ===== *)
theory Bus
  imports Json
begin

text \<open>
  Model of \<open>src/bus/bus.c\<close>: messages, the bounded queue \<open>bq_t\<close> (a ring buffer), the bus with its
  two queues, and the response pair of synchronous callers. The queue's mutex makes each
  operation atomic; an operation that would wait on a condition variable has the result
  \<open>Blocks\<close> and no effect. The contract of a bounded FIFO queue is the locale \<open>bounded_fifo\<close>,
  interpreted on the ring buffer.
\<close>

section \<open>Messages\<close>

record inbound_msg =
  i_channel :: string
  i_sender_id :: string
  i_chat_id :: string
  i_content :: string
  i_metadata :: "string option"

record outbound_msg =
  o_channel :: string
  o_chat_id :: string
  o_content :: string
  o_metadata :: "string option"

definition or_empty :: "string option \<Rightarrow> string" where
  "or_empty s = (case s of None \<Rightarrow> '''' | Some s \<Rightarrow> s)"

definition inbound_msg_new ::
  "string option \<Rightarrow> string option \<Rightarrow> string option \<Rightarrow> string option \<Rightarrow> string option \<Rightarrow> inbound_msg" where
  "inbound_msg_new channel sender chat cont meta =
     \<lparr>i_channel = or_empty channel, i_sender_id = or_empty sender, i_chat_id = or_empty chat,
      i_content = or_empty cont, i_metadata = meta\<rparr>"

definition outbound_msg_new ::
  "string option \<Rightarrow> string option \<Rightarrow> string option \<Rightarrow> string option \<Rightarrow> outbound_msg" where
  "outbound_msg_new channel chat cont meta =
     \<lparr>o_channel = or_empty channel, o_chat_id = or_empty chat, o_content = or_empty cont, o_metadata = meta\<rparr>"

section \<open>The contract of a bounded FIFO queue\<close>

datatype 'm qop = Put 'm | Get

locale bounded_fifo =
  fixes enq :: "'m \<Rightarrow> 'q \<Rightarrow> 'q"
    and deq :: "'q \<Rightarrow> 'm \<times> 'q"
    and abs :: "'q \<Rightarrow> 'm list"
    and invar :: "'q \<Rightarrow> bool"
    and cap :: nat
  assumes enq_abs: "invar q \<Longrightarrow> length (abs q) < cap \<Longrightarrow> abs (enq x q) = abs q @ [x]"
    and enq_invar: "invar q \<Longrightarrow> length (abs q) < cap \<Longrightarrow> invar (enq x q)"
    and deq_abs: "invar q \<Longrightarrow> abs q \<noteq> [] \<Longrightarrow> abs q = fst (deq q) # abs (snd (deq q))"
    and deq_invar: "invar q \<Longrightarrow> abs q \<noteq> [] \<Longrightarrow> invar (snd (deq q))"
    and cap_bound: "invar q \<Longrightarrow> length (abs q) \<le> cap"
begin

text \<open>A run of puts and gets; one that would block is skipped. Result: what was accepted, what
  was taken out, and the queue.\<close>

fun exec :: "'m qop list \<Rightarrow> 'q \<Rightarrow> 'm list \<times> 'm list \<times> 'q" where
  "exec [] q = ([], [], q)"
| "exec (Put x # ops) q =
     (if length (abs q) < cap
      then (case exec ops (enq x q) of (ins, outs, q') \<Rightarrow> (x # ins, outs, q'))
      else exec ops q)"
| "exec (Get # ops) q =
     (if abs q = [] then exec ops q
      else (case exec ops (snd (deq q)) of (ins, outs, q') \<Rightarrow> (ins, fst (deq q) # outs, q')))"

lemma exec_fifo:
  "invar q \<Longrightarrow> exec ops q = (ins, outs, q') \<Longrightarrow>
   abs q @ ins = outs @ abs q' \<and> invar q' \<and> length (abs q') \<le> cap"
proof (induction ops arbitrary: q ins outs)
  case Nil
  then show ?case using cap_bound by simp
next
  case (Cons op ops)
  show ?case
  proof (cases op)
    case (Put x)
    show ?thesis
    proof (cases "length (abs q) < cap")
      case True
      obtain ins1 where "exec ops (enq x q) = (ins1, outs, q')" "ins = x # ins1"
        using Cons.prems Put True by (auto split: prod.splits)
      with Cons.IH [OF enq_invar [OF Cons.prems(1) True]] enq_abs [OF Cons.prems(1) True] show ?thesis by simp
    qed (use Cons Put in simp)
  next
    case Get
    show ?thesis
    proof (cases "abs q = []")
      case False
      obtain outs1 where "exec ops (snd (deq q)) = (ins, outs1, q')" "outs = fst (deq q) # outs1"
        using Cons.prems Get False by (auto split: prod.splits)
      with Cons.IH [OF deq_invar [OF Cons.prems(1) False]] deq_abs [OF Cons.prems(1) False] show ?thesis
        by (metis append_Cons)
    next
      case True
      then have "exec ops q = (ins, outs, q')" using Cons.prems Get by simp
      from Cons.IH [OF Cons.prems(1) this] show ?thesis .
    qed
  qed
qed

end

section \<open>The ring buffer\<close>

definition BUS_QUEUE_DEPTH :: nat where "BUS_QUEUE_DEPTH = 64"

record 'm bq =
  items :: "'m option list"
  head :: nat
  tail :: nat
  count :: nat

definition bq_init :: "'m bq" where
  "bq_init = \<lparr>items = replicate BUS_QUEUE_DEPTH None, head = 0, tail = 0, count = 0\<rparr>"

definition bq_enq :: "'m \<Rightarrow> 'm bq \<Rightarrow> 'm bq" where
  "bq_enq x q = q\<lparr>items := (items q)[tail q := Some x], tail := (tail q + 1) mod BUS_QUEUE_DEPTH,
                   count := count q + 1\<rparr>"

definition bq_deq :: "'m bq \<Rightarrow> 'm \<times> 'm bq" where
  "bq_deq q = (the (items q ! head q),
     q\<lparr>head := (head q + 1) mod BUS_QUEUE_DEPTH, count := count q - 1\<rparr>)"

datatype 'q push_result = PushBlocks | PushRefused | Pushed 'q
datatype ('m, 'q) pop_result = PopBlocks | PopNull | Popped 'm 'q

text \<open>\<open>q_push\<close> when it gets the lock: waits while full and not shut down, refuses after shutdown.\<close>

definition q_push :: "'m bq \<Rightarrow> 'm \<Rightarrow> bool \<Rightarrow> 'm bq push_result" where
  "q_push q x shut_down =
     (if count q \<ge> BUS_QUEUE_DEPTH \<and> \<not> shut_down then PushBlocks
      else if shut_down then PushRefused
      else Pushed (bq_enq x q))"

definition q_pop :: "'m bq \<Rightarrow> bool \<Rightarrow> ('m, 'm bq) pop_result" where
  "q_pop q shut_down =
     (if count q = 0 \<and> \<not> shut_down then PopBlocks
      else if count q = 0 then PopNull
      else (case bq_deq q of (m, q') \<Rightarrow> Popped m q'))"

definition q_size :: "'m bq \<Rightarrow> nat" where
  "q_size q = count q"

text \<open>The messages in the queue, oldest first; \<open>bq_destroy\<close> frees exactly these.\<close>

definition bq_list :: "'m bq \<Rightarrow> 'm list" where
  "bq_list q = map (\<lambda>i. the (items q ! ((head q + i) mod BUS_QUEUE_DEPTH))) [0..<count q]"

definition bq_ok :: "'m bq \<Rightarrow> bool" where
  "bq_ok q \<longleftrightarrow> length (items q) = BUS_QUEUE_DEPTH \<and> head q < BUS_QUEUE_DEPTH
    \<and> count q \<le> BUS_QUEUE_DEPTH \<and> tail q = (head q + count q) mod BUS_QUEUE_DEPTH
    \<and> (\<forall>i < count q. items q ! ((head q + i) mod BUS_QUEUE_DEPTH) \<noteq> None)"

lemma bq_list_length [simp]: "length (bq_list q) = count q"
  by (simp add: bq_list_def)

lemma depth_pos [simp]: "0 < BUS_QUEUE_DEPTH"
  by (simp add: BUS_QUEUE_DEPTH_def)

lemma ring_distinct: "i < n \<Longrightarrow> n < BUS_QUEUE_DEPTH \<Longrightarrow> h < BUS_QUEUE_DEPTH \<Longrightarrow>
    (h + i) mod BUS_QUEUE_DEPTH \<noteq> (h + n) mod BUS_QUEUE_DEPTH"
  by (auto simp: BUS_QUEUE_DEPTH_def mod_if)

lemma bq_list_Nil [simp]: "bq_list q = [] \<longleftrightarrow> count q = 0"
  by (simp add: bq_list_def)

lemma bq_init_ok [simp]: "bq_ok bq_init" "bq_list bq_init = []"
  by (simp_all add: bq_ok_def bq_init_def)

lemma bq_enq_ok:
  assumes "bq_ok q" "count q < BUS_QUEUE_DEPTH"
  shows "bq_ok (bq_enq x q) \<and> bq_list (bq_enq x q) = bq_list q @ [x]"
proof -
  let ?q = "bq_enq x q"
  have t: "tail q = (head q + count q) mod BUS_QUEUE_DEPTH" "tail q < length (items q)"
    using assms by (auto simp: bq_ok_def)
  have old: "items ?q ! ((head q + i) mod BUS_QUEUE_DEPTH) = items q ! ((head q + i) mod BUS_QUEUE_DEPTH)"
    if "i < count q" for i
    using ring_distinct [OF that assms(2), of "head q"] assms(1) t
    by (simp add: bq_enq_def bq_ok_def)
  have new: "items ?q ! ((head q + count q) mod BUS_QUEUE_DEPTH) = Some x"
    using t by (simp add: bq_enq_def)
  have "items ?q ! ((head q + i) mod BUS_QUEUE_DEPTH) \<noteq> None" if "i < Suc (count q)" for i
    using that old new assms(1) by (cases "i = count q") (auto simp: bq_ok_def less_Suc_eq)
  moreover have "head ?q = head q" "count ?q = Suc (count q)" "length (items ?q) = length (items q)"
    "tail ?q = (head q + Suc (count q)) mod BUS_QUEUE_DEPTH"
    using t by (auto simp: bq_enq_def mod_simps)
  ultimately have "bq_ok ?q" using assms unfolding bq_ok_def by simp
  moreover have "bq_list ?q = bq_list q @ [x]"
    using old new \<open>head ?q = head q\<close> \<open>count ?q = Suc (count q)\<close> by (simp add: bq_list_def)
  ultimately show ?thesis by simp
qed

lemma bq_deq_ok:
  assumes "bq_ok q" "0 < count q"
  shows "bq_ok (snd (bq_deq q)) \<and> bq_list q = fst (bq_deq q) # bq_list (snd (bq_deq q))"
proof -
  obtain c where c: "count q = Suc c" using assms(2) by (cases "count q") auto
  have shift: "((head q + 1) mod BUS_QUEUE_DEPTH + i) mod BUS_QUEUE_DEPTH = (head q + Suc i) mod BUS_QUEUE_DEPTH" for i
    by (simp add: mod_simps)
  have "bq_ok (snd (bq_deq q))"
    using assms(1) c shift by (auto simp: bq_ok_def bq_deq_def)
  moreover have "bq_list q = the (items q ! (head q mod BUS_QUEUE_DEPTH)) #
      map (\<lambda>i. the (items q ! ((head q + Suc i) mod BUS_QUEUE_DEPTH))) [0..<c]"
  proof -
    have "[0..<Suc c] = 0 # map Suc [0..<c]" by (simp add: upt_conv_Cons map_Suc_upt del: upt_Suc)
    then show ?thesis unfolding bq_list_def c by (simp only: list.map map_map comp_def add_0_right)
  qed
  ultimately show ?thesis
    using assms(1) c shift by (simp add: bq_list_def bq_deq_def bq_ok_def)
qed

interpretation ring: bounded_fifo bq_enq bq_deq bq_list bq_ok BUS_QUEUE_DEPTH
proof unfold_locales
  fix q :: "'a bq"
  assume "bq_ok q" "bq_list q \<noteq> []"
  moreover from this have "0 < count q" by (auto simp: bq_list_def)
  ultimately show "bq_list q = fst (bq_deq q) # bq_list (snd (bq_deq q))" "bq_ok (snd (bq_deq q))"
    using bq_deq_ok by blast+
qed (auto simp: bq_enq_ok, simp add: bq_ok_def)

section \<open>The bus\<close>

record bus =
  inbound :: "inbound_msg bq"
  outbound :: "outbound_msg bq"
  shut_down :: bool

definition bus_create :: bus where
  "bus_create = \<lparr>inbound = bq_init, outbound = bq_init, shut_down = False\<rparr>"

definition bus_shutdown :: "bus \<Rightarrow> bus" where
  "bus_shutdown b = b\<lparr>shut_down := True\<rparr>"

text \<open>
  The publish and consume calls: \<open>Blocks\<close>, or the returned value and the new bus. A NULL bus or
  message gives false; \<open>publish\<close> gives \<open>PubFalse True\<close> when it has freed the message.
\<close>

datatype pub_result = PubBlocks | PubFalse bool | PubTrue bus

definition bus_publish_inbound :: "bus option \<Rightarrow> inbound_msg option \<Rightarrow> pub_result" where
  "bus_publish_inbound b m =
     (case (b, m) of
        (Some b, Some m) \<Rightarrow>
          (case q_push (inbound b) m (shut_down b) of
             PushBlocks \<Rightarrow> PubBlocks
           | PushRefused \<Rightarrow> PubFalse True
           | Pushed q \<Rightarrow> PubTrue (b\<lparr>inbound := q\<rparr>))
      | _ \<Rightarrow> PubFalse False)"

definition bus_publish_outbound :: "bus option \<Rightarrow> outbound_msg option \<Rightarrow> pub_result" where
  "bus_publish_outbound b m =
     (case (b, m) of
        (Some b, Some m) \<Rightarrow>
          (case q_push (outbound b) m (shut_down b) of
             PushBlocks \<Rightarrow> PubBlocks
           | PushRefused \<Rightarrow> PubFalse True
           | Pushed q \<Rightarrow> PubTrue (b\<lparr>outbound := q\<rparr>))
      | _ \<Rightarrow> PubFalse False)"

datatype 'm con_result = ConBlocks | ConNull | ConMsg 'm bus

definition bus_consume_inbound :: "bus option \<Rightarrow> inbound_msg con_result" where
  "bus_consume_inbound b =
     (case b of None \<Rightarrow> ConNull
      | Some b \<Rightarrow> (case q_pop (inbound b) (shut_down b) of
          PopBlocks \<Rightarrow> ConBlocks | PopNull \<Rightarrow> ConNull | Popped m q \<Rightarrow> ConMsg m (b\<lparr>inbound := q\<rparr>)))"

definition bus_consume_outbound :: "bus option \<Rightarrow> outbound_msg con_result" where
  "bus_consume_outbound b =
     (case b of None \<Rightarrow> ConNull
      | Some b \<Rightarrow> (case q_pop (outbound b) (shut_down b) of
          PopBlocks \<Rightarrow> ConBlocks | PopNull \<Rightarrow> ConNull | Popped m q \<Rightarrow> ConMsg m (b\<lparr>outbound := q\<rparr>)))"

definition bus_inbound_size :: "bus option \<Rightarrow> nat" where
  "bus_inbound_size b = (case b of None \<Rightarrow> 0 | Some b \<Rightarrow> q_size (inbound b))"

definition bus_outbound_size :: "bus option \<Rightarrow> nat" where
  "bus_outbound_size b = (case b of None \<Rightarrow> 0 | Some b \<Rightarrow> q_size (outbound b))"

definition bus_ok :: "bus \<Rightarrow> bool" where
  "bus_ok b \<longleftrightarrow> bq_ok (inbound b) \<and> bq_ok (outbound b)"

section \<open>Response pairs\<close>

record response_pair =
  response :: "string option"
  rp_done :: bool

definition response_pair_init :: response_pair where
  "response_pair_init = \<lparr>response = None, rp_done = False\<rparr>"

definition response_pair_deliver :: "response_pair \<Rightarrow> string option \<Rightarrow> response_pair" where
  "response_pair_deliver rp resp = rp\<lparr>response := resp, rp_done := True\<rparr>"

text \<open>\<open>response_pair_wait\<close>: None while it blocks.\<close>

definition response_pair_wait :: "response_pair \<Rightarrow> (string option \<times> response_pair) option" where
  "response_pair_wait rp = (if rp_done rp then Some (response rp, rp\<lparr>response := None\<rparr>) else None)"

text \<open>\<open>sscanf (p, "%llx")\<close>: white space, a sign, an optional \<open>0x\<close>, hexadecimal digits; the value
  saturates at 64 bits, a minus sign negates it modulo 2^64.\<close>

definition is_hex :: "char \<Rightarrow> bool" where
  "is_hex c \<longleftrightarrow> hexval c \<noteq> None"

definition hex_value :: "string \<Rightarrow> nat" where
  "hex_value ds = foldl (\<lambda>acc c. 16 * acc + the (hexval c)) 0 ds"

definition scan_hex :: "string \<Rightarrow> nat option" where
  "scan_hex s0 =
     (case split_sign (ltrim s0) of (neg, t) \<Rightarrow>
      (let u = (if case_prefix ''0x'' t \<and> takeWhile is_hex (drop 2 t) \<noteq> [] then drop 2 t else t);
           ds = takeWhile is_hex u;
           v = min (hex_value ds) (2 ^ 64 - 1)
       in if ds = [] then None else Some (if neg \<and> hex_value ds < 2 ^ 64 then (2 ^ 64 - v) mod 2 ^ 64 else v)))"

text \<open>\<open>response_pair_from_meta\<close>: the address after the first \<open>rp=\<close>; None for no tag and for NULL.\<close>

definition response_pair_from_meta :: "string option \<Rightarrow> nat option" where
  "response_pair_from_meta metadata =
     (case metadata of
        None \<Rightarrow> None
      | Some m \<Rightarrow> (case strstr m ''rp='' of
          None \<Rightarrow> None
        | Some p \<Rightarrow> (case scan_hex (drop 3 p) of
            None \<Rightarrow> None
          | Some a \<Rightarrow> if a = 0 then None else Some a)))"

section \<open>Properties\<close>



text \<open>\<open>bus_publish_inbound\<close> on every branch: it waits exactly when the queue is full and the bus
  is up, refuses (and frees the message) exactly when the bus is shut down, and otherwise
  appends the message; consuming after shutdown drains the queue before it returns NULL.\<close>

theorem bus_inbound_branches:
  assumes "bus_ok b"
  shows "(bus_publish_inbound (Some b) (Some m) = PubBlocks) =
      (length (bq_list (inbound b)) = BUS_QUEUE_DEPTH \<and> \<not> shut_down b)
    \<and> (bus_publish_inbound (Some b) (Some m) = PubFalse True) = shut_down b
    \<and> (\<forall>b'. bus_publish_inbound (Some b) (Some m) = PubTrue b' \<longrightarrow>
          bus_ok b' \<and> bq_list (inbound b') = bq_list (inbound b) @ [m] \<and> outbound b' = outbound b)
    \<and> (bus_consume_inbound (Some b) = ConBlocks) = (bq_list (inbound b) = [] \<and> \<not> shut_down b)
    \<and> (bus_consume_inbound (Some b) = ConNull) = (bq_list (inbound b) = [] \<and> shut_down b)
    \<and> (\<forall>m' b'. bus_consume_inbound (Some b) = ConMsg m' b' \<longrightarrow>
          bus_ok b' \<and> bq_list (inbound b) = m' # bq_list (inbound b'))"
proof -
  have c: "count (inbound b) \<le> BUS_QUEUE_DEPTH" using assms by (simp add: bus_ok_def bq_ok_def)
  have e: "bq_list (inbound b) = [] \<longleftrightarrow> count (inbound b) = 0"
    by (metis bq_list_length length_0_conv)
  have push: "bus_ok b' \<and> bq_list (inbound b') = bq_list (inbound b) @ [m] \<and> outbound b' = outbound b"
    if "bus_publish_inbound (Some b) (Some m) = PubTrue b'" for b'
    using that assms c bq_enq_ok [of "inbound b" m]
    by (auto simp: bus_publish_inbound_def q_push_def bus_ok_def split: if_splits)
  have pop: "bus_ok b' \<and> bq_list (inbound b) = m' # bq_list (inbound b')"
    if "bus_consume_inbound (Some b) = ConMsg m' b'" for m' b'
    using that assms bq_deq_ok [of "inbound b"]
    by (auto simp: bus_consume_inbound_def q_pop_def bus_ok_def split: if_splits prod.splits)
  show ?thesis
    using c e push pop
    by (auto simp: bus_publish_inbound_def bus_consume_inbound_def q_push_def q_pop_def split: prod.splits)
qed

lemma bus_inbound_branches_witness:
  "(bus_publish_inbound (Some (bus_shutdown bus_create)) (Some (inbound_msg_new None None None None None)) = PubFalse True)
   \<and> bus_consume_inbound (Some (bus_shutdown bus_create)) = ConNull"
proof -
  have "bus_ok (bus_shutdown bus_create)" by (simp add: bus_ok_def bus_shutdown_def bus_create_def)
  from bus_inbound_branches [OF this, of "inbound_msg_new None None None None None"]
  show ?thesis by (simp add: bus_shutdown_def bus_create_def)
qed

text \<open>The tag of a response pair is read back.\<close>

lemma hex_digit_facts:
  "n < 16 \<Longrightarrow> is_hex (''0123456789abcdef'' ! n) \<and> hexval (''0123456789abcdef'' ! n) = Some n
     \<and> \<not> isspace (''0123456789abcdef'' ! n) \<and> ''0123456789abcdef'' ! n \<notin> {CHR ''-'', CHR ''+''}
     \<and> to_lower (''0123456789abcdef'' ! n) \<noteq> CHR ''x''"
proof -
  have "list_all (\<lambda>n. is_hex (''0123456789abcdef'' ! n) \<and> hexval (''0123456789abcdef'' ! n) = Some n
     \<and> \<not> isspace (''0123456789abcdef'' ! n) \<and> ''0123456789abcdef'' ! n \<notin> {CHR ''-'', CHR ''+''}
     \<and> to_lower (''0123456789abcdef'' ! n) \<noteq> CHR ''x'') [0..<16]" by code_simp
  moreover assume "n < 16"
  ultimately show ?thesis by (simp add: list_all_iff)
qed

abbreviation hex_char :: "char \<Rightarrow> bool" where
  "hex_char c \<equiv> is_hex c \<and> \<not> isspace c \<and> c \<noteq> CHR ''-'' \<and> c \<noteq> CHR ''+'' \<and> to_lower c \<noteq> CHR ''x''"

lemma hex_str_chars: "list_all hex_char (hex_str n) \<and> hex_str n \<noteq> []"
proof (induction n rule: hex_str.induct)
  case (1 n)
  then show ?case
    using hex_digit_facts [of n] hex_digit_facts [of "n mod 16"]
    by (subst (1 2) hex_str.simps) simp
qed

lemma hex_value_hex_str: "hex_value (hex_str n) = n"
proof (induction n rule: hex_str.induct)
  case (1 n)
  have snoc: "hex_value (ds @ [c]) = 16 * hex_value ds + the (hexval c)" for ds c
    by (simp add: hex_value_def)
  show ?case
    using 1 hex_digit_facts [of n] hex_digit_facts [of "n mod 16"]
    by (subst hex_str.simps) (auto simp: snoc, simp add: hex_value_def)
qed

lemma scan_hex_str: "n < 2 ^ 64 \<Longrightarrow> scan_hex (hex_str n) = Some n"
proof -
  assume n: "n < 2 ^ 64"
  obtain c t where ct: "hex_str n = c # t" using hex_str_chars [of n] by (cases "hex_str n") auto
  have all: "list_all hex_char (c # t)" using hex_str_chars [of n] ct by simp
  then have lt: "ltrim (c # t) = c # t" and ss: "split_sign (c # t) = (False, c # t)"
    by (auto simp: ltrim_def split_sign_def)
  have np: "case_prefix ''0x'' (c # t) = False"
  proof -
    have "to_lower (CHR ''x'') = CHR ''x''" by code_simp
    with all show ?thesis by (cases t) (auto simp: case_prefix_def)
  qed
  have tw: "takeWhile is_hex (c # t) = c # t"
    using all by (auto simp: list_all_iff takeWhile_eq_all_conv)
  have "scan_hex (c # t) = Some (min (hex_value (c # t)) (2 ^ 64 - 1))"
    by (simp only: scan_hex_def lt ss np prod.case Let_def tw if_False simp_thms list.distinct)
  then show ?thesis using hex_value_hex_str [of n] ct n by (simp add: min_def)
qed

text \<open>The address a synchronous caller puts in the metadata as \<open>rp=\<close> and hexadecimal digits is
  the one the worker reads back, and a message without the tag has no response pair.\<close>

theorem response_pair_meta_roundtrip:
  assumes "0 < a" "a < 2 ^ 64" "\<not> contains m ''rp=''"
  shows "response_pair_from_meta (Some (''rp='' @ hex_str a)) = Some a
    \<and> response_pair_from_meta (Some m) = None \<and> response_pair_from_meta None = None"
  using assms scan_hex_str [of a] by (simp add: response_pair_from_meta_def)

lemma response_pair_meta_roundtrip_witness:
  "response_pair_from_meta (Some (''rp='' @ hex_str 4096)) = Some 4096"
  using response_pair_meta_roundtrip [of 4096 "[]"] by simp

text \<open>The tag is searched anywhere in the metadata, so routing data of a channel that holds
  \<open>rp=\<close> is read as the address of a response pair.\<close>

theorem response_pair_meta_injection:
  "response_pair_from_meta (Some (''replyJid='' @ ''rp=41'')) = Some 65"
proof -
  have "scan_hex ''41'' = Some 65"
    by (simp add: scan_hex_def ltrim_def isspace_def split_sign_def case_prefix_def is_hex_def hexval_def
        isdigit_def byte_def hex_value_def)
  then show ?thesis by (simp add: response_pair_from_meta_def)
qed

end
