(* ===== verification/Worker.thy ===== *)
theory Worker
  imports Agent_Props Session Bus
begin

text \<open>
  Model of \<open>src/bus/agent_worker.c\<close> and \<open>src/channels/channel.c\<close>: the agent worker thread that
  drains the inbound queue, the channel registry, the outbound dispatcher, and the system they
  form with the bus and the session table. The threads are interleaved by the step relation
  \<open>sys_step\<close>; a step that would block on the bus is not enabled.
\<close>

section \<open>The channel registry\<close>

definition CHANNEL_REG_MAX :: nat where "CHANNEL_REG_MAX = 16"

record 'w channel =
  ch_name :: string
  ch_send :: "(outbound_msg \<Rightarrow> 'w \<Rightarrow> 'w) option"

type_synonym 'w channels = "'w channel list"

definition channel_register :: "'w channel option \<Rightarrow> 'w channels \<Rightarrow> 'w channels" where
  "channel_register ch reg =
     (case ch of
        None \<Rightarrow> reg
      | Some c \<Rightarrow>
          if ch_name c = '''' then reg
          else if length reg \<ge> CHANNEL_REG_MAX then reg
          else if list_ex (\<lambda>d. ch_name d = ch_name c) reg then reg
          else reg @ [c])"

definition channel_find :: "'w channels \<Rightarrow> string option \<Rightarrow> 'w channel option" where
  "channel_find reg name = (case name of None \<Rightarrow> None | Some n \<Rightarrow> find (\<lambda>c. ch_name c = n) reg)"

definition channel_count :: "'w channels \<Rightarrow> nat" where
  "channel_count reg = length reg"

definition channel_add :: "'w channel \<Rightarrow> 'w channels \<Rightarrow> 'w channels" where
  "channel_add c reg = channel_register (Some c) reg"

interpretation channels: registry "\<lambda>c. Some (ch_name c)" "\<lambda>reg. reg" channel_add
    "\<lambda>reg n. channel_find reg (Some n)" CHANNEL_REG_MAX
  by unfold_locales (auto simp: channel_find_def channel_add_def channel_register_def)

definition channels_ok :: "'w channels \<Rightarrow> bool" where
  "channels_ok reg \<longleftrightarrow> length reg \<le> CHANNEL_REG_MAX \<and> distinct (map ch_name reg) \<and> '''' \<notin> ch_name ` set reg"

lemma channels_ok_register: "channels_ok reg \<Longrightarrow> channels_ok (channel_register c reg)"
  by (cases c) (auto simp: channels_ok_def channel_register_def list_ex_iff)

section \<open>The worker's handling of one message\<close>

definition no_session_reply :: string where
  "no_session_reply = ''Error: agent unavailable (session table full).''"

text \<open>
  The session lookup, the turn and the release. \<open>fresh\<close> is the factory's agent, \<open>now\<close> and
  \<open>now'\<close> the times before and after the turn.
\<close>

definition worker_turn ::
  "'w provider \<Rightarrow> 'w tools \<Rightarrow> agent option \<Rightarrow> int \<Rightarrow> int \<Rightarrow> agent session_manager \<Rightarrow> inbound_msg \<Rightarrow> 'w
   \<Rightarrow> chat_result \<times> agent session_manager \<times> 'w" where
  "worker_turn prov tools fresh now now' sm m w =
     (case session_get_or_create fresh now sm (Some (i_channel m)) (Some (i_chat_id m)) of
        (None, sm1) \<Rightarrow> (Reply no_session_reply, sm1, w)
      | (Some i, sm1) \<Rightarrow>
          (case s_agent (slots sm1 ! i) of
             None \<Rightarrow> (Reply ''[Error: empty message]'', session_release now' sm1 (Some i), w)
           | Some a \<Rightarrow>
               (case agent_chat prov tools a (Some (i_content m)) w of
                  (r, a', w') \<Rightarrow> (r, session_release now' (set_agent sm1 i a') (Some i), w'))))"

definition reply_msg :: "inbound_msg \<Rightarrow> string \<Rightarrow> outbound_msg" where
  "reply_msg m resp = outbound_msg_new (Some (i_channel m)) (Some (i_chat_id m)) (Some resp) (i_metadata m)"

section \<open>The dispatcher's handling of one message\<close>

text \<open>\<open>ch->send\<close> when the channel is registered and has one; otherwise the message is dropped.\<close>

definition dispatch :: "'w channels \<Rightarrow> outbound_msg \<Rightarrow> 'w \<Rightarrow> 'w" where
  "dispatch reg o_msg w =
     (case channel_find reg (Some (o_channel o_msg)) of
        None \<Rightarrow> w
      | Some c \<Rightarrow> (case ch_send c of None \<Rightarrow> w | Some f \<Rightarrow> f o_msg w))"

section \<open>The system\<close>

datatype worker_state = WIdle | WPosting outbound_msg | WStopped
datatype disp_state = DIdle | DStopped

text \<open>
  \<open>accepted\<close>, \<open>handled\<close>, \<open>posted\<close>, \<open>dispatched\<close> and \<open>delivered\<close> record the history: messages
  taken by the inbound queue, consumed by the worker, taken by the outbound queue, routed by
  the dispatcher, and replies handed to response pairs.
\<close>

record 'w sys =
  sbus :: bus
  ssm :: "agent session_manager"
  pairs :: "nat \<Rightarrow> response_pair option"
  world :: 'w
  running :: bool
  wst :: worker_state
  dst :: disp_state
  crashed :: bool
  accepted :: "inbound_msg list"
  handled :: "inbound_msg list"
  posted :: "outbound_msg list"
  lost :: "outbound_msg list"
  dispatched :: "outbound_msg list"
  delivered :: "(nat \<times> string) list"

text \<open>\<open>worker_start\<close> on a created bus.\<close>

definition sys_init :: "int \<Rightarrow> 'w \<Rightarrow> 'w sys" where
  "sys_init ttl w = \<lparr>sbus = bus_create, ssm = session_manager_create ttl, pairs = (\<lambda>_. None), world = w,
     running = True, wst = WIdle, dst = DIdle, crashed = False, accepted = [], handled = [], posted = [],
     lost = [], dispatched = [], delivered = []\<rparr>"

text \<open>The effect of the reply: a response pair is woken, or the message waits to be posted.\<close>

definition worker_finish :: "inbound_msg \<Rightarrow> string \<Rightarrow> 'w sys \<Rightarrow> 'w sys" where
  "worker_finish m resp s =
     (case response_pair_from_meta (i_metadata m) of
        Some addr \<Rightarrow>
          (case pairs s addr of
             None \<Rightarrow> s\<lparr>crashed := True\<rparr>
           | Some rp \<Rightarrow> s\<lparr>pairs := (pairs s)(addr \<mapsto> response_pair_deliver rp (Some resp)),
                         delivered := delivered s @ [(addr, resp)]\<rparr>)
      | None \<Rightarrow> s\<lparr>wst := WPosting (reply_msg m resp)\<rparr>)"

inductive sys_step :: "'w provider \<Rightarrow> 'w tools \<Rightarrow> 'w channels \<Rightarrow> 'w sys \<Rightarrow> 'w sys \<Rightarrow> bool"
  for prov tools reg where
  publish: "\<lbrakk>\<not> crashed s; bus_publish_inbound (Some (sbus s)) (Some m) = PubTrue b\<rbrakk> \<Longrightarrow>
     sys_step prov tools reg s (s\<lparr>sbus := b, accepted := accepted s @ [m]\<rparr>)"
| new_pair: "\<lbrakk>\<not> crashed s; pairs s addr = None; 0 < addr\<rbrakk> \<Longrightarrow>
     sys_step prov tools reg s (s\<lparr>pairs := (pairs s)(addr \<mapsto> response_pair_init)\<rparr>)"
| wait_pair: "\<lbrakk>\<not> crashed s; pairs s addr = Some rp; response_pair_wait rp = Some (resp, rp')\<rbrakk> \<Longrightarrow>
     sys_step prov tools reg s (s\<lparr>pairs := (pairs s)(addr := None)\<rparr>)"
| consume: "\<lbrakk>\<not> crashed s; wst s = WIdle; running s; bus_consume_inbound (Some (sbus s)) = ConMsg m b;
     \<forall>a. fresh = Some a \<longrightarrow> messages a = [];
     worker_turn prov tools fresh now now' (ssm s) m (world s) = (Reply resp, sm', w')\<rbrakk> \<Longrightarrow>
     sys_step prov tools reg s
       (worker_finish m resp (s\<lparr>sbus := b, ssm := sm', world := w', handled := handled s @ [m]\<rparr>))"
| crash: "\<lbrakk>\<not> crashed s; wst s = WIdle; running s; bus_consume_inbound (Some (sbus s)) = ConMsg m b;
     worker_turn prov tools fresh now now' (ssm s) m (world s) = (Crash, sm', w')\<rbrakk> \<Longrightarrow>
     sys_step prov tools reg s (s\<lparr>crashed := True\<rparr>)"
| worker_null: "\<lbrakk>\<not> crashed s; wst s = WIdle; bus_consume_inbound (Some (sbus s)) = ConNull \<or> \<not> running s\<rbrakk> \<Longrightarrow>
     sys_step prov tools reg s (s\<lparr>wst := WStopped\<rparr>)"
| post: "\<lbrakk>\<not> crashed s; wst s = WPosting o_msg; bus_publish_outbound (Some (sbus s)) (Some o_msg) = PubTrue b\<rbrakk> \<Longrightarrow>
     sys_step prov tools reg s (s\<lparr>sbus := b, wst := WIdle, posted := posted s @ [o_msg]\<rparr>)"
| post_refused: "\<lbrakk>\<not> crashed s; wst s = WPosting o_msg; bus_publish_outbound (Some (sbus s)) (Some o_msg) = PubFalse freed\<rbrakk> \<Longrightarrow>
     sys_step prov tools reg s (s\<lparr>wst := WIdle, lost := lost s @ [o_msg]\<rparr>)"
| dispatch: "\<lbrakk>\<not> crashed s; dst s = DIdle; bus_consume_outbound (Some (sbus s)) = ConMsg o_msg b\<rbrakk> \<Longrightarrow>
     sys_step prov tools reg s
       (s\<lparr>sbus := b, world := dispatch reg o_msg (world s), dispatched := dispatched s @ [o_msg]\<rparr>)"
| dispatcher_null: "\<lbrakk>\<not> crashed s; dst s = DIdle; bus_consume_outbound (Some (sbus s)) = ConNull\<rbrakk> \<Longrightarrow>
     sys_step prov tools reg s (s\<lparr>dst := DStopped\<rparr>)"
| stop: "\<not> crashed s \<Longrightarrow> sys_step prov tools reg s (s\<lparr>running := False, sbus := bus_shutdown (sbus s)\<rparr>)"

inductive_cases sys_stepE: "sys_step prov tools reg s s'"

inductive reachable :: "'w provider \<Rightarrow> 'w tools \<Rightarrow> 'w channels \<Rightarrow> 'w sys \<Rightarrow> 'w sys \<Rightarrow> bool"
  for prov tools reg s0 where
  reach_init: "reachable prov tools reg s0 s0"
| reach_step: "reachable prov tools reg s0 s \<Longrightarrow> sys_step prov tools reg s s' \<Longrightarrow> reachable prov tools reg s0 s'"

lemmas step_rules = publish new_pair wait_pair consume crash worker_null post post_refused dispatch dispatcher_null stop
declare step_rules [step_intros] reach_step [step_intros]

section \<open>The system invariant\<close>

lemma get_or_create_index:
  assumes "sm_ok sm" "session_get_or_create fresh now sm (Some ch) (Some cid) = (Some i, sm1)"
  shows "i < SESSION_MAX"
  using get_or_create_live [OF assms] by (simp add: live_def)

lemma worker_turn_keeps:
  assumes "sm_ok sm" "agents_all hist_ok sm" "\<And>a. fresh = Some a \<Longrightarrow> messages a = []"
    and "worker_turn prov tools fresh now now' sm m w = (r, sm', w')"
  shows "sm_ok sm' \<and> agents_all hist_ok sm'"
proof -
  obtain s1 sm1 where g: "session_get_or_create fresh now sm (Some (i_channel m)) (Some (i_chat_id m)) = (s1, sm1)"
    by fastforce
  have fresh: "fresh = Some a \<Longrightarrow> hist_ok a" for a using assms(3) by (simp add: hist_ok_def)
  have 1: "sm_ok sm1" "agents_all hist_ok sm1"
    using sm_ok_get_or_create [OF assms(1)] agents_all_get_or_create [OF assms(1,2) fresh] g by (metis snd_conv)+
  show ?thesis
  proof (cases s1)
    case None
    then show ?thesis using assms(4) g 1 by (simp add: worker_turn_def)
  next
    case (Some i)
    then have lv: "live sm1 i" using get_or_create_live [OF assms(1)] g by blast
    then obtain a where a: "s_agent (slots sm1 ! i) = Some a" "hist_ok a"
      using 1(2) by (auto simp: agents_all_def)
    obtain a' where a': "agent_chat prov tools a (Some (i_content m)) w = (r, a', w')"
        "sm' = session_release now' (set_agent sm1 i a') (Some i)"
      using assms(4) g Some a by (auto simp: worker_turn_def split: prod.splits)
    have "hist_ok a'" using agent_chat_inv [of hist_ok a prov tools "Some (i_content m)" w, OF hist_ok_add hist_ok_rollback a(2)] a'(1)
      by simp
    then show ?thesis
      using a'(2) 1 lv by (auto simp: live_def intro!: sm_ok_release sm_ok_set_agent agents_all_release agents_all_set)
  qed
qed

definition pending :: "worker_state \<Rightarrow> nat" where
  "pending st = (case st of WPosting _ \<Rightarrow> 1 | _ \<Rightarrow> 0)"

definition sys_inv :: "'w sys \<Rightarrow> bool" where
  "sys_inv s \<longleftrightarrow> bus_ok (sbus s) \<and> sm_ok (ssm s) \<and> agents_all hist_ok (ssm s)
    \<and> accepted s = handled s @ bq_list (inbound (sbus s))
    \<and> posted s = dispatched s @ bq_list (outbound (sbus s))
    \<and> (\<not> crashed s \<longrightarrow> length (handled s) = length (posted s) + length (lost s) + length (delivered s) + pending (wst s))"

lemma sys_inv_init: "sys_inv (sys_init ttl w)"
  by (simp add: sys_inv_def sys_init_def bus_ok_def bus_create_def sm_ok_create agents_all_create pending_def)

lemma publish_inbound_True:
  "bus_publish_inbound (Some b) (Some m) = PubTrue b' \<Longrightarrow> bus_ok b \<Longrightarrow>
   bus_ok b' \<and> bq_list (inbound b') = bq_list (inbound b) @ [m] \<and> outbound b' = outbound b"
  using bq_enq_ok [of "inbound b" m]
  by (auto simp: bus_publish_inbound_def q_push_def bus_ok_def bq_ok_def split: if_splits)

lemma publish_outbound_True:
  "bus_publish_outbound (Some b) (Some m) = PubTrue b' \<Longrightarrow> bus_ok b \<Longrightarrow>
   bus_ok b' \<and> bq_list (outbound b') = bq_list (outbound b) @ [m] \<and> inbound b' = inbound b"
  using bq_enq_ok [of "outbound b" m]
  by (auto simp: bus_publish_outbound_def q_push_def bus_ok_def bq_ok_def split: if_splits)

lemma consume_inbound_Msg:
  "bus_consume_inbound (Some b) = ConMsg m b' \<Longrightarrow> bus_ok b \<Longrightarrow>
   bus_ok b' \<and> bq_list (inbound b) = m # bq_list (inbound b') \<and> outbound b' = outbound b"
  using bq_deq_ok [of "inbound b"]
  by (auto simp: bus_consume_inbound_def q_pop_def bus_ok_def split: if_splits prod.splits)

lemma consume_outbound_Msg:
  "bus_consume_outbound (Some b) = ConMsg m b' \<Longrightarrow> bus_ok b \<Longrightarrow>
   bus_ok b' \<and> bq_list (outbound b) = m # bq_list (outbound b') \<and> inbound b' = inbound b"
  using bq_deq_ok [of "outbound b"]
  by (auto simp: bus_consume_outbound_def q_pop_def bus_ok_def split: if_splits prod.splits)

lemma sys_inv_step: "sys_step prov tools reg s s' \<Longrightarrow> sys_inv s \<Longrightarrow> sys_inv s'"
proof (induction rule: sys_step.induct)
  case (consume s m b fresh now now' resp sm' w')
  have "bus_ok b \<and> bq_list (inbound (sbus s)) = m # bq_list (inbound b) \<and> outbound b = outbound (sbus s)"
    using consume_inbound_Msg consume by (auto simp: sys_inv_def)
  moreover have "sm_ok sm' \<and> agents_all hist_ok sm'"
    by (rule worker_turn_keeps [of "ssm s" fresh prov tools now now' m "world s" "Reply resp" sm' w'])
      (use consume in \<open>auto simp: sys_inv_def\<close>)
  ultimately show ?case
    using consume by (auto simp: sys_inv_def worker_finish_def pending_def split: option.splits)
qed (auto simp: sys_inv_def pending_def bus_shutdown_def bus_ok_def
      dest: publish_inbound_True publish_outbound_True consume_outbound_Msg split: worker_state.splits)

text \<open>C2: in every state the threads can reach, under any interleaving: no inbound message is lost,
  duplicated or reordered between a channel and the worker, none outbound between the worker and
  the dispatcher, every handled message has exactly one reply (posted, delivered to its response
  pair, being posted, or refused at shutdown), and the queues and all histories are in bounds.\<close>

theorem system_message_conservation:
  assumes "reachable prov tools reg (sys_init ttl w) s"
  shows "accepted s = handled s @ bq_list (inbound (sbus s))
    \<and> posted s = dispatched s @ bq_list (outbound (sbus s))
    \<and> bus_inbound_size (Some (sbus s)) \<le> BUS_QUEUE_DEPTH \<and> bus_outbound_size (Some (sbus s)) \<le> BUS_QUEUE_DEPTH
    \<and> (\<not> crashed s \<longrightarrow> length (handled s) = length (posted s) + length (lost s) + length (delivered s) + pending (wst s))
    \<and> sm_ok (ssm s) \<and> agents_all hist_ok (ssm s)"
proof -
  have "sys_inv s" using assms by induction (auto intro: sys_inv_init sys_inv_step)
  then show ?thesis
    by (auto simp: sys_inv_def bus_ok_def bq_ok_def bus_inbound_size_def bus_outbound_size_def q_size_def)
qed

definition hello_msg :: inbound_msg where
  "hello_msg = inbound_msg_new (Some ''http'') (Some ''1.2.3.4'') (Some ''1.2.3.4'') (Some ''hi'') (Some ''rp=10'')"

lemma publish_hello:
  "\<exists>s. sys_step prov tools reg (sys_init ttl w) s \<and> accepted s = [hello_msg] \<and> \<not> crashed s \<and> wst s = WIdle
    \<and> bq_list (inbound (sbus s)) = [hello_msg]"
proof -
  let ?b = "bus_create\<lparr>inbound := bq_enq hello_msg bq_init\<rparr>"
  have "bus_publish_inbound (Some (sbus (sys_init ttl w))) (Some hello_msg) = PubTrue ?b"
    by (simp add: bus_publish_inbound_def q_push_def sys_init_def bus_create_def bq_init_def BUS_QUEUE_DEPTH_def)
  moreover have "\<not> crashed (sys_init ttl w)" by (simp add: sys_init_def)
  ultimately have "sys_step prov tools reg (sys_init ttl w) ((sys_init ttl w)\<lparr>sbus := ?b, accepted := accepted (sys_init ttl w) @ [hello_msg]\<rparr>)"
    by (rule publish [rotated])
  moreover have "bq_list (bq_enq hello_msg bq_init) = [hello_msg]"
  proof -
    have "count bq_init < BUS_QUEUE_DEPTH" by (simp add: bq_init_def)
    from bq_enq_ok [OF bq_init_ok(1) this, of hello_msg] show ?thesis by simp
  qed
  ultimately show ?thesis
    by (intro exI [of _ "(sys_init ttl w)\<lparr>sbus := ?b, accepted := accepted (sys_init ttl w) @ [hello_msg]\<rparr>"])
      (simp add: sys_init_def)
qed

lemma system_message_conservation_witness:
  "\<exists>s. accepted s = [hello_msg] \<and> accepted s = handled s @ bq_list (inbound (sbus s)) \<and> sm_ok (ssm s)
     \<and> reachable failing_provider [] [] (sys_init 0 ()) s"
proof -
  obtain s where s: "sys_step failing_provider [] [] (sys_init 0 ()) s" "accepted s = [hello_msg]"
    using publish_hello [of failing_provider "[]" "[]" 0 "()"] by blast
  then have r: "reachable failing_provider [] [] (sys_init 0 ()) s" by (blast intro: reach_init reach_step)
  with s(2) system_message_conservation [OF r] show ?thesis by blast
qed

text \<open>Stopping the worker does not drain the inbound queue: there are runs in which a message
  with a response pair was accepted, the worker has stopped, and nobody will ever answer it.\<close>

theorem worker_stop_abandons_queue:
  "\<exists>s. reachable prov tools reg (sys_init ttl w) s \<and> wst s = WStopped \<and> shut_down (sbus s)
     \<and> handled s = [] \<and> bq_list (inbound (sbus s)) = [hello_msg]
     \<and> response_pair_from_meta (i_metadata hello_msg) = Some 16"
proof -
  obtain s where s: "sys_step prov tools reg (sys_init ttl w) s" "\<not> crashed s" "wst s = WIdle"
      "bq_list (inbound (sbus s)) = [hello_msg]" "accepted s = [hello_msg]"
    using publish_hello [of prov tools reg ttl w] by blast
  define t where "t = s\<lparr>running := False, sbus := bus_shutdown (sbus s)\<rparr>"
  have 1: "sys_step prov tools reg s t" unfolding t_def using s(2) by (rule stop)
  have 2: "sys_step prov tools reg t (t\<lparr>wst := WStopped\<rparr>)"
    by (rule worker_null) (use s in \<open>auto simp: t_def\<close>)
  have r: "reachable prov tools reg (sys_init ttl w) (t\<lparr>wst := WStopped\<rparr>)"
    by (rule reach_step [OF reach_step [OF reach_step [OF reach_init s(1)] 1] 2])
  have "sys_inv s" by (rule sys_inv_step [OF s(1) sys_inv_init])
  then have "handled s = []" using s by (auto simp: sys_inv_def)
  moreover have "scan_hex ''10'' = Some 16"
    by (simp add: scan_hex_def ltrim_def isspace_def split_sign_def case_prefix_def is_hex_def hexval_def
        isdigit_def byte_def hex_value_def)
  ultimately show ?thesis
    using s by (intro exI [of _ "t\<lparr>wst := WStopped\<rparr>"] conjI r)
      (simp_all add: t_def bus_shutdown_def hello_msg_def inbound_msg_new_def or_empty_def response_pair_from_meta_def)
qed

text \<open>A message leaves through the channel registered first under its name; names in the
  registry stay unique and non-empty, and a message for an unknown channel is dropped without effect.\<close>

theorem dispatch_routes_to_registered:
  assumes "channels_ok reg" "channel_find reg (Some (o_channel m)) = Some c" "ch_send c = Some f"
  shows "dispatch (fold channel_add cs reg) m w = f m w \<and> channels_ok (fold channel_add cs reg)
    \<and> channel_count (fold channel_add cs reg) \<le> CHANNEL_REG_MAX \<and> ch_name c = o_channel m
    \<and> (channel_find reg2 (Some (o_channel m)) = None \<longrightarrow> dispatch reg2 m w = w)"
proof -
  have "channels_ok (fold channel_add cs reg)"
    using assms(1) by (induction cs arbitrary: reg) (auto simp: channel_add_def channels_ok_register)
  then show ?thesis
    using channels.lookup_stable_fold [of reg "o_channel m" c cs] channels.lookup_key [of reg "o_channel m" c] assms
    by (simp add: dispatch_def channels_ok_def channel_count_def)
qed

lemma dispatch_routes_to_registered_witness:
  "dispatch (fold channel_add [\<lparr>ch_name = ''http'', ch_send = None\<rparr>] [\<lparr>ch_name = ''http'', ch_send = Some (\<lambda>m w. w @ [o_content m])\<rparr>])
     (outbound_msg_new (Some ''http'') None (Some ''ok'') None) [] = [''ok'']"
proof -
  let ?c = "\<lparr>ch_name = ''http'', ch_send = Some (\<lambda>m w. w @ [o_content m])\<rparr> :: string list channel"
  let ?m = "outbound_msg_new (Some ''http'') None (Some ''ok'') None"
  have "channels_ok [?c]" by (simp add: channels_ok_def CHANNEL_REG_MAX_def)
  moreover have "channel_find [?c] (Some (o_channel ?m)) = Some ?c"
    by (simp add: channel_find_def outbound_msg_new_def or_empty_def)
  ultimately show ?thesis
    using dispatch_routes_to_registered [of "[?c]" ?m ?c "\<lambda>m w. w @ [o_content m]" "[\<lparr>ch_name = ''http'', ch_send = None\<rparr>]" "[]" "[]"]
    by (simp add: outbound_msg_new_def or_empty_def)
qed

end
