(* ===== verification/Allowlist.thy ===== *)
theory Allowlist
  imports Json
begin

text \<open>
  Model of \<open>src/security/allowlist.c\<close>: the four rule lists, loading and saving the INI-style
  file, and the check that guards shell commands, file paths, endpoints and e-mail addresses.
\<close>

definition MAX_RULES :: nat where "MAX_RULES = 256"

datatype acl_type = ACL_COMMAND | ACL_PATH | ACL_ENDPOINT | ACL_EMAIL

record acl_list =
  rules :: "string list"
  enabled :: bool

type_synonym allowlist = "acl_type \<Rightarrow> acl_list"

fun type_name :: "acl_type \<Rightarrow> string" where
  "type_name ACL_COMMAND = ''command''"
| "type_name ACL_PATH = ''path''"
| "type_name ACL_ENDPOINT = ''endpoint''"
| "type_name ACL_EMAIL = ''email''"

definition allowlist_create :: allowlist where
  "allowlist_create = (\<lambda>_. \<lparr>rules = [], enabled = False\<rparr>)"

definition allowlist_add :: "allowlist \<Rightarrow> acl_type \<Rightarrow> string \<Rightarrow> result \<times> allowlist" where
  "allowlist_add al t pat =
     (if length (rules (al t)) \<ge> MAX_RULES then
        (err ERR_GENERIC (''Max rules reached for '' @ type_name t), al)
      else (ok, al(t := \<lparr>rules = rules (al t) @ [pat], enabled = True\<rparr>)))"

text \<open>One rule against a value.\<close>

definition rule_matches :: "acl_type \<Rightarrow> string \<Rightarrow> string \<Rightarrow> bool" where
  "rule_matches t pat v =
     (case t of
        ACL_COMMAND \<Rightarrow>
          if fnmatch False pat v then True
          else (case strchr SP v of
                  None \<Rightarrow> False
                | Some rest \<Rightarrow> fnmatch False pat (take (length v - length rest) v))
      | ACL_PATH \<Rightarrow> str_starts_with (Some v) (Some pat)
      | ACL_ENDPOINT \<Rightarrow> str_starts_with (Some v) (Some pat)
      | ACL_EMAIL \<Rightarrow> fnmatch True pat v)"

fun check_rules :: "acl_type \<Rightarrow> string list \<Rightarrow> string \<Rightarrow> bool" where
  "check_rules t [] v = False"
| "check_rules t (p # ps) v = (if rule_matches t p v then True else check_rules t ps v)"

definition allowlist_check :: "allowlist \<Rightarrow> acl_type \<Rightarrow> string \<Rightarrow> bool" where
  "allowlist_check al t v = (if \<not> enabled (al t) then True else check_rules t (rules (al t)) v)"

definition allowlist_is_enabled :: "allowlist \<Rightarrow> acl_type \<Rightarrow> bool" where
  "allowlist_is_enabled al t = enabled (al t)"

definition allowlist_set_enabled :: "allowlist \<Rightarrow> acl_type \<Rightarrow> bool \<Rightarrow> allowlist" where
  "allowlist_set_enabled al t b = al(t := (al t)\<lparr>enabled := b\<rparr>)"

definition allowlist_rule_count :: "allowlist option \<Rightarrow> acl_type \<Rightarrow> nat" where
  "allowlist_rule_count al t = (case al of None \<Rightarrow> 0 | Some al \<Rightarrow> length (rules (al t)))"

definition allowlist_rule_pattern :: "allowlist option \<Rightarrow> acl_type \<Rightarrow> int \<Rightarrow> string option" where
  "allowlist_rule_pattern al t i =
     (case al of None \<Rightarrow> None
      | Some al \<Rightarrow> if i < 0 \<or> int (length (rules (al t))) \<le> i then None else Some (rules (al t) ! nat i))"

text \<open>Removal of the first rule that is equal up to case, with the shift of the others.\<close>

fun remove_rule :: "string \<Rightarrow> string list \<Rightarrow> string list option" where
  "remove_rule pat [] = None"
| "remove_rule pat (p # ps) =
     (if strcasecmp_eq p pat then Some ps else map_option (Cons p) (remove_rule pat ps))"

definition allowlist_remove :: "allowlist option \<Rightarrow> acl_type \<Rightarrow> string option \<Rightarrow> bool \<times> allowlist option" where
  "allowlist_remove al t pat =
     (case (al, pat) of
        (Some a, Some p) \<Rightarrow>
          (case remove_rule p (rules (a t)) of
             None \<Rightarrow> (False, al)
           | Some ps \<Rightarrow> (True, Some (a(t := \<lparr>rules = ps, enabled = (if ps = [] then False else enabled (a t))\<rparr>))))
      | _ \<Rightarrow> (False, al))"

section \<open>Loading\<close>

text \<open>The effect of one trimmed line: the section changes, or rules are added to it.\<close>

definition add_all :: "acl_type \<Rightarrow> string list \<Rightarrow> allowlist \<Rightarrow> allowlist" where
  "add_all t toks al =
     fold (\<lambda>tok a. let s = str_trim tok in if s = '''' then a else snd (allowlist_add a t s)) toks al"

definition load_line :: "string \<Rightarrow> acl_type \<times> allowlist \<Rightarrow> acl_type \<times> allowlist" where
  "load_line line st =
     (case st of (cur, al) \<Rightarrow>
       (let s = str_trim line
        in if s = '''' \<or> hd s = CHR ''#'' then (cur, al)
           else if s = ''[commands]'' then (ACL_COMMAND, al)
           else if s = ''[paths]'' then (ACL_PATH, al)
           else if s = ''[endpoints]'' then (ACL_ENDPOINT, al)
           else if s = ''[email]'' then (ACL_EMAIL, al)
           else if prefix ''allow'' s then
             (case strchr (CHR ''='') s of
                None \<Rightarrow> (cur, al)
              | Some eq \<Rightarrow> (cur, add_all cur (strtok_all (\<lambda>c. c = CHR '','') (str_trim (tl eq))) al))
           else (cur, al)))"

text \<open>\<open>allowlist_load\<close>; the content is None when the file can not be opened.\<close>

definition allowlist_load :: "allowlist \<Rightarrow> string option \<Rightarrow> allowlist" where
  "allowlist_load al content =
     (case content of None \<Rightarrow> al | Some c \<Rightarrow> snd (fold load_line (fgets_lines 1024 c) (ACL_COMMAND, al)))"

section \<open>Saving the email section\<close>

definition email_section :: "string list \<Rightarrow> string" where
  "email_section ps =
     (if ps = [] then '''' else ''[email]'' @ [NL] @ ''allow = '' @ join '', '' ps @ [NL])"

lemma strchr_tl_length: "strchr c s = Some t \<Longrightarrow> length t - Suc 0 < length s"
  by (induction s) (auto split: if_splits)

text \<open>The loop that looks for the next section from the given position; None is NULL.\<close>

function next_section :: "string \<Rightarrow> string option" where
  "next_section s =
     (case strchr NL s of
        None \<Rightarrow> None
      | Some p \<Rightarrow>
          (let t = tl p
           in if t = '''' \<or> hd t = CHR ''['' then Some t
              else if hd t = CHR ''#'' then
                (case strchr NL t of None \<Rightarrow> next_section t | Some q \<Rightarrow> next_section (tl q))
              else next_section t))"
  by pat_completeness auto
termination
  by (relation "measure length") (auto dest!: strchr_tl_length)

declare next_section.simps [simp del]

text \<open>
  The new file content: \<open>old\<close> is None when the file is missing or empty. The result is None when
  the section does not fit the 4096 bytes of \<open>email_section\<close> (a buffer overflow in the code).
\<close>

definition save_content :: "string list \<Rightarrow> string option \<Rightarrow> string" where
  "save_content ps old =
     (case old of
        None \<Rightarrow> ''# Dobby Security Allowlists'' @ [NL, NL] @ email_section ps
      | Some c \<Rightarrow>
          (case (case strstr c (NL # ''[email]'') of Some e \<Rightarrow> Some e | None \<Rightarrow> strstr c ''[email]'') of
             None \<Rightarrow> c @ (if ps = [] then '''' else NL # email_section ps)
           | Some e \<Rightarrow>
               take (length c - length e) c @ [NL] @ email_section ps @
               (case next_section (tl e) of None \<Rightarrow> '''' | Some s \<Rightarrow> s)))"

definition allowlist_save_email ::
  "allowlist option \<Rightarrow> string option \<Rightarrow> bool \<Rightarrow> (result \<times> string option) option" where
  "allowlist_save_email al old writable =
     (case al of
        None \<Rightarrow> Some (err ERR_GENERIC ''null argument'', old)
      | Some a \<Rightarrow>
          if length (email_section (rules (a ACL_EMAIL))) \<ge> 4096 then None
          else if \<not> writable then Some (err ERR_GENERIC ''cannot write allowlist.conf'', old)
          else Some (ok, Some (save_content (rules (a ACL_EMAIL)) (case old of Some [] \<Rightarrow> None | _ \<Rightarrow> old))))"

section \<open>Rule lists\<close>

text \<open>Enforcement is on exactly when there are rules, and the array of 256 is never exceeded.\<close>

definition acl_ok :: "allowlist \<Rightarrow> bool" where
  "acl_ok al \<longleftrightarrow> (\<forall>t. (enabled (al t) \<longleftrightarrow> rules (al t) \<noteq> []) \<and> length (rules (al t)) \<le> MAX_RULES)"

lemma acl_ok_create: "acl_ok allowlist_create"
  by (simp add: acl_ok_def allowlist_create_def)

lemma acl_ok_add: "acl_ok al \<Longrightarrow> acl_ok (snd (allowlist_add al t p))"
  by (auto simp: acl_ok_def allowlist_add_def)

lemma acl_ok_add_all: "acl_ok al \<Longrightarrow> acl_ok (add_all t toks al)"
  unfolding add_all_def by (induction toks arbitrary: al) (auto simp: Let_def acl_ok_add)

lemma acl_ok_load: "acl_ok al \<Longrightarrow> acl_ok (allowlist_load al content)"
proof -
  have line: "acl_ok (snd st) \<Longrightarrow> acl_ok (snd (load_line l st))" for l st
    by (auto simp: load_line_def Let_def acl_ok_add_all split: prod.splits option.splits)
  have "acl_ok (snd st) \<Longrightarrow> acl_ok (snd (fold load_line ls st))" for ls st
    by (induction ls arbitrary: st) (auto simp: line)
  then show "acl_ok al \<Longrightarrow> acl_ok (allowlist_load al content)"
    by (auto simp: allowlist_load_def split: option.splits)
qed

lemma remove_rule_Some:
  "remove_rule p ps = Some qs \<Longrightarrow> \<exists>a x b. ps = a @ x # b \<and> qs = a @ b \<and> strcasecmp_eq x p
     \<and> (\<forall>y \<in> set a. \<not> strcasecmp_eq y p)"
proof (induction ps arbitrary: qs)
  case (Cons y ps)
  show ?case
  proof (cases "strcasecmp_eq y p")
    case True
    with Cons.prems show ?thesis by (intro exI [of _ "[]"] exI [of _ y] exI [of _ ps]) auto
  next
    case False
    then obtain qs' where "remove_rule p ps = Some qs'" "qs = y # qs'" using Cons.prems by auto
    with Cons.IH obtain a x b where "ps = a @ x # b" "qs' = a @ b" "strcasecmp_eq x p" "\<forall>y \<in> set a. \<not> strcasecmp_eq y p"
      by blast
    with False \<open>qs = y # qs'\<close> show ?thesis by (intro exI [of _ "y # a"]) auto
  qed
qed simp

lemma acl_ok_remove: "acl_ok al \<Longrightarrow> allowlist_remove (Some al) t p = (b, Some al') \<Longrightarrow> acl_ok al'"
proof -
  assume ok: "acl_ok al" and rm: "allowlist_remove (Some al) t p = (b, Some al')"
  show ?thesis
  proof (cases "al' = al")
    case False
    then obtain q where p: "p = Some q" using rm by (cases p) (simp_all add: allowlist_remove_def)
    have "remove_rule q (rules (al t)) \<noteq> None"
    proof
      assume "remove_rule q (rules (al t)) = None"
      then have "allowlist_remove (Some al) t p = (False, Some al)" using p by (simp add: allowlist_remove_def)
      with rm False show False by simp
    qed
    then obtain ps where q: "remove_rule q (rules (al t)) = Some ps" by auto
    have "allowlist_remove (Some al) t p =
        (True, Some (al(t := \<lparr>rules = ps, enabled = (if ps = [] then False else enabled (al t))\<rparr>)))"
      unfolding allowlist_remove_def p prod.case option.case q ..
    with rm have q2: "al' = al(t := \<lparr>rules = ps, enabled = (if ps = [] then False else enabled (al t))\<rparr>)"
      by (simp only: prod.inject option.inject)
    from remove_rule_Some [OF q] have "length (rules (al t)) = Suc (length ps)" by auto
    moreover have all: "(enabled (al u) \<longleftrightarrow> rules (al u) \<noteq> []) \<and> length (rules (al u)) \<le> MAX_RULES" for u
      using ok unfolding acl_ok_def by blast
    ultimately have "enabled (al' t) = (rules (al' t) \<noteq> [])" "length (rules (al' t)) \<le> MAX_RULES"
      using all [of t] by (cases "rules (al t)"; simp add: q2)+
    moreover have "u \<noteq> t \<Longrightarrow> al' u = al u" for u by (simp add: q2)
    ultimately show ?thesis using all unfolding acl_ok_def by metis
  qed (use ok in simp)
qed

lemma check_rules_ex: "check_rules t ps v \<longleftrightarrow> (\<exists>p \<in> set ps. rule_matches t p v)"
  by (induction ps) auto

lemma allowlist_check_ok: "acl_ok al \<Longrightarrow>
    allowlist_check al t v \<longleftrightarrow> rules (al t) = [] \<or> (\<exists>p \<in> set (rules (al t)). rule_matches t p v)"
  by (auto simp: allowlist_check_def acl_ok_def check_rules_ex)

lemma strchr_before: "strchr c s = Some r \<Longrightarrow> take (length s - length r) s = before c s"
  by (drule strchr_split) (metis append_eq_conv_conj diff_add_inverse2 length_append)

lemma rule_matches_plain_command:
  "plain_pattern p \<Longrightarrow> rule_matches ACL_COMMAND p v \<longleftrightarrow> v = p \<or> (SP \<in> set v \<and> before SP v = p)"
proof -
  assume p: "plain_pattern p"
  show ?thesis
  proof (cases "strchr SP v")
    case None
    then have "SP \<notin> set v" by simp
    with p show ?thesis by (auto simp add: rule_matches_def fnmatch_plain None)
  next
    case (Some r)
    then have "SP \<in> set v" by (metis option.distinct(1) strchr_None)
    with Some p show ?thesis by (auto simp: rule_matches_def fnmatch_plain strchr_before)
  qed
qed

text \<open>With enforcement on and rules without wildcards, a shell command passes exactly when it is
  a rule or its first word is one; a path or an endpoint exactly when a rule is a prefix of it; an
  e-mail address exactly when it equals a rule up to case. With no rules everything passes.\<close>

theorem allowlist_check_plain:
  assumes "acl_ok al" "list_all plain_pattern (rules (al t))"
  shows "allowlist_check al t v \<longleftrightarrow> rules (al t) = [] \<or> (\<exists>p \<in> set (rules (al t)).
     (case t of ACL_COMMAND \<Rightarrow> v = p \<or> (SP \<in> set v \<and> before SP v = p)
      | ACL_PATH \<Rightarrow> prefix p v | ACL_ENDPOINT \<Rightarrow> prefix p v
      | ACL_EMAIL \<Rightarrow> map to_lower p = map to_lower v))"
proof -
  have "rule_matches t p v \<longleftrightarrow> (case t of ACL_COMMAND \<Rightarrow> v = p \<or> (SP \<in> set v \<and> before SP v = p)
      | ACL_PATH \<Rightarrow> prefix p v | ACL_ENDPOINT \<Rightarrow> prefix p v
      | ACL_EMAIL \<Rightarrow> map to_lower p = map to_lower v)" if "p \<in> set (rules (al t))" for p
  proof -
    have pl: "plain_pattern p" using assms(2) that by (auto simp: list_all_iff)
    show ?thesis
      by (cases t)
        (auto simp: rule_matches_plain_command [OF pl], auto simp: rule_matches_def str_starts_with_def fnmatch_plain [OF pl])
  qed
  then show ?thesis unfolding allowlist_check_ok [OF assms(1)] by blast
qed

definition one_rule :: "acl_type \<Rightarrow> string \<Rightarrow> allowlist" where
  "one_rule t p = snd (allowlist_add allowlist_create t p)"

lemma one_rule_ok: "acl_ok (one_rule t p)" "rules (one_rule t p t) = [p]" "t' \<noteq> t \<Longrightarrow> rules (one_rule t p t') = []"
  by (auto simp: one_rule_def acl_ok_add acl_ok_create)
    (auto simp: allowlist_add_def allowlist_create_def MAX_RULES_def)

lemma allowlist_check_plain_witness:
  "allowlist_check (one_rule ACL_COMMAND ''ls'') ACL_COMMAND ''ls ; rm -rf /''
   \<and> \<not> allowlist_check (one_rule ACL_COMMAND ''ls'') ACL_COMMAND ''rm -rf /''
   \<and> allowlist_check (one_rule ACL_PATH ''/tmp'') ACL_PATH ''/tmp/../etc/passwd''"
proof -
  have "plain_pattern ''ls''" "plain_pattern ''/tmp''" by (simp_all add: plain_pattern_def)
  then show ?thesis
    using allowlist_check_plain [OF one_rule_ok(1), of ACL_COMMAND "''ls''" ACL_COMMAND "''ls ; rm -rf /''"]
      allowlist_check_plain [OF one_rule_ok(1), of ACL_COMMAND "''ls''" ACL_COMMAND "''rm -rf /''"]
      allowlist_check_plain [OF one_rule_ok(1), of ACL_PATH "''/tmp''" ACL_PATH "''/tmp/../etc/passwd''"]
    by (simp add: one_rule_ok)
qed

text \<open>A rule \<open>*@domain\<close> lets every address of the domain pass.\<close>

lemma email_domain_rule:
  assumes "plain_pattern dmn"
  shows "rule_matches ACL_EMAIL (CHR ''*'' # dmn) addr \<longleftrightarrow> suffix (map to_lower dmn) (map to_lower addr)"
proof -
  have "fnmatch True (CHR ''*'' # dmn) addr \<longleftrightarrow> (\<exists>a b. addr = a @ b \<and> map to_lower dmn = map to_lower b)"
    by (simp only: fnmatch_star fnmatch_plain [OF assms] if_True)
  also have "\<dots> \<longleftrightarrow> suffix (map to_lower dmn) (map to_lower addr)"
    by (auto simp: suffix_def append_eq_map_conv map_eq_append_conv)
  finally show ?thesis by (simp add: rule_matches_def)
qed

text \<open>Removing a rule takes out the first rule equal to it up to case and keeps the others in
  order; removing the last rule switches enforcement off, so that everything is allowed.\<close>

theorem allowlist_remove_effect:
  assumes "acl_ok al" "allowlist_remove (Some al) t (Some p) = (True, Some al')"
  shows "\<exists>a x b. rules (al t) = a @ x # b \<and> rules (al' t) = a @ b \<and> strcasecmp_eq x p
    \<and> (\<forall>y \<in> set a. \<not> strcasecmp_eq y p)
    \<and> (a @ b = [] \<longrightarrow> allowlist_check al' t v) \<and> (\<forall>u. u \<noteq> t \<longrightarrow> al' u = al u)"
proof -
  obtain ps where q: "remove_rule p (rules (al t)) = Some ps"
    using assms(2) by (cases "remove_rule p (rules (al t))") (simp_all add: allowlist_remove_def)
  have "allowlist_remove (Some al) t (Some p) =
      (True, Some (al(t := \<lparr>rules = ps, enabled = (if ps = [] then False else enabled (al t))\<rparr>)))"
    unfolding allowlist_remove_def prod.case option.case q ..
  with assms(2) have "al' = al(t := \<lparr>rules = ps, enabled = (if ps = [] then False else enabled (al t))\<rparr>)"
    by (simp only: prod.inject option.inject)
  then have al': "rules (al' t) = ps" "ps = [] \<Longrightarrow> \<not> enabled (al' t)" "\<And>u. u \<noteq> t \<Longrightarrow> al' u = al u" by simp_all
  obtain a x b where s: "rules (al t) = a @ x # b" "ps = a @ b" "strcasecmp_eq x p" "\<forall>y \<in> set a. \<not> strcasecmp_eq y p"
    using remove_rule_Some [OF q] by blast
  have "a @ b = [] \<longrightarrow> allowlist_check al' t v" using al'(2) s(2) by (simp add: allowlist_check_def)
  with s al' show ?thesis by blast
qed

lemma allowlist_remove_effect_witness:
  "\<exists>al'. allowlist_remove (Some (one_rule ACL_EMAIL ''bob@x.org'')) ACL_EMAIL (Some ''Bob@x.org'') = (True, Some al')
    \<and> allowlist_check al' ACL_EMAIL ''mallory@evil.com''"
proof -
  have "strcasecmp_eq ''bob@x.org'' ''Bob@x.org''" by code_simp
  then obtain al' where r: "allowlist_remove (Some (one_rule ACL_EMAIL ''bob@x.org'')) ACL_EMAIL (Some ''Bob@x.org'') = (True, Some al')"
    by (simp add: allowlist_remove_def one_rule_ok)
  from allowlist_remove_effect [OF one_rule_ok(1) r, of "''mallory@evil.com''"]
  obtain a x b where "rules (one_rule ACL_EMAIL ''bob@x.org'' ACL_EMAIL) = a @ x # b"
    "a @ b = [] \<longrightarrow> allowlist_check al' ACL_EMAIL ''mallory@evil.com''" by blast
  moreover from this have "a @ b = []" by (cases a) (auto simp: one_rule_ok)
  ultimately show ?thesis using r by blast
qed

section \<open>Saving and loading again\<close>

text \<open>Rules the command line and the file format can hold: no comma, no white space, not empty.\<close>

definition clean_rule :: "string \<Rightarrow> bool" where
  "clean_rule p \<longleftrightarrow> p \<noteq> '''' \<and> list_all (\<lambda>c. \<not> isspace c \<and> c \<noteq> CHR '','') p"

lemma str_trim_clean: "clean_rule p \<Longrightarrow> str_trim p = p \<and> str_trim (SP # p) = p"
proof -
  assume c: "clean_rule p"
  then have h: "\<not> isspace (hd p)" "\<not> isspace (last p)" "p \<noteq> []"
    by (auto simp: clean_rule_def list_all_iff)
  then have 1: "str_trim p = p" by (intro str_trim_id) simp
  have "ltrim (SP # p) = ltrim p" by (simp add: ltrim_def isspace_def)
  then have "str_trim (SP # p) = str_trim p" by (simp add: str_trim_def)
  with 1 show ?thesis by simp
qed

lemma tokens_join_from:
  assumes "list_all clean_rule ps"
  shows "tokens_from (\<lambda>c. c = CHR '','') [SP] (join '', '' ps) = (if ps = [] then ['' ''] else map (\<lambda>p. SP # p) ps)"
  using assms
proof (induction ps)
  case (Cons p ps)
  have w: "tokens_from (\<lambda>c. c = CHR '','') acc (p @ s) = tokens_from (\<lambda>c. c = CHR '','') (rev p @ acc) s" for acc s
    using Cons.prems by (intro tokens_from_word) (auto simp: clean_rule_def list_all_iff)
  show ?case
  proof (cases ps)
    case Nil
    then show ?thesis using w [of "[SP]" "[]"] by simp
  next
    case (Cons q qs)
    then show ?thesis using w [of "[SP]" "'', '' @ join '', '' ps"] Cons.IH Cons.prems by simp
  qed
qed simp

lemma tokens_join:
  "list_all clean_rule ps \<Longrightarrow> map str_trim (strtok_all (\<lambda>c. c = CHR '','') (join '', '' ps)) = ps"
proof (cases ps)
  case (Cons p qs)
  assume cl: "list_all clean_rule ps"
  have w: "tokens_from (\<lambda>c. c = CHR '','') [] (p @ s) = tokens_from (\<lambda>c. c = CHR '','') (rev p) s" for s
    using cl Cons tokens_from_word [of p "\<lambda>c. c = CHR '',''" "[]" s] by (auto simp: clean_rule_def list_all_iff)
  have ne: "rev p \<noteq> []" using cl Cons by (auto simp: clean_rule_def)
  have q: "map (\<lambda>p. str_trim (SP # p)) qs = qs" "str_trim p = p"
    using cl Cons by (auto simp: list_all_iff str_trim_clean intro: map_idI)
  show ?thesis
  proof (cases qs)
    case Nil
    then show ?thesis using w [of "[]"] ne q Cons by (simp add: strtok_all_def)
  next
    case (Cons r rs)
    have "strtok_all (\<lambda>c. c = CHR '','') (join '', '' ps) = p # map (\<lambda>p. SP # p) qs"
      using w [of "'', '' @ join '', '' qs"] ne Cons \<open>ps = p # qs\<close> tokens_join_from [of qs] cl
      by (simp add: strtok_all_def)
    then show ?thesis using q \<open>ps = p # qs\<close> by (simp add: comp_def)
  qed
qed (simp add: strtok_all_def)

lemma join_ends:
  assumes "list_all clean_rule ps" "ps \<noteq> []"
  shows "join '', '' ps \<noteq> [] \<and> \<not> isspace (hd (join '', '' ps)) \<and> \<not> isspace (last (join '', '' ps)) \<and> NL \<notin> set (join '', '' ps)"
  using assms
proof (induction ps)
  case (Cons p ps)
  have p: "p \<noteq> []" "\<not> isspace (hd p)" "\<not> isspace (last p)" "NL \<notin> set p"
    using Cons.prems by (auto simp: clean_rule_def list_all_iff isspace_def)
  with Cons show ?case by (cases ps) auto
qed simp

lemma str_trim_newline: "\<not> isspace (hd x) \<Longrightarrow> \<not> isspace (last x) \<Longrightarrow> x \<noteq> [] \<Longrightarrow> str_trim (x @ [NL]) = x"
proof -
  assume x: "\<not> isspace (hd x)" "\<not> isspace (last x)" "x \<noteq> []"
  have "ltrim (x @ [NL]) = x @ [NL]" using x by (cases x) (simp_all add: ltrim_def)
  moreover have "rtrim_by isspace (x @ [NL]) = rtrim_by isspace x" by (simp add: rtrim_by_def isspace_def)
  moreover have "rtrim_by isspace x = x" using x by (cases "rev x") (auto simp: rtrim_by_def)
  ultimately show ?thesis by (simp add: str_trim_def)
qed

lemma rules_add_all:
  "length (rules (al t)) + length toks \<le> MAX_RULES \<Longrightarrow> list_all (\<lambda>s. str_trim s \<noteq> '''') toks \<Longrightarrow>
   rules (add_all t toks al t) = rules (al t) @ map str_trim toks \<and> (u \<noteq> t \<longrightarrow> add_all t toks al u = al u)
   \<and> (toks \<noteq> [] \<longrightarrow> enabled (add_all t toks al t))"
proof (induction toks arbitrary: al)
  case (Cons s toks)
  let ?al = "snd (allowlist_add al t (str_trim s))"
  have a: "rules (?al t) = rules (al t) @ [str_trim s]" "u \<noteq> t \<longrightarrow> ?al u = al u" "enabled (?al t)"
    using Cons.prems by (auto simp: allowlist_add_def)
  have s: "add_all t (s # toks) al = add_all t toks ?al" using Cons.prems by (simp add: add_all_def Let_def)
  show ?case using Cons.IH [of ?al] Cons.prems a s by (cases "toks = []") (auto simp: add_all_def)
qed (simp add: add_all_def)

text \<open>C24: the e-mail rules written by \<open>allowlist_save_email\<close> to a new file are the ones
  \<open>allowlist_load\<close> reads from it, in order (rules of the file format, a line of at most 1022 bytes).\<close>

theorem allowlist_email_roundtrip:
  assumes "list_all clean_rule ps" "ps \<noteq> []" "length ps \<le> MAX_RULES" "length (join '', '' ps) \<le> 1014"
  shows "rules (allowlist_load allowlist_create (Some (save_content ps None)) ACL_EMAIL) = ps
    \<and> allowlist_is_enabled (allowlist_load allowlist_create (Some (save_content ps None))) ACL_EMAIL"
proof -
  let ?J = "join '', '' ps"
  note J = join_ends [OF assms(1,2)]
  have c: "save_content ps None = ''# Dobby Security Allowlists'' @ NL # [] @ NL # ''[email]'' @ NL # (''allow = '' @ ?J) @ NL # []"
    using assms(2) by (simp add: save_content_def email_section_def)
  have f: "fgets_lines 1024 (''# Dobby Security Allowlists'' @ NL # r) =
        (''# Dobby Security Allowlists'' @ [NL]) # fgets_lines 1024 r"
    "fgets_lines 1024 ([] @ NL # r) = ([] @ [NL]) # fgets_lines 1024 r"
    "fgets_lines 1024 (''[email]'' @ NL # r) = (''[email]'' @ [NL]) # fgets_lines 1024 r"
    "fgets_lines 1024 ((''allow = '' @ ?J) @ NL # r) = ((''allow = '' @ ?J) @ [NL]) # fgets_lines 1024 r" for r
    by (rule fgets_lines_line; use J assms(4) in simp)+
  have lines: "fgets_lines 1024 (save_content ps None) =
      [''# Dobby Security Allowlists'' @ [NL], [] @ [NL], ''[email]'' @ [NL], (''allow = '' @ ?J) @ [NL]]"
    unfolding c f fgets_lines_Nil ..
  have t: "str_trim (''# Dobby Security Allowlists'' @ [NL]) = ''# Dobby Security Allowlists''"
    "str_trim ([] @ [NL]) = ''''" "str_trim (''[email]'' @ [NL]) = ''[email]''"
    by code_simp+
  have t4: "str_trim ((''allow = '' @ ?J) @ [NL]) = ''allow = '' @ ?J"
    using J by (intro str_trim_newline) (auto simp: isspace_def)
  have l12: "load_line (''# Dobby Security Allowlists'' @ [NL]) st = st" "load_line ([] @ [NL]) st = st"
    "load_line (''[email]'' @ [NL]) (cur, al) = (ACL_EMAIL, al)" for st cur al
    unfolding load_line_def t Let_def by (auto split: prod.splits)
  have eq: "strchr (CHR ''='') (''allow = '' @ ?J) = Some (''= '' @ ?J)" by simp
  have tj: "str_trim (SP # ?J) = ?J"
  proof -
    have "str_trim (SP # ?J) = str_trim ?J" by (simp add: str_trim_def ltrim_def isspace_def)
    then show ?thesis using J str_trim_id by simp
  qed
  define toks where "toks = strtok_all (\<lambda>c. c = CHR '','') ?J"
  have "load_line ((''allow = '' @ ?J) @ [NL]) (ACL_EMAIL, allowlist_create) =
      (ACL_EMAIL, add_all ACL_EMAIL toks allowlist_create)"
    unfolding load_line_def t4 Let_def eq by (simp add: tj toks_def)
  then have load: "allowlist_load allowlist_create (Some (save_content ps None)) = add_all ACL_EMAIL toks allowlist_create"
    unfolding allowlist_load_def option.case lines by (simp add: l12 [simplified])
  have m: "map str_trim toks = ps" using tokens_join [OF assms(1)] by (simp add: toks_def)
  have len: "length toks = length ps" using m by (metis length_map)
  have "str_trim s \<noteq> ''''" if "s \<in> set toks" for s
  proof -
    have "str_trim s \<in> set ps" using that m by (metis image_eqI list.set_map)
    then show ?thesis using assms(1) by (auto simp: list_all_iff clean_rule_def)
  qed
  then have ne: "list_all (\<lambda>s. str_trim s \<noteq> '''') toks" by (simp add: list_all_iff)
  have "toks \<noteq> []" using len assms(2) by auto
  then show ?thesis
    using rules_add_all [of allowlist_create ACL_EMAIL toks] ne len assms(3)
    unfolding load allowlist_is_enabled_def m by (simp add: allowlist_create_def)
qed

lemma allowlist_email_roundtrip_witness:
  "rules (allowlist_load allowlist_create (Some (save_content [''bob@x.org'', ''*@corp.com''] None)) ACL_EMAIL)
     = [''bob@x.org'', ''*@corp.com'']"
  using allowlist_email_roundtrip [of "[''bob@x.org'', ''*@corp.com'']"]
  by (simp add: clean_rule_def isspace_def MAX_RULES_def)

text \<open>Saving the e-mail rules deletes the section after \<open>[email]\<close> when a comment line stands
  directly before that section's header: here the rules for paths are lost, and a reload of the
  file allows every path.\<close>

theorem allowlist_save_swallows_section:
  "save_content [''a@b.c''] (Some (''[email]'' @ NL # ''allow = x@y.z'' @ NL # ''# files'' @ NL # ''[paths]'' @ NL #
      ''allow = /tmp'' @ [NL])) = NL # ''[email]'' @ NL # ''allow = a@b.c'' @ [NL]
   \<and> allowlist_check (allowlist_load allowlist_create (Some (NL # ''[email]'' @ NL # ''allow = a@b.c'' @ [NL]))) ACL_PATH v"
proof -
  let ?file = "NL # ''[email]'' @ NL # ''allow = a@b.c'' @ [NL]"
  have "save_content [''a@b.c''] (Some (''[email]'' @ NL # ''allow = x@y.z'' @ NL # ''# files'' @ NL # ''[paths]'' @ NL #
      ''allow = /tmp'' @ [NL])) = ?file" by code_simp
  moreover have "rules (allowlist_load allowlist_create (Some ?file) ACL_PATH) = []" by code_simp
  then have "allowlist_check (allowlist_load allowlist_create (Some ?file)) ACL_PATH v"
    using allowlist_check_ok [OF acl_ok_load [OF acl_ok_create]] by blast
  ultimately show ?thesis by blast
qed

end
