(* ===== verification/Scheduler.thy ===== *)
theory Scheduler
  imports Bus Json_Props
begin

text \<open>
  Model of \<open>src/tools/scheduler/scheduler.c\<close>: the task table, the interval parser, the periodic
  firing of due tasks, the JSON file that persists the tasks, and the tool handlers. Tool
  arguments are the parsed JSON item; the current time is an argument. Running a shell command
  and publishing a message are the actions a tick returns. The registration of the tools (help
  texts and schemas) is not modelled.
\<close>

section \<open>State\<close>

definition MAX_TASKS :: nat where "MAX_TASKS = 64"

datatype task_type = TASK_SHELL | TASK_AGENT_TURN

record sched_task =
  t_id :: int
  t_name :: "string option"
  t_type :: task_type
  t_task :: "string option"
  interval_sec :: int
  last_run :: int
  paused :: bool
  active :: bool

text \<open>\<open>jobs_file\<close> is the content of the file at \<open>jobs_path\<close>; an empty path switches persistence off.\<close>

record scheduler =
  tasks :: "sched_task list"
  next_id :: int
  has_bus :: bool
  jobs_path :: string
  jobs_file :: "string option"

section \<open>Intervals\<close>

text \<open>\<open>sscanf (spec, "every %d %31s")\<close>, then \<open>sscanf (spec, "%d")\<close>; the products wrap as 32-bit
  integers do on the target.\<close>

definition conv_int :: "int \<Rightarrow> int" where
  "conv_int v = wrap32 (clamp_long v)"

definition scan_every :: "string \<Rightarrow> (int \<times> string) option" where
  "scan_every spec =
     (if prefix ''every'' spec then
        (case scan_int (drop 5 spec) of
           None \<Rightarrow> None
         | Some (v, r) \<Rightarrow>
             (let u = take 31 (takeWhile (\<lambda>c. \<not> isspace c) (ltrim r))
              in if u = '''' then None else Some (conv_int v, u)))
      else None)"

definition parse_plain :: "string \<Rightarrow> int" where
  "parse_plain spec =
     (case scan_int spec of
        None \<Rightarrow> - 1
      | Some (v, _) \<Rightarrow> if conv_int v > 0 then conv_int v else - 1)"

definition parse_interval :: "string \<Rightarrow> int" where
  "parse_interval spec =
     (case scan_every spec of
        None \<Rightarrow> parse_plain spec
      | Some (n, unit) \<Rightarrow>
          if contains unit ''sec'' then n
          else if contains unit ''min'' then wrap32 (n * 60)
          else if contains unit ''hour'' then wrap32 (n * 3600)
          else if contains unit ''day'' then wrap32 (n * 86400)
          else parse_plain spec)"

section \<open>Persistence\<close>

definition type_str :: "task_type \<Rightarrow> string" where
  "type_str ty = (case ty of TASK_SHELL \<Rightarrow> ''shell'' | TASK_AGENT_TURN \<Rightarrow> ''agent_turn'')"

definition task_item :: "string \<Rightarrow> sched_task \<Rightarrow> json" where
  "task_item interval_name t =
     (let o0 = JObject [(''id'', JInt (t_id t))];
          o1 = cJSON_AddStringToObject o0 ''name'' (t_name t);
          o2 = cJSON_AddStringToObject o1 ''type'' (Some (type_str (t_type t)));
          o3 = cJSON_AddStringToObject o2 ''task'' (t_task t);
          o4 = cJSON_AddItemToObject o3 interval_name (Some (JInt (interval_sec t)))
      in cJSON_AddItemToObject o4 ''paused'' (Some (JBool (paused t))))"

definition save_jobs :: "scheduler \<Rightarrow> scheduler" where
  "save_jobs s =
     (if jobs_path s = '''' then s
      else s\<lparr>jobs_file := Some (cJSON_Print (JArray (map (task_item ''interval_sec'') (filter active (tasks s)))))\<rparr>)"

definition load_item :: "int \<Rightarrow> json \<Rightarrow> scheduler \<Rightarrow> scheduler" where
  "load_item now item s =
     (if length (tasks s) \<ge> MAX_TASKS then s
      else
        let name = get_str (Some item) ''name''; ty = get_str (Some item) ''type'';
            task = get_str (Some item) ''task''; iv = cJSON_GetObjectItem (Some item) ''interval_sec'';
            id_j = cJSON_GetObjectItem (Some item) ''id''; paused_j = cJSON_GetObjectItem (Some item) ''paused''
        in if name = None \<or> task = None \<or> iv = None then s
           else
             let i = (if id_j \<noteq> None then valueint id_j else next_id s);
                 t = \<lparr>t_id = i, t_name = name,
                      t_type = (if ty = Some ''shell'' then TASK_SHELL else TASK_AGENT_TURN),
                      t_task = task, interval_sec = valueint iv, last_run = now,
                      paused = cJSON_IsTrue paused_j, active = True\<rparr>
             in s\<lparr>tasks := tasks s @ [t], next_id := (if i \<ge> next_id s then i + 1 else next_id s)\<rparr>)"

definition load_jobs :: "int \<Rightarrow> scheduler \<Rightarrow> scheduler" where
  "load_jobs now s =
     (if jobs_path s = '''' then s
      else case jobs_file s of
        None \<Rightarrow> s
      | Some c \<Rightarrow> (case cJSON_Parse c of
          None \<Rightarrow> s
        | Some arr \<Rightarrow> fold (load_item now) (map snd (children arr)) s))"

text \<open>\<open>scheduler_create\<close>: \<open>file\<close> is what the jobs file holds at start.\<close>

definition scheduler_create :: "bool \<Rightarrow> string option \<Rightarrow> string option \<Rightarrow> int \<Rightarrow> scheduler" where
  "scheduler_create bus workspace file now =
     (let s = \<lparr>tasks = [], next_id = 1, has_bus = bus, jobs_path = '''', jobs_file = file\<rparr>
      in case workspace of
           None \<Rightarrow> s
         | Some w \<Rightarrow> if w = '''' then s
             else load_jobs now
               (s\<lparr>jobs_path := trunc_to 512 (trunc_to 512 (w @ ''/scheduler'') @ ''/jobs.json'')\<rparr>))"

section \<open>Firing\<close>

datatype action = RunShell string | Publish inbound_msg

definition sched_chat_id :: "int \<Rightarrow> string" where
  "sched_chat_id i = trunc_to 64 (''scheduler:'' @ int_str i)"

definition turn_msg :: "sched_task \<Rightarrow> inbound_msg" where
  "turn_msg t = inbound_msg_new (Some ''scheduler'') (Some ''scheduler'') (Some (sched_chat_id (t_id t))) (t_task t) None"

definition due :: "int \<Rightarrow> sched_task \<Rightarrow> bool" where
  "due now t \<longleftrightarrow> active t \<and> \<not> paused t \<and> now - last_run t \<ge> interval_sec t"

definition fire :: "bool \<Rightarrow> sched_task \<Rightarrow> action list" where
  "fire bus t =
     (case t_type t of
        TASK_SHELL \<Rightarrow> (case t_task t of None \<Rightarrow> [] | Some c \<Rightarrow> [RunShell c])
      | TASK_AGENT_TURN \<Rightarrow> if bus then [Publish (turn_msg t)] else [])"

text \<open>One round of \<open>scheduler_thread\<close>.\<close>

fun tick :: "int \<Rightarrow> bool \<Rightarrow> sched_task list \<Rightarrow> sched_task list \<times> action list" where
  "tick now bus [] = ([], [])"
| "tick now bus (t # ts) =
     (case tick now bus ts of (ts', acts) \<Rightarrow>
        if due now t then (t\<lparr>last_run := now\<rparr> # ts', fire bus t @ acts) else (t # ts', acts))"

definition scheduler_tick :: "int \<Rightarrow> scheduler \<Rightarrow> scheduler \<times> action list" where
  "scheduler_tick now s =
     (case tick now (has_bus s) (tasks s) of (ts, acts) \<Rightarrow> (s\<lparr>tasks := ts\<rparr>, acts))"

section \<open>Tools\<close>

definition tool_schedule_add :: "int \<Rightarrow> json option \<Rightarrow> scheduler \<Rightarrow> string \<times> scheduler" where
  \<open>tool_schedule_add now args s =
     (case (get_str args ''name'', get_str args ''task'', get_str args ''interval'') of
        (Some name, Some task, Some interval) \<Rightarrow>
          (let ty = (if get_str args ''type'' = Some ''shell'' then TASK_SHELL else TASK_AGENT_TURN);
               sec = parse_interval interval
           in if sec \<le> 0 then (''{"error": "Invalid interval. Use 'every N seconds/minutes/hours/days'"}'', s)
              else if length (tasks s) \<ge> MAX_TASKS then (''{"error": "Max tasks reached"}'', s)
              else
                (let t = (| t_id = next_id s, t_name = Some name, t_type = ty, t_task = Some task,
                            interval_sec = sec, last_run = now, paused = False, active = True |);
                     s' = save_jobs (s(| tasks := tasks s @ [t], next_id := next_id s + 1 |))
                 in (cJSON_PrintUnformatted (JObject
                       [(''status'', JString ''scheduled''), (''task_id'', JInt (t_id t)), (''name'', JString name),
                        (''type'', JString (type_str ty)), (''interval_seconds'', JInt sec)]), s')))
      | _ \<Rightarrow> (''{"error": "name, task, and interval are required"}'', s))\<close>

definition task_list_json :: "scheduler \<Rightarrow> json" where
  "task_list_json s = JArray (map (task_item ''interval_seconds'') (filter active (tasks s)))"

definition tool_schedule_list :: "scheduler \<Rightarrow> string" where
  "tool_schedule_list s = cJSON_PrintUnformatted (task_list_json s)"

text \<open>The index of the first active task with the id.\<close>

definition find_task :: "int \<Rightarrow> scheduler \<Rightarrow> nat option" where
  "find_task i s = find (\<lambda>k. t_id (tasks s ! k) = i \<and> active (tasks s ! k)) [0..<length (tasks s)]"

definition control_task :: "string \<Rightarrow> sched_task \<Rightarrow> sched_task option" where
  "control_task act t =
     (if act = ''pause'' then Some (t\<lparr>paused := True\<rparr>)
      else if act = ''resume'' then Some (t\<lparr>paused := False\<rparr>)
      else if act = ''delete'' then Some (t\<lparr>active := False, t_name := None, t_task := None\<rparr>)
      else None)"

definition unknown_action :: string where
  \<open>unknown_action = ''{"error": "unknown action '' @ [CHR 0xE2, CHR 0x80, CHR 0x94] @ '' use list/pause/resume/delete"}''\<close>

definition tool_schedule_control :: "json option \<Rightarrow> scheduler \<Rightarrow> string \<times> scheduler" where
  \<open>tool_schedule_control args s =
     (case get_str args ''action'' of
        None \<Rightarrow> (''{"error": "action required"}'', s)
      | Some act \<Rightarrow>
          if act = ''list'' then (tool_schedule_list s, s)
          else case cJSON_GetObjectItem args ''task_id'' of
            None \<Rightarrow> (''{"error": "task_id required for pause/resume/delete"}'', s)
          | Some idv \<Rightarrow>
              (case find_task (valueint (Some idv)) s of
                 None \<Rightarrow> (''{"error": "Task not found"}'', s)
               | Some k \<Rightarrow>
                   (case control_task act (tasks s ! k) of
                      None \<Rightarrow> (unknown_action, s)
                    | Some t' \<Rightarrow>
                        (cJSON_PrintUnformatted (JObject
                           [(''status'', JString act), (''task_id'', JInt (valueint (Some idv)))]),
                         save_jobs (s(| tasks := (tasks s)[k := t'] |))))))\<close>

definition scheduler_task_json :: "scheduler option \<Rightarrow> string" where
  "scheduler_task_json s =
     cJSON_PrintUnformatted (case s of None \<Rightarrow> JArray [] | Some s \<Rightarrow> task_list_json s)"

text \<open>\<open>scheduler_task_snapshot\<close>: the text put into a buffer of \<open>n > 0\<close> bytes.\<close>

definition interval_str :: "int \<Rightarrow> string" where
  "interval_str i =
     (if i < 60 then int_str i @ ''s''
      else if i < 3600 then int_str (i div 60) @ ''m''
      else int_str (i div 3600) @ ''h'')"

definition snapshot_head :: string where
  "snapshot_head = [ESC] @ ''[1m'' @ pad_right 4 ''ID'' @ ''  '' @ pad_right 20 ''Name'' @ ''  '' @
     pad_right 11 ''Type'' @ ''  '' @ pad_right 12 ''Interval'' @ ''  Status'' @ [ESC] @ ''[0m'' @ [NL]"

definition snapshot_row :: "sched_task \<Rightarrow> string" where
  "snapshot_row t =
     (let st = (if paused t then [ESC] @ ''[33mpaused'' @ [ESC] @ ''[0m'' else [ESC] @ ''[32mrunning'' @ [ESC] @ ''[0m'');
          ty = (if t_type t = TASK_SHELL then ''shell'' else ''agent'')
      in pad_right 4 (int_str (t_id t)) @ ''  '' @ [ESC] @ ''[36m'' @ pad_right 20 (fmt_s (t_name t)) @ [ESC] @
         ''[0m  '' @ pad_right 11 ty @ ''  '' @ pad_right 12 (trunc_to 32 (interval_str (interval_sec t))) @ ''  '' @
         st @ [NL])"

definition scheduler_task_snapshot :: "scheduler option \<Rightarrow> nat \<Rightarrow> string" where
  "scheduler_task_snapshot s n =
     (case s of
        None \<Rightarrow> trunc_to n (''Scheduler not available.'' @ [NL])
      | Some s \<Rightarrow>
          if filter active (tasks s) = [] then trunc_to n (''No scheduled background tasks.'' @ [NL])
          else trunc_to n snapshot_head @
               append_pieces n (length snapshot_head) (map snapshot_row (filter active (tasks s))))"

lemma scheduler_task_snapshot_fits: "0 < n \<Longrightarrow> length (scheduler_task_snapshot s n) < n"
proof -
  assume n: "0 < n"
  have t: "length (trunc_to n x) < n" for x using n take_trunc_length [of n x] by linarith
  have "length (trunc_to n snapshot_head @ append_pieces n (length snapshot_head) rs) < n" for rs
  proof (cases "length snapshot_head < n")
    case True
    then show ?thesis using append_pieces_length [of "length snapshot_head" n rs] by simp
  next
    case False
    then show ?thesis using t [of snapshot_head] by (cases rs) auto
  qed
  with t show ?thesis by (auto simp: scheduler_task_snapshot_def split: option.split)
qed

section \<open>The table invariant\<close>

definition task_ok :: "int \<Rightarrow> sched_task \<Rightarrow> bool" where
  "task_ok n t \<longleftrightarrow> t_id t < n \<and> 0 < interval_sec t \<and> (active t \<longrightarrow> t_name t \<noteq> None \<and> t_task t \<noteq> None)"

definition sched_ok :: "scheduler \<Rightarrow> bool" where
  "sched_ok s \<longleftrightarrow> length (tasks s) \<le> MAX_TASKS \<and> list_all (task_ok (next_id s)) (tasks s)
     \<and> distinct (map t_id (tasks s))"

text \<open>The operations in the order they happen.\<close>

inductive sched_step :: "scheduler \<Rightarrow> scheduler \<Rightarrow> bool" where
  step_add [step_intros]: "sched_step s (snd (tool_schedule_add now args s))"
| step_control [step_intros]: "sched_step s (snd (tool_schedule_control args s))"
| step_tick [step_intros]: "sched_step s (fst (scheduler_tick now s))"

inductive sched_reach :: "scheduler \<Rightarrow> scheduler \<Rightarrow> bool" where
  reach_refl [step_intros]: "sched_reach s s"
| reach_step [step_intros]: "sched_reach s s' \<Longrightarrow> sched_step s' s'' \<Longrightarrow> sched_reach s s''"

inductive_cases sched_stepE: "sched_step s s'"

lemma save_jobs_simps [simp]:
  "tasks (save_jobs s) = tasks s" "next_id (save_jobs s) = next_id s" "has_bus (save_jobs s) = has_bus s"
  "jobs_path (save_jobs s) = jobs_path s"
  by (simp_all add: save_jobs_def)

lemma save_jobs_ok [simp]: "sched_ok (save_jobs s) = sched_ok s"
  by (simp add: sched_ok_def)

lemma tick_fst: "fst (tick now bus ts) = map (\<lambda>t. if due now t then t\<lparr>last_run := now\<rparr> else t) ts"
  by (induction now bus ts rule: tick.induct) (auto split: prod.splits)

lemma tick_snd: "snd (tick now bus ts) = concat (map (fire bus) (filter (due now) ts))"
  by (induction now bus ts rule: tick.induct) (auto split: prod.splits)

lemma scheduler_tick_eq:
  "scheduler_tick now s =
     (s\<lparr>tasks := map (\<lambda>t. if due now t then t\<lparr>last_run := now\<rparr> else t) (tasks s)\<rparr>,
      concat (map (fire (has_bus s)) (filter (due now) (tasks s))))"
  by (simp add: scheduler_tick_def case_prod_beta tick_fst tick_snd)

lemma sched_ok_tick: "sched_ok s \<Longrightarrow> sched_ok (fst (scheduler_tick now s))"
proof -
  assume ok: "sched_ok s"
  have "t_id \<circ> (\<lambda>t. if due now t then t\<lparr>last_run := now\<rparr> else t) = t_id" by (rule ext) simp
  with ok show ?thesis by (auto simp: scheduler_tick_eq sched_ok_def list_all_iff task_ok_def)
qed

lemma tool_schedule_add_cases:
  "(snd (tool_schedule_add now args s) = s \<and> \<not> (\<exists>name task iv. get_str args ''name'' = Some name
       \<and> get_str args ''task'' = Some task \<and> get_str args ''interval'' = Some iv
       \<and> 0 < parse_interval iv \<and> length (tasks s) < MAX_TASKS))
   \<or> (\<exists>name task iv. get_str args ''name'' = Some name \<and> get_str args ''task'' = Some task
       \<and> get_str args ''interval'' = Some iv \<and> 0 < parse_interval iv \<and> length (tasks s) < MAX_TASKS
       \<and> snd (tool_schedule_add now args s) = save_jobs (s\<lparr>tasks := tasks s @
          [\<lparr>t_id = next_id s, t_name = Some name,
            t_type = (if get_str args ''type'' = Some ''shell'' then TASK_SHELL else TASK_AGENT_TURN),
            t_task = Some task, interval_sec = parse_interval iv, last_run = now, paused = False, active = True\<rparr>],
          next_id := next_id s + 1\<rparr>))"
  by (auto simp: tool_schedule_add_def Let_def split: option.splits)

lemma sched_ok_append:
  assumes "sched_ok s" "length (tasks s) < MAX_TASKS" "t_id t = next_id s" "0 < interval_sec t"
    "t_name t \<noteq> None" "t_task t \<noteq> None"
  shows "sched_ok (s\<lparr>tasks := tasks s @ [t], next_id := next_id s + 1\<rparr>)"
proof -
  have "next_id s \<notin> t_id ` set (tasks s)"
    using assms(1) by (auto simp: sched_ok_def list_all_iff task_ok_def)
  then show ?thesis using assms by (auto simp: sched_ok_def list_all_iff task_ok_def)
qed

lemma sched_ok_add: "sched_ok s \<Longrightarrow> sched_ok (snd (tool_schedule_add now args s))"
  using tool_schedule_add_cases [of now args s] by (auto intro!: sched_ok_append)

lemma find_upt:
  "find P [0..<n] = Some k \<longleftrightarrow> k < n \<and> P k \<and> (\<forall>j<k. \<not> P j)"
  by (auto simp: find_Some_iff)

lemma find_task_Some:
  "find_task i s = Some k \<Longrightarrow> k < length (tasks s) \<and> t_id (tasks s ! k) = i \<and> active (tasks s ! k)"
  unfolding find_task_def find_upt by simp

lemma tool_schedule_control_cases:
  "snd (tool_schedule_control args s) = s
   \<or> (\<exists>act k t'. get_str args ''action'' = Some act
       \<and> find_task (valueint (cJSON_GetObjectItem args ''task_id'')) s = Some k
       \<and> control_task act (tasks s ! k) = Some t'
       \<and> snd (tool_schedule_control args s) = save_jobs (s\<lparr>tasks := (tasks s)[k := t']\<rparr>))"
  by (auto simp: tool_schedule_control_def split: option.splits)

lemma control_task_same:
  "control_task act t = Some t' \<Longrightarrow> t_id t' = t_id t \<and> interval_sec t' = interval_sec t
     \<and> (active t' \<longrightarrow> active t \<and> t_name t' = t_name t \<and> t_task t' = t_task t)"
  by (auto simp: control_task_def split: if_splits)

lemma sched_ok_control: "sched_ok s \<Longrightarrow> sched_ok (snd (tool_schedule_control args s))"
  using tool_schedule_control_cases [of args s]
proof (elim disjE exE conjE)
  fix act k t'
  assume ok: "sched_ok s" and k: "find_task (valueint (cJSON_GetObjectItem args ''task_id'')) s = Some k"
    and t': "control_task act (tasks s ! k) = Some t'"
    and s': "snd (tool_schedule_control args s) = save_jobs (s\<lparr>tasks := (tasks s)[k := t']\<rparr>)"
  note lt = find_task_Some [OF k] and same = control_task_same [OF t']
  have "map t_id ((tasks s)[k := t']) = map t_id (tasks s)"
    using lt same by (simp add: map_update list_update_same_conv)
  moreover have "list_all (task_ok (next_id s)) ((tasks s)[k := t'])"
    using ok lt same set_update_subset_insert [of "tasks s" k t']
    by (fastforce simp: sched_ok_def list_all_iff task_ok_def)
  ultimately have "sched_ok (s\<lparr>tasks := (tasks s)[k := t']\<rparr>)"
    using ok by (simp add: sched_ok_def)
  then show ?thesis by (simp add: s')
qed simp

lemma sched_ok_step: "sched_step s s' \<Longrightarrow> sched_ok s \<Longrightarrow> sched_ok s'"
  by (auto elim!: sched_stepE intro: sched_ok_add sched_ok_control sched_ok_tick)

lemma tasks_length_step: "sched_step s s' \<Longrightarrow> length (tasks s) \<le> length (tasks s')"
proof (elim sched_stepE)
  fix now args assume "s' = snd (tool_schedule_add now args s)"
  then show ?thesis using tool_schedule_add_cases [of now args s] by auto
next
  fix args assume "s' = snd (tool_schedule_control args s)"
  then show ?thesis using tool_schedule_control_cases [of args s] by auto
next
  fix now assume "s' = fst (scheduler_tick now s)"
  then show ?thesis by (simp add: scheduler_tick_eq)
qed

section \<open>Restart\<close>

text \<open>What the JSON file can carry: C strings and numbers of the C type \<open>int\<close>.\<close>

definition persistable :: "sched_task \<Rightarrow> bool" where
  "persistable t \<longleftrightarrow> active t \<and> int_range (t_id t) \<and> int_range (interval_sec t)
     \<and> (\<exists>n. t_name t = Some n \<and> NUL \<notin> set n) \<and> (\<exists>k. t_task t = Some k \<and> NUL \<notin> set k)"

lemma task_item_eq:
  "persistable t \<Longrightarrow> task_item iv t = JObject
     [(''id'', JInt (t_id t)), (''name'', JString (the (t_name t))), (''type'', JString (type_str (t_type t))),
      (''task'', JString (the (t_task t))), (iv, JInt (interval_sec t)), (''paused'', JBool (paused t))]"
  by (auto simp: task_item_def persistable_def Let_def)

lemma wf_JInt: "int_range i \<Longrightarrow> wf_json d (JInt i)"
  by (simp add: JInt_range double_to_int_int)

lemma valueint_JInt: "int_range i \<Longrightarrow> valueint (Some (JInt i)) = i"
  by (simp add: JInt_range valueint_def double_to_int_int)

lemma wf_task_item: "persistable t \<Longrightarrow> Suc d < CJSON_NESTING_LIMIT \<Longrightarrow> wf_json (Suc d) (task_item ''interval_sec'' t)"
  by (subst task_item_eq)
    (auto simp: persistable_def wf_JInt NUL_def type_str_def split: task_type.splits)

lemma task_item_fields:
  assumes "persistable t"
  defines "j \<equiv> Some (task_item ''interval_sec'' t)"
  shows "get_str j ''name'' = t_name t" "get_str j ''task'' = t_task t"
    "get_str j ''type'' = Some (type_str (t_type t))"
    "cJSON_GetObjectItem j ''interval_sec'' = Some (JInt (interval_sec t))"
    "cJSON_GetObjectItem j ''id'' = Some (JInt (t_id t))"
    "cJSON_GetObjectItem j ''paused'' = Some (JBool (paused t))"
  using assms(1) unfolding j_def task_item_eq [OF assms(1)]
  by (auto simp: cJSON_GetObjectItem_def cJSON_GetStringValue_def strcasecmp_eq_def to_lower_def byte_def
      persistable_def)

lemma type_str_shell [simp]: "type_str ty = ''shell'' \<longleftrightarrow> ty = TASK_SHELL"
  by (cases ty) (auto simp: type_str_def)

lemma load_item_task:
  assumes p: "persistable t" and room: "length (tasks s) < MAX_TASKS"
  shows "load_item now (task_item ''interval_sec'' t) s =
    s\<lparr>tasks := tasks s @ [t\<lparr>last_run := now\<rparr>], next_id := max (next_id s) (t_id t + 1)\<rparr>"
proof -
  have "t_name t \<noteq> None" "t_task t \<noteq> None" "active t" "int_range (t_id t)" "int_range (interval_sec t)"
    using p by (auto simp: persistable_def)
  moreover have "(if t_type t = TASK_SHELL then TASK_SHELL else TASK_AGENT_TURN) = t_type t"
    by (cases "t_type t") auto
  ultimately show ?thesis
    using room by (auto simp: load_item_def task_item_fields [OF p] valueint_JInt cJSON_IsTrue_def max_def Let_def)
qed

lemma load_items:
  "list_all persistable ts \<Longrightarrow> length (tasks s) + length ts \<le> MAX_TASKS \<Longrightarrow>
   fold (load_item now) (map (task_item ''interval_sec'') ts) s =
     s\<lparr>tasks := tasks s @ map (\<lambda>t. t\<lparr>last_run := now\<rparr>) ts,
       next_id := fold (\<lambda>t n. max n (t_id t + 1)) ts (next_id s)\<rparr>"
  by (induction ts arbitrary: s) (auto simp: load_item_task)

lemma fold_max_id:
  "n \<le> m \<Longrightarrow> (\<forall>t \<in> set ts. t_id t < m) \<Longrightarrow>
   fold (\<lambda>t n. max n (t_id t + 1)) ts n \<le> m \<and> n \<le> fold (\<lambda>t n. max n (t_id t + 1)) ts n
     \<and> (\<forall>t \<in> set ts. t_id t < fold (\<lambda>t n. max n (t_id t + 1)) ts n)"
proof (induction ts arbitrary: n)
  case (Cons t ts)
  then have "max n (t_id t + 1) \<le> m" by auto
  from Cons.IH [OF this] Cons.prems show ?case by (auto simp: max_def split: if_splits)
qed simp

definition jobs_path_of :: "string \<Rightarrow> string" where
  "jobs_path_of w = trunc_to 512 (trunc_to 512 (w @ ''/scheduler'') @ ''/jobs.json'')"

lemma jobs_path_of_ne [simp]: "jobs_path_of w \<noteq> []"
  by (simp add: jobs_path_of_def trunc_to_def)

lemma scheduler_create_saved:
  assumes w: "w \<noteq> ''''" and path: "jobs_path s \<noteq> ''''" and len: "length (tasks s) \<le> MAX_TASKS"
    and p: "\<forall>t \<in> set (tasks s). active t \<longrightarrow> persistable t"
  shows "scheduler_create bus (Some w) (jobs_file (save_jobs s)) now =
    \<lparr>tasks = map (\<lambda>t. t\<lparr>last_run := now\<rparr>) (filter active (tasks s)),
     next_id = fold (\<lambda>t n. max n (t_id t + 1)) (filter active (tasks s)) 1,
     has_bus = bus, jobs_path = jobs_path_of w, jobs_file = jobs_file (save_jobs s)\<rparr>"
proof -
  let ?ts = "filter active (tasks s)"
  let ?js = "map (task_item ''interval_sec'') ?ts"
  have p': "list_all persistable ?ts" using p by (simp add: list_all_iff)
  have "wf_json 0 (JArray ?js)"
    using p' by (auto simp: list_all_iff CJSON_NESTING_LIMIT_def intro!: wf_task_item)
  then have "cJSON_Parse (cJSON_Print (JArray ?js)) = Some (JArray ?js)" by (rule print_parse_roundtrip)
  moreover have "map snd (children (JArray ?js)) = ?js" by (induction ?ts) auto
  moreover have "length ?ts \<le> MAX_TASKS" using len length_filter_le le_trans by blast
  ultimately show ?thesis
    using w path load_items [OF p']
    by (simp add: scheduler_create_def load_jobs_def save_jobs_def jobs_path_of_def [symmetric] Let_def
        del: children.simps print_value.simps)
qed

section \<open>Properties\<close>

lemma scheduler_create_fresh: "sched_ok (scheduler_create bus w None now)"
  by (auto simp: scheduler_create_def load_jobs_def sched_ok_def MAX_TASKS_def Let_def split: option.splits)

lemma sched_reach_ok: "sched_reach s0 s \<Longrightarrow> sched_ok s0 \<Longrightarrow> sched_ok s"
  by (induction rule: sched_reach.induct) (auto intro: sched_ok_step)

text \<open>C14: from a fresh scheduler, after any sequence of \<open>schedule_add\<close>, \<open>schedule_control\<close> and
  scheduler rounds, the table holds at most 64 tasks, every identifier is used once and is below
  \<open>next_id\<close>, every interval is positive, and every active task has a name and a task text.\<close>

theorem scheduler_table_invariant:
  assumes "sched_reach (scheduler_create bus w None now) s"
  shows "length (tasks s) \<le> MAX_TASKS \<and> distinct (map t_id (tasks s))
    \<and> (\<forall>t \<in> set (tasks s). t_id t < next_id s \<and> 0 < interval_sec t
         \<and> (active t \<longrightarrow> t_name t \<noteq> None \<and> t_task t \<noteq> None))"
  using sched_reach_ok [OF assms scheduler_create_fresh]
  by (auto simp: sched_ok_def list_all_iff task_ok_def)

definition demo_args :: "json option" where
  "demo_args = Some (JObject [(''name'', JString ''n''), (''task'', JString ''do it''), (''interval'', JString ''every 5 minutes'')])"

lemma demo_interval: "parse_interval ''every 5 minutes'' = 300"
  by code_simp

lemma demo_fields:
  "get_str demo_args ''name'' = Some ''n''" "get_str demo_args ''task'' = Some ''do it''"
  "get_str demo_args ''interval'' = Some ''every 5 minutes''" "get_str demo_args ''type'' = None"
  by code_simp+

lemma demo_add:
  "tasks (snd (tool_schedule_add 7 demo_args (scheduler_create True None None 0))) =
     [\<lparr>t_id = 1, t_name = Some ''n'', t_type = TASK_AGENT_TURN, t_task = Some ''do it'', interval_sec = 300,
       last_run = 7, paused = False, active = True\<rparr>]"
  using tool_schedule_add_cases [of 7 demo_args "scheduler_create True None None 0"]
  by (auto simp: demo_fields demo_interval scheduler_create_def MAX_TASKS_def)

lemma scheduler_table_invariant_witness:
  "distinct (map t_id (tasks (snd (tool_schedule_add 7 demo_args (scheduler_create True None None 0)))))
   \<and> map interval_sec (tasks (snd (tool_schedule_add 7 demo_args (scheduler_create True None None 0)))) = [300]"
proof -
  have "sched_reach (scheduler_create True None None 0)
          (snd (tool_schedule_add 7 demo_args (scheduler_create True None None 0)))"
    by (blast intro: step_intros)
  then show ?thesis using scheduler_table_invariant [of True None 0] by (simp add: demo_add)
qed

lemma due_after_run: "due now t \<Longrightarrow> due now' (t\<lparr>last_run := now\<rparr>) \<longleftrightarrow> now' \<ge> now + interval_sec t"
  by (auto simp: due_def)


definition demo_task :: sched_task where
  "demo_task = \<lparr>t_id = 1, t_name = Some ''n'', t_type = TASK_AGENT_TURN, t_task = Some ''do it'', interval_sec = 300,
       last_run = 7, paused = False, active = True\<rparr>"

definition demo_sched :: scheduler where
  "demo_sched = \<lparr>tasks = [demo_task], next_id = 2, has_bus = True, jobs_path = ''/w/jobs.json'', jobs_file = None\<rparr>"

lemma demo_sched_ok: "sched_ok demo_sched"
  by (simp add: sched_ok_def demo_sched_def demo_task_def task_ok_def MAX_TASKS_def)


text \<open>C21: what a restart restores. A scheduler created on the file the last save wrote holds exactly
  the active tasks, in order, with their identifiers, types, texts, intervals and pause flags;
  their clocks restart at the time of the restart, the table invariant holds, and new
  identifiers stay above the restored ones.\<close>

theorem scheduler_restart_roundtrip:
  assumes ok: "sched_ok s" and w: "w \<noteq> ''''" and path: "jobs_path s \<noteq> ''''"
    and p: "\<forall>t \<in> set (tasks s). active t \<longrightarrow> persistable t"
  shows "let s' = scheduler_create bus (Some w) (jobs_file (save_jobs s)) now
    in tasks s' = map (\<lambda>t. t\<lparr>last_run := now\<rparr>) (filter active (tasks s)) \<and> sched_ok s'"
proof -
  let ?ts = "filter active (tasks s)"
  have len: "length (tasks s) \<le> MAX_TASKS" using ok by (simp add: sched_ok_def)
  have ids: "\<forall>t \<in> set ?ts. t_id t < max 1 (next_id s)"
    using ok by (auto simp: sched_ok_def list_all_iff task_ok_def)
  have d: "distinct (map t_id ?ts)"
    using ok by (auto simp: sched_ok_def intro: distinct_map_filter)
  have "length ?ts \<le> MAX_TASKS" using len length_filter_le le_trans by blast
  moreover have "t_id \<circ> (\<lambda>t :: sched_task. t\<lparr>last_run := now\<rparr>) = t_id" by (rule ext) simp
  ultimately show ?thesis
    using scheduler_create_saved [OF w path len p, of bus now] ok d fold_max_id [OF _ ids, of 1]
    by (auto simp: Let_def sched_ok_def list_all_iff task_ok_def)
qed

lemma scheduler_restart_roundtrip_witness:
  "tasks (scheduler_create True (Some ''/w'') (jobs_file (save_jobs demo_sched)) 1000) = [demo_task\<lparr>last_run := 1000\<rparr>]"
proof -
  have "\<forall>t \<in> set (tasks demo_sched). active t \<longrightarrow> persistable t"
    by (simp add: demo_sched_def demo_task_def persistable_def int_range_def INT_MIN_def INT_MAX_def NUL_def)
  moreover have "''/w'' \<noteq> ''''" "jobs_path demo_sched \<noteq> ''''" by (simp_all add: demo_sched_def)
  ultimately show ?thesis
    using scheduler_restart_roundtrip [OF demo_sched_ok, of "''/w''" True 1000]
    by (simp add: Let_def) (simp add: demo_sched_def demo_task_def)
qed

text \<open>Deleting a task does not free its slot: once the table has held 64 tasks, every later
  \<open>schedule_add\<close> changes nothing, whatever has been deleted since.\<close>

theorem scheduler_slots_never_reclaimed:
  assumes "sched_reach s s'" and "length (tasks s) = MAX_TASKS"
  shows "snd (tool_schedule_add now args s') = s'"
proof -
  have "length (tasks s) \<le> length (tasks s')"
    using assms(1) by (induction rule: sched_reach.induct) (auto dest: tasks_length_step)
  with assms(2) show ?thesis using tool_schedule_add_cases [of now args s'] by linarith
qed

lemma scheduler_slots_never_reclaimed_witness:
  "snd (tool_schedule_add 9 demo_args (demo_sched\<lparr>tasks := replicate 64 (demo_task\<lparr>active := False\<rparr>)\<rparr>)) =
     demo_sched\<lparr>tasks := replicate 64 (demo_task\<lparr>active := False\<rparr>)\<rparr>"
  by (rule scheduler_slots_never_reclaimed [OF reach_refl]) (simp add: MAX_TASKS_def)

text \<open>Products of the interval parser wrap: 49711 days are accepted as 63104 seconds.\<close>

lemma parse_interval_wraps: "parse_interval ''every 49711 days'' = 63104"
proof -
  have "scan_int '' 49711 days'' = Some (49711, '' days'')"
    by (simp add: scan_int_def ltrim_def isspace_def isdigit_def byte_def digits_val_def digit_val_def)
  then have "scan_every ''every 49711 days'' = Some (49711, ''days'')"
    by (simp add: scan_every_def conv_int_def clamp_long_def wrap32_def ltrim_def isspace_def)
  moreover have "\<not> contains ''days'' ''sec''" "\<not> contains ''days'' ''min''" "\<not> contains ''days'' ''hour''"
    "contains ''days'' ''day''" by simp_all
  ultimately show ?thesis unfolding parse_interval_def by (simp add: wrap32_def)
qed

end
