(* ===== verification/Keyed_Store.thy ===== *)
theory Keyed_Store
  imports Main
begin

text \<open>
  The contract of a store of named settings, as the configuration and the memory file keep them:
  after an update that fits, the key has the new value and every other key its old one. A client
  that only knows this law can reason about any sequence of updates.
\<close>

locale keyed_store =
  fixes lookup :: "'s \<Rightarrow> 'k \<Rightarrow> string option"
    and update :: "'k \<Rightarrow> string \<Rightarrow> 's \<Rightarrow> 's"
    and fits :: "'k \<Rightarrow> string \<Rightarrow> 's \<Rightarrow> bool"
  assumes lookup_update: "fits k v s \<Longrightarrow> lookup (update k v s) k' = (if k' = k then Some v else lookup s k')"
begin

fun all_fit :: "('k \<times> string) list \<Rightarrow> 's \<Rightarrow> bool" where
  "all_fit [] s = True"
| "all_fit ((k, v) # us) s = (fits k v s \<and> all_fit us (update k v s))"

lemma lookup_updates:
  "all_fit us s \<Longrightarrow>
   lookup (fold (\<lambda>(k, v). update k v) us s) k =
     (case map_of (rev us) k of Some v \<Rightarrow> Some v | None \<Rightarrow> lookup s k)"
proof (induction us arbitrary: s)
  case (Cons u us)
  obtain k' v' where u: "u = (k', v')" by (cases u)
  with Cons have "lookup (fold (\<lambda>(k, v). update k v) us (update k' v' s)) k =
      (case map_of (rev us) k of Some v \<Rightarrow> Some v | None \<Rightarrow> lookup (update k' v' s) k)" by simp
  then show ?case using Cons.prems u lookup_update [of k' v' s k]
    by (auto simp: map_add_def split: option.split)
qed simp

lemma update_twice: "fits k v s \<Longrightarrow> fits k v' (update k v s) \<Longrightarrow>
    lookup (update k v' (update k v s)) = (lookup s)(k \<mapsto> v')"
  by (rule ext) (simp add: lookup_update)

lemma update_swap:
  assumes "k \<noteq> k'" "fits k v s" "fits k' v' (update k v s)" "fits k' v' s" "fits k v (update k' v' s)"
  shows "lookup (update k' v' (update k v s)) = lookup (update k v (update k' v' s))"
  using assms by (auto simp: fun_eq_iff lookup_update)

end

end
