(* ===== verification/Config.thy ===== *)
theory Config
  imports Core_Types Keyed_Store
begin

text \<open>
  Model of \<open>src/core/config.c\<close>: the INI-style configuration and the \<open>.env\<close> loader. A file is
  its content, \<open>None\<close> when it cannot be opened; the process environment is a map.
\<close>

section \<open>The configuration\<close>

definition MAX_ENTRIES :: nat where "MAX_ENTRIES = 256"
definition MAX_KEY_LEN :: nat where "MAX_KEY_LEN = 128"

record config_entry =
  ce_section :: string
  ce_key :: string
  ce_value :: string

type_synonym config = "config_entry list"

definition config_create :: config where
  "config_create = []"

definition is_entry :: "string \<Rightarrow> string \<Rightarrow> config_entry \<Rightarrow> bool" where
  "is_entry sec key e \<longleftrightarrow> ce_section e = sec \<and> ce_key e = key"

definition config_get :: "config option \<Rightarrow> string \<Rightarrow> string \<Rightarrow> string option \<Rightarrow> string option" where
  "config_get cfg sec key default_val =
     (case cfg of
        None \<Rightarrow> default_val
      | Some c \<Rightarrow> (case find (is_entry sec key) c of None \<Rightarrow> default_val | Some e \<Rightarrow> Some (ce_value e)))"

definition config_get_int :: "config option \<Rightarrow> string \<Rightarrow> string \<Rightarrow> int \<Rightarrow> int" where
  "config_get_int cfg sec key default_val =
     (case config_get cfg sec key None of None \<Rightarrow> default_val | Some v \<Rightarrow> atoi v)"

definition config_get_bool :: "config option \<Rightarrow> string \<Rightarrow> string \<Rightarrow> bool \<Rightarrow> bool" where
  "config_get_bool cfg sec key default_val =
     (case config_get cfg sec key None of
        None \<Rightarrow> default_val
      | Some v \<Rightarrow> v = ''true'' \<or> v = ''yes'' \<or> v = ''1'')"

text \<open>The first entry with the section and key gets the value.\<close>

fun set_value :: "string \<Rightarrow> string \<Rightarrow> string \<Rightarrow> config \<Rightarrow> config option" where
  "set_value sec key v [] = None"
| "set_value sec key v (e # es) =
     (if is_entry sec key e then Some (e\<lparr>ce_value := v\<rparr> # es) else map_option (Cons e) (set_value sec key v es))"

definition config_set :: "config \<Rightarrow> string \<Rightarrow> string \<Rightarrow> string \<Rightarrow> config" where
  "config_set cfg sec key v =
     (if length cfg \<ge> MAX_ENTRIES then cfg
      else case set_value sec key v cfg of
        Some cfg' \<Rightarrow> cfg'
      | None \<Rightarrow> cfg @ [\<lparr>ce_section = trunc_to MAX_KEY_LEN sec, ce_key = trunc_to MAX_KEY_LEN key, ce_value = v\<rparr>])"

text \<open>One line of the file, with the current section.\<close>

definition config_line :: "string \<Rightarrow> string \<times> config \<Rightarrow> string \<times> config" where
  "config_line line st =
     (case st of (sec, cfg) \<Rightarrow>
       (case ltrim line of
          [] \<Rightarrow> st
        | c # s \<Rightarrow>
            if c = CHR ''#'' \<or> c = CHR '';'' then st
            else if c = CHR ''['' then
              (if CHR '']'' \<in> set s then (trunc_to MAX_KEY_LEN (before (CHR '']'') s), cfg) else st)
            else (case strchr (CHR ''='') (c # s) of
                    None \<Rightarrow> st
                  | Some eq \<Rightarrow>
                      (let key = str_trim (before (CHR ''='') (c # s));
                           v0 = str_trim (tl eq);
                           v = (if v0 \<noteq> [] \<and> last v0 = NL then butlast v0 else v0)
                       in (sec, config_set cfg sec key v)))))"

definition config_load :: "string option \<Rightarrow> config" where
  "config_load file =
     (case file of
        None \<Rightarrow> config_create
      | Some content \<Rightarrow> snd (fold config_line (fgets_lines 1024 content) (''general'', config_create)))"

section \<open>The environment file\<close>

type_synonym env = "string \<Rightarrow> string option"

text \<open>\<open>setenv (key, val, 0)\<close>: an existing variable is kept.\<close>

definition setenv0 :: "string \<Rightarrow> string \<Rightarrow> env \<Rightarrow> env" where
  "setenv0 key v env = (if env key = None then env(key \<mapsto> v) else env)"

definition unquote :: "string \<Rightarrow> string" where
  "unquote v =
     (if length v \<ge> 2 \<and> ((hd v = DQ \<and> last v = DQ) \<or> (hd v = CHR 0x27 \<and> last v = CHR 0x27))
      then butlast (tl v) else v)"

text \<open>The variable a line defines.\<close>

definition env_line :: "string \<Rightarrow> (string \<times> string) option" where
  "env_line line =
     (let s0 = ltrim (rtrim_by (\<lambda>c. c = NL \<or> c = CR) line)
      in if s0 = [] \<or> hd s0 = CHR ''#'' \<or> hd s0 = CHR '';'' then None
         else
           let s = ltrim (if prefix ''export '' s0 then drop 7 s0 else s0)
           in case strchr (CHR ''='') s of
                None \<Rightarrow> None
              | Some eq \<Rightarrow>
                  (let key = rtrim_by isspace (before (CHR ''='') s)
                   in if key = [] then None else Some (key, unquote (ltrim (tl eq)))))"

definition env_step :: "string \<Rightarrow> nat \<times> env \<Rightarrow> nat \<times> env" where
  "env_step line st =
     (case env_line line of
        None \<Rightarrow> st
      | Some (key, v) \<Rightarrow> (fst st + 1, setenv0 key v (snd st)))"

definition env_load :: "string option \<Rightarrow> env \<Rightarrow> nat \<times> env" where
  "env_load file env =
     (case file of
        None \<Rightarrow> (0, env)
      | Some content \<Rightarrow> fold env_step (fgets_lines 1024 content) (0, env))"

section \<open>Lookup and update\<close>

lemma set_value_None: "set_value sec key v cfg = None \<longleftrightarrow> find (is_entry sec key) cfg = None"
  by (induction cfg) auto

lemma is_entry_update [simp]: "is_entry s k (e\<lparr>ce_value := v\<rparr>) = is_entry s k e"
  by (simp add: is_entry_def)

lemma is_entry_other: "is_entry sec key e \<Longrightarrow> is_entry s k e \<longleftrightarrow> s = sec \<and> k = key"
  by (auto simp: is_entry_def)

lemma find_set_value:
  "set_value sec key v cfg = Some cfg' \<Longrightarrow>
   map_option ce_value (find (is_entry s k) cfg') =
     (if s = sec \<and> k = key then Some v else map_option ce_value (find (is_entry s k) cfg))
   \<and> length cfg' = length cfg"
proof (induction cfg arbitrary: cfg')
  case (Cons e es)
  then show ?case by (cases "is_entry sec key e") (auto simp: is_entry_other dest: is_entry_other)
qed simp

lemma config_get_find:
  "config_get (Some cfg) s k d = (case map_option ce_value (find (is_entry s k) cfg) of None \<Rightarrow> d | Some v \<Rightarrow> Some v)"
  by (simp add: config_get_def split: option.split)

lemma config_get_set:
  assumes "length cfg < MAX_ENTRIES" "length sec < MAX_KEY_LEN" "length key < MAX_KEY_LEN"
  shows "config_get (Some (config_set cfg sec key v)) s k d =
    (if s = sec \<and> k = key then Some v else config_get (Some cfg) s k d)"
proof (cases "set_value sec key v cfg")
  case None
  then have "find (is_entry sec key) cfg = None" by (simp add: set_value_None)
  with None assms show ?thesis
    by (auto simp: config_set_def config_get_def find_append is_entry_def split: option.split)
next
  case (Some cfg')
  with assms show ?thesis
    using find_set_value [OF Some, of s k] by (auto simp: config_set_def config_get_find)
qed

interpretation settings: keyed_store
  "\<lambda>cfg (s, k). config_get (Some cfg) s k None" "\<lambda>(s, k) v cfg. config_set cfg s k v"
  "\<lambda>(s, k) v cfg. length cfg < MAX_ENTRIES \<and> length s < MAX_KEY_LEN \<and> length k < MAX_KEY_LEN"
  by unfold_locales (auto simp: config_get_set split: prod.splits)

lemma config_set_length: "length (config_set cfg sec key v) \<le> max (length cfg) MAX_ENTRIES"
  using find_set_value [of sec key v cfg] by (fastforce simp: config_set_def split: option.split)

text \<open>Any sequence of settings that fits acts like updates of a finite map.\<close>

lemma all_fit_room:
  "list_all (\<lambda>((s, k), v). length s < MAX_KEY_LEN \<and> length k < MAX_KEY_LEN) us \<Longrightarrow>
   length cfg + length us \<le> MAX_ENTRIES \<Longrightarrow> settings.all_fit us cfg"
proof (induction us arbitrary: cfg)
  case (Cons u us)
  obtain s k v where u: "u = ((s, k), v)" by (cases u) auto
  have "length (config_set cfg s k v) \<le> length cfg + 1"
    using find_set_value [of s k v cfg] by (fastforce simp: config_set_def split: option.split)
  with Cons u show ?case by simp
qed simp

text \<open>A sequence of at most 256 \<open>config_set\<close> calls on an empty configuration, with names that fit
  their 128-byte fields, is read back by \<open>config_get\<close> as the map of the last value set for each
  (section, key) pair, and the default for the others.\<close>

theorem config_settings:
  assumes "length us \<le> MAX_ENTRIES"
    and "list_all (\<lambda>((s, k), v). length s < MAX_KEY_LEN \<and> length k < MAX_KEY_LEN) us"
  shows "config_get (Some (fold (\<lambda>((s, k), v) cfg. config_set cfg s k v) us config_create)) sec key d =
    (case map_of (rev us) (sec, key) of Some v \<Rightarrow> Some v | None \<Rightarrow> d)"
proof -
  have "settings.all_fit us config_create"
    using all_fit_room [OF assms(2), of config_create] assms(1) by (simp add: config_create_def)
  from settings.lookup_updates [OF this, of "(sec, key)"]
  have "config_get (Some (fold (\<lambda>((s, k), v) cfg. config_set cfg s k v) us config_create)) sec key None =
      map_of (rev us) (sec, key)"
    by (simp add: case_prod_unfold config_get_def config_create_def split: option.split)
  then show ?thesis by (auto simp: config_get_def split: option.splits)
qed

lemma config_settings_witness:
  "config_get (Some (fold (\<lambda>((s, k), v) cfg. config_set cfg s k v)
      [((''a'', ''p''), ''1''), ((''a'', ''q''), ''2''), ((''a'', ''p''), ''3'')] config_create)) ''a'' ''p'' None = Some ''3''"
  using config_settings [of "[((''a'', ''p''), ''1''), ((''a'', ''q''), ''2''), ((''a'', ''p''), ''3'')]" "''a''" "''p''" None]
  by (simp add: MAX_ENTRIES_def MAX_KEY_LEN_def)

section \<open>Loading a file\<close>

definition trimmed :: "string \<Rightarrow> bool" where
  "trimmed s \<longleftrightarrow> s = [] \<or> (\<not> isspace (hd s) \<and> \<not> isspace (last s))"

text \<open>Entries the file format can carry.\<close>

definition clean_entry :: "config_entry \<Rightarrow> bool" where
  "clean_entry e \<longleftrightarrow>
     CHR '']'' \<notin> set (ce_section e) \<and> NL \<notin> set (ce_section e) \<and> length (ce_section e) < MAX_KEY_LEN
     \<and> ce_key e \<noteq> [] \<and> trimmed (ce_key e) \<and> CHR ''='' \<notin> set (ce_key e) \<and> NL \<notin> set (ce_key e)
     \<and> hd (ce_key e) \<notin> {CHR ''#'', CHR '';'', CHR ''[''} \<and> length (ce_key e) < MAX_KEY_LEN
     \<and> trimmed (ce_value e) \<and> NL \<notin> set (ce_value e) \<and> length (ce_value e) < 800"

definition render_entry :: "config_entry \<Rightarrow> string" where
  "render_entry e = ''['' @ ce_section e @ '']'' @ [NL] @ ce_key e @ '' = '' @ ce_value e @ [NL]"

lemma ltrim_Cons: "\<not> isspace c \<Longrightarrow> ltrim (c # s) = c # s"
  by (simp add: ltrim_def)

lemma str_trim_pad:
  assumes "trimmed s" "\<forall>c \<in> set a. isspace c" "\<forall>c \<in> set b. isspace c"
  shows "str_trim (a @ s @ b) = s"
proof (cases "s = []")
  case True
  have "dropWhile isspace (a @ b) = []" using assms(2,3) by (auto simp: dropWhile_eq_Nil_conv)
  with True show ?thesis by (simp add: str_trim_def ltrim_def)
next
  case False
  then obtain u c where u: "s = u @ [c]" by (metis rev_exhaust)
  have "ltrim (a @ s @ b) = s @ b"
    using assms False by (cases s) (auto simp: ltrim_def trimmed_def dropWhile_append)
  moreover have "rtrim_by isspace (s @ b) = s"
    using assms(1,3) False u by (auto simp: rtrim_by_def trimmed_def dropWhile_append)
  ultimately show ?thesis using False by (simp add: str_trim_def)
qed

lemma isspace_facts [simp]: "isspace SP" "isspace NL" "isspace CR" "\<not> isspace (CHR ''['')"
  by (simp_all add: isspace_def)

lemma config_line_section:
  assumes "CHR '']'' \<notin> set sec" "length sec < MAX_KEY_LEN"
  shows "config_line (''['' @ sec @ '']'' @ [NL]) (s0, cfg) = (sec, cfg)"
  using assms by (simp add: config_line_def ltrim_Cons)

lemma config_line_value:
  assumes "clean_entry e"
  shows "config_line (ce_key e @ '' = '' @ ce_value e @ [NL]) (sec, cfg) =
    (sec, config_set cfg sec (ce_key e) (ce_value e))"
proof -
  obtain c k where k: "ce_key e = c # k" using assms by (cases "ce_key e") (auto simp: clean_entry_def)
  have ne: "CHR ''='' \<notin> set (c # k)" and nl: "NL \<notin> set (ce_value e)"
    using assms k by (auto simp: clean_entry_def)
  have t: "str_trim ((c # k) @ '' '') = c # k"
    using str_trim_pad [of "c # k" "[]" "'' ''"] assms k by (simp add: clean_entry_def)
  have v: "str_trim ('' '' @ ce_value e @ [NL]) = ce_value e"
    using str_trim_pad [of "ce_value e" "'' ''" "[NL]"] assms by (simp add: clean_entry_def)
  have b: "before (CHR ''='') ((c # k) @ '' = '' @ ce_value e @ [NL]) = (c # k) @ '' ''"
    by (subst before_append_notin [OF ne]) simp
  have q: "strchr (CHR ''='') ((c # k) @ '' = '' @ ce_value e @ [NL]) = Some (''= '' @ ce_value e @ [NL])"
    by (subst strchr_append_notin [OF ne]) simp
  have c: "\<not> isspace c" "c \<noteq> CHR ''#''" "c \<noteq> CHR '';''" "c \<noteq> CHR ''[''"
    using assms k by (auto simp: clean_entry_def trimmed_def)
  have last: "\<not> (ce_value e \<noteq> [] \<and> last (ce_value e) = NL)" using nl last_in_set by metis
  have l: "ltrim ((c # k) @ '' = '' @ ce_value e @ [NL]) = c # (k @ '' = '' @ ce_value e @ [NL])"
    using c by (simp add: ltrim_Cons)
  show ?thesis
    unfolding config_line_def k prod.case l list.case
    using c t v b q last by (cases "ce_value e = []") (simp_all add: Let_def)
qed

lemma fgets_render:
  assumes "clean_entry e"
  shows "fgets_lines 1024 (render_entry e @ s) =
    (''['' @ ce_section e @ '']'' @ [NL]) # (ce_key e @ '' = '' @ ce_value e @ [NL]) # fgets_lines 1024 s"
proof -
  have 1: "NL \<notin> set (''['' @ ce_section e @ '']'')" "length (''['' @ ce_section e @ '']'') + 1 < 1024"
    using assms by (auto simp: clean_entry_def MAX_KEY_LEN_def)
  have 2: "NL \<notin> set (ce_key e @ '' = '' @ ce_value e)" "length (ce_key e @ '' = '' @ ce_value e) + 1 < 1024"
    using assms by (auto simp: clean_entry_def MAX_KEY_LEN_def)
  show ?thesis
    using fgets_lines_line [OF 1, of "ce_key e @ '' = '' @ ce_value e @ NL # s"] fgets_lines_line [OF 2, of s]
    by (simp add: render_entry_def)
qed

lemma config_set_fresh:
  assumes "clean_entry e" "length cfg < MAX_ENTRIES" "find (is_entry (ce_section e) (ce_key e)) cfg = None"
  shows "config_set cfg (ce_section e) (ce_key e) (ce_value e) = cfg @ [e]"
proof -
  have "set_value (ce_section e) (ce_key e) (ce_value e) cfg = None" using assms(3) by (simp add: set_value_None)
  with assms(1,2) show ?thesis by (simp add: config_set_def clean_entry_def)
qed

lemma config_load_entries:
  "list_all clean_entry es \<Longrightarrow> length (cfg @ es) \<le> MAX_ENTRIES \<Longrightarrow>
   distinct (map (\<lambda>e. (ce_section e, ce_key e)) (cfg @ es)) \<Longrightarrow>
   snd (fold config_line (fgets_lines 1024 (concat (map render_entry es))) (sec, cfg)) = cfg @ es"
proof (induction es arbitrary: cfg sec)
  case (Cons e es)
  have e: "clean_entry e" using Cons.prems by simp
  have "(ce_section e, ce_key e) \<notin> (\<lambda>e. (ce_section e, ce_key e)) ` set cfg"
    using Cons.prems(3) by simp
  then have fresh: "find (is_entry (ce_section e) (ce_key e)) cfg = None"
    unfolding find_None_iff is_entry_def by (metis (mono_tags, lifting) image_eqI)
  have room: "length cfg < MAX_ENTRIES" using Cons.prems(2) by simp
  note s = config_set_fresh [OF e room fresh]
  have sec: "CHR '']'' \<notin> set (ce_section e)" "length (ce_section e) < MAX_KEY_LEN"
    using e by (auto simp: clean_entry_def)
  have "snd (fold config_line (fgets_lines 1024 (concat (map render_entry (e # es)))) (sec, cfg)) =
    snd (fold config_line (fgets_lines 1024 (concat (map render_entry es))) (ce_section e, cfg @ [e]))"
    unfolding list.map concat.simps fgets_render [OF e] fold.simps o_apply
      config_line_section [OF sec] config_line_value [OF e] s ..
  also have "\<dots> = cfg @ e # es" using Cons.IH [of "cfg @ [e]" "ce_section e"] Cons.prems by simp
  finally show ?case .
qed simp

text \<open>A configuration file written one entry per section and line is loaded back entry by entry,
  in order, for any list of at most 256 entries with different (section, key) pairs and text the
  format can carry.\<close>

theorem config_load_roundtrip:
  assumes "list_all clean_entry es" and "length es \<le> MAX_ENTRIES"
    and "distinct (map (\<lambda>e. (ce_section e, ce_key e)) es)"
  shows "config_load (Some (concat (map render_entry es))) = es"
  using config_load_entries [of es "[]" "''general''"] assms by (simp add: config_load_def config_create_def)

lemma config_load_roundtrip_witness:
  "config_load (Some (''[a]'' @ [NL] @ ''k = v w'' @ [NL])) = [\<lparr>ce_section = ''a'', ce_key = ''k'', ce_value = ''v w''\<rparr>]"
  using config_load_roundtrip [of "[\<lparr>ce_section = ''a'', ce_key = ''k'', ce_value = ''v w''\<rparr>]"]
  by (simp add: clean_entry_def trimmed_def isspace_def MAX_ENTRIES_def MAX_KEY_LEN_def render_entry_def)

section \<open>The environment\<close>

lemma env_step_keeps: "env x = Some v \<Longrightarrow> snd (env_step l (n, env)) x = Some v"
  by (auto simp: env_step_def setenv0_def split: option.split)

lemma env_fold:
  "snd (fold env_step ls (n, env)) x =
     (case env x of
        Some v \<Rightarrow> Some v
      | None \<Rightarrow> map_of (List.map_filter env_line ls) x)
   \<and> fst (fold env_step ls (n, env)) = n + length (List.map_filter env_line ls)"
proof (induction ls arbitrary: n env)
  case (Cons l ls)
  show ?case
  proof (cases "env_line l")
    case None
    then have "env_step l (n, env) = (n, env)" by (simp add: env_step_def)
    with None show ?thesis using Cons.IH [of n env] by (simp add: map_filter_simps split: option.split)
  next
    case (Some kv)
    obtain k v where kv: "kv = (k, v)" by (cases kv)
    then have "env_step l (n, env) = (n + 1, setenv0 k v env)" using Some by (simp add: env_step_def)
    then show ?thesis using Cons.IH [of "n + 1" "setenv0 k v env"] Some kv
      by (auto simp: setenv0_def map_filter_simps split: option.split)
  qed
qed (simp add: map_filter_simps split: option.split)

text \<open>The environment after loading a \<open>.env\<close> file: a variable that was set before keeps its value
  (the shell wins over the file); otherwise the first line that defines it decides; every other
  variable stays unset. The count returned is the number of defining lines, also those that
  changed nothing.\<close>

theorem env_load_effect:
  "snd (env_load (Some content) env) x =
     (case env x of Some v \<Rightarrow> Some v | None \<Rightarrow> map_of (List.map_filter env_line (fgets_lines 1024 content)) x)
   \<and> fst (env_load (Some content) env) = length (List.map_filter env_line (fgets_lines 1024 content))"
  using env_fold [of "fgets_lines 1024 content" 0 env x] by (simp add: env_load_def)

lemma env_line_examples:
  "env_line (''export A = '' @ [DQ] @ ''x y'' @ [DQ]) = Some (''A'', ''x y'')"
  "env_line ''# A=1'' = None"
  by code_simp+

end
