(* ===== verification/History.thy ===== *)
theory History
  imports Core_Types
begin

text \<open>
  Model of \<open>src/history/history.c\<close>, the append-only log file. Date and time of day are the
  strings \<open>strftime\<close> gives and are arguments; \<open>writable\<close> says whether the file can be opened for
  writing.
\<close>

record history =
  last_date :: string
  log_file :: "string option"

definition CATEGORY_NAMES :: "string list" where
  "CATEGORY_NAMES = [''System Event'', ''Tool Execution'', ''Memory Update'', ''Model Change'', ''API Call'',
     ''Error'', ''Feature'', ''Fix'']"

definition history_header :: string where
  "history_header = [NL, NL] @ ''# History'' @ [NL, NL] @
     ''Chronological, append-only log of significant agent events.'' @ [NL, NL] @
     ''Purpose: auditability, debugging, execution traceability.'' @ [NL, NL] @
     ''**This file must never be rewritten or reordered.**'' @ [NL, NL] @ ''---'' @ [NL, NL]"

definition ensure_file :: "bool \<Rightarrow> string option \<Rightarrow> string option" where
  "ensure_file writable file =
     (case file of Some c \<Rightarrow> Some c | None \<Rightarrow> if writable then Some history_header else None)"

text \<open>The last date heading in the last 4096 bytes.\<close>

definition detect_line :: "string \<Rightarrow> string \<Rightarrow> string" where
  "detect_line line d = (if prefix ''## 20'' line then take 10 (take 15 (drop 3 line)) else d)"

definition detect_last_date :: "string option \<Rightarrow> string" where
  "detect_last_date file =
     (case file of None \<Rightarrow> ''''
      | Some c \<Rightarrow> fold detect_line (fgets_lines 256 (drop (if length c > 4096 then length c - 4096 else 0) c)) '''')"

definition history_create :: "bool \<Rightarrow> string option \<Rightarrow> history" where
  "history_create writable file =
     (let f = ensure_file writable file in \<lparr>last_date = detect_last_date f, log_file = f\<rparr>)"

text \<open>The details, one bullet per non-empty line.\<close>

function detail_text :: "string \<Rightarrow> string" where
  "detail_text p =
     (if p = [] then []
      else let l = before NL p; r = drop (length l + 1) p
           in (if l = [] then []
               else if hd p = CHR ''-'' \<or> hd p = CHR ''*'' then l @ [NL]
               else ''- '' @ l @ [NL]) @ detail_text r)"
  by pat_completeness auto
termination
  by (relation "measure length") auto

declare detail_text.simps [simp del]

definition category_name :: "int \<Rightarrow> string" where
  "category_name c =
     (if 0 \<le> c \<and> c < int (length CATEGORY_NAMES) then CATEGORY_NAMES ! nat c else ''Event'')"

definition entry_text :: "int \<Rightarrow> string \<Rightarrow> string \<Rightarrow> string option \<Rightarrow> string" where
  "entry_text cat ts title details =
     ''### ['' @ category_name cat @ ''] '' @ title @ [NL] @ ''- Time: '' @ ts @ [NL] @
     (case details of None \<Rightarrow> [] | Some d \<Rightarrow> detail_text d) @ [NL]"

definition date_heading :: "string \<Rightarrow> string" where
  "date_heading d = [NL] @ ''## '' @ d @ [NL, NL]"

definition history_log ::
  "bool \<Rightarrow> string \<Rightarrow> string \<Rightarrow> int \<Rightarrow> string option \<Rightarrow> string option \<Rightarrow> history \<Rightarrow> history" where
  "history_log writable date ts cat title details h =
     (case title of
        None \<Rightarrow> h
      | Some t \<Rightarrow>
          if \<not> writable then h
          else
            let old = (case log_file h of None \<Rightarrow> [] | Some c \<Rightarrow> c);
                head = (if date \<noteq> last_date h then date_heading date else [])
            in \<lparr>last_date = (if date \<noteq> last_date h then trunc_to 16 date else last_date h),
                log_file = Some (old @ head @ entry_text cat ts t details)\<rparr>)"

section \<open>The log only grows\<close>

record log_event =
  ev_date :: string
  ev_time :: string
  ev_cat :: int
  ev_title :: string
  ev_details :: "string option"

definition log_event :: "log_event \<Rightarrow> history \<Rightarrow> history" where
  "log_event e h = history_log True (ev_date e) (ev_time e) (ev_cat e) (Some (ev_title e)) (ev_details e) h"

text \<open>What a reader expects in the file: entries grouped under one heading per run of equal dates.\<close>

fun grouped :: "string \<Rightarrow> log_event list \<Rightarrow> string" where
  "grouped d [] = []"
| "grouped d (e # es) =
     (if ev_date e \<noteq> d then date_heading (ev_date e) else []) @
     entry_text (ev_cat e) (ev_time e) (ev_title e) (ev_details e) @ grouped (ev_date e) es"

lemma log_event_fold:
  assumes "\<forall>e \<in> set es. length (ev_date e) < 16" "log_file h = Some c"
  shows "log_file (fold log_event es h) = Some (c @ grouped (last_date h) es)"
  using assms
proof (induction es arbitrary: h c)
  case (Cons e es)
  let ?h = "log_event e h"
  have d: "last_date ?h = ev_date e" using Cons.prems by (simp add: log_event_def history_log_def Let_def)
  have f: "log_file ?h = Some (c @ (if ev_date e \<noteq> last_date h then date_heading (ev_date e) else []) @
      entry_text (ev_cat e) (ev_time e) (ev_title e) (ev_details e))"
    using Cons.prems by (simp add: log_event_def history_log_def Let_def)
  show ?case using Cons.IH [OF _ f] Cons.prems(1) d by simp
qed simp

text \<open>The history file is append-only: whatever is logged, what the file held before stays its
  beginning, and the new entries follow in order, with one date heading for each change of date.\<close>

theorem history_append_only:
  assumes "\<forall>e \<in> set es. length (ev_date e) < 16"
  shows "log_file (fold log_event es (history_create True (Some c))) =
    Some (c @ grouped (detect_last_date (Some c)) es)"
  using log_event_fold [OF assms, of "history_create True (Some c)" c]
  by (simp add: history_create_def ensure_file_def Let_def)

lemma history_append_only_witness:
  "log_file (fold log_event
     [\<lparr>ev_date = ''2026-01-02'', ev_time = ''10:00:00'', ev_cat = 0, ev_title = ''t'', ev_details = None\<rparr>]
     (history_create True (Some ''x''))) =
   Some (''x'' @ grouped (detect_last_date (Some ''x''))
     [\<lparr>ev_date = ''2026-01-02'', ev_time = ''10:00:00'', ev_cat = 0, ev_title = ''t'', ev_details = None\<rparr>])"
  by (rule history_append_only) simp

end
