(* ===== verification/Md_Memory.thy ===== *)
theory Md_Memory
  imports Json_Props Config
begin

text \<open>
  Model of \<open>src/memory/md_memory.c\<close>: the facts kept as bullets under the headings of
  \<open>MEMORY.md\<close>. The file is its content (\<open>None\<close>: no file); the outcome of writing it is an
  argument. A result \<open>None\<close> of a model function is undefined behaviour of the code: a read past
  the line buffer, or a NULL string given to \<open>strcmp\<close>.
\<close>

definition MEMORY_FILE :: string where "MEMORY_FILE = ''MEMORY.md''"
definition MAX_FILE_SIZE :: nat where "MAX_FILE_SIZE = 256 * 1024"

definition CANONICAL_SECTIONS :: "string list" where
  "CANONICAL_SECTIONS = [''User Information'', ''Preferences'', ''Project Context'', ''Important Notes'']"

record memory =
  mem_path :: string
  mem_file :: "string option"

definition canonicalise_section :: "string option \<Rightarrow> string" where
  "canonicalise_section category =
     (case category of
        None \<Rightarrow> CANONICAL_SECTIONS ! 3
      | Some c \<Rightarrow>
          (case find (\<lambda>s. strcasestr s c \<or> strcasestr c s) CANONICAL_SECTIONS of
             Some s \<Rightarrow> s
           | None \<Rightarrow>
               if strcasestr c ''user'' \<or> strcasestr c ''person'' then CANONICAL_SECTIONS ! 0
               else if strcasestr c ''pref'' \<or> strcasestr c ''setting'' then CANONICAL_SECTIONS ! 1
               else if strcasestr c ''project'' \<or> strcasestr c ''task'' then CANONICAL_SECTIONS ! 2
               else CANONICAL_SECTIONS ! 3))"

section \<open>The file\<close>

definition read_memory_file :: "memory \<Rightarrow> string" where
  "read_memory_file mem =
     (case mem_file mem of None \<Rightarrow> '''' | Some c \<Rightarrow> if c = [] \<or> length c > MAX_FILE_SIZE then '''' else c)"

text \<open>The outcome of the temporary file and the rename; the string is \<open>strerror (errno)\<close>.\<close>

datatype write_outcome = WriteOk | OpenFails string | RenameFails string

definition write_memory_file :: "write_outcome \<Rightarrow> memory \<Rightarrow> string \<Rightarrow> result \<times> memory" where
  "write_memory_file w mem content =
     (let tmp = trunc_to 520 (mem_path mem @ ''.tmp'')
      in case w of
           WriteOk \<Rightarrow> (ok, mem\<lparr>mem_file := Some content\<rparr>)
         | OpenFails e \<Rightarrow> (err ERR_IO (''Cannot write '' @ tmp @ '': '' @ e), mem)
         | RenameFails e \<Rightarrow> (err ERR_IO (''Cannot rename '' @ tmp @ '': '' @ e), mem))"

definition initial_memory :: string where
  "initial_memory =
     ''# Long-term Memory'' @ [NL, NL] @
     ''This file stores important information that should persist across sessions.'' @ [NL, NL] @
     ''## User Information'' @ [NL, NL] @ ''## Preferences'' @ [NL, NL] @
     ''## Project Context'' @ [NL, NL] @ ''## Important Notes'' @ [NL]"

text \<open>The lines of the scanning loops, each with its newline.\<close>

fun lines_of :: "string \<Rightarrow> string list" where
  "lines_of [] = []"
| "lines_of (c # s) =
     (if c = NL then [c] # lines_of s
      else case lines_of s of [] \<Rightarrow> [[c]] | l # ls \<Rightarrow> (c # l) # ls)"

text \<open>The copy of a line in \<open>linebuf\<close>, and what the loops read from it.\<close>

definition linebuf :: "string \<Rightarrow> string" where
  "linebuf l = take 2047 l"

definition store_heading :: "string \<Rightarrow> string" where
  "store_heading lb = before CR (before NL (take 255 (drop 3 lb)))"

definition recall_heading :: "string \<Rightarrow> string" where
  "recall_heading lb = str_trim (before NL (take 255 (drop 3 lb)))"

definition existing_key :: "string \<Rightarrow> string" where
  "existing_key lb =
     (if CHR '':'' \<in> set (drop 2 lb) \<and> length (before (CHR '':'') (drop 2 lb)) < 512
      then before (CHR '':'') (drop 2 lb) else '''')"

section \<open>Operations\<close>

text \<open>
  The loop of \<open>memory_store\<close> with its flags \<open>in_target\<close>, \<open>key_written\<close> and \<open>section_found\<close>, and
  what follows it: the pieces written to the output buffer. A kept line of more than 2047 bytes is
  copied from beyond the end of \<open>linebuf\<close>.
\<close>

fun store_loop ::
  "string \<Rightarrow> string \<Rightarrow> string \<Rightarrow> bool \<Rightarrow> bool \<Rightarrow> bool \<Rightarrow> string list \<Rightarrow> string list option" where
  "store_loop sec key bullet t w f [] =
     Some (if w then []
           else if \<not> f then [[NL], ''## '' @ sec @ [NL], [NL], bullet @ [NL]]
           else [bullet @ [NL]])"
| "store_loop sec key bullet t w f (l # ls) =
     (let lb = linebuf l;
          h = prefix ''## '' lb;
          pre = (if h \<and> t \<and> \<not> w then [bullet @ [NL]] else []);
          w' = (w \<or> h \<and> t);
          t' = (if h then store_heading lb = sec else t);
          f' = (f \<or> h \<and> t')
      in if t' \<and> prefix ''- '' lb \<and> str_trim (existing_key lb) = key then
           map_option (\<lambda>out. pre @ (bullet @ [NL]) # out) (store_loop sec key bullet t' True f' ls)
         else if length l > 2047 then None
         else map_option (\<lambda>out. pre @ l # out) (store_loop sec key bullet t' w' f' ls))"

definition memory_store ::
  "write_outcome \<Rightarrow> memory \<Rightarrow> string option \<Rightarrow> string option \<Rightarrow> string option \<Rightarrow> (result \<times> memory) option" where
  "memory_store wo mem category key value =
     (case (key, value) of
        (Some k, Some v) \<Rightarrow>
          (if k = '''' then Some (err ERR_GENERIC ''key and value are required'', mem)
           else
             let sec = canonicalise_section category;
                 bullet = trunc_to 2048 (''- '' @ k @ '': '' @ v)
             in map_option (\<lambda>out. write_memory_file wo mem (concat out))
                  (store_loop sec k bullet False False False (lines_of (read_memory_file mem))))
      | _ \<Rightarrow> Some (err ERR_GENERIC ''key and value are required'', mem))"

fun recall_loop :: "string \<Rightarrow> string option \<Rightarrow> bool \<Rightarrow> string list \<Rightarrow> string option option" where
  "recall_loop sec key t [] = Some None"
| "recall_loop sec key t (l # ls) =
     (let lb = linebuf l
      in if prefix ''## '' lb then recall_loop sec key (recall_heading lb = sec) ls
         else if t \<and> prefix ''- '' lb then
           (case strchr (CHR '':'') (drop 2 lb) of
              None \<Rightarrow> recall_loop sec key t ls
            | Some colon \<Rightarrow>
                (case key of
                   None \<Rightarrow> None
                 | Some k \<Rightarrow>
                     if str_trim (existing_key lb) = k then Some (Some (str_trim (trunc_to 512 (tl colon))))
                     else recall_loop sec key t ls))
         else recall_loop sec key t ls)"

definition memory_recall :: "memory \<Rightarrow> string option \<Rightarrow> string option \<Rightarrow> string option option" where
  "memory_recall mem category key =
     recall_loop (canonicalise_section category) key False (lines_of (read_memory_file mem))"

fun search_loop :: "string \<Rightarrow> nat \<Rightarrow> string list \<Rightarrow> string option" where
  "search_loop query m [] =
     Some (if m = 0 then ''No memories matching '' @ [DQ] @ query @ [DQ] @ ''.'' else '''')"
| "search_loop query m (l # ls) =
     (if strcasestr (linebuf l) query then
        (if length l > 2047 then None
         else map_option (\<lambda>out. (if m = 0 then ''Results for '' @ [DQ] @ query @ [DQ] @ '':'' @ [NL, NL] else '''')
                @ ''  '' @ l @ out) (search_loop query (m + 1) ls))
      else search_loop query m ls)"

definition memory_search :: "memory \<Rightarrow> string \<Rightarrow> string option" where
  "memory_search mem query = search_loop query 0 (lines_of (read_memory_file mem))"

definition memory_get_context :: "memory \<Rightarrow> string" where
  "memory_get_context mem =
     ''## Persistent Memory'' @ [NL] @ ''Below is your long-term memory. Use memory_store to update it, '' @
     ''memory_recall to look up a specific fact.'' @ [NL, NL] @ read_memory_file mem"

text \<open>
  Migration over the directory entries in the order \<open>readdir\<close> gives them, each with its content
  (\<open>None\<close>: it cannot be opened). The result lists the files that were deleted; paths are assumed
  to fit their 512-byte buffer.
\<close>

fun migrate_legacy_files ::
  "write_outcome \<Rightarrow> memory \<Rightarrow> (string \<times> string option) list \<Rightarrow> (string list \<times> memory) option" where
  "migrate_legacy_files wo mem [] = Some ([], mem)"
| "migrate_legacy_files wo mem ((name, file) # es) =
     (if \<not> str_ends_with (Some name) (Some ''.md'') \<or> name = MEMORY_FILE then migrate_legacy_files wo mem es
      else case file of
        None \<Rightarrow> migrate_legacy_files wo mem es
      | Some c \<Rightarrow>
          (case (if c = [] then Some mem
                 else map_option snd (memory_store wo mem (Some ''Important Notes'') (Some name) (Some c))) of
             None \<Rightarrow> None
           | Some mem' \<Rightarrow> map_option (\<lambda>(gone, m). (name # gone, m)) (migrate_legacy_files wo mem' es)))"

definition memory_create ::
  "write_outcome \<Rightarrow> bool \<Rightarrow> string option \<Rightarrow> string option \<Rightarrow> (string \<times> string option) list \<Rightarrow>
   (string list \<times> memory) option" where
  "memory_create wo can_create base_dir file entries =
     (let dir = (case base_dir of None \<Rightarrow> ''memory'' | Some d \<Rightarrow> d);
          f = (if file = None \<and> can_create then Some initial_memory else file)
      in migrate_legacy_files wo \<lparr>mem_path = trunc_to 512 (dir @ ''/'' @ MEMORY_FILE), mem_file = f\<rparr> entries)"

section \<open>Tools\<close>

definition section_arg :: "json option \<Rightarrow> string option" where
  "section_arg args =
     (case get_str args ''section'' of None \<Rightarrow> get_str args ''category'' | Some s \<Rightarrow> Some s)"

definition tool_memory_store :: "write_outcome \<Rightarrow> json option \<Rightarrow> memory \<Rightarrow> (string \<times> memory) option" where
  \<open>tool_memory_store wo args mem =
     (case memory_store wo mem (section_arg args) (get_str args ''key'') (get_str args ''value'') of
        None \<Rightarrow> None
      | Some (r, mem') \<Rightarrow>
          Some (if r_status r \<noteq> OK
                then cJSON_PrintUnformatted (cJSON_AddStringToObject (JObject []) ''error'' (r_message r))
                else ''{"status":"stored"}'', mem'))\<close>

definition tool_memory_recall :: "json option \<Rightarrow> memory \<Rightarrow> string option" where
  "tool_memory_recall args mem =
     map_option (\<lambda>v. cJSON_PrintUnformatted (case v of
         Some val \<Rightarrow> JObject [(''value'', JString val)]
       | None \<Rightarrow> JObject [(''error'', JString ''not found'')]))
       (memory_recall mem (section_arg args) (get_str args ''key''))"

definition tool_memory_search :: "json option \<Rightarrow> memory \<Rightarrow> string option" where
  \<open>tool_memory_search args mem =
     (case get_str args ''query'' of
        None \<Rightarrow> Some ''{"error":"query required"}''
      | Some q \<Rightarrow> if q = '''' then Some ''{"error":"query required"}'' else memory_search mem q)\<close>

section \<open>Lines\<close>

definition is_line :: "string \<Rightarrow> bool" where
  "is_line l \<longleftrightarrow> (\<exists>u. l = u @ [NL] \<and> NL \<notin> set u)"

lemma lines_of_line: "NL \<notin> set u \<Longrightarrow> lines_of (u @ NL # s) = (u @ [NL]) # lines_of s"
  by (induction u) auto

lemma lines_of_concat: "list_all is_line ls \<Longrightarrow> lines_of (concat ls) = ls"
  by (induction ls) (auto simp: is_line_def lines_of_line)

lemma concat_lines_of: "concat (lines_of s) = s"
  by (induction s rule: lines_of.induct) (auto split: list.split)

lemma lines_of_is_line: "s = [] \<or> last s = NL \<Longrightarrow> list_all is_line (lines_of s)"
proof (induction s rule: lines_of.induct)
  case (2 c s)
  have s: "list_all is_line (lines_of s)" if "c \<noteq> NL" using that 2 by (cases s) auto
  show ?case
  proof (cases "c = NL")
    case True
    have "is_line [NL]" by (simp add: is_line_def)
    with True 2 show ?thesis by (cases s) auto
  next
    case False
    with 2 have "s \<noteq> []" by auto
    then have "lines_of s \<noteq> []" using concat_lines_of [of s] by auto
    then obtain l ls where l: "lines_of s = l # ls" by (cases "lines_of s") auto
    then obtain u where "l = u @ [NL]" "NL \<notin> set u" using s [OF False] by (auto simp: is_line_def)
    then have "is_line (c # l)" using False unfolding is_line_def by (metis Cons_eq_appendI set_ConsD)
    with l s [OF False] False show ?thesis by simp
  qed
qed simp

section \<open>A stored fact is recalled\<close>

text \<open>Keys and values the bullet format can carry.\<close>

definition clean_fact :: "string \<Rightarrow> string \<Rightarrow> bool" where
  "clean_fact k v \<longleftrightarrow> k \<noteq> [] \<and> trimmed k \<and> CHR '':'' \<notin> set k \<and> NL \<notin> set k \<and> length k < 512
     \<and> trimmed v \<and> NL \<notin> set v \<and> length v < 510"

definition bullet_of :: "string \<Rightarrow> string \<Rightarrow> string" where
  "bullet_of k v = ''- '' @ k @ '': '' @ v"

text \<open>Lines that fit the buffer, and headings both loops read in the same way.\<close>

definition regular :: "string \<Rightarrow> bool" where
  "regular l \<longleftrightarrow> length l \<le> 2047
     \<and> (prefix ''## '' l \<longrightarrow> (\<forall>s \<in> set CANONICAL_SECTIONS. store_heading l = s \<longleftrightarrow> recall_heading l = s))"

lemma bullet_trunc: "clean_fact k v \<Longrightarrow> trunc_to 2048 (''- '' @ k @ '': '' @ v) = bullet_of k v"
  by (simp add: clean_fact_def bullet_of_def)

lemma bullet_line:
  assumes "clean_fact k v"
  shows "linebuf (bullet_of k v @ [NL]) = bullet_of k v @ [NL]"
    and "\<not> prefix ''## '' (bullet_of k v @ [NL])" and "prefix ''- '' (bullet_of k v @ [NL])"
    and "existing_key (bullet_of k v @ [NL]) = k"
    and "strchr (CHR '':'') (drop 2 (bullet_of k v @ [NL])) = Some ('': '' @ v @ [NL])"
    and "str_trim k = k" and "str_trim (trunc_to 512 ('' '' @ v @ [NL])) = v"
    and "is_line (bullet_of k v @ [NL])" and "length (bullet_of k v @ [NL]) \<le> 2047"
proof -
  have k: "CHR '':'' \<notin> set k" "length k < 512" "trimmed k" "NL \<notin> set k"
    and v: "trimmed v" "length v < 510" "NL \<notin> set v"
    using assms by (auto simp: clean_fact_def)
  show len: "length (bullet_of k v @ [NL]) \<le> 2047" using k v by (simp add: bullet_of_def)
  then show "linebuf (bullet_of k v @ [NL]) = bullet_of k v @ [NL]" unfolding linebuf_def by (rule take_all)
  show "\<not> prefix ''## '' (bullet_of k v @ [NL])" "prefix ''- '' (bullet_of k v @ [NL])"
    by (simp_all add: bullet_of_def)
  have "before (CHR '':'') (k @ '': '' @ v @ [NL]) = k" by (subst before_append_notin [OF k(1)]) simp
  then show "existing_key (bullet_of k v @ [NL]) = k" using k by (simp add: existing_key_def bullet_of_def)
  show "strchr (CHR '':'') (drop 2 (bullet_of k v @ [NL])) = Some ('': '' @ v @ [NL])"
    using k(1) by (simp add: bullet_of_def)
  show "str_trim k = k" using str_trim_pad [OF k(3), of "[]" "[]"] by simp
  show "str_trim (trunc_to 512 ('' '' @ v @ [NL])) = v"
    using str_trim_pad [OF v(1), of "'' ''" "[NL]"] v(2) by simp
  have "NL \<notin> set (bullet_of k v)" using k v by (simp add: bullet_of_def)
  then show "is_line (bullet_of k v @ [NL])" unfolding is_line_def by blast
qed

lemma recall_bullet:
  assumes "clean_fact k v"
  shows "recall_loop sec (Some k') t ((bullet_of k v @ [NL]) # ls) =
    (if t \<and> k' = k then Some (Some v) else recall_loop sec (Some k') t ls)"
  using bullet_line [OF assms] by (simp add: Let_def del: append.simps append_assoc)

lemma canonical_facts:
  assumes "s \<in> set CANONICAL_SECTIONS"
  shows "canonicalise_section (Some s) = s" and "store_heading (''## '' @ s @ [NL]) = s"
    and "recall_heading (''## '' @ s @ [NL]) = s" and "NL \<notin> set s" and "length s < 20"
proof -
  have "list_all (\<lambda>s. canonicalise_section (Some s) = s \<and> store_heading (''## '' @ s @ [NL]) = s
      \<and> recall_heading (''## '' @ s @ [NL]) = s \<and> NL \<notin> set s \<and> length s < 20) CANONICAL_SECTIONS"
    by code_simp
  with assms show "canonicalise_section (Some s) = s" "store_heading (''## '' @ s @ [NL]) = s"
    "recall_heading (''## '' @ s @ [NL]) = s" "NL \<notin> set s" "length s < 20"
    by (auto simp: list_all_iff)
qed

lemma regular_linebuf: "regular l \<Longrightarrow> linebuf l = l"
  by (simp add: regular_def linebuf_def)

lemma heading_not_bullet: "prefix ''## '' l \<Longrightarrow> \<not> prefix ''- '' l"
  by (cases l) auto

lemma regular_heading:
  "regular l \<Longrightarrow> prefix ''## '' l \<Longrightarrow> s \<in> set CANONICAL_SECTIONS \<Longrightarrow> store_heading l = s \<longleftrightarrow> recall_heading l = s"
  by (simp add: regular_def)

lemma recall_new_section:
  assumes "clean_fact k v" "sec \<in> set CANONICAL_SECTIONS"
  shows "recall_loop sec' (Some k') t [[NL], ''## '' @ sec @ [NL], [NL], bullet_of k v @ [NL]] =
    Some (if sec' = sec \<and> k' = k then Some v else None)"
proof -
  have l: "linebuf (''## '' @ sec @ [NL]) = ''## '' @ sec @ [NL]" "linebuf [NL] = [NL]"
    using canonical_facts(5) [OF assms(2)] by (simp_all add: linebuf_def)
  have "recall_loop sec' (Some k') t [[NL], ''## '' @ sec @ [NL], [NL], bullet_of k v @ [NL]] =
      recall_loop sec' (Some k') (sec = sec') [bullet_of k v @ [NL]]"
    using l canonical_facts(3) [OF assms(2)] by (simp add: Let_def)
  then show ?thesis using recall_bullet [OF assms(1)] by (auto simp del: recall_loop.simps(2))
qed

lemma recall_other_key:
  "prefix ''- '' l \<Longrightarrow> regular l \<Longrightarrow> str_trim (existing_key l) \<noteq> k \<Longrightarrow>
   recall_loop sec (Some k) t (l # ls) = recall_loop sec (Some k) t ls"
  using heading_not_bullet [of l] by (auto simp: regular_linebuf Let_def split: option.split)

lemma recall_heading_line:
  "prefix ''## '' l \<Longrightarrow> regular l \<Longrightarrow> recall_loop sec (Some k) t (l # ls) = recall_loop sec (Some k) (recall_heading l = sec) ls"
  by (simp add: regular_linebuf Let_def)

lemma recall_plain_line:
  "\<not> prefix ''## '' l \<Longrightarrow> regular l \<Longrightarrow> \<not> t \<or> \<not> prefix ''- '' l \<Longrightarrow>
   recall_loop sec (Some k) t (l # ls) = recall_loop sec (Some k) t ls"
  by (auto simp: regular_linebuf Let_def)

text \<open>One line of the storing loop, for a regular line.\<close>

lemma store_line:
  assumes "regular l"
  shows "store_loop sec k b t w f (l # ls) =
    (if prefix ''## '' l then
       map_option (\<lambda>out. (if t \<and> \<not> w then [b @ [NL]] else []) @ l # out)
         (store_loop sec k b (store_heading l = sec) (w \<or> t) (f \<or> store_heading l = sec) ls)
     else if t \<and> prefix ''- '' l \<and> str_trim (existing_key l) = k then
       map_option (\<lambda>out. (b @ [NL]) # out) (store_loop sec k b t True f ls)
     else map_option (\<lambda>out. l # out) (store_loop sec k b t w f ls))"
  using assms heading_not_bullet [of l] by (auto simp: regular_linebuf Let_def regular_def)

declare store_loop.simps(2) [simp del] recall_loop.simps(2) [simp del]

lemma store_recall_other:
  assumes fact: "clean_fact k v" and sec: "sec \<in> set CANONICAL_SECTIONS" "sec' \<in> set CANONICAL_SECTIONS"
    and ne: "(sec', k') \<noteq> (sec, k)"
  shows "store_loop sec k (bullet_of k v) t w f ls = Some out \<Longrightarrow> list_all regular ls \<Longrightarrow>
    (if sec' = sec then t' = t else t \<longrightarrow> \<not> t') \<Longrightarrow> (f \<and> \<not> w \<longrightarrow> t) \<Longrightarrow>
    recall_loop sec' (Some k') t' out = recall_loop sec' (Some k') t' ls"
proof (induction ls arbitrary: t t' w f out)
  case Nil
  then show ?case
    using recall_new_section [OF fact sec(1), of sec' k' t'] recall_bullet [OF fact, of sec' k' t' "[]"] ne
    by (auto split: if_splits)
next
  case (Cons l ls)
  have r: "regular l" and rs: "list_all regular ls" using Cons.prems by auto
  have skip: "recall_loop sec' (Some k') t' ((bullet_of k v @ [NL]) # xs) = recall_loop sec' (Some k') t' xs"
    if "t" for xs
    using recall_bullet [OF fact, of sec' k' t' xs] Cons.prems(3) ne that by (auto split: if_splits)
  consider (heading) "prefix ''## '' l"
    | (hit) "\<not> prefix ''## '' l" "t" "prefix ''- '' l" "str_trim (existing_key l) = k"
    | (keep) "\<not> prefix ''## '' l" "\<not> (t \<and> prefix ''- '' l \<and> str_trim (existing_key l) = k)" by blast
  then show ?case
  proof cases
    case heading
    then obtain o1 where o1: "store_loop sec k (bullet_of k v) (store_heading l = sec) (w \<or> t)
        (f \<or> store_heading l = sec) ls = Some o1"
      and out: "out = (if t \<and> \<not> w then [bullet_of k v @ [NL]] else []) @ l # o1"
      using Cons.prems(1) store_line [OF r] by auto
    have inv: "(f \<or> store_heading l = sec) \<and> \<not> (w \<or> t) \<longrightarrow> store_heading l = sec"
      using Cons.prems(4) by blast
    have rel: "if sec' = sec then (recall_heading l = sec') = (store_heading l = sec)
        else store_heading l = sec \<longrightarrow> \<not> (recall_heading l = sec')"
      using regular_heading [OF r heading] sec by auto
    have "recall_loop sec' (Some k') t' out = recall_loop sec' (Some k') (recall_heading l = sec') o1"
      using out skip recall_heading_line [OF heading r] by auto
    also have "\<dots> = recall_loop sec' (Some k') (recall_heading l = sec') ls"
      by (rule Cons.IH [OF o1 rs rel inv])
    finally show ?thesis using recall_heading_line [OF heading r] by simp
  next
    case hit
    then obtain o1 where o1: "store_loop sec k (bullet_of k v) t True f ls = Some o1"
      and out: "out = (bullet_of k v @ [NL]) # o1"
      using Cons.prems(1) store_line [OF r] by auto
    have "recall_loop sec' (Some k') t' out = recall_loop sec' (Some k') t' ls"
      using Cons.IH [OF o1 rs Cons.prems(3)] out skip [OF hit(2)] by simp
    moreover have "recall_loop sec' (Some k') t' (l # ls) = recall_loop sec' (Some k') t' ls"
    proof (cases "sec' = sec")
      case True
      then have "str_trim (existing_key l) \<noteq> k'" using ne hit by auto
      then show ?thesis using recall_other_key [OF hit(3) r] by simp
    next
      case False
      then show ?thesis using recall_plain_line [OF hit(1) r] Cons.prems(3) hit(2) by simp
    qed
    ultimately show ?thesis by simp
  next
    case keep
    then obtain o1 where o1: "store_loop sec k (bullet_of k v) t w f ls = Some o1" and out: "out = l # o1"
      using Cons.prems(1) store_line [OF r] by auto
    have IH: "recall_loop sec' (Some k') t' o1 = recall_loop sec' (Some k') t' ls"
      using Cons.IH [OF o1 rs Cons.prems(3,4)] .
    show ?thesis unfolding out
      using IH by (cases t')
        (auto simp add: recall_loop.simps(2) Let_def keep(1) regular_linebuf [OF r] simp del: strchr_None
          split: option.split)
  qed
qed

lemma store_recall_same:
  assumes fact: "clean_fact k v" and sec: "sec \<in> set CANONICAL_SECTIONS"
  shows "store_loop sec k (bullet_of k v) t False f ls = Some out \<Longrightarrow> list_all regular ls \<Longrightarrow> (f \<longrightarrow> t) \<Longrightarrow>
    recall_loop sec (Some k) t out = Some (Some v)"
proof (induction ls arbitrary: t f out)
  case Nil
  then show ?case
    using recall_new_section [OF fact sec, of sec k t] recall_bullet [OF fact, of sec k t "[]"]
    by (auto split: if_splits)
next
  case (Cons l ls)
  have r: "regular l" and rs: "list_all regular ls" using Cons.prems by auto
  have found: "recall_loop sec (Some k) True ((bullet_of k v @ [NL]) # xs) = Some (Some v)" for xs
    using recall_bullet [OF fact, of sec k True xs] by simp
  consider (heading) "prefix ''## '' l"
    | (hit) "\<not> prefix ''## '' l" "t" "prefix ''- '' l" "str_trim (existing_key l) = k"
    | (keep) "\<not> prefix ''## '' l" "\<not> (t \<and> prefix ''- '' l \<and> str_trim (existing_key l) = k)" by blast
  then show ?case
  proof cases
    case heading
    then obtain o1 where o1: "store_loop sec k (bullet_of k v) (store_heading l = sec) t
        (f \<or> store_heading l = sec) ls = Some o1"
      and out: "out = (if t then [bullet_of k v @ [NL]] else []) @ l # o1"
      using Cons.prems(1) store_line [OF r] by auto
    show ?thesis
    proof (cases t)
      case True
      then show ?thesis using out found by simp
    next
      case False
      then have "f \<or> store_heading l = sec \<longrightarrow> store_heading l = sec" using Cons.prems(3) by simp
      with False o1 have "recall_loop sec (Some k) (store_heading l = sec) o1 = Some (Some v)"
        using Cons.IH [OF _ rs] by simp
      then show ?thesis
        using False out recall_heading_line [OF heading r] regular_heading [OF r heading sec] by simp
    qed
  next
    case hit
    then obtain o1 where "out = (bullet_of k v @ [NL]) # o1"
      using Cons.prems(1) store_line [OF r] by auto
    then show ?thesis using hit(2) found by simp
  next
    case keep
    then obtain o1 where o1: "store_loop sec k (bullet_of k v) t False f ls = Some o1" and out: "out = l # o1"
      using Cons.prems(1) store_line [OF r] by auto
    have IH: "recall_loop sec (Some k) t o1 = Some (Some v)" using Cons.IH [OF o1 rs Cons.prems(3)] .
    show ?thesis unfolding out
      using IH keep(2) by (auto simp: recall_loop.simps(2) Let_def keep(1) regular_linebuf [OF r] split: option.split)
  qed
qed

lemma store_loop_lines:
  assumes fact: "clean_fact k v" and sec: "sec \<in> set CANONICAL_SECTIONS"
  shows "store_loop sec k (bullet_of k v) t w f ls = Some out \<Longrightarrow> list_all regular ls \<Longrightarrow> list_all is_line ls \<Longrightarrow>
    list_all is_line out"
proof (induction ls arbitrary: t w f out)
  case Nil
  have "is_line (''## '' @ sec @ [NL])" "is_line [NL]"
    using canonical_facts(4) [OF sec] unfolding is_line_def by (rule_tac x = "''## '' @ sec" in exI; simp) simp
  then show ?case using Nil bullet_line(8) [OF fact] by (auto split: if_splits)
next
  case (Cons l ls)
  then have "regular l" by simp
  with Cons show ?case
    using bullet_line(8) [OF fact] by (auto simp: store_line split: if_splits) (blast+)?
qed

lemma store_loop_defined:
  "list_all regular ls \<Longrightarrow> \<exists>out. store_loop sec k b t w f ls = Some out"
proof (induction ls arbitrary: t w f)
  case (Cons l ls)
  then show ?case by (auto simp: store_line)
qed simp

text \<open>The states in which the two loops agree: the file fits, its lines are regular and complete.\<close>

definition mem_ok :: "memory \<Rightarrow> bool" where
  "mem_ok m \<longleftrightarrow> (case mem_file m of None \<Rightarrow> True
     | Some c \<Rightarrow> length c \<le> MAX_FILE_SIZE \<and> (c = [] \<or> last c = NL) \<and> list_all regular (lines_of c))"

definition mem_put :: "string \<times> string \<Rightarrow> string \<Rightarrow> memory \<Rightarrow> memory" where
  "mem_put p v m = (case memory_store WriteOk m (Some (fst p)) (Some (snd p)) (Some v) of
     None \<Rightarrow> m | Some (_, m') \<Rightarrow> m')"

definition mem_get :: "memory \<Rightarrow> string \<times> string \<Rightarrow> string option" where
  "mem_get m p = (case memory_recall m (Some (fst p)) (Some (snd p)) of None \<Rightarrow> None | Some v \<Rightarrow> v)"

lemma lines_of_read: "mem_ok m \<Longrightarrow> list_all regular (lines_of (read_memory_file m)) \<and> list_all is_line (lines_of (read_memory_file m))"
  using lines_of_is_line by (auto simp: mem_ok_def read_memory_file_def split: option.splits)

lemma mem_put_eval:
  assumes "clean_fact k v" and "sec \<in> set CANONICAL_SECTIONS"
    and "store_loop sec k (bullet_of k v) False False False (lines_of (read_memory_file m)) = Some out"
  shows "mem_put (sec, k) v m = m\<lparr>mem_file := Some (concat out)\<rparr>"
proof -
  have k: "k \<noteq> []" using assms(1) by (simp add: clean_fact_def)
  have "memory_store WriteOk m (Some sec) (Some k) (Some v) = Some (ok, m\<lparr>mem_file := Some (concat out)\<rparr>)"
    unfolding memory_store_def prod.case option.case Let_def bullet_trunc [OF assms(1)]
      canonical_facts(1) [OF assms(2)] assms(3)
    using k by (simp add: write_memory_file_def Let_def)
  then show ?thesis by (simp add: mem_put_def)
qed

lemma memory_store_lines:
  assumes "mem_ok m" and "clean_fact k v" and "sec \<in> set CANONICAL_SECTIONS"
  obtains out where "mem_put (sec, k) v m = m\<lparr>mem_file := Some (concat out)\<rparr>"
    and "store_loop sec k (bullet_of k v) False False False (lines_of (read_memory_file m)) = Some out"
    and "lines_of (concat out) = out"
proof -
  obtain out where out: "store_loop sec k (bullet_of k v) False False False (lines_of (read_memory_file m)) = Some out"
    using store_loop_defined lines_of_read [OF assms(1)] by blast
  moreover have "lines_of (concat out) = out"
    using store_loop_lines [OF assms(2,3) out] lines_of_read [OF assms(1)] lines_of_concat by blast
  ultimately show thesis using mem_put_eval [OF assms(2,3)] that by blast
qed

text \<open>An update that fits: the fact is clean, and the file stays below the size the code reads.\<close>

definition mem_fits :: "string \<times> string \<Rightarrow> string \<Rightarrow> memory \<Rightarrow> bool" where
  "mem_fits p v m \<longleftrightarrow> mem_ok m \<and> clean_fact (snd p) v \<and> fst p \<in> set CANONICAL_SECTIONS
     \<and> length (the (mem_file (mem_put p v m))) \<le> MAX_FILE_SIZE"

lemma mem_get_put:
  assumes "mem_fits p v m" "fst q \<in> set CANONICAL_SECTIONS"
  shows "mem_get (mem_put p v m) q = (if q = p then Some v else mem_get m q)"
proof -
  obtain sec k where p: "p = (sec, k)" by (cases p)
  obtain sec' k' where q: "q = (sec', k')" by (cases q)
  have ok: "mem_ok m" and fact: "clean_fact k v" and sec: "sec \<in> set CANONICAL_SECTIONS"
    and sec': "sec' \<in> set CANONICAL_SECTIONS"
    using assms p q by (auto simp: mem_fits_def)
  obtain out where put: "mem_put (sec, k) v m = m\<lparr>mem_file := Some (concat out)\<rparr>"
    and loop: "store_loop sec k (bullet_of k v) False False False (lines_of (read_memory_file m)) = Some out"
    and lines: "lines_of (concat out) = out"
    using memory_store_lines [OF ok fact sec] by blast
  have "length (concat out) \<le> MAX_FILE_SIZE" using assms(1) p by (simp add: mem_fits_def put)
  then have read: "read_memory_file (mem_put p v m) = concat out" using p by (auto simp: read_memory_file_def put)
  have get: "mem_get n q = (case recall_loop sec' (Some k') False (lines_of (read_memory_file n)) of None \<Rightarrow> None | Some v \<Rightarrow> v)" for n
    by (simp add: mem_get_def memory_recall_def q canonical_facts(1) [OF sec'])
  have reg: "list_all regular (lines_of (read_memory_file m))" using lines_of_read [OF ok] by blast
  show ?thesis
  proof (cases "q = p")
    case True
    then show ?thesis using store_recall_same [OF fact sec loop reg] p q unfolding get read lines by simp
  next
    case False
    then have "recall_loop sec' (Some k') False out = recall_loop sec' (Some k') False (lines_of (read_memory_file m))"
      using store_recall_other [OF fact sec sec' _ loop reg] p q by simp
    then show ?thesis using False unfolding get read lines by simp
  qed
qed

text \<open>The facts of the canonical sections form a keyed store.\<close>

interpretation facts: keyed_store
  "\<lambda>m p. if fst p \<in> set CANONICAL_SECTIONS then mem_get m p else None" mem_put mem_fits
  by unfold_locales (auto simp: mem_get_put mem_fits_def)

section \<open>Properties\<close>

text \<open>C29: a fact stored with \<open>memory_store\<close> is what \<open>memory_recall\<close> finds afterwards, through the
  text of the file: for clean keys and values and a file with complete regular lines, the section
  and key give the new value, and every other section and key gives what it gave before.\<close>

theorem memory_store_recall:
  assumes "mem_ok m" and "clean_fact k v" and "sec \<in> set CANONICAL_SECTIONS" and "sec' \<in> set CANONICAL_SECTIONS"
    and "length (the (mem_file (mem_put (sec, k) v m))) \<le> MAX_FILE_SIZE"
  shows "mem_get (mem_put (sec, k) v m) (sec', k') = (if sec' = sec \<and> k' = k then Some v else mem_get m (sec', k'))"
  using facts.lookup_update [of "(sec, k)" v m "(sec', k')"] assms by (simp add: mem_fits_def)

definition demo_memory :: memory where
  "demo_memory = \<lparr>mem_path = ''memory/MEMORY.md'', mem_file = Some (''## Preferences'' @ [NL] @ ''- editor: vi'' @ [NL])\<rparr>"

lemma memory_store_recall_witness:
  "mem_get (mem_put (''Preferences'', ''editor'') ''emacs'' demo_memory) (''Preferences'', ''editor'') = Some ''emacs''"
proof -
  have fact: "clean_fact ''editor'' ''emacs''" by code_simp
  have sec: "''Preferences'' \<in> set CANONICAL_SECTIONS" by (simp add: CANONICAL_SECTIONS_def)
  have "list_all regular (lines_of (''## Preferences'' @ [NL] @ ''- editor: vi'' @ [NL]))" by code_simp
  then have ok: "mem_ok demo_memory" by (simp add: mem_ok_def demo_memory_def MAX_FILE_SIZE_def)
  have "read_memory_file demo_memory = ''## Preferences'' @ [NL] @ ''- editor: vi'' @ [NL]"
    by (simp add: read_memory_file_def demo_memory_def MAX_FILE_SIZE_def)
  moreover have "store_loop ''Preferences'' ''editor'' (bullet_of ''editor'' ''emacs'') False False False
      (lines_of (''## Preferences'' @ [NL] @ ''- editor: vi'' @ [NL])) =
      Some [''## Preferences'' @ [NL], ''- editor: emacs'' @ [NL]]" by code_simp
  ultimately have "mem_put (''Preferences'', ''editor'') ''emacs'' demo_memory =
      demo_memory\<lparr>mem_file := Some (concat [''## Preferences'' @ [NL], ''- editor: emacs'' @ [NL]])\<rparr>"
    using mem_put_eval [OF fact sec, of demo_memory] by presburger
  then have "length (the (mem_file (mem_put (''Preferences'', ''editor'') ''emacs'' demo_memory))) \<le> MAX_FILE_SIZE"
    by (simp add: MAX_FILE_SIZE_def)
  from memory_store_recall [OF ok fact sec sec this] show ?thesis by simp
qed

text \<open>A file that has grown beyond 256 KB reads as empty, so the next \<open>memory_store\<close> replaces the
  whole file with the one new fact.\<close>

theorem memory_store_drops_large_file:
  assumes "mem_file m = Some c" and "MAX_FILE_SIZE < length c" and "clean_fact k v" and "sec \<in> set CANONICAL_SECTIONS"
  shows "mem_file (mem_put (sec, k) v m) = Some ([NL] @ ''## '' @ sec @ [NL] @ [NL] @ bullet_of k v @ [NL])"
proof -
  have "read_memory_file m = ''''" using assms(1,2) by (simp add: read_memory_file_def)
  then have "store_loop sec k (bullet_of k v) False False False (lines_of (read_memory_file m)) =
      Some [[NL], ''## '' @ sec @ [NL], [NL], bullet_of k v @ [NL]]" by simp
  from mem_put_eval [OF assms(3,4) this] show ?thesis by simp
qed

lemma memory_store_drops_large_file_witness:
  "mem_file (mem_put (''Preferences'', ''a'') ''b'' \<lparr>mem_path = ''p'', mem_file = Some (replicate 300000 NL)\<rparr>) =
     Some ([NL] @ ''## Preferences'' @ [NL] @ [NL] @ bullet_of ''a'' ''b'' @ [NL])"
  using memory_store_drops_large_file [of "\<lparr>mem_path = ''p'', mem_file = Some (replicate 300000 NL)\<rparr>"
      "replicate 300000 NL" "''a''" "''b''" "''Preferences''"]
  by (simp add: MAX_FILE_SIZE_def clean_fact_def trimmed_def isspace_def CANONICAL_SECTIONS_def)

end
