(* ===== verification/Subagent.thy ===== *)
theory Subagent
  imports Agent Json_Props
begin

text \<open>
  Model of \<open>src/tools/subagent/subagent.c\<close>: the pool of parallel sub-agents. The first part has
  the slot table and the operations that run under \<open>pool->lock\<close>; the second is the step relation
  of the tool calls, the worker threads and the watchdogs, with the lock held across the join of
  \<open>alloc_slot\<close>. Times and the outcome of \<open>pthread_create\<close> are arguments.
\<close>

section \<open>Slots\<close>

definition SUBAGENT_MAX_SLOTS :: nat where "SUBAGENT_MAX_SLOTS = 8"
definition SUBAGENT_DEFAULT_TTL :: int where "SUBAGENT_DEFAULT_TTL = 600"
definition SUBAGENT_RESULT_CAP :: nat where "SUBAGENT_RESULT_CAP = 64 * 1024"

datatype subagent_state = SA_IDLE | SA_RUNNING | SA_DONE | SA_ERROR | SA_TIMEOUT

record slot =
  sl_id :: int
  sl_state :: subagent_state
  sl_name :: "string option"
  sl_task :: "string option"
  sl_context :: "string option"
  sl_result :: "string option"
  started_at :: int
  finished_at :: int
  sl_timeout :: int
  sl_agent :: "agent option"
  thread_valid :: bool

record pool =
  p_slots :: "slot list"
  p_next_id :: int
  p_tmpl :: "agent option"
  p_timeout :: int

fun state_str :: "subagent_state \<Rightarrow> string" where
  "state_str SA_IDLE = ''idle''"
| "state_str SA_RUNNING = ''running''"
| "state_str SA_DONE = ''done''"
| "state_str SA_ERROR = ''error''"
| "state_str SA_TIMEOUT = ''timeout''"

definition empty_sub :: slot where
  "empty_sub = \<lparr>sl_id = 0, sl_state = SA_IDLE, sl_name = None, sl_task = None, sl_context = None, sl_result = None,
     started_at = 0, finished_at = 0, sl_timeout = 0, sl_agent = None, thread_valid = False\<rparr>"

definition subagent_pool_create :: "agent option \<Rightarrow> bool \<Rightarrow> int \<Rightarrow> pool option" where
  "subagent_pool_create template_agent has_provider timeout_sec =
     (if \<not> has_provider then None
      else Some \<lparr>p_slots = replicate SUBAGENT_MAX_SLOTS empty_sub, p_next_id = 1, p_tmpl = template_agent,
                 p_timeout = (if timeout_sec > 0 then timeout_sec else SUBAGENT_DEFAULT_TTL)\<rparr>)"

definition slot_set_result :: "string option \<Rightarrow> slot \<Rightarrow> slot" where
  "slot_set_result text sl =
     sl\<lparr>sl_result := Some (case text of
          None \<Rightarrow> ''(no result)''
        | Some t \<Rightarrow> if length t > SUBAGENT_RESULT_CAP
            then take SUBAGENT_RESULT_CAP t @
              trunc_to 64 ([NL] @ ''...[truncated at '' @ nat_str SUBAGENT_RESULT_CAP @ '' bytes]'')
            else t)\<rparr>"

text \<open>The identity block holds an em dash, three bytes in UTF-8.\<close>

definition EM_DASH :: string where "EM_DASH = [CHR 0xE2, CHR 0x80, CHR 0x94]"

definition id_block :: "slot \<Rightarrow> string" where
  "id_block sl = trunc_to 512
     (''## Subagent Identity'' @ [NL] @ ''You are subagent #'' @ int_str (sl_id sl) @ '' ('' @ [DQ] @
      (case sl_name sl of None \<Rightarrow> ''worker'' | Some n \<Rightarrow> n) @ [DQ] @ ''), a focused parallel worker.'' @ [NL] @
      ''Complete only the task given. Do not ask clarifying questions '' @ EM_DASH @ [NL] @
      ''use your best judgment and tools. Your final response is returned'' @ [NL] @
      ''to the orchestrator agent that spawned you.'' @ [NL])"

definition make_agent :: "pool \<Rightarrow> slot \<Rightarrow> agent" where
  "make_agent p sl =
     (let a0 = agent_create;
          a1 = (case p_tmpl p of
                  None \<Rightarrow> a0
                | Some t \<Rightarrow> (fold (\<lambda>s a. agent_add_system_part a (Some s)) (system_parts t) a0)
                    \<lparr>max_iterations := max_iterations t, max_messages := max_messages t\<rparr>);
          a2 = agent_add_system_part a1 (Some (id_block sl))
      in case sl_context sl of
           None \<Rightarrow> a2
         | Some c \<Rightarrow> if c = '''' then a2
             else agent_add_system_part a2
               (Some (trunc_to 8192 (''## Context from Orchestrator'' @ [NL] @ c))))"

definition slot_reset :: "slot \<Rightarrow> slot" where
  "slot_reset sl = sl\<lparr>sl_agent := None, sl_name := None, sl_task := None, sl_context := None, sl_result := None,
     thread_valid := False, sl_state := SA_IDLE\<rparr>"

section \<open>Allocation\<close>

definition finished :: "slot \<Rightarrow> bool" where
  "finished sl \<longleftrightarrow> sl_state sl = SA_DONE \<or> sl_state sl = SA_ERROR \<or> sl_state sl = SA_TIMEOUT"

text \<open>The second pass: the oldest finished slot, among equals the first.\<close>

fun oldest :: "int \<Rightarrow> nat option \<Rightarrow> nat \<Rightarrow> slot list \<Rightarrow> nat option" where
  "oldest best_time best_idx i [] = best_idx"
| "oldest best_time best_idx i (sl # sls) =
     (if finished sl \<and> finished_at sl < best_time then oldest (finished_at sl) (Some i) (i + 1) sls
      else oldest best_time best_idx (i + 1) sls)"

definition alloc_idx :: "int \<Rightarrow> slot list \<Rightarrow> nat option" where
  "alloc_idx now sls =
     (case find (\<lambda>i. sl_state (sls ! i) = SA_IDLE) [0..<length sls] of
        Some i \<Rightarrow> Some i
      | None \<Rightarrow> oldest (now + 1) None 0 sls)"

text \<open>The slot \<open>alloc_slot\<close> has to join before it resets it.\<close>

definition alloc_joins :: "int \<Rightarrow> slot list \<Rightarrow> nat option" where
  "alloc_joins now sls =
     (case alloc_idx now sls of
        None \<Rightarrow> None
      | Some i \<Rightarrow> if sl_state (sls ! i) \<noteq> SA_IDLE \<and> thread_valid (sls ! i) then Some i else None)"

definition alloc_slot :: "int \<Rightarrow> slot list \<Rightarrow> nat option \<times> slot list" where
  "alloc_slot now sls =
     (case alloc_idx now sls of
        None \<Rightarrow> (None, sls)
      | Some i \<Rightarrow> (Some i, if sl_state (sls ! i) = SA_IDLE then sls else sls[i := slot_reset (sls ! i)]))"

section \<open>Tools\<close>

definition spawn_args :: "json option \<Rightarrow> (string \<times> string \<times> string option) option" where
  "spawn_args args =
     (case get_str args ''task'' of
        None \<Rightarrow> None
      | Some task \<Rightarrow> if task = '''' then None
          else Some ((case get_str args ''name'' of None \<Rightarrow> ''worker'' | Some n \<Rightarrow> if n = '''' then ''worker'' else n),
                     task, get_str args ''context''))"

definition new_slot :: "int \<Rightarrow> pool \<Rightarrow> string \<Rightarrow> string \<Rightarrow> string option \<Rightarrow> slot \<Rightarrow> slot" where
  "new_slot now p name task context sl =
     (let s = sl\<lparr>sl_id := p_next_id p, sl_state := SA_RUNNING, sl_name := Some name, sl_task := Some task,
                 sl_context := context, started_at := now, sl_timeout := p_timeout p, sl_result := None,
                 thread_valid := False\<rparr>
      in s\<lparr>sl_agent := Some (make_agent p s)\<rparr>)"

definition spawn_reply :: "int \<Rightarrow> string \<Rightarrow> string" where
  "spawn_reply new_id name = cJSON_PrintUnformatted (JObject
     [(''subagent_id'', JInt new_id), (''name'', JString name), (''status'', JString ''running''),
      (''note'', JString (''Sub-agent is running in parallel. '' @
         ''Use subagent_status with this subagent_id to poll for the result. '' @
         ''You may continue other work in the meantime.''))])"

text \<open>
  \<open>tool_spawn\<close> once the join is over: the reply, the pool, and the slot whose worker thread was
  started. \<open>thread_ok\<close>: \<open>pthread_create\<close> succeeded.
\<close>

definition tool_spawn :: "int \<Rightarrow> bool \<Rightarrow> json option \<Rightarrow> pool \<Rightarrow> string \<times> pool \<times> nat option" where
  \<open>tool_spawn now thread_ok args p =
     (case spawn_args args of
        None \<Rightarrow> (''{"error":"'task' is required"}'', p, None)
      | Some (name, task, context) \<Rightarrow>
          (case alloc_slot now (p_slots p) of
             (None, _) \<Rightarrow> (''{"error":"All subagent slots are busy with running tasks. '' @
                ''Use subagent_status to check for completions."}'', p, None)
           | (Some i, sls) \<Rightarrow>
               (let sl = new_slot now p name task context (sls ! i);
                    p' = p(| p_next_id := p_next_id p + 1 |)
                in if \<not> thread_ok
                   then (''{"error":"pthread_create failed"}'', p'(| p_slots := sls[i := slot_reset sl] |), None)
                   else (spawn_reply (sl_id sl) name, p'(| p_slots := sls[i := sl(| thread_valid := True |)] |), Some i))))\<close>

definition opt_str :: "string option \<Rightarrow> string" where
  "opt_str s = (case s of None \<Rightarrow> '''' | Some t \<Rightarrow> t)"

definition slot_item :: "string \<Rightarrow> int \<Rightarrow> slot \<Rightarrow> json" where
  "slot_item id_field now sl =
     (let o1 = JObject [(id_field, JInt (sl_id sl)), (''name'', JString (opt_str (sl_name sl))),
                (''status'', JString (state_str (sl_state sl))), (''task'', JString (opt_str (sl_task sl))),
                (''elapsed_sec'', JInt (now - started_at sl))]
      in if sl_state sl \<noteq> SA_RUNNING \<and> sl_result sl \<noteq> None
         then cJSON_AddStringToObject o1 ''result'' (sl_result sl) else o1)"

definition slots_json :: "string \<Rightarrow> int \<Rightarrow> slot list \<Rightarrow> json" where
  "slots_json id_field now sls = JArray (map (slot_item id_field now) (filter (\<lambda>sl. sl_state sl \<noteq> SA_IDLE) sls))"

definition status_item :: "int \<Rightarrow> slot \<Rightarrow> json" where
  "status_item now sl =
     JObject ([(''subagent_id'', JInt (sl_id sl)), (''name'', JString (opt_str (sl_name sl))),
        (''status'', JString (state_str (sl_state sl))), (''task'', JString (opt_str (sl_task sl))),
        (''elapsed_sec'', JInt (now - started_at sl))] @
       (if sl_state sl = SA_RUNNING
        then [(''note'', JString ''Still running. Call subagent_status again later to check.'')]
        else [(''result'', JString (case sl_result sl of None \<Rightarrow> ''(no result)'' | Some r \<Rightarrow> r)),
              (''duration_sec'', JInt (finished_at sl - started_at sl))]))"

definition tool_status :: "int \<Rightarrow> json option \<Rightarrow> pool \<Rightarrow> string" where
  \<open>tool_status now args p =
     (let id_j = cJSON_GetObjectItem args ''subagent_id''
      in if \<not> cJSON_IsNumber id_j then cJSON_PrintUnformatted (slots_json ''subagent_id'' now (p_slots p))
         else case find (\<lambda>sl. sl_id sl = valueint id_j \<and> sl_state sl \<noteq> SA_IDLE) (p_slots p) of
           Some sl \<Rightarrow> cJSON_PrintUnformatted (status_item now sl)
         | None \<Rightarrow> trunc_to 80 (''{"error":"Subagent #'' @ int_str (valueint id_j) @ '' not found or already recycled"}''))\<close>

definition subagent_pool_json :: "int \<Rightarrow> pool option \<Rightarrow> string" where
  "subagent_pool_json now p =
     cJSON_PrintUnformatted (case p of None \<Rightarrow> JArray [] | Some p \<Rightarrow> slots_json ''id'' now (p_slots p))"

section \<open>Threads\<close>

text \<open>The end of \<open>worker_fn\<close>, under the lock.\<close>

definition sa_finish :: "int \<Rightarrow> string \<Rightarrow> slot \<Rightarrow> slot" where
  "sa_finish now response sl =
     slot_set_result (Some response)
       (sl\<lparr>finished_at := now,
           sl_state := (if prefix ''[Error'' response \<or> prefix ''[Dobby:'' response then SA_ERROR else SA_DONE)\<rparr>)"

text \<open>\<open>watchdog_fn\<close> after its sleep: the slot it cancels, and the table.\<close>

definition watchdog_hits :: "int \<Rightarrow> slot \<Rightarrow> bool" where
  "watchdog_hits i sl \<longleftrightarrow> sl_id sl = i \<and> sl_state sl = SA_RUNNING \<and> thread_valid sl"

definition watchdog :: "int \<Rightarrow> int \<Rightarrow> slot list \<Rightarrow> nat option \<times> slot list" where
  "watchdog now i sls =
     (case find (\<lambda>k. watchdog_hits i (sls ! k)) [0..<length sls] of
        None \<Rightarrow> (None, sls)
      | Some k \<Rightarrow> (Some k, sls[k := slot_set_result (Some ''[Subagent timed out]'')
                               ((sls ! k)\<lparr>sl_state := SA_TIMEOUT, finished_at := now\<rparr>)]))"

section \<open>The pool as a step relation\<close>

text \<open>
  A worker thread is in \<open>agent_chat\<close> (with a cancellation pending or not), or has left it and
  waits for the lock, or is over.
\<close>

datatype phase = NoThread | Chatting bool | Returned string | Exited

record sa_sys =
  pool_of :: pool
  threads :: "nat \<Rightarrow> phase"
  watchdogs :: "int list"
  joining :: "(nat \<times> int \<times> bool \<times> json option) option"

definition sa_init :: "pool \<Rightarrow> sa_sys" where
  "sa_init p = \<lparr>pool_of = p, threads = (\<lambda>_. NoThread), watchdogs = [], joining = None\<rparr>"

text \<open>The effect of \<open>tool_spawn\<close>: a started worker enters \<open>agent_chat\<close> and gets a watchdog.\<close>

definition do_spawn :: "int \<Rightarrow> bool \<Rightarrow> json option \<Rightarrow> sa_sys \<Rightarrow> sa_sys" where
  "do_spawn now thread_ok args s =
     (case tool_spawn now thread_ok args (pool_of s) of (_, p', start) \<Rightarrow>
       (case start of
          None \<Rightarrow> s\<lparr>pool_of := p', joining := None\<rparr>
        | Some i \<Rightarrow> s\<lparr>pool_of := p', joining := None, threads := (threads s)(i := Chatting False),
                    watchdogs := watchdogs s @ [sl_id (p_slots p' ! i)]\<rparr>))"

inductive sa_step :: "sa_sys \<Rightarrow> sa_sys \<Rightarrow> bool" where
  spawn: "joining s = None \<Longrightarrow> spawn_args args = None \<or> alloc_joins now (p_slots (pool_of s)) = None \<Longrightarrow>
    sa_step s (do_spawn now thread_ok args s)"
| spawn_joins: "joining s = None \<Longrightarrow> spawn_args args \<noteq> None \<Longrightarrow> alloc_joins now (p_slots (pool_of s)) = Some i \<Longrightarrow>
    sa_step s (s\<lparr>joining := Some (i, now, thread_ok, args)\<rparr>)"
| spawn_joined: "joining s = Some (i, now, thread_ok, args) \<Longrightarrow> threads s i = Exited \<Longrightarrow>
    sa_step s (do_spawn now thread_ok args s)"
| chat: "threads s i = Chatting c \<Longrightarrow> sa_step s (s\<lparr>threads := (threads s)(i := Returned r)\<rparr>)"
| cancelled: "threads s i = Chatting True \<Longrightarrow> sa_step s (s\<lparr>threads := (threads s)(i := Exited)\<rparr>)"
| finish: "joining s = None \<Longrightarrow> threads s i = Returned r \<Longrightarrow>
    sa_step s (s\<lparr>pool_of := (pool_of s)\<lparr>p_slots := (p_slots (pool_of s))[i := sa_finish now r (p_slots (pool_of s) ! i)]\<rparr>,
                threads := (threads s)(i := Exited)\<rparr>)"
| watchdog: "joining s = None \<Longrightarrow> w \<in> set (watchdogs s) \<Longrightarrow> watchdog now w (p_slots (pool_of s)) = (hit, sls) \<Longrightarrow>
    sa_step s (s\<lparr>pool_of := (pool_of s)\<lparr>p_slots := sls\<rparr>, watchdogs := remove1 w (watchdogs s),
                threads := (case hit of None \<Rightarrow> threads s
                  | Some k \<Rightarrow> (threads s)(k := (case threads s k of Chatting _ \<Rightarrow> Chatting True | ph \<Rightarrow> ph)))\<rparr>)"

inductive_cases sa_stepE: "sa_step s s'"

inductive sa_reach :: "sa_sys \<Rightarrow> sa_sys \<Rightarrow> bool" for s0 where
  sa_refl: "sa_reach s0 s0"
| sa_trans: "sa_reach s0 s \<Longrightarrow> sa_step s s' \<Longrightarrow> sa_reach s0 s'"

section \<open>The invariant\<close>

definition slot_ok :: "int \<Rightarrow> slot \<Rightarrow> phase \<Rightarrow> bool" where
  "slot_ok n sl ph \<longleftrightarrow>
     (sl_state sl \<noteq> SA_IDLE \<longrightarrow> 1 \<le> sl_id sl \<and> sl_id sl < n)
   \<and> (sl_state sl = SA_IDLE \<longrightarrow> ph = NoThread \<or> ph = Exited)
   \<and> (sl_state sl = SA_RUNNING \<longrightarrow> thread_valid sl \<and> (ph = Chatting False \<or> (\<exists>r. ph = Returned r)))
   \<and> (sl_state sl = SA_DONE \<or> sl_state sl = SA_ERROR \<longrightarrow> ph = Exited)
   \<and> (sl_state sl = SA_TIMEOUT \<longrightarrow> thread_valid sl \<and> ph \<noteq> NoThread \<and> ph \<noteq> Chatting False)"

definition live_ids :: "slot list \<Rightarrow> int list" where
  "live_ids sls = map sl_id (filter (\<lambda>sl. sl_state sl \<noteq> SA_IDLE) sls)"

definition sa_ok :: "sa_sys \<Rightarrow> bool" where
  "sa_ok s \<longleftrightarrow>
     length (p_slots (pool_of s)) = SUBAGENT_MAX_SLOTS \<and> 1 \<le> p_next_id (pool_of s)
   \<and> (\<forall>i < SUBAGENT_MAX_SLOTS. slot_ok (p_next_id (pool_of s)) (p_slots (pool_of s) ! i) (threads s i))
   \<and> (\<forall>i \<ge> SUBAGENT_MAX_SLOTS. threads s i = NoThread)
   \<and> (\<forall>i < SUBAGENT_MAX_SLOTS. \<forall>j < SUBAGENT_MAX_SLOTS. i \<noteq> j \<longrightarrow>
        sl_state (p_slots (pool_of s) ! i) \<noteq> SA_IDLE \<longrightarrow> sl_state (p_slots (pool_of s) ! j) \<noteq> SA_IDLE \<longrightarrow>
        sl_id (p_slots (pool_of s) ! i) \<noteq> sl_id (p_slots (pool_of s) ! j))
   \<and> (\<forall>w \<in> set (watchdogs s). w < p_next_id (pool_of s))
   \<and> (\<forall>i now tok args. joining s = Some (i, now, tok, args) \<longrightarrow>
        spawn_args args \<noteq> None \<and> alloc_joins now (p_slots (pool_of s)) = Some i)"

lemma oldest_Some:
  "oldest bt bi i sls = Some k \<Longrightarrow> bi = Some k \<or> (i \<le> k \<and> k < i + length sls \<and> finished (sls ! (k - i)))"
proof (induction sls arbitrary: bt bi i)
  case (Cons sl sls)
  then obtain bt' bi' where o: "oldest bt' bi' (i + 1) sls = Some k" and bi: "bi' = bi \<or> (bi' = Some i \<and> finished sl)"
    by (auto split: if_splits)
  from Cons.IH [OF o] show ?case
  proof
    assume "bi' = Some k"
    then show ?thesis using bi by auto
  next
    assume *: "i + 1 \<le> k \<and> k < i + 1 + length sls \<and> finished (sls ! (k - (i + 1)))"
    then have "(sl # sls) ! (k - i) = sls ! (k - (i + 1))" by (simp add: nth_Cons')
    with * show ?thesis by simp
  qed
qed simp

lemma find_index: "find P [0..<n] = Some k \<Longrightarrow> k < n \<and> P k"
  by (auto simp: find_Some_iff)

lemma alloc_idx_Some:
  "alloc_idx now sls = Some i \<Longrightarrow> i < length sls \<and> (sl_state (sls ! i) = SA_IDLE \<or> finished (sls ! i))"
  using oldest_Some [of "now + 1" None 0 sls i]
  by (auto simp: alloc_idx_def split: option.splits dest: find_index)

lemma finished_not_running: "finished sl \<Longrightarrow> sl_state sl \<noteq> SA_RUNNING \<and> sl_state sl \<noteq> SA_IDLE"
  by (auto simp: finished_def)

lemma slot_ok_mono: "slot_ok n sl ph \<Longrightarrow> n \<le> n' \<Longrightarrow> slot_ok n' sl ph"
  by (auto simp: slot_ok_def)

lemma slot_ok_reset: "ph = NoThread \<or> ph = Exited \<Longrightarrow> slot_ok n (slot_reset sl) ph"
  by (auto simp: slot_ok_def slot_reset_def)

lemma new_slot_simps [simp]:
  "sl_id (new_slot now p nm tk cx sl) = p_next_id p" "sl_state (new_slot now p nm tk cx sl) = SA_RUNNING"
  by (simp_all add: new_slot_def Let_def)

lemma slot_reset_state [simp]: "sl_state (slot_reset sl) = SA_IDLE"
  by (simp add: slot_reset_def)

text \<open>What a spawn does to the table: nothing, or one slot that was not running is reused.\<close>

lemma tool_spawn_cases:
  assumes "tool_spawn now tok args p = (reply, p', start)" "length (p_slots p) = SUBAGENT_MAX_SLOTS"
  obtains (none) "p' = p" "start = None"
  | (failed) i sl where "alloc_idx now (p_slots p) = Some i" "i < SUBAGENT_MAX_SLOTS" "start = None" "spawn_args args \<noteq> None"
      "p' = p\<lparr>p_next_id := p_next_id p + 1, p_slots := (p_slots p)[i := slot_reset sl]\<rparr>"
  | (started) i sl where "alloc_idx now (p_slots p) = Some i" "i < SUBAGENT_MAX_SLOTS" "start = Some i" "spawn_args args \<noteq> None"
      "sl_id sl = p_next_id p" "sl_state sl = SA_RUNNING" "thread_valid sl"
      "p' = p\<lparr>p_next_id := p_next_id p + 1, p_slots := (p_slots p)[i := sl]\<rparr>"
proof (cases "spawn_args args")
  case None
  then show ?thesis using none assms(1) by (simp add: tool_spawn_def)
next
  case (Some a)
  obtain nm tk cx where a: "a = (nm, tk, cx)" by (cases a) auto
  show ?thesis
  proof (cases "alloc_idx now (p_slots p)")
    case None
    then show ?thesis using none assms(1) Some a by (simp add: tool_spawn_def alloc_slot_def)
  next
    case i: (Some i)
    have lt: "i < SUBAGENT_MAX_SLOTS" using alloc_idx_Some [OF i] assms(2) by simp
    obtain sls where sls: "alloc_slot now (p_slots p) = (Some i, sls)" and same: "\<And>x. sls[i := x] = (p_slots p)[i := x]"
      using i by (auto simp: alloc_slot_def)
    let ?sl = "new_slot now p nm tk cx (sls ! i)"
    show ?thesis
    proof (cases tok)
      case True
      then show ?thesis
        using started [OF i lt, of "?sl\<lparr>thread_valid := True\<rparr>"] assms(1) Some a sls same
        by (auto simp: tool_spawn_def Let_def)
    next
      case False
      then show ?thesis
        using failed [OF i lt, of ?sl] assms(1) Some a sls same by (auto simp: tool_spawn_def Let_def)
    qed
  qed
qed

text \<open>A slot that may be reused has no live worker.\<close>

lemma alloc_thread_over:
  assumes ok: "sa_ok s" and i: "alloc_idx now (p_slots (pool_of s)) = Some i"
    and j: "alloc_joins now (p_slots (pool_of s)) = None \<or> threads s i = Exited"
  shows "threads s i = NoThread \<or> threads s i = Exited"
  using alloc_idx_Some [OF i] ok i j unfolding sa_ok_def alloc_joins_def slot_ok_def finished_def
  by (auto split: if_splits)

text \<open>Replacing one slot and the phase of its thread.\<close>

lemma sa_ok_update:
  assumes ok: "sa_ok s" and i: "i < SUBAGENT_MAX_SLOTS" and n: "p_next_id (pool_of s) \<le> n"
    and sl: "slot_ok n sl ph"
    and id: "sl_state sl \<noteq> SA_IDLE \<Longrightarrow> p_next_id (pool_of s) \<le> sl_id sl \<or>
        (sl_id sl = sl_id (p_slots (pool_of s) ! i) \<and> sl_state (p_slots (pool_of s) ! i) \<noteq> SA_IDLE)"
    and ws: "\<forall>w \<in> set ws. w < n"
  shows "sa_ok \<lparr>pool_of = (pool_of s)\<lparr>p_next_id := n, p_slots := (p_slots (pool_of s))[i := sl]\<rparr>,
               threads = (threads s)(i := ph), watchdogs = ws, joining = None\<rparr>"
proof -
  let ?sls = "p_slots (pool_of s)"
  have len: "length ?sls = SUBAGENT_MAX_SLOTS" using ok by (simp add: sa_ok_def)
  have old: "\<And>k. k < SUBAGENT_MAX_SLOTS \<Longrightarrow> slot_ok (p_next_id (pool_of s)) (?sls ! k) (threads s k)"
    using ok by (simp add: sa_ok_def)
  have slots: "\<forall>k < SUBAGENT_MAX_SLOTS. slot_ok n (?sls[i := sl] ! k) (((threads s)(i := ph)) k)"
    using len i sl slot_ok_mono [OF old n] by (auto simp: nth_list_update)
  have new: "sl_id (?sls ! j) \<noteq> sl_id sl"
    if "j < SUBAGENT_MAX_SLOTS" "j \<noteq> i" "sl_state (?sls ! j) \<noteq> SA_IDLE" "sl_state sl \<noteq> SA_IDLE" for j
  proof (cases "p_next_id (pool_of s) \<le> sl_id sl")
    case True
    then show ?thesis using old [OF that(1)] that(3) by (auto simp: slot_ok_def)
  next
    case False
    then show ?thesis using id [OF that(4)] ok that i unfolding sa_ok_def by metis
  qed
  have "\<forall>k < SUBAGENT_MAX_SLOTS. \<forall>j < SUBAGENT_MAX_SLOTS. k \<noteq> j \<longrightarrow> sl_state (?sls[i := sl] ! k) \<noteq> SA_IDLE \<longrightarrow>
      sl_state (?sls[i := sl] ! j) \<noteq> SA_IDLE \<longrightarrow> sl_id (?sls[i := sl] ! k) \<noteq> sl_id (?sls[i := sl] ! j)"
  proof (intro allI impI)
    fix k j
    assume kj: "k < SUBAGENT_MAX_SLOTS" "j < SUBAGENT_MAX_SLOTS" "k \<noteq> j"
      "sl_state (?sls[i := sl] ! k) \<noteq> SA_IDLE" "sl_state (?sls[i := sl] ! j) \<noteq> SA_IDLE"
    then consider "k = i" "j \<noteq> i" | "j = i" "k \<noteq> i" | "k \<noteq> i" "j \<noteq> i" by blast
    then show "sl_id (?sls[i := sl] ! k) \<noteq> sl_id (?sls[i := sl] ! j)"
    proof cases
      case 1
      then show ?thesis using new [of j] kj len i by simp
    next
      case 2
      then show ?thesis using new [of k] kj len i by simp
    next
      case 3
      then show ?thesis using ok kj unfolding sa_ok_def by simp
    qed
  qed
  moreover have "1 \<le> n" "\<forall>k \<ge> SUBAGENT_MAX_SLOTS. ((threads s)(i := ph)) k = NoThread"
    using ok n i by (auto simp: sa_ok_def)
  ultimately show ?thesis using len slots ws by (simp add: sa_ok_def)
qed

lemma watchdogs_less: "sa_ok s \<Longrightarrow> p_next_id (pool_of s) \<le> n \<Longrightarrow> \<forall>w \<in> set (watchdogs s). w < n"
  by (auto simp: sa_ok_def)

lemma sa_ok_no_join: "sa_ok s \<Longrightarrow> sa_ok (s\<lparr>joining := None\<rparr>)"
  by (auto simp: sa_ok_def)

lemma sa_ok_do_spawn:
  assumes ok: "sa_ok s"
    and j: "spawn_args args = None \<or> alloc_joins now (p_slots (pool_of s)) = None
      \<or> (\<exists>i. alloc_joins now (p_slots (pool_of s)) = Some i \<and> threads s i = Exited)"
  shows "sa_ok (do_spawn now tok args s)"
proof -
  obtain reply p' start where sp: "tool_spawn now tok args (pool_of s) = (reply, p', start)"
    by (cases "tool_spawn now tok args (pool_of s)") auto
  have len: "length (p_slots (pool_of s)) = SUBAGENT_MAX_SLOTS" using ok by (simp add: sa_ok_def)
  let ?n = "p_next_id (pool_of s) + 1"
  have over: "threads s i = NoThread \<or> threads s i = Exited"
    if "alloc_idx now (p_slots (pool_of s)) = Some i" "spawn_args args \<noteq> None" for i
    using alloc_thread_over [OF ok that(1)] j that by (auto simp: alloc_joins_def split: if_splits)
  show ?thesis
  proof (rule tool_spawn_cases [OF sp len])
    assume "p' = pool_of s" "start = None"
    then show ?thesis using sa_ok_no_join [OF ok] by (simp add: do_spawn_def sp)
  next
    fix i sl
    assume *: "alloc_idx now (p_slots (pool_of s)) = Some i" "i < SUBAGENT_MAX_SLOTS" "start = None" "spawn_args args \<noteq> None"
      "p' = (pool_of s)\<lparr>p_next_id := ?n, p_slots := (p_slots (pool_of s))[i := slot_reset sl]\<rparr>"
    have "sa_ok \<lparr>pool_of = p', threads = (threads s)(i := threads s i), watchdogs = watchdogs s, joining = None\<rparr>"
      unfolding *(5) by (rule sa_ok_update [OF ok *(2)]) (use over [OF *(1,4)] watchdogs_less [OF ok, of ?n] slot_ok_reset in auto)
    moreover have "s\<lparr>pool_of := p', joining := None\<rparr> =
        \<lparr>pool_of = p', threads = threads s, watchdogs = watchdogs s, joining = None\<rparr>"
      by (rule sa_sys.equality) simp_all
    moreover have "do_spawn now tok args s = s\<lparr>pool_of := p', joining := None\<rparr>" using *(3) by (simp add: do_spawn_def sp)
    ultimately show ?thesis by (simp only: fun_upd_triv)
  next
    fix i sl
    assume *: "alloc_idx now (p_slots (pool_of s)) = Some i" "i < SUBAGENT_MAX_SLOTS" "start = Some i" "spawn_args args \<noteq> None"
      "sl_id sl = p_next_id (pool_of s)" "sl_state sl = SA_RUNNING" "thread_valid sl"
      "p' = (pool_of s)\<lparr>p_next_id := ?n, p_slots := (p_slots (pool_of s))[i := sl]\<rparr>"
    have "slot_ok ?n sl (Chatting False)" using * ok by (simp add: slot_ok_def sa_ok_def)
    then have "sa_ok \<lparr>pool_of = p', threads = (threads s)(i := Chatting False),
        watchdogs = watchdogs s @ [sl_id (p_slots p' ! i)], joining = None\<rparr>"
      unfolding *(8) by (intro sa_ok_update [OF ok *(2)]) (use * len watchdogs_less [OF ok, of ?n] in auto)
    moreover have "do_spawn now tok args s = \<lparr>pool_of = p', threads = (threads s)(i := Chatting False),
        watchdogs = watchdogs s @ [sl_id (p_slots p' ! i)], joining = None\<rparr>"
      by (rule sa_sys.equality) (simp_all add: do_spawn_def sp *(3))
    ultimately show ?thesis by (simp only:)
  qed
qed

lemma slot_set_result_simps [simp]:
  "sl_id (slot_set_result t sl) = sl_id sl" "sl_state (slot_set_result t sl) = sl_state sl"
  "thread_valid (slot_set_result t sl) = thread_valid sl" "finished_at (slot_set_result t sl) = finished_at sl"
  by (simp_all add: slot_set_result_def)

lemma sa_finish_simps [simp]:
  "sl_id (sa_finish now r sl) = sl_id sl" "thread_valid (sa_finish now r sl) = thread_valid sl"
  by (simp_all add: sa_finish_def)

lemma sa_finish_state: "sl_state (sa_finish now r sl) = SA_ERROR \<or> sl_state (sa_finish now r sl) = SA_DONE"
  by (simp add: sa_finish_def)

lemma pool_self [simp]: "(p :: pool)\<lparr>p_next_id := p_next_id p, p_slots := sls\<rparr> = p\<lparr>p_slots := sls\<rparr>"
  by simp

lemma sa_ok_finish:
  assumes ok: "sa_ok s" and j: "joining s = None" and r: "threads s i = Returned r"
  shows "sa_ok (s\<lparr>pool_of := (pool_of s)\<lparr>p_slots := (p_slots (pool_of s))[i := sa_finish now r (p_slots (pool_of s) ! i)]\<rparr>,
                threads := (threads s)(i := Exited)\<rparr>)"
proof -
  let ?sl = "p_slots (pool_of s) ! i"
  have i: "i < SUBAGENT_MAX_SLOTS" using ok r unfolding sa_ok_def by (metis linorder_not_less phase.distinct(3))
  then have old: "slot_ok (p_next_id (pool_of s)) ?sl (Returned r)" using ok r unfolding sa_ok_def by metis
  then have live: "sl_state ?sl \<noteq> SA_IDLE" by (auto simp: slot_ok_def)
  have "slot_ok (p_next_id (pool_of s)) (sa_finish now r ?sl) Exited"
    using sa_finish_state [of now r ?sl] old live unfolding slot_ok_def by (elim disjE) simp_all
  then have "sa_ok \<lparr>pool_of = (pool_of s)\<lparr>p_next_id := p_next_id (pool_of s),
      p_slots := (p_slots (pool_of s))[i := sa_finish now r ?sl]\<rparr>,
      threads = (threads s)(i := Exited), watchdogs = watchdogs s, joining = None\<rparr>"
    by (intro sa_ok_update [OF ok i]) (use live watchdogs_less [OF ok order_refl] in auto)
  then have ok': "sa_ok \<lparr>pool_of = (pool_of s)\<lparr>p_next_id := p_next_id (pool_of s),
      p_slots := (p_slots (pool_of s))[i := sa_finish now r ?sl]\<rparr>,
      threads = (threads s)(i := Exited), watchdogs = watchdogs s, joining = None\<rparr>" .
  have eq: "s\<lparr>pool_of := (pool_of s)\<lparr>p_slots := (p_slots (pool_of s))[i := sa_finish now r ?sl]\<rparr>,
      threads := (threads s)(i := Exited)\<rparr> = \<lparr>pool_of = (pool_of s)\<lparr>p_next_id := p_next_id (pool_of s),
      p_slots := (p_slots (pool_of s))[i := sa_finish now r ?sl]\<rparr>,
      threads = (threads s)(i := Exited), watchdogs = watchdogs s, joining = None\<rparr>"
    by (rule sa_sys.equality) (simp_all add: j)
  show ?thesis unfolding eq by (rule ok')
qed

lemma watchdog_cases:
  assumes "watchdog now w sls = (hit, sls')"
  obtains "hit = None" "sls' = sls"
  | k where "hit = Some k" "k < length sls" "watchdog_hits w (sls ! k)"
      "sls' = sls[k := slot_set_result (Some ''[Subagent timed out]'') ((sls ! k)\<lparr>sl_state := SA_TIMEOUT, finished_at := now\<rparr>)]"
proof (cases "find (\<lambda>k. watchdog_hits w (sls ! k)) [0..<length sls]")
  case None
  then show ?thesis using that(1) assms unfolding watchdog_def None option.case by simp
next
  case (Some k)
  from find_index [OF Some] show ?thesis using that(2) [of k] assms unfolding watchdog_def Some option.case by simp
qed

lemma sa_ok_watchdog:
  assumes ok: "sa_ok s" and j: "joining s = None" and w: "watchdog now w (p_slots (pool_of s)) = (hit, sls)"
  shows "sa_ok (s\<lparr>pool_of := (pool_of s)\<lparr>p_slots := sls\<rparr>, watchdogs := remove1 w (watchdogs s),
                threads := (case hit of None \<Rightarrow> threads s
                  | Some k \<Rightarrow> (threads s)(k := (case threads s k of Chatting _ \<Rightarrow> Chatting True | ph \<Rightarrow> ph)))\<rparr>)"
    (is "sa_ok ?s'")
  using w
proof (cases rule: watchdog_cases)
  case 1
  then show ?thesis using ok j unfolding sa_ok_def by (auto dest: notin_set_remove1)
next
  case (2 k)
  let ?sl = "p_slots (pool_of s) ! k"
  let ?new = "slot_set_result (Some ''[Subagent timed out]'') (?sl\<lparr>sl_state := SA_TIMEOUT, finished_at := now\<rparr>)"
  let ?ph = "case threads s k of Chatting _ \<Rightarrow> Chatting True | ph \<Rightarrow> ph"
  have k: "k < SUBAGENT_MAX_SLOTS" using 2(2) ok by (simp add: sa_ok_def)
  then have old: "slot_ok (p_next_id (pool_of s)) ?sl (threads s k)" using ok by (simp add: sa_ok_def)
  have run: "sl_state ?sl = SA_RUNNING" "thread_valid ?sl" using 2(3) by (simp_all add: watchdog_hits_def)
  have "slot_ok (p_next_id (pool_of s)) ?new ?ph"
    using old run by (auto simp: slot_ok_def)
  then have "sa_ok \<lparr>pool_of = (pool_of s)\<lparr>p_next_id := p_next_id (pool_of s), p_slots := (p_slots (pool_of s))[k := ?new]\<rparr>,
      threads = (threads s)(k := ?ph), watchdogs = remove1 w (watchdogs s), joining = None\<rparr>"
    by (intro sa_ok_update [OF ok k])
      (use run watchdogs_less [OF ok order_refl] in \<open>auto dest: notin_set_remove1\<close>)
  moreover have "?s' = \<lparr>pool_of = (pool_of s)\<lparr>p_next_id := p_next_id (pool_of s), p_slots := (p_slots (pool_of s))[k := ?new]\<rparr>,
      threads = (threads s)(k := ?ph), watchdogs = remove1 w (watchdogs s), joining = None\<rparr>"
    by (rule sa_sys.equality) (simp_all add: j 2)
  ultimately show ?thesis by (simp only:)
qed

lemma sa_ok_thread:
  assumes ok: "sa_ok s" and c: "threads s i = Chatting c" and ph: "ph = Exited \<and> c \<or> (\<exists>r. ph = Returned r)"
  shows "sa_ok (s\<lparr>threads := (threads s)(i := ph)\<rparr>)"
proof -
  have i: "i < SUBAGENT_MAX_SLOTS" using ok c unfolding sa_ok_def by (metis linorder_not_less phase.distinct(1))
  then have "slot_ok (p_next_id (pool_of s)) (p_slots (pool_of s) ! i) (Chatting c)" using ok c unfolding sa_ok_def by metis
  then have "slot_ok (p_next_id (pool_of s)) (p_slots (pool_of s) ! i) ph" using ph by (auto simp: slot_ok_def)
  then show ?thesis using ok i by (auto simp: sa_ok_def)
qed

lemma sa_ok_step: "sa_step s s' \<Longrightarrow> sa_ok s \<Longrightarrow> sa_ok s'"
proof (induction rule: sa_step.induct)
  case (spawn s args now thread_ok)
  then show ?case by (intro sa_ok_do_spawn) auto
next
  case (spawn_joins s args now i thread_ok)
  then show ?case by (auto simp: sa_ok_def)
next
  case (spawn_joined s i now thread_ok args)
  then have "alloc_joins now (p_slots (pool_of s)) = Some i" by (simp add: sa_ok_def)
  with spawn_joined show ?case by (intro sa_ok_do_spawn) auto
next
  case (chat s i c r)
  then show ?case by (intro sa_ok_thread) auto
next
  case (cancelled s i)
  then show ?case by (intro sa_ok_thread) auto
next
  case (finish s i r now)
  then show ?case by (intro sa_ok_finish) auto
next
  case (watchdog s w now hit sls)
  then show ?case by (intro sa_ok_watchdog) auto
qed

lemma sa_ok_init: "subagent_pool_create tm True t = Some p \<Longrightarrow> sa_ok (sa_init p)"
  by (auto simp: subagent_pool_create_def sa_init_def sa_ok_def slot_ok_def empty_sub_def)

lemma sa_ok_reach: "sa_reach s0 s \<Longrightarrow> sa_ok s0 \<Longrightarrow> sa_ok s"
  by (induction rule: sa_reach.induct) (auto intro: sa_ok_step)

section \<open>Properties\<close>

text \<open>C28: from the creation of the pool, whatever spawns, finished calls, cancellations and watchdogs
  happen in whatever order: there are eight slots, every sub-agent that is in the table has its own
  identifier, every running one has a worker thread that has not ended and is not cancelled, every
  finished or failed one has no thread left, and every timed-out one has a thread that can be joined.\<close>

theorem subagent_pool_invariant:
  assumes "subagent_pool_create tm True ttl = Some p" and "sa_reach (sa_init p) s"
    and "i < SUBAGENT_MAX_SLOTS" and "j < SUBAGENT_MAX_SLOTS"
  defines "a \<equiv> p_slots (pool_of s) ! i" and "b \<equiv> p_slots (pool_of s) ! j"
  shows "length (p_slots (pool_of s)) = SUBAGENT_MAX_SLOTS
    \<and> (i \<noteq> j \<longrightarrow> sl_state a \<noteq> SA_IDLE \<longrightarrow> sl_state b \<noteq> SA_IDLE \<longrightarrow> sl_id a \<noteq> sl_id b)
    \<and> (sl_state a \<noteq> SA_IDLE \<longrightarrow> 1 \<le> sl_id a \<and> sl_id a < p_next_id (pool_of s))
    \<and> (sl_state a = SA_RUNNING \<longrightarrow> thread_valid a \<and> (threads s i = Chatting False \<or> (\<exists>r. threads s i = Returned r)))
    \<and> (sl_state a = SA_DONE \<or> sl_state a = SA_ERROR \<longrightarrow> threads s i = Exited)
    \<and> (sl_state a = SA_TIMEOUT \<longrightarrow> thread_valid a)"
proof -
  have ok: "sa_ok s" using sa_ok_reach [OF assms(2) sa_ok_init [OF assms(1)]] .
  then have "slot_ok (p_next_id (pool_of s)) a (threads s i)" using assms(3) by (simp add: sa_ok_def a_def)
  moreover have "length (p_slots (pool_of s)) = SUBAGENT_MAX_SLOTS
    \<and> (i \<noteq> j \<longrightarrow> sl_state a \<noteq> SA_IDLE \<longrightarrow> sl_state b \<noteq> SA_IDLE \<longrightarrow> sl_id a \<noteq> sl_id b)"
    using ok assms(3,4) unfolding sa_ok_def a_def b_def by blast
  ultimately show ?thesis by (auto simp: slot_ok_def)
qed

definition demo_pool :: pool where
  "demo_pool = \<lparr>p_slots = replicate SUBAGENT_MAX_SLOTS empty_sub, p_next_id = 1, p_tmpl = None, p_timeout = 600\<rparr>"

definition demo_spawn :: "json option" where
  "demo_spawn = Some (JObject [(''task'', JString ''t'')])"

lemma demo_pool_create: "subagent_pool_create None True 0 = Some demo_pool"
  by (simp add: subagent_pool_create_def demo_pool_def SUBAGENT_DEFAULT_TTL_def)

lemma demo_spawn_args: "spawn_args demo_spawn = Some (''worker'', ''t'', None)"
proof -
  have "get_str demo_spawn ''task'' = Some ''t''" "get_str demo_spawn ''name'' = None"
    "get_str demo_spawn ''context'' = None" by code_simp+
  then show ?thesis by (simp add: spawn_args_def)
qed

text \<open>A spawn while slots are idle takes the first of them and joins nobody.\<close>

lemma first_idle:
  assumes "k < SUBAGENT_MAX_SLOTS" "length sls = SUBAGENT_MAX_SLOTS" "\<forall>j < k. sl_state (sls ! j) \<noteq> SA_IDLE"
    "sl_state (sls ! k) = SA_IDLE"
  shows "alloc_idx now sls = Some k" "alloc_joins now sls = None"
proof -
  have "find (\<lambda>i. sl_state (sls ! i) = SA_IDLE) [0..<length sls] = Some k"
    using assms unfolding find_Some_iff by (intro exI [of _ k]) auto
  then show "alloc_idx now sls = Some k" by (simp add: alloc_idx_def)
  then show "alloc_joins now sls = None" using assms(4) by (simp add: alloc_joins_def)
qed

text \<open>After \<open>k\<close> spawns at time 0 the first \<open>k\<close> slots run.\<close>

definition spawned :: "nat \<Rightarrow> sa_sys \<Rightarrow> bool" where
  "spawned k s \<longleftrightarrow> sa_reach (sa_init demo_pool) s \<and> joining s = None \<and> length (p_slots (pool_of s)) = SUBAGENT_MAX_SLOTS
     \<and> (\<forall>j < SUBAGENT_MAX_SLOTS. sl_state (p_slots (pool_of s) ! j) = (if j < k then SA_RUNNING else SA_IDLE))
     \<and> (\<forall>j < k. sl_id (p_slots (pool_of s) ! j) = int j + 1 \<and> thread_valid (p_slots (pool_of s) ! j)
         \<and> threads s j = Chatting False \<and> int j + 1 \<in> set (watchdogs s))
     \<and> p_next_id (pool_of s) = int k + 1"

lemma spawned_ex: "k \<le> SUBAGENT_MAX_SLOTS \<Longrightarrow> \<exists>s. spawned k s"
proof (induction k)
  case 0
  have "spawned 0 (sa_init demo_pool)"
    by (auto simp: spawned_def sa_init_def demo_pool_def empty_sub_def intro: sa_refl)
  then show ?case ..
next
  case (Suc k)
  then obtain s where s: "spawned k s" by auto
  let ?sls = "p_slots (pool_of s)"
  have k: "k < SUBAGENT_MAX_SLOTS" "length ?sls = SUBAGENT_MAX_SLOTS" using s Suc.prems by (auto simp: spawned_def)
  have idle: "alloc_idx 0 ?sls = Some k" "alloc_joins 0 ?sls = None"
    using first_idle [of k ?sls 0] s k by (auto simp: spawned_def)
  let ?s = "do_spawn 0 True demo_spawn s"
  have step: "sa_step s ?s" using idle(2) s by (intro sa_step.spawn) (auto simp: spawned_def)
  have st: "sl_state (?sls ! k) = SA_IDLE" using s k by (simp add: spawned_def)
  let ?sl = "(new_slot 0 (pool_of s) ''worker'' ''t'' None (?sls ! k))\<lparr>thread_valid := True\<rparr>"
  have "?s = s\<lparr>pool_of := (pool_of s)\<lparr>p_next_id := p_next_id (pool_of s) + 1, p_slots := ?sls[k := ?sl]\<rparr>,
      joining := None, threads := (threads s)(k := Chatting False), watchdogs := watchdogs s @ [p_next_id (pool_of s)]\<rparr>"
    using idle(1) st k by (simp add: do_spawn_def tool_spawn_def demo_spawn_args alloc_slot_def Let_def)
  then have "spawned (Suc k) ?s"
    using s k step by (auto simp: spawned_def nth_list_update less_Suc_eq intro: sa_trans)
  then show ?case ..
qed

text \<open>Once a spawn waits for a worker that waits for the lock, neither goes on.\<close>

lemma join_stuck:
  "sa_step s s' \<Longrightarrow> joining s = Some (i, req) \<Longrightarrow> threads s i = Returned r \<Longrightarrow>
   joining s' = joining s \<and> threads s' i = Returned r \<and> pool_of s' = pool_of s"
  by (induction rule: sa_step.induct) auto

lemma join_stuck_reach:
  "sa_reach s s' \<Longrightarrow> joining s = Some (i, req) \<Longrightarrow> threads s i = Returned r \<Longrightarrow>
   joining s' = joining s \<and> threads s' i = Returned r \<and> pool_of s' = pool_of s"
proof (induction rule: sa_reach.induct)
  case (sa_trans s1 s2)
  then have "joining s1 = Some (i, req)" "threads s1 i = Returned r" "pool_of s1 = pool_of s" by auto
  from join_stuck [OF sa_trans.hyps(2) this(1,2)] sa_trans show ?case by auto
qed simp

lemma oldest_unfinished: "\<forall>sl \<in> set sls. \<not> finished sl \<Longrightarrow> oldest bt bi i sls = bi"
  by (induction sls arbitrary: i) auto

lemma watchdog_first:
  assumes "0 < length sls" "watchdog_hits w (sls ! 0)"
  shows "watchdog now w sls = (Some 0, sls[0 := slot_set_result (Some ''[Subagent timed out]'')
      ((sls ! 0)\<lparr>sl_state := SA_TIMEOUT, finished_at := now\<rparr>)])"
proof -
  have "find (\<lambda>k. watchdog_hits w (sls ! k)) [0..<length sls] = Some 0"
    using assms unfolding find_Some_iff by (intro exI [of _ 0]) auto
  then show ?thesis by (simp add: watchdog_def)
qed

lemma stuck_state_ex:
  "\<exists>s r. sa_reach (sa_init demo_pool) s \<and> joining s = Some (0, 601, True, demo_spawn) \<and> threads s 0 = Returned r"
proof -
  obtain s0 where s0: "spawned SUBAGENT_MAX_SLOTS s0" using spawned_ex by blast
  let ?sls = "p_slots (pool_of s0)"
  have len: "length ?sls = SUBAGENT_MAX_SLOTS" and pos: "0 < SUBAGENT_MAX_SLOTS"
    using s0 by (simp_all add: spawned_def SUBAGENT_MAX_SLOTS_def)
  have slot0: "sl_id (?sls ! 0) = 1" "thread_valid (?sls ! 0)" "threads s0 0 = Chatting False" "1 \<in> set (watchdogs s0)"
    "sl_state (?sls ! 0) = SA_RUNNING" "joining s0 = None"
    using s0 pos by (auto simp: spawned_def)
  let ?t = "slot_set_result (Some ''[Subagent timed out]'') ((?sls ! 0)\<lparr>sl_state := SA_TIMEOUT, finished_at := 600\<rparr>)"
  have w: "watchdog 600 1 ?sls = (Some 0, ?sls[0 := ?t])"
    using watchdog_first [of ?sls 1 600] len pos slot0 by (simp add: watchdog_hits_def)
  let ?s1 = "s0\<lparr>pool_of := (pool_of s0)\<lparr>p_slots := ?sls[0 := ?t]\<rparr>, watchdogs := remove1 1 (watchdogs s0),
      threads := (threads s0)(0 := Chatting True)\<rparr>"
  have 1: "sa_step s0 ?s1" using sa_step.watchdog [OF slot0(6,4) w] slot0(3) by simp
  let ?s2 = "?s1\<lparr>threads := (threads ?s1)(0 := Returned ''late'')\<rparr>"
  have 2: "sa_step ?s1 ?s2" by (rule sa_step.chat) simp
  have run: "sl_state (?sls ! j) = SA_RUNNING" if "j < SUBAGENT_MAX_SLOTS" for j using s0 that by (simp add: spawned_def)
  have "\<forall>sl \<in> set (tl ?sls). \<not> finished sl"
    using run len by (auto simp: in_set_conv_nth nth_tl finished_def)
  moreover have upd: "?sls[0 := ?t] = ?t # tl ?sls" using len pos by (cases ?sls) auto
  ultimately have old: "oldest 602 None 0 (?sls[0 := ?t]) = Some 0"
    unfolding upd by (simp add: finished_def [of ?t] oldest_unfinished)
  have "find (\<lambda>i. sl_state (?sls[0 := ?t] ! i) = SA_IDLE) [0..<length ?sls] = None"
    using run len by (auto simp: find_None_iff nth_list_update)
  with old have "alloc_idx 601 (?sls[0 := ?t]) = Some 0" by (simp add: alloc_idx_def)
  then have "alloc_joins 601 (?sls[0 := ?t]) = Some 0"
    using len pos slot0 by (simp add: alloc_joins_def)
  then have 3: "sa_step ?s2 (?s2\<lparr>joining := Some (0, 601, True, demo_spawn)\<rparr>)"
    using slot0(6) by (intro sa_step.spawn_joins) (simp_all add: demo_spawn_args)
  have "sa_reach (sa_init demo_pool) s0" using s0 by (simp add: spawned_def)
  from sa_trans [OF sa_trans [OF sa_trans [OF this 1] 2] 3]
  show ?thesis by (intro exI [of _ "?s2\<lparr>joining := Some (0, 601, True, demo_spawn)\<rparr>"] exI [of _ "''late''"]) simp
qed

text \<open>The pool can deadlock. There is a reachable state in which \<open>spawn_subagent\<close> holds the lock and
  joins the worker of a timed-out slot, while that worker has left \<open>agent_chat\<close> and waits for the
  lock; in every later state both still wait and the table never changes again.\<close>

theorem subagent_spawn_deadlock:
  "\<exists>s req r. sa_reach (sa_init demo_pool) s
     \<and> Collect (sa_reach s) \<subseteq> {s'. joining s' = Some (0, req) \<and> threads s' 0 = Returned r \<and> pool_of s' = pool_of s}"
proof -
  obtain s r where s: "sa_reach (sa_init demo_pool) s" "joining s = Some (0, 601, True, demo_spawn)" "threads s 0 = Returned r"
    using stuck_state_ex by blast
  then have "Collect (sa_reach s) \<subseteq>
      {s'. joining s' = Some (0, 601, True, demo_spawn) \<and> threads s' 0 = Returned r \<and> pool_of s' = pool_of s}"
    using join_stuck_reach [OF _ s(2,3)] by auto
  with s(1) show ?thesis by blast
qed

lemma do_spawn_keeps:
  assumes ok: "sa_ok s" and i: "i < SUBAGENT_MAX_SLOTS" and run: "sl_state (p_slots (pool_of s) ! i) = SA_RUNNING"
  shows "p_slots (pool_of (do_spawn now tok args s)) ! i = p_slots (pool_of s) ! i"
proof -
  obtain reply p' start where sp: "tool_spawn now tok args (pool_of s) = (reply, p', start)"
    by (cases "tool_spawn now tok args (pool_of s)") auto
  have len: "length (p_slots (pool_of s)) = SUBAGENT_MAX_SLOTS" using ok by (simp add: sa_ok_def)
  have p: "pool_of (do_spawn now tok args s) = p'" by (simp add: do_spawn_def sp split: option.split)
  have ne: "k \<noteq> i" if "alloc_idx now (p_slots (pool_of s)) = Some k" for k
    using alloc_idx_Some [OF that] run finished_not_running by auto
  show ?thesis unfolding p
    by (rule tool_spawn_cases [OF sp len]) (use ne in auto)
qed

text \<open>A running sub-agent is never evicted or altered by another one: in every step its slot stays
  as it is, unless its own worker hands in its response or its own watchdog fires.\<close>

theorem subagent_running_kept:
  assumes "subagent_pool_create tm True ttl = Some p" and "sa_reach (sa_init p) s" and "sa_step s s'"
    and "i < SUBAGENT_MAX_SLOTS" and "sl_state (p_slots (pool_of s) ! i) = SA_RUNNING"
  shows "p_slots (pool_of s') ! i = p_slots (pool_of s) ! i
    \<or> (\<exists>now r. threads s i = Returned r \<and> p_slots (pool_of s') ! i = sa_finish now r (p_slots (pool_of s) ! i))
    \<or> (\<exists>now. sl_id (p_slots (pool_of s) ! i) \<in> set (watchdogs s) \<and> p_slots (pool_of s') ! i =
         slot_set_result (Some ''[Subagent timed out]'')
           ((p_slots (pool_of s) ! i)\<lparr>sl_state := SA_TIMEOUT, finished_at := now\<rparr>))"
proof -
  have ok: "sa_ok s" using sa_ok_reach [OF assms(2) sa_ok_init [OF assms(1)]] .
  then have len: "length (p_slots (pool_of s)) = SUBAGENT_MAX_SLOTS" by (simp add: sa_ok_def)
  from assms(3) show ?thesis
  proof (cases rule: sa_step.cases)
    case (finish k r now)
    then show ?thesis using assms(4) len by (cases "k = i") auto
  next
    case (watchdog w now hit sls)
    from watchdog(4) show ?thesis
    proof (cases rule: watchdog_cases)
      case (2 k)
      then show ?thesis using watchdog assms(4) len by (cases "k = i") (auto simp: watchdog_hits_def)
    qed (use watchdog in simp)
  qed (use do_spawn_keeps [OF ok assms(4,5)] in auto)
qed

lemma subagent_running_kept_witness:
  "\<exists>s. sa_step s (do_spawn 0 True demo_spawn s) \<and> sl_state (p_slots (pool_of s) ! 0) = SA_RUNNING
     \<and> sl_state (p_slots (pool_of (do_spawn 0 True demo_spawn s)) ! 0) \<noteq> SA_IDLE"
proof -
  have one: "1 < SUBAGENT_MAX_SLOTS" by (simp add: SUBAGENT_MAX_SLOTS_def)
  then obtain s where s: "spawned 1 s" using spawned_ex [of 1] by auto
  then have "alloc_joins 0 (p_slots (pool_of s)) = None"
    using first_idle [of 1 "p_slots (pool_of s)" 0] one by (auto simp: spawned_def)
  then have step: "sa_step s (do_spawn 0 True demo_spawn s)" using s by (intro sa_step.spawn) (auto simp: spawned_def)
  have z: "0 < SUBAGENT_MAX_SLOTS" "sl_state (p_slots (pool_of s) ! 0) = SA_RUNNING" "sa_reach (sa_init demo_pool) s"
    using s one by (auto simp: spawned_def)
  from subagent_running_kept [OF demo_pool_create z(3) step z(1,2)]
  have "sl_state (p_slots (pool_of (do_spawn 0 True demo_spawn s)) ! 0) \<noteq> SA_IDLE"
    using z(2) by (auto simp: sa_finish_def split: if_splits)
  with step z(2) show ?thesis by blast
qed

lemma subagent_pool_invariant_witness:
  "\<exists>s. sa_reach (sa_init demo_pool) s \<and> sl_state (p_slots (pool_of s) ! 0) = SA_RUNNING
     \<and> sl_state (p_slots (pool_of s) ! 1) = SA_RUNNING \<and> sl_id (p_slots (pool_of s) ! 0) \<noteq> sl_id (p_slots (pool_of s) ! 1)"
proof -
  have two: "2 \<le> SUBAGENT_MAX_SLOTS" by (simp add: SUBAGENT_MAX_SLOTS_def)
  then obtain s where s: "spawned 2 s" using spawned_ex [of 2] by auto
  have r: "sa_reach (sa_init demo_pool) s" and i: "(0::nat) < SUBAGENT_MAX_SLOTS" "1 < SUBAGENT_MAX_SLOTS"
    using s by (auto simp: spawned_def SUBAGENT_MAX_SLOTS_def)
  have run: "sl_state (p_slots (pool_of s) ! 0) = SA_RUNNING" "sl_state (p_slots (pool_of s) ! 1) = SA_RUNNING"
    using s i by (auto simp: spawned_def)
  with subagent_pool_invariant [OF demo_pool_create r i] have "sl_id (p_slots (pool_of s) ! 0) \<noteq> sl_id (p_slots (pool_of s) ! 1)"
    by auto
  with r run show ?thesis by blast
qed

end
