(* ===== verification/Shell_Tool.thy ===== *)
theory Shell_Tool
  imports Allowlist Json_Props
begin

text \<open>
  Model of \<open>src/tools/shell/shell_tool.c\<close>. The child process is what the parent sees of it: the
  chunks each drain of the pipe reads, the answer of \<open>waitpid\<close> and the clock after it, one record
  per round of the polling loop. Terminal state is not modelled.
\<close>

definition MAX_OUTPUT_SIZE :: nat where "MAX_OUTPUT_SIZE = 32 * 1024"
definition DEFAULT_TIMEOUT :: int where "DEFAULT_TIMEOUT = 30"

definition json_error :: "string \<Rightarrow> string option \<Rightarrow> string" where
  "json_error msg detail =
     cJSON_PrintUnformatted (cJSON_AddStringToObject (JObject [(''error'', JString msg)]) ''detail'' detail)"

section \<open>Running a command\<close>

text \<open>
  One round: what \<open>read\<close> returned until the pipe was empty, the exit status (\<open>None\<close>: still
  running; \<open>Some None\<close>: ended by a signal), and the monotonic time in nanoseconds.
\<close>

record poll_round =
  chunks :: "string list"
  child :: "int option option"
  clock :: int

text \<open>One chunk: cut at the room left, and at a NUL byte, where \<open>strbuf_append\<close> stops.\<close>

definition take_chunk :: "string \<Rightarrow> string \<Rightarrow> string" where
  "take_chunk sb buf =
     (if length sb < MAX_OUTPUT_SIZE then
        let n = (if length sb + length buf > MAX_OUTPUT_SIZE then MAX_OUTPUT_SIZE - length sb else length buf)
        in sb @ takeWhile (\<lambda>c. c \<noteq> NUL) (take n buf)
      else sb)"

definition drain :: "string list \<Rightarrow> string \<Rightarrow> string" where
  "drain cs sb = fold (\<lambda>c sb. take_chunk sb c) cs sb"

text \<open>
  The polling loop until the child is reaped or killed: the output, the exit code and the timeout
  flag. \<open>None\<close>: the given rounds end while the loop still waits.
\<close>

fun poll_loop :: "int \<Rightarrow> string \<Rightarrow> poll_round list \<Rightarrow> (string \<times> int \<times> bool) option" where
  "poll_loop deadline sb [] = None"
| "poll_loop deadline sb (r # rs) =
     (let sb' = drain (chunks r) sb
      in case child r of
           Some st \<Rightarrow> Some (sb', (case st of Some code \<Rightarrow> code | None \<Rightarrow> - 1), False)
         | None \<Rightarrow> if clock r \<ge> deadline then Some (sb', - 1, True) else poll_loop deadline sb' rs)"

text \<open>The process as the tool sees it: the spawn fails with an error text, or it starts and runs.\<close>

datatype spawn = SpawnFails string | Spawned int "poll_round list" "string list"

datatype run_result = RunFailed string | Ran string int

definition shell_run_timed :: "spawn \<Rightarrow> int \<Rightarrow> run_result option" where
  "shell_run_timed sp timeout_sec =
     (case sp of
        SpawnFails e \<Rightarrow> Some (RunFailed e)
      | Spawned start rounds rest \<Rightarrow>
          map_option (\<lambda>(sb, code, timed_out).
            let out = drain rest sb
            in Ran (if timed_out then out @ [NL] @ ''[dobby: command timed out and was killed]''
                    else if length out \<ge> MAX_OUTPUT_SIZE then out @ [NL] @ ''[dobby: output truncated]''
                    else out) code)
            (poll_loop (start + timeout_sec * 1000000000) '''' rounds))"

section \<open>The tool\<close>

definition command_required :: string where
  "command_required = [CHR 0x27] @ ''command'' @ [CHR 0x27] @ '' parameter required''"

definition shell_timeout :: "json option \<Rightarrow> int" where
  "shell_timeout args =
     (let tv = cJSON_GetObjectItem args ''timeout'';
          t = (if cJSON_IsNumber tv then valueint tv else DEFAULT_TIMEOUT)
      in if t \<le> 0 \<or> t > 300 then DEFAULT_TIMEOUT else t)"

text \<open>
  \<open>shell_execute\<close>: the reply and the commands that were started; \<open>os\<close> gives the process for a
  command. \<open>None\<close> as in \<open>poll_loop\<close>.
\<close>

definition shell_execute :: "allowlist option \<Rightarrow> (string \<Rightarrow> spawn) \<Rightarrow> json option \<Rightarrow> (string \<times> string list) option" where
  "shell_execute al os args =
     (case get_str args ''command'' of
        None \<Rightarrow> Some (json_error command_required None, [])
      | Some command \<Rightarrow>
          if command = '''' then Some (json_error command_required None, [])
          else if (case al of None \<Rightarrow> False | Some a \<Rightarrow> allowlist_is_enabled a ACL_COMMAND \<and> \<not> allowlist_check a ACL_COMMAND command)
          then Some (json_error ''Command not permitted by allowlist'' (Some command), [])
          else case shell_run_timed (os command) (shell_timeout args) of
            None \<Rightarrow> None
          | Some (RunFailed e) \<Rightarrow> Some (json_error ''Failed to spawn process'' (Some e), [])
          | Some (Ran raw code) \<Rightarrow>
              Some (cJSON_PrintUnformatted (JObject
                [(''command'', JString command), (''exit_code'', JInt code), (''output'', JString (sanitize_output raw))]),
                [command]))"

section \<open>Bounds\<close>

lemma take_chunk_bound: "length sb \<le> MAX_OUTPUT_SIZE \<Longrightarrow> length (take_chunk sb c) \<le> MAX_OUTPUT_SIZE"
proof -
  assume sb: "length sb \<le> MAX_OUTPUT_SIZE"
  have w: "length (takeWhile (\<lambda>c. c \<noteq> NUL) (take n c)) \<le> n" for n
    using length_takeWhile_le [of "\<lambda>c. c \<noteq> NUL" "take n c"] by simp
  show ?thesis
  proof (cases "length sb + length c > MAX_OUTPUT_SIZE")
    case True
    have "length sb + length (takeWhile (\<lambda>c. c \<noteq> NUL) (take (MAX_OUTPUT_SIZE - length sb) c)) \<le> MAX_OUTPUT_SIZE"
      using sb w [of "MAX_OUTPUT_SIZE - length sb"] by linarith
    with True sb show ?thesis by (simp add: take_chunk_def)
  next
    case False
    then show ?thesis using sb w [of "length c"] by (simp add: take_chunk_def)
  qed
qed

lemma drain_bound: "length sb \<le> MAX_OUTPUT_SIZE \<Longrightarrow> length (drain cs sb) \<le> MAX_OUTPUT_SIZE"
  unfolding drain_def by (induction cs arbitrary: sb) (auto intro: take_chunk_bound)

lemma poll_loop_bound:
  "poll_loop dl sb rs = Some (out, code, t) \<Longrightarrow> length sb \<le> MAX_OUTPUT_SIZE \<Longrightarrow> length out \<le> MAX_OUTPUT_SIZE"
  by (induction dl sb rs rule: poll_loop.induct) (auto simp: Let_def drain_bound split: option.splits if_splits)

text \<open>The loop ends in the first round whose clock has passed the deadline, or before.\<close>

lemma poll_loop_deadline:
  "r \<in> set rs \<Longrightarrow> dl \<le> clock r \<Longrightarrow> \<exists>res. poll_loop dl sb rs = Some res"
  by (induction dl sb rs rule: poll_loop.induct) (auto simp: Let_def split: option.split)

lemma run_output_bound:
  assumes "shell_run_timed sp t = Some (Ran raw code)"
  shows "length raw \<le> MAX_OUTPUT_SIZE + 44"
proof -
  obtain start rounds rest where sp: "sp = Spawned start rounds rest"
    using assms by (cases sp) (auto simp: shell_run_timed_def)
  obtain sb k tmo where p: "poll_loop (start + t * 1000000000) '''' rounds = Some (sb, k, tmo)"
    using assms by (auto simp: shell_run_timed_def sp)
  have "length (drain rest sb) \<le> MAX_OUTPUT_SIZE" using drain_bound poll_loop_bound [OF p] by simp
  then show ?thesis using assms p by (auto simp: shell_run_timed_def sp Let_def split: if_splits)
qed

lemma sanitize_length: "length (sanitize_output s) \<le> length s"
  using list_emb_length [OF sanitize_subseq] .



end
