(* ===== verification/File_Tool.thy ===== *)
theory File_Tool
  imports Allowlist Json_Props
begin

text \<open>
  Model of \<open>src/tools/file_ops/file_tool.c\<close>. The file system is a parameter: the system calls the
  tools make, as functions on an abstract world; a failing call gives the text of \<open>strerror\<close>.
\<close>

definition FILE_TOOL_MAX :: int where "FILE_TOOL_MAX = 10 * 1024 * 1024"

text \<open>
  \<open>os_stat\<close>: whether it is a directory, and the size; \<open>os_read\<close>: the bytes of the file;
  \<open>os_write\<close>: the number of bytes written; \<open>os_list\<close>: the names in the order of \<open>readdir\<close>.
\<close>

record 'w os =
  os_stat :: "'w \<Rightarrow> string \<Rightarrow> string + bool \<times> int"
  os_read :: "'w \<Rightarrow> string \<Rightarrow> string + string"
  os_write :: "string \<Rightarrow> string \<Rightarrow> 'w \<Rightarrow> (string + nat) \<times> 'w"
  os_list :: "'w \<Rightarrow> string \<Rightarrow> string + string list"
  os_unlink :: "string \<Rightarrow> 'w \<Rightarrow> string option \<times> 'w"

definition check_path :: "allowlist option \<Rightarrow> string \<Rightarrow> bool" where
  "check_path al path =
     (case al of
        None \<Rightarrow> True
      | Some a \<Rightarrow> if allowlist_is_enabled a ACL_PATH then allowlist_check a ACL_PATH path else True)"

definition errno_reply :: "string \<Rightarrow> string" where
  "errno_reply e = cJSON_PrintUnformatted (JObject [(''error'', JString e)])"

definition not_allowed :: string where
  \<open>not_allowed = ''{"error": "Path not allowed"}''\<close>

definition file_read_exec :: "'w os \<Rightarrow> allowlist option \<Rightarrow> json option \<Rightarrow> 'w \<Rightarrow> string" where
  \<open>file_read_exec os al args w =
     (case get_str args ''path'' of
        None \<Rightarrow> ''{"error": "'path' required"}''
      | Some path \<Rightarrow>
          if \<not> check_path al path then not_allowed
          else case os_stat os w path of
            Inl e \<Rightarrow> errno_reply e
          | Inr (_, sz) \<Rightarrow>
              if sz > FILE_TOOL_MAX then ''{"error": "File exceeds 10MB size limit"}''
              else case os_read os w path of
                Inl e \<Rightarrow> errno_reply e
              | Inr bytes \<Rightarrow>
                  cJSON_PrintUnformatted (JObject
                    [(''path'', JString path), (''size'', JInt sz),
                     (''content'', JString (sanitize_output (c_str (take (nat sz) bytes))))]))\<close>

definition file_write_exec :: "'w os \<Rightarrow> allowlist option \<Rightarrow> json option \<Rightarrow> 'w \<Rightarrow> string \<times> 'w" where
  \<open>file_write_exec os al args w =
     (case (get_str args ''path'', get_str args ''content'') of
        (Some path, Some content) \<Rightarrow>
          (if \<not> check_path al path then (not_allowed, w)
           else if int (length content) > FILE_TOOL_MAX then (''{"error": "Content exceeds 10MB size limit"}'', w)
           else case os_write os path content w of
             (Inl e, w') \<Rightarrow> (errno_reply e, w')
           | (Inr n, w') \<Rightarrow>
               (cJSON_PrintUnformatted (JObject
                  [(''status'', JString ''written''), (''path'', JString path), (''bytes_written'', JInt (int n))]), w'))
      | _ \<Rightarrow> (''{"error": "'path' and 'content' required"}'', w))\<close>

definition list_entry :: "'w os \<Rightarrow> 'w \<Rightarrow> string \<Rightarrow> string \<Rightarrow> json" where
  "list_entry os w path name =
     JObject ((''name'', JString name) #
       (case os_stat os w (trunc_to 1024 (path @ ''/'' @ name)) of
          Inl _ \<Rightarrow> []
        | Inr (is_dir, sz) \<Rightarrow>
            (''type'', JString (if is_dir then ''directory'' else ''file'')) #
            (if is_dir then [] else [(''size'', JInt sz)])))"

definition file_list_exec :: "'w os \<Rightarrow> allowlist option \<Rightarrow> json option \<Rightarrow> 'w \<Rightarrow> string" where
  "file_list_exec os al args w =
     (let path = (case get_str args ''path'' of None \<Rightarrow> ''.'' | Some p \<Rightarrow> p)
      in if \<not> check_path al path then not_allowed
         else case os_list os w path of
           Inl e \<Rightarrow> errno_reply e
         | Inr names \<Rightarrow>
             cJSON_PrintUnformatted (JObject
               [(''path'', JString path),
                (''entries'', JArray (map (list_entry os w path) (filter (\<lambda>n. n \<noteq> ''.'' \<and> n \<noteq> ''..'') names)))]))"

text \<open>\<open>search_recursive\<close> at depth \<open>6 - k\<close>: directories deeper than 5 are not opened.\<close>

fun search_recursive :: "'w os \<Rightarrow> 'w \<Rightarrow> string \<Rightarrow> nat \<Rightarrow> string \<Rightarrow> string list" where
  "search_recursive os w pattern 0 dir = []"
| "search_recursive os w pattern (Suc k) dir =
     (case os_list os w dir of
        Inl _ \<Rightarrow> []
      | Inr names \<Rightarrow>
          concat (map (\<lambda>name.
            if name \<noteq> '''' \<and> hd name = CHR ''.'' then []
            else
              let full = trunc_to 1024 (dir @ ''/'' @ name)
              in case os_stat os w full of
                   Inl _ \<Rightarrow> []
                 | Inr (is_dir, _) \<Rightarrow>
                     if is_dir then search_recursive os w pattern k full
                     else if strcasestr name pattern then [full] else []) names))"

definition file_search_exec :: "'w os \<Rightarrow> allowlist option \<Rightarrow> json option \<Rightarrow> 'w \<Rightarrow> string" where
  \<open>file_search_exec os al args w =
     (case get_str args ''pattern'' of
        None \<Rightarrow> ''{"error": "'pattern' required"}''
      | Some pattern \<Rightarrow>
          (let path = (case get_str args ''path'' of None \<Rightarrow> ''.'' | Some p \<Rightarrow> p)
           in if \<not> check_path al path then not_allowed
              else cJSON_PrintUnformatted (JObject
                [(''pattern'', JString pattern),
                 (''matches'', JArray (map JString (search_recursive os w pattern 6 path)))])))\<close>

definition file_delete_exec :: "'w os \<Rightarrow> allowlist option \<Rightarrow> json option \<Rightarrow> 'w \<Rightarrow> string \<times> 'w" where
  \<open>file_delete_exec os al args w =
     (case get_str args ''path'' of
        None \<Rightarrow> (''{"error": "'path' required"}'', w)
      | Some path \<Rightarrow>
          if \<not> check_path al path then (not_allowed, w)
          else case os_unlink os path w of
            (Some e, w') \<Rightarrow> (errno_reply e, w')
          | (None, w') \<Rightarrow>
              (cJSON_PrintUnformatted (JObject [(''status'', JString ''deleted''), (''path'', JString path)]), w'))\<close>

section \<open>The search\<close>

text \<open>The paths that lie below a directory: no more than \<open>k\<close> names further down, none hidden.\<close>

fun below :: "nat \<Rightarrow> string \<Rightarrow> string \<Rightarrow> bool" where
  "below 0 dir p = False"
| "below (Suc k) dir p =
     (\<exists>name. (name = '''' \<or> hd name \<noteq> CHR ''.'') \<and>
        (p = trunc_to 1024 (dir @ ''/'' @ name) \<or> below k (trunc_to 1024 (dir @ ''/'' @ name)) p))"

lemma search_sound:
  "p \<in> set (search_recursive os w pattern k dir) \<Longrightarrow>
   below k dir p \<and> (\<exists>sz. os_stat os w p = Inr (False, sz))"
proof (induction k arbitrary: dir)
  case (Suc k)
  obtain names where nl: "os_list os w dir = Inr names"
    using Suc.prems by (cases "os_list os w dir") auto
  obtain name where nm: "name \<in> set names"
    and p0: "p \<in> set (if name \<noteq> '''' \<and> hd name = CHR ''.'' then []
            else
              let full = trunc_to 1024 (dir @ ''/'' @ name)
              in case os_stat os w full of
                   Inl _ \<Rightarrow> []
                 | Inr (is_dir, _) \<Rightarrow>
                     if is_dir then search_recursive os w pattern k full
                     else if strcasestr name pattern then [full] else [])"
    using Suc.prems nl by (simp only: search_recursive.simps sum.case set_concat set_map UN_iff image_iff) blast
  have h: "name = '''' \<or> hd name \<noteq> CHR ''.''"
  proof (rule ccontr)
    assume "\<not> (name = '''' \<or> hd name \<noteq> CHR ''.'')"
    then have "name \<noteq> '''' \<and> hd name = CHR ''.''" by simp
    from p0 [unfolded if_P [OF this]] show False by simp
  qed
  let ?full = "trunc_to 1024 (dir @ ''/'' @ name)"
  from p0 h have p: "p \<in> set (case os_stat os w ?full of Inl _ \<Rightarrow> []
       | Inr (is_dir, _) \<Rightarrow> if is_dir then search_recursive os w pattern k ?full
            else if strcasestr name pattern then [?full] else [])"
    by (cases "name = ''''") (simp_all only: Let_def if_False simp_thms)
  obtain is_dir sz where st: "os_stat os w ?full = Inr (is_dir, sz)"
    using p by (cases "os_stat os w ?full") auto
  from p [unfolded st] have p: "p \<in> set (if is_dir then search_recursive os w pattern k ?full
      else if strcasestr name pattern then [?full] else [])" by simp
  show ?case
  proof (cases is_dir)
    case True
    with p have "p \<in> set (search_recursive os w pattern k ?full)" by simp
    from Suc.IH [OF this] h show ?thesis by auto
  next
    case False
    with p have "p = ?full" by (auto split: if_splits)
    with h st False show ?thesis by auto
  qed
qed simp

text \<open>C34: with the path allowlist switched on, a path that no rule allows reaches no file operation:
  every tool answers with the same refusal, and writing and deleting leave the world unchanged.\<close>

theorem file_tools_confined:
  assumes "get_str args ''path'' = Some path" and "enabled (a ACL_PATH)" and "\<not> allowlist_check a ACL_PATH path"
  shows "file_read_exec os (Some a) args w = not_allowed
    \<and> (get_str args ''content'' \<noteq> None \<longrightarrow> file_write_exec os (Some a) args w = (not_allowed, w))
    \<and> file_list_exec os (Some a) args w = not_allowed
    \<and> (get_str args ''pattern'' \<noteq> None \<longrightarrow> file_search_exec os (Some a) args w = not_allowed)
    \<and> file_delete_exec os (Some a) args w = (not_allowed, w)
    \<and> snd (file_write_exec os (Some a) args w) = w"
proof -
  have "\<not> check_path (Some a) path"
    using assms(2,3) by (simp add: check_path_def allowlist_is_enabled_def)
  then show ?thesis using assms(1)
    by (auto simp: file_read_exec_def file_write_exec_def file_list_exec_def file_search_exec_def
        file_delete_exec_def Let_def split: option.split)
qed

text \<open>
  The rules are prefixes of the text of the path, so a path that starts with an allowed directory is
  allowed wherever it leads.
\<close>

lemma path_prefix_escapes:
  "check_path (Some (\<lambda>_. \<lparr>rules = [''/workspace''], enabled = True\<rparr>)) ''/workspace/../etc/shadow''"
  "check_path (Some (\<lambda>_. \<lparr>rules = [''/workspace''], enabled = True\<rparr>)) ''/workspace-secrets''"
  by code_simp+

definition null_os :: "nat os" where
  "null_os = \<lparr>os_stat = (\<lambda>_ _. Inl ''No such file or directory''), os_read = (\<lambda>_ _. Inl ''''),
     os_write = (\<lambda>_ _ w. (Inr 0, w + 1)), os_list = (\<lambda>_ _. Inl ''''), os_unlink = (\<lambda>_ w. (None, w + 1))\<rparr>"

lemma file_tools_confined_witness:
  "file_delete_exec null_os (Some (\<lambda>_. \<lparr>rules = [''/workspace''], enabled = True\<rparr>))
     (Some (JObject [(''path'', JString ''/etc/passwd'')])) 3 = (not_allowed, 3)"
proof -
  have "get_str (Some (JObject [(''path'', JString ''/etc/passwd'')])) ''path'' = Some ''/etc/passwd''" by code_simp
  moreover have "\<not> allowlist_check (\<lambda>_. \<lparr>rules = [''/workspace''], enabled = True\<rparr>) ACL_PATH ''/etc/passwd''" by code_simp
  ultimately show ?thesis
    using file_tools_confined [of "Some (JObject [(''path'', JString ''/etc/passwd'')])" "''/etc/passwd''"
        "\<lambda>_. \<lparr>rules = [''/workspace''], enabled = True\<rparr>" null_os 3] by simp
qed

end
