(* ===== verification/Http_Client.thy ===== *)
theory Http_Client
  imports Json_Props
begin

text \<open>
  Model of \<open>src/providers/http_client.c\<close>. The transfer itself (libcurl) is a parameter: for a
  request it gives the failure it reports, or the status and the chunks it hands to the write
  callback, one after the other. The buffer the callback fills is modelled with its capacity.
\<close>

section \<open>The write buffer\<close>

record write_buf =
  wb_data :: string
  wb_cap :: nat

text \<open>The capacity is doubled until the data, the chunk and the terminating NUL fit.\<close>

function wb_grow :: "nat \<Rightarrow> nat \<Rightarrow> nat" where
  "wb_grow need c = (if need > c \<and> c > 0 then wb_grow need (c * 2) else c)"
  by pat_completeness auto
termination by (relation "measure (\<lambda>(need, c). need - c)") auto

declare wb_grow.simps [simp del]

text \<open>\<open>write_callback\<close>; \<open>None\<close>: \<open>realloc\<close> failed and 0 is returned, which makes curl abort.\<close>

definition write_callback :: "(nat \<Rightarrow> bool) \<Rightarrow> string \<Rightarrow> write_buf \<Rightarrow> write_buf option" where
  "write_callback alloc chunk buf =
     (let new_cap = wb_grow (length (wb_data buf) + length chunk + 1) (if wb_cap buf > 0 then wb_cap buf else 4096)
      in if new_cap \<noteq> wb_cap buf \<and> \<not> alloc new_cap then None
         else Some \<lparr>wb_data = wb_data buf @ chunk, wb_cap = new_cap\<rparr>)"

fun write_chunks :: "(nat \<Rightarrow> bool) \<Rightarrow> string list \<Rightarrow> write_buf \<Rightarrow> write_buf option" where
  "write_chunks alloc [] buf = Some buf"
| "write_chunks alloc (c # cs) buf =
     (case write_callback alloc c buf of None \<Rightarrow> None | Some b \<Rightarrow> write_chunks alloc cs b)"

section \<open>Requests\<close>

record request =
  rq_url :: string
  rq_body :: string
  rq_headers :: "string list"
  rq_timeout :: int

record http_response =
  hr_status :: int
  hr_body :: "string option"
  hr_error :: "string option"

text \<open>
  What curl does for a request: no handle, a failure with its message, or a transfer with the
  status and the received chunks. \<open>write_error\<close> is the message for a callback that gave up.
\<close>

datatype transfer = NoHandle | TransferFails string | Transfer int "string list"

record 'w curl =
  perform :: "request \<Rightarrow> 'w \<Rightarrow> transfer \<times> 'w"
  write_error :: string
  realloc_ok :: "nat \<Rightarrow> bool"
  malloc_ok :: "'w \<Rightarrow> bool"

definition make_timeout :: "int \<Rightarrow> int" where
  "make_timeout t = (if t > 0 then t else 120)"

definition http_failed :: "string \<Rightarrow> http_response" where
  "http_failed e = \<lparr>hr_status = 0, hr_body = None, hr_error = Some e\<rparr>"

definition http_post :: "'w curl \<Rightarrow> request \<Rightarrow> 'w \<Rightarrow> http_response \<times> 'w" where
  "http_post curl rq w =
     (if \<not> malloc_ok curl w then (http_failed ''Out of memory'', w)
      else case perform curl rq w of
        (NoHandle, w') \<Rightarrow> (http_failed ''Failed to initialise curl handle'', w')
      | (TransferFails e, w') \<Rightarrow> (http_failed e, w')
      | (Transfer st chunks, w') \<Rightarrow>
          (case write_chunks (realloc_ok curl) chunks \<lparr>wb_data = '''', wb_cap = 4096\<rparr> of
             None \<Rightarrow> (http_failed (write_error curl), w')
           | Some b \<Rightarrow> (\<lparr>hr_status = st, hr_body = Some (wb_data b), hr_error = None\<rparr>, w')))"

definition content_type_json :: string where
  "content_type_json = ''Content-Type: application/json''"

definition http_post_json :: "'w curl \<Rightarrow> string \<Rightarrow> string \<Rightarrow> int \<Rightarrow> 'w \<Rightarrow> http_response \<times> 'w" where
  "http_post_json curl url json_body timeout w =
     http_post curl \<lparr>rq_url = url, rq_body = json_body, rq_headers = [content_type_json],
                     rq_timeout = make_timeout timeout\<rparr> w"

text \<open>The header line is formatted into 512 bytes.\<close>

definition auth_line :: "string option \<Rightarrow> string list" where
  "auth_line a = (case a of None \<Rightarrow> []
     | Some s \<Rightarrow> if s = '''' then [] else [trunc_to 512 (''Authorization: '' @ s)])"

definition http_post_json_auth_ex ::
  "'w curl \<Rightarrow> string \<Rightarrow> string \<Rightarrow> string option \<Rightarrow> string list \<Rightarrow> int \<Rightarrow> 'w \<Rightarrow> http_response \<times> 'w" where
  "http_post_json_auth_ex curl url json_body auth extra timeout w =
     http_post curl \<lparr>rq_url = url, rq_body = json_body,
                     rq_headers = [content_type_json] @ auth_line auth @ extra,
                     rq_timeout = make_timeout timeout\<rparr> w"

section \<open>The buffer holds what was received\<close>

lemma wb_grow_ge: "0 < c \<Longrightarrow> need \<le> wb_grow need c \<and> c \<le> wb_grow need c"
proof (induction need c rule: wb_grow.induct)
  case (1 need c)
  then show ?case
  proof (cases "need > c")
    case True
    with 1 have "need \<le> wb_grow need (c * 2) \<and> c * 2 \<le> wb_grow need (c * 2)" by simp
    with True 1(2) show ?thesis by (subst (1 2) wb_grow.simps) simp
  next
    case False
    then show ?thesis by (subst (1 2) wb_grow.simps) simp
  qed
qed

lemma wb_grow_bound: "0 < c \<Longrightarrow> wb_grow need c \<le> max c (2 * need)"
proof (induction need c rule: wb_grow.induct)
  case (1 need c)
  then show ?case
  proof (cases "need > c")
    case True
    with 1 have "wb_grow need (c * 2) \<le> max (c * 2) (2 * need)" by simp
    with True show ?thesis by (subst wb_grow.simps) simp
  next
    case False
    then show ?thesis by (subst wb_grow.simps) simp
  qed
qed

definition wb_ok :: "write_buf \<Rightarrow> bool" where
  "wb_ok b \<longleftrightarrow> length (wb_data b) < wb_cap b"

lemma write_callback_ok:
  assumes "write_callback alloc chunk b = Some b'"
  shows "wb_data b' = wb_data b @ chunk \<and> wb_ok b'"
proof -
  have "length (wb_data b) + length chunk + 1
      \<le> wb_grow (length (wb_data b) + length chunk + 1) (if wb_cap b > 0 then wb_cap b else 4096)"
    using wb_grow_ge by simp
  with assms show ?thesis by (auto simp: write_callback_def wb_ok_def Let_def split: if_splits)
qed

lemma write_chunks_data:
  "write_chunks alloc cs b = Some b' \<Longrightarrow> wb_ok b \<Longrightarrow> wb_data b' = wb_data b @ concat cs \<and> wb_ok b'"
  by (induction cs arbitrary: b) (auto split: option.splits dest!: write_callback_ok)

lemma write_chunks_total: "\<forall>n. alloc n \<Longrightarrow> \<exists>b'. write_chunks alloc cs b = Some b'"
  by (induction cs arbitrary: b) (auto simp: write_callback_def Let_def)

text \<open>A response body is the received chunks in order, and a failed request has no body.\<close>

lemma http_post_body:
  "http_post curl rq w = (r, w') \<Longrightarrow>
     (hr_error r = None \<longrightarrow> (\<exists>st cs. perform curl rq w = (Transfer st cs, w') \<and> hr_status r = st \<and> hr_body r = Some (concat cs)))
     \<and> (hr_error r \<noteq> None \<longrightarrow> hr_body r = None \<and> hr_status r = 0)"
  by (auto simp: http_post_def http_failed_def wb_ok_def split: if_splits prod.splits transfer.splits option.splits
      dest!: write_chunks_data)

lemma auth_line_length: "l \<in> set (auth_line a) \<Longrightarrow> length l < 512"
  using take_trunc_length [of 512] by (auto simp: auth_line_def less_Suc_eq_le [of _ 511, simplified] split: option.splits if_splits)

text \<open>A long key is cut without a sign of it.\<close>

lemma auth_line_cut: "auth_line (Some (''Bearer '' @ replicate 600 (CHR ''k''))) = [''Authorization: Bearer '' @ replicate 489 (CHR ''k'')]"
  by (simp add: auth_line_def trunc_to_def take_Cons')

end
