(* ===== verification/Providers.thy ===== *)
theory Providers
  imports Http_Client Agent_Props
begin

text \<open>
  Model of \<open>src/providers/registry.c\<close>, \<open>src/providers/ollama/ollama.c\<close> and
  \<open>src/providers/openai/openai.c\<close>: the provider table, the requests, and how the answers become
  the response the agent works with. The state of a provider is its data, the static counter its
  call identifiers come from, and the world of the transfers.
\<close>

section \<open>The provider table\<close>

record provider_spec =
  ps_name :: string
  ps_default_url :: string
  ps_key_prefix :: "string option"
  ps_url_keyword :: "string option"
  ps_headers :: "string list"

definition PROVIDERS :: "provider_spec list" where
  "PROVIDERS =
     [\<lparr>ps_name = ''openrouter'', ps_default_url = ''https://openrouter.ai/api/v1'',
       ps_key_prefix = Some ''sk-or-'', ps_url_keyword = Some ''openrouter'',
       ps_headers = [''HTTP-Referer: https://github.com/dobby-ai/dobby'', ''X-Title: Dobby AI'']\<rparr>,
      \<lparr>ps_name = ''groq'', ps_default_url = ''https://api.groq.com/openai/v1'',
       ps_key_prefix = Some ''gsk_'', ps_url_keyword = Some ''groq'', ps_headers = []\<rparr>,
      \<lparr>ps_name = ''together'', ps_default_url = ''https://api.together.xyz/v1'',
       ps_key_prefix = None, ps_url_keyword = Some ''together'', ps_headers = []\<rparr>,
      \<lparr>ps_name = ''openai'', ps_default_url = ''https://api.openai.com/v1'',
       ps_key_prefix = Some ''sk-'', ps_url_keyword = Some ''openai'', ps_headers = []\<rparr>]"

text \<open>A string argument that is neither NULL nor empty.\<close>

definition given :: "string option \<Rightarrow> bool" where
  "given s \<longleftrightarrow> s \<noteq> None \<and> s \<noteq> Some ''''"

definition registry_find_by_name :: "string option \<Rightarrow> provider_spec option" where
  "registry_find_by_name name =
     (if given name then find (\<lambda>s. strcasecmp_eq (ps_name s) (the name)) PROVIDERS else None)"

definition spec_matches :: "string option \<Rightarrow> string option \<Rightarrow> provider_spec \<Rightarrow> bool" where
  "spec_matches key url s \<longleftrightarrow>
     (case ps_key_prefix s of None \<Rightarrow> False | Some p \<Rightarrow> given key \<and> prefix p (the key)) \<or>
     (case ps_url_keyword s of None \<Rightarrow> False | Some k \<Rightarrow> given url \<and> contains (the url) k)"

definition registry_detect :: "string option \<Rightarrow> string option \<Rightarrow> provider_spec option" where
  "registry_detect key url = find (spec_matches key url) PROVIDERS"

definition registry_resolve_url :: "provider_spec option \<Rightarrow> string option \<Rightarrow> string option" where
  "registry_resolve_url spec url = (if given url then url else map_option ps_default_url spec)"

section \<open>Requests\<close>

definition with_tools :: "json \<Rightarrow> bool \<Rightarrow> string option \<Rightarrow> json" where
  "with_tools body tool_choice tools_json =
     (case tools_json of
        None \<Rightarrow> body
      | Some t \<Rightarrow>
          (let tools = cJSON_Parse t
           in if 0 < cJSON_GetArraySize tools then
                (let b = cJSON_AddItemToObject body ''tools'' tools
                 in if tool_choice then cJSON_AddStringToObject b ''tool_choice'' (Some ''auto'') else b)
              else body))"

definition llm_request_body :: "string \<Rightarrow> bool \<Rightarrow> string \<Rightarrow> string option \<Rightarrow> json" where
  "llm_request_body model tool_choice messages_json tools_json =
     with_tools (cJSON_AddItemToObject (JObject [(''model'', JString model), (''stream'', JBool False)])
                   ''messages'' (cJSON_Parse messages_json)) tool_choice tools_json"

definition no_response :: llm_response where
  "no_response = \<lparr>lr_content = None, lr_tool_calls = None, lr_error = None,
                  lr_prompt_tokens = 0, lr_completion_tokens = 0\<rparr>"

definition failed_response :: "string \<Rightarrow> llm_response" where
  "failed_response e = no_response\<lparr>lr_error := Some e\<rparr>"

text \<open>A tool call in the form the agent stores it.\<close>

definition stored_call :: "string \<Rightarrow> string \<Rightarrow> string \<Rightarrow> json" where
  "stored_call call_id name args =
     JObject [(''id'', JString call_id), (''type'', JString ''function''),
              (''function'', JObject [(''name'', JString name), (''arguments'', JString args)])]"

section \<open>Ollama\<close>

record ollama_data =
  ol_base_url :: string
  ol_model :: string
  ol_prompt_tokens :: int
  ol_completion_tokens :: int

definition ollama_fmt :: msg_format where
  "ollama_fmt = \<lparr>tool_result_include_name = True, assistant_tool_call_empty_content = False,
                 send_tool_choice_auto = False, tool_args_as_object = True\<rparr>"

definition ollama_create :: "string option \<Rightarrow> string option \<Rightarrow> ollama_data" where
  "ollama_create model base_url =
     \<lparr>ol_base_url = (case base_url of Some u \<Rightarrow> u | None \<Rightarrow> ''http://localhost:11434''),
      ol_model = (case model of Some m \<Rightarrow> m | None \<Rightarrow> ''llama3.2''),
      ol_prompt_tokens = 0, ol_completion_tokens = 0\<rparr>"

text \<open>The arguments of a call as a string, when they can be read back; \<open>None\<close>: skipped.\<close>

definition ollama_args :: "json option \<Rightarrow> string option" where
  "ollama_args args =
     (let s = (case args of None \<Rightarrow> ''{}'' | Some (JString s) \<Rightarrow> s | Some j \<Rightarrow> cJSON_PrintUnformatted j)
      in if args = None \<or> cJSON_Parse s \<noteq> None then Some s else None)"

definition ollama_call :: "json \<Rightarrow> (string \<times> string) option" where
  "ollama_call tc =
     (case cJSON_GetObjectItem (Some tc) ''function'' of
        None \<Rightarrow> None
      | Some func \<Rightarrow>
          (case get_str (Some func) ''name'' of
             None \<Rightarrow> None
           | Some name \<Rightarrow>
               if name = '''' then None
               else map_option (Pair name) (ollama_args (cJSON_GetObjectItem (Some func) ''arguments''))))"

text \<open>\<open>snprintf\<close> of a counter with a prefix; the counter is advanced first.\<close>

definition call_id :: "string \<Rightarrow> 32 word \<Rightarrow> string" where
  "call_id p counter = p @ nat_str (unat (counter + 1))"

fun ollama_calls :: "32 word \<Rightarrow> json list \<Rightarrow> json list \<times> 32 word" where
  "ollama_calls counter [] = ([], counter)"
| "ollama_calls counter (tc # tcs) =
     (case ollama_call tc of
        None \<Rightarrow> ollama_calls counter tcs
      | Some (name, args) \<Rightarrow>
          (let (rest, c) = ollama_calls (counter + 1) tcs
           in (stored_call (call_id ''call_'' counter) name args # rest, c)))"

definition early_stop :: "string \<Rightarrow> string" where
  "early_stop reason =
     trunc_to 128 (''Generation stopped early (done_reason: '' @ reason @ '') '' @
       [CHR 0xE2, CHR 0x80, CHR 0x94] @
       '' try a shorter prompt or a model with a larger context window'')"

text \<open>The reason of a generation that ended early with tool calls in it.\<close>

definition truncated_tools :: "json \<Rightarrow> string option" where
  "truncated_tools j =
     (case get_str (Some j) ''done_reason'' of
        None \<Rightarrow> None
      | Some r \<Rightarrow>
          if r \<noteq> ''stop'' \<and> r \<noteq> ''tool_calls''
            \<and> 0 < cJSON_GetArraySize (cJSON_GetObjectItem (cJSON_GetObjectItem (Some j) ''message'') ''tool_calls'')
          then Some (early_stop r) else None)"

definition all_calls_invalid :: string where
  "all_calls_invalid =
     ''Model requested tool calls but all had invalid arguments. Try rephrasing your request.''"

text \<open>Content and tool calls of the message, and the advanced counter.\<close>

definition ollama_message :: "json option \<Rightarrow> 32 word \<Rightarrow> llm_response \<times> 32 word" where
  "ollama_message message counter =
     (case message of
        None \<Rightarrow> (no_response, counter)
      | Some m \<Rightarrow>
          (let resp = no_response\<lparr>lr_content := get_str (Some m) ''content''\<rparr>;
               calls = cJSON_GetObjectItem (Some m) ''tool_calls''
           in if cJSON_IsArray calls \<and> 0 < cJSON_GetArraySize calls then
                (let (norm, c) = ollama_calls counter (map snd (children (the calls)))
                 in if norm \<noteq> [] then (resp\<lparr>lr_tool_calls := Some (JArray norm)\<rparr>, c)
                    else if lr_content resp = None then (resp\<lparr>lr_error := Some all_calls_invalid\<rparr>, c)
                    else (resp, c))
              else (resp, counter)))"

definition ollama_usage :: "json \<Rightarrow> llm_response \<Rightarrow> ollama_data \<Rightarrow> llm_response \<times> ollama_data" where
  "ollama_usage j resp d =
     (let pt = cJSON_GetObjectItem (Some j) ''prompt_eval_count'';
          ct = cJSON_GetObjectItem (Some j) ''eval_count'';
          (r1, d1) = (if pt = None then (resp, d)
             else (resp\<lparr>lr_prompt_tokens := valueint pt\<rparr>,
                   d\<lparr>ol_prompt_tokens := wrap32 (ol_prompt_tokens d + valueint pt)\<rparr>))
      in if ct = None then (r1, d1)
         else (r1\<lparr>lr_completion_tokens := valueint ct\<rparr>,
               d1\<lparr>ol_completion_tokens := wrap32 (ol_completion_tokens d1 + valueint ct)\<rparr>))"

text \<open>What an answer that was received becomes.\<close>

definition ollama_answer :: "string \<Rightarrow> ollama_data \<Rightarrow> 32 word \<Rightarrow> llm_response \<times> ollama_data \<times> 32 word" where
  "ollama_answer body d counter =
     (case cJSON_Parse (c_str body) of
        None \<Rightarrow> (failed_response ''Failed to parse Ollama response (invalid JSON)'', d, counter)
      | Some j \<Rightarrow>
          (case get_str (Some j) ''error'' of
             Some e \<Rightarrow> (failed_response e, d, counter)
           | None \<Rightarrow>
               (case truncated_tools j of
                  Some e \<Rightarrow> (failed_response e, d, counter)
                | None \<Rightarrow>
                    (let (resp, c) = ollama_message (cJSON_GetObjectItem (Some j) ''message'') counter;
                         (resp', d') = ollama_usage j resp d
                     in (resp', d', c)))))"

definition ollama_chat_complete ::
  "'w curl \<Rightarrow> string \<Rightarrow> string option \<Rightarrow> ollama_data \<times> 32 word \<times> 'w \<Rightarrow> llm_response \<times> ollama_data \<times> 32 word \<times> 'w" where
  "ollama_chat_complete curl messages_json tools_json st =
     (case st of (d, counter, w) \<Rightarrow>
        (let body = cJSON_PrintUnformatted (llm_request_body (ol_model d) False messages_json tools_json);
             (r, w') = http_post_json curl (trunc_to 512 (ol_base_url d @ ''/api/chat'')) body 120 w
         in case hr_error r of
              Some e \<Rightarrow> (failed_response e, d, counter, w')
            | None \<Rightarrow>
                (let (resp, d', c) = ollama_answer (case hr_body r of None \<Rightarrow> '''' | Some b \<Rightarrow> b) d counter
                 in (resp, d', c, w'))))"

definition ollama_provider :: "'w curl \<Rightarrow> (ollama_data \<times> 32 word \<times> 'w) provider" where
  "ollama_provider curl =
     \<lparr>p_fmt = ollama_fmt, chat_complete = (\<lambda>m t st. ollama_chat_complete curl m (Some t) st)\<rparr>"


section \<open>OpenAI-compatible services\<close>

record openai_data =
  oa_base_url :: string
  oa_model :: string
  oa_api_key :: string
  oa_spec :: "provider_spec option"
  oa_prompt_tokens :: int
  oa_completion_tokens :: int

definition openai_fmt :: msg_format where
  "openai_fmt = \<lparr>tool_result_include_name = False, assistant_tool_call_empty_content = False,
                 send_tool_choice_auto = True, tool_args_as_object = False\<rparr>"

text \<open>\<open>env_key\<close> is the environment variable \<open>API_KEY\<close>. None: no URL is known.\<close>

definition openai_create ::
  "string option \<Rightarrow> string option \<Rightarrow> string option \<Rightarrow> string option \<Rightarrow> string option \<Rightarrow> openai_data option" where
  "openai_create model api_url api_key provider_name env_key =
     (let spec = (case registry_find_by_name provider_name of Some s \<Rightarrow> Some s | None \<Rightarrow> registry_detect api_key api_url)
      in case registry_resolve_url spec api_url of
           None \<Rightarrow> None
         | Some url \<Rightarrow> Some
             \<lparr>oa_base_url = url, oa_model = (case model of Some m \<Rightarrow> m | None \<Rightarrow> ''gpt-4o''),
              oa_api_key = (if given api_key then the api_key else case env_key of Some k \<Rightarrow> k | None \<Rightarrow> ''''),
              oa_spec = spec, oa_prompt_tokens = 0, oa_completion_tokens = 0\<rparr>)"

subsection \<open>Recovering tool calls from a failed generation\<close>

definition nonempty_str :: "json option \<Rightarrow> string \<Rightarrow> string option" where
  "nonempty_str j k = (case get_str j k of Some s \<Rightarrow> if s = '''' then None else Some s | None \<Rightarrow> None)"

definition fg_args :: "json \<Rightarrow> string" where
  "fg_args entry =
     (let args = (case cJSON_GetObjectItem (Some entry) ''arguments'' of
                    Some a \<Rightarrow> Some a | None \<Rightarrow> cJSON_GetObjectItem (Some entry) ''parameters'')
      in case args of
           None \<Rightarrow> ''{}''
         | Some JNull \<Rightarrow> ''{}''
         | Some (JString s) \<Rightarrow> s
         | Some j \<Rightarrow> cJSON_PrintUnformatted j)"

text \<open>The entries up to the first one without a name; None: there is such an entry.\<close>

fun fg_normalize :: "32 word \<Rightarrow> json list \<Rightarrow> json list option \<times> 32 word" where
  "fg_normalize c [] = (Some [], c)"
| "fg_normalize c (e # es) =
     (case get_str (Some e) ''name'' of
        None \<Rightarrow> (None, c)
      | Some name \<Rightarrow>
          (let (r, c') = fg_normalize (c + 1) es
           in (map_option (Cons (stored_call (call_id ''fg_'' c) name (fg_args e))) r, c')))"

text \<open>
  The search through the text for an array of calls. When an array has an entry without a name, the
  parsed items are deleted twice.
\<close>

datatype recovery = DoubleDelete | Recovered "json list" | NotRecovered

function fg_search :: "32 word \<Rightarrow> string \<Rightarrow> recovery \<times> 32 word" where
  "fg_search c s =
     (case strchr (CHR ''['') s of
        None \<Rightarrow> (NotRecovered, c)
      | Some arr \<Rightarrow>
          (let parsed = cJSON_Parse arr
           in if cJSON_IsArray parsed \<and> 0 < cJSON_GetArraySize parsed then
                (case fg_normalize c (map snd (children (the parsed))) of
                   (Some calls, c') \<Rightarrow> (Recovered calls, c')
                 | (None, c') \<Rightarrow> (DoubleDelete, c'))
              else fg_search c (drop 1 arr)))"
  by pat_completeness auto
termination
proof (relation "measure (\<lambda>(c, s). length s)", goal_cases)
  case (2 c s arr parsed)
  from strchr_split [OF 2(1)] have "s = before (CHR ''['') s @ arr" "arr \<noteq> []" by auto
  then have "length arr \<le> length s" "0 < length arr" by (metis length_append le_add2, simp)
  then show ?case by (cases arr) auto
qed simp

declare fg_search.simps [simp del]

definition recover_calls :: "json option \<Rightarrow> 32 word \<Rightarrow> recovery \<times> 32 word" where
  "recover_calls err_obj c =
     (if get_str err_obj ''code'' = Some ''tool_use_failed'' then
        (case get_str err_obj ''failed_generation'' of
           None \<Rightarrow> (NotRecovered, c) | Some text \<Rightarrow> fg_search c text)
      else (NotRecovered, c))"

subsection \<open>Answers\<close>

definition best_message :: "json \<Rightarrow> string option" where
  "best_message err_json =
     (let err_obj = cJSON_GetObjectItem (Some err_json) ''error''
      in case nonempty_str (cJSON_GetObjectItem err_obj ''metadata'') ''raw'' of
           Some s \<Rightarrow> Some s
         | None \<Rightarrow> (case nonempty_str err_obj ''message'' of
             Some s \<Rightarrow> Some s
           | None \<Rightarrow> nonempty_str (Some err_json) ''message''))"

text \<open>A status outside 200 to 299. None: the double deletion.\<close>

definition openai_http_error :: "int \<Rightarrow> string option \<Rightarrow> openai_data \<Rightarrow> 32 word \<Rightarrow> llm_response option \<times> 32 word" where
  "openai_http_error status body d c =
     (let fallback = trunc_to 256 (''HTTP '' @ int_str status @ '' from '' @ oa_base_url d)
      in case (case body of None \<Rightarrow> None | Some b \<Rightarrow> cJSON_Parse (c_str b)) of
           None \<Rightarrow> (Some (failed_response fallback), c)
         | Some err_json \<Rightarrow>
             (case recover_calls (cJSON_GetObjectItem (Some err_json) ''error'') c of
                (DoubleDelete, c') \<Rightarrow> (None, c')
              | (Recovered calls, c') \<Rightarrow> (Some (no_response\<lparr>lr_tool_calls := Some (JArray calls)\<rparr>), c')
              | (NotRecovered, c') \<Rightarrow>
                  (Some (failed_response (case best_message err_json of Some m \<Rightarrow> m | None \<Rightarrow> fallback)), c')))"

definition openai_call :: "json \<Rightarrow> json option" where
  "openai_call tc =
     (case cJSON_GetObjectItem (Some tc) ''function'' of
        None \<Rightarrow> None
      | Some func \<Rightarrow>
          (let norm_tc0 = cJSON_AddStringToObject (JObject []) ''id'' (get_str (Some tc) ''id'');
               norm_tc1 = cJSON_AddStringToObject norm_tc0 ''type'' (Some ''function'');
               norm_func0 = cJSON_AddStringToObject (JObject []) ''name'' (get_str (Some func) ''name'');
               norm_func1 = cJSON_AddStringToObject norm_func0 ''arguments''
                 (Some (case cJSON_GetObjectItem (Some func) ''arguments'' of
                          None \<Rightarrow> ''{}''
                        | Some (JString s) \<Rightarrow> s
                        | Some j \<Rightarrow> cJSON_PrintUnformatted j))
           in Some (cJSON_AddItemToObject norm_tc1 ''function'' (Some norm_func1))))"

definition openai_message :: "json \<Rightarrow> llm_response" where
  "openai_message message =
     (let resp = no_response\<lparr>lr_content := nonempty_str (Some message) ''content''\<rparr>;
          calls = cJSON_GetObjectItem (Some message) ''tool_calls''
      in if cJSON_IsArray calls \<and> 0 < cJSON_GetArraySize calls then
           (let norm = List.map_filter openai_call (map snd (children (the calls)))
            in if norm = [] then resp else resp\<lparr>lr_tool_calls := Some (JArray norm)\<rparr>)
         else resp)"

definition openai_usage :: "json \<Rightarrow> llm_response \<Rightarrow> openai_data \<Rightarrow> llm_response \<times> openai_data" where
  "openai_usage j resp d =
     (let usage = cJSON_GetObjectItem (Some j) ''usage'';
          pt = cJSON_GetObjectItem usage ''prompt_tokens'';
          ct = cJSON_GetObjectItem usage ''completion_tokens'';
          (r1, d1) = (if pt = None then (resp, d)
             else (resp\<lparr>lr_prompt_tokens := valueint pt\<rparr>,
                   d\<lparr>oa_prompt_tokens := wrap32 (oa_prompt_tokens d + valueint pt)\<rparr>))
      in if ct = None then (r1, d1)
         else (r1\<lparr>lr_completion_tokens := valueint ct\<rparr>,
               d1\<lparr>oa_completion_tokens := wrap32 (oa_completion_tokens d1 + valueint ct)\<rparr>))"

definition openai_success :: "string \<Rightarrow> openai_data \<Rightarrow> llm_response \<times> openai_data" where
  "openai_success body d =
     (case cJSON_Parse (c_str body) of
        None \<Rightarrow> (failed_response ''Failed to parse JSON response'', d)
      | Some j \<Rightarrow>
          (let choices = cJSON_GetObjectItem (Some j) ''choices'';
               choice = (if cJSON_IsArray choices then cJSON_GetArrayItem choices 0 else None)
           in case cJSON_GetObjectItem choice ''message'' of
                None \<Rightarrow> (failed_response ''No choices in response'', d)
              | Some message \<Rightarrow> openai_usage j (openai_message message) d))"

text \<open>The whole request; the response is None after a double deletion.\<close>

definition openai_chat_complete ::
  "'w curl \<Rightarrow> msg_format \<Rightarrow> string \<Rightarrow> string option \<Rightarrow> openai_data \<times> 32 word \<times> 'w
     \<Rightarrow> llm_response option \<times> openai_data \<times> 32 word \<times> 'w" where
  "openai_chat_complete curl fmt messages_json tools_json st =
     (case st of (d, counter, w) \<Rightarrow>
        (let body = cJSON_PrintUnformatted
               (llm_request_body (oa_model d) (send_tool_choice_auto fmt) messages_json tools_json);
             auth = (if oa_api_key d = '''' then None else Some (trunc_to 512 (''Bearer '' @ oa_api_key d)));
             extra = (case oa_spec d of None \<Rightarrow> [] | Some s \<Rightarrow> ps_headers s);
             (r, w') = http_post_json_auth_ex curl (trunc_to 512 (oa_base_url d @ ''/chat/completions'')) body
                         auth extra 120 w
         in case hr_error r of
              Some e \<Rightarrow> (Some (failed_response e), d, counter, w')
            | None \<Rightarrow>
                if hr_status r < 200 \<or> hr_status r \<ge> 300 then
                  (let (resp, c) = openai_http_error (hr_status r) (hr_body r) d counter
                   in (resp, d, c, w'))
                else
                  (let (resp, d') = openai_success (case hr_body r of None \<Rightarrow> '''' | Some b \<Rightarrow> b) d
                   in (Some resp, d', counter, w'))))"

end
