(* ===== verification/Providers_Props.thy ===== *)
theory Providers_Props
  imports Providers
begin

text \<open>
  Properties of the providers: the tool calls they hand to the agent, how these calls are sent
  back, and the answers on which the program fails.
\<close>

section \<open>The provider table\<close>

lemma registry_find_each:
  "\<forall>s \<in> set PROVIDERS. registry_find_by_name (Some (ps_name s)) = Some s"
  by code_simp

lemma registry_detect_key_order:
  "map_option ps_name (registry_detect (Some ''sk-or-v1-abc'') None) = Some ''openrouter''"
  "map_option ps_name (registry_detect (Some ''sk-proj-abc'') None) = Some ''openai''"
  by code_simp+

text \<open>The key is tried first within one entry only: the URL of an earlier entry wins over the key.\<close>

lemma registry_detect_url_wins:
  "map_option ps_name (registry_detect (Some ''gsk_abc'') (Some ''https://openrouter.ai/api/v1'')) = Some ''openrouter''"
  by code_simp

lemma registry_detect_sound:
  "registry_detect key url = Some s \<Longrightarrow> s \<in> set PROVIDERS \<and> spec_matches key url s"
  by (auto simp: registry_detect_def dest: find_Some_mem)

lemma openai_create_url: "openai_create m (Some url) k n e = None \<Longrightarrow> url = ''''"
  by (auto simp: openai_create_def registry_resolve_url_def given_def Let_def split: option.splits if_splits)

section \<open>Lookup in built objects\<close>

lemma lookup_hit [simp]: "cJSON_GetObjectItem (Some (JObject ((k, v) # ms))) k = Some v"
  by (simp add: cJSON_GetObjectItem_def strcasecmp_eq_def)

lemma lookup_miss:
  "\<not> strcasecmp_eq n k \<Longrightarrow> cJSON_GetObjectItem (Some (JObject ((k, v) # ms))) n = cJSON_GetObjectItem (Some (JObject ms)) n"
  by (simp add: cJSON_GetObjectItem_def)

lemma lookup_empty [simp]: "cJSON_GetObjectItem (Some (JObject [])) n = None"
  by (simp add: cJSON_GetObjectItem_def)

lemma key_differs:
  "\<not> strcasecmp_eq ''type'' ''id''" "\<not> strcasecmp_eq ''function'' ''id''" "\<not> strcasecmp_eq ''function'' ''type''"
  "\<not> strcasecmp_eq ''arguments'' ''name''" "\<not> strcasecmp_eq ''id'' ''type''" "\<not> strcasecmp_eq ''id'' ''function''"
  "\<not> strcasecmp_eq ''name'' ''arguments''"
  by code_simp+

lemma string_value [simp]: "cJSON_GetStringValue (Some (JString s)) = Some s"
  by (simp add: cJSON_GetStringValue_def)

lemma get_str_hit [simp]: "get_str (Some (JObject ((k, JString s) # ms))) k = Some s"
  by (simp add: cJSON_GetStringValue_def)

lemma stored_call_fields [simp]:
  "get_str (Some (stored_call i n s)) ''id'' = Some i"
  "cJSON_GetObjectItem (Some (stored_call i n s)) ''function'' =
     Some (JObject [(''name'', JString n), (''arguments'', JString s)])"
  by (simp_all add: stored_call_def lookup_miss key_differs cJSON_GetStringValue_def)

section \<open>The calls of an Ollama answer\<close>

lemma empty_object_parses: "cJSON_Parse ''{}'' = Some (JObject [])"
  by code_simp

lemma ollama_args_parse: "ollama_args args = Some s \<Longrightarrow> cJSON_Parse s \<noteq> None"
  by (auto simp: ollama_args_def Let_def empty_object_parses split: if_splits)

lemma ollama_call_ok: "ollama_call tc = Some (n, s) \<Longrightarrow> n \<noteq> '''' \<and> cJSON_Parse s \<noteq> None"
  by (auto simp: ollama_call_def dest: ollama_args_parse split: option.splits if_splits)

definition good_call :: "json \<Rightarrow> bool" where
  "good_call tc \<longleftrightarrow> (\<exists>i n s. tc = stored_call i n s \<and> n \<noteq> '''' \<and> cJSON_Parse s \<noteq> None)"

lemma ollama_calls_good: "ollama_calls c tcs = (out, c') \<Longrightarrow> list_all good_call out"
proof (induction tcs arbitrary: c out c')
  case (Cons tc tcs)
  show ?case
  proof (cases "ollama_call tc")
    case None
    then show ?thesis using Cons.IH Cons.prems by simp
  next
    case (Some p)
    obtain n s where p: "p = (n, s)" by (cases p)
    obtain rest c1 where r: "ollama_calls (c + 1) tcs = (rest, c1)" by fastforce
    have "list_all good_call rest" using Cons.IH [OF r] .
    moreover have "good_call (stored_call (call_id ''call_'' c) n s)"
      using ollama_call_ok Some p unfolding good_call_def by blast
    ultimately show ?thesis using Cons.prems Some p r by auto
  qed
qed auto

text \<open>The identifiers are consecutive, so they differ as long as the counter does not come round.\<close>

lemma ollama_calls_ids:
  "ollama_calls c tcs = (out, c') \<Longrightarrow>
   map (\<lambda>tc. get_str (Some tc) ''id'') out = map (\<lambda>k. Some (call_id ''call_'' (c + of_nat k))) [0..<length out]"
proof (induction tcs arbitrary: c out c')
  case (Cons tc tcs)
  show ?case
  proof (cases "ollama_call tc")
    case None
    then show ?thesis using Cons.IH Cons.prems by simp
  next
    case (Some p)
    obtain n s where p: "p = (n, s)" by (cases p)
    obtain rest c1 where r: "ollama_calls (c + 1) tcs = (rest, c1)" by fastforce
    have out: "out = stored_call (call_id ''call_'' c) n s # rest" using Cons.prems Some p r by auto
    have "map (\<lambda>tc. get_str (Some tc) ''id'') rest =
        map (\<lambda>k. Some (call_id ''call_'' (c + 1 + of_nat k))) [0..<length rest]"
      using Cons.IH [OF r] .
    then show ?thesis
      by (simp only: out list.map length_Cons upt_conv_Cons stored_call_fields)
        (simp add: map_Suc_upt [symmetric] del: upt_Suc, simp add: algebra_simps comp_def)
  qed
qed auto

lemma nat_str_inject [simp]: "nat_str a = nat_str b \<longleftrightarrow> a = b"
  using digits_val_nat_str by metis

lemma call_id_inject: "call_id p a = call_id p b \<longleftrightarrow> a = b"
  by (simp add: call_id_def word_unat_eq_iff [symmetric])

lemma ids_distinct:
  assumes "n \<le> 2 ^ 32"
  shows "distinct (map (\<lambda>k. Some (call_id p (c + of_nat k))) [0..<n])"
proof -
  have "i = j" if "i < n" "j < n" "(of_nat i :: 32 word) = of_nat j" for i j
  proof -
    have u: "unat (of_nat i :: 32 word) = i" "unat (of_nat j :: 32 word) = j"
      using that(1,2) assms by (simp_all add: unsigned_of_nat take_bit_nat_eq_self)
    show ?thesis using arg_cong [OF that(3), of unat] unfolding u .
  qed
  then have "inj_on (\<lambda>k. Some (call_id p (c + of_nat k))) (set [0..<n])"
    unfolding inj_on_def set_upt option.inject call_id_inject add_left_cancel by (meson atLeastLessThan_iff)
  then show ?thesis unfolding distinct_map by simp
qed


lemma ollama_message_calls:
  assumes "ollama_message m c = (r, c')" "lr_tool_calls r = Some calls"
  shows "\<exists>tcs out. calls = JArray out \<and> out \<noteq> [] \<and> ollama_calls c tcs = (out, c')"
proof -
  obtain m' where m: "m = Some m'" using assms by (cases m) (auto simp: ollama_message_def no_response_def)
  let ?calls = "cJSON_GetObjectItem (Some m') ''tool_calls''"
  have a: "cJSON_IsArray ?calls \<and> 0 < cJSON_GetArraySize ?calls"
    using assms m by (auto simp: ollama_message_def no_response_def Let_def split: if_splits)
  obtain out c1 where o: "ollama_calls c (map snd (children (the ?calls))) = (out, c1)" by fastforce
  then show ?thesis using assms m a
    by (auto simp: ollama_message_def no_response_def Let_def split: if_splits) blast
qed

lemma ollama_usage_calls: "ollama_usage j r d = (r', d') \<Longrightarrow>
    lr_tool_calls r' = lr_tool_calls r \<and> lr_content r' = lr_content r \<and> lr_error r' = lr_error r"
  by (auto simp: ollama_usage_def Let_def split: if_splits)

lemma ollama_answer_calls:
  assumes "ollama_answer body d c = (r, d', c')" "lr_tool_calls r = Some calls"
  shows "\<exists>tcs out. calls = JArray out \<and> out \<noteq> [] \<and> ollama_calls c tcs = (out, c')"
proof -
  obtain j where j: "cJSON_Parse (c_str body) = Some j" "get_str (Some j) ''error'' = None" "truncated_tools j = None"
    using assms by (auto simp: ollama_answer_def failed_response_def no_response_def split: option.splits)
  obtain r0 c0 where m: "ollama_message (cJSON_GetObjectItem (Some j) ''message'') c = (r0, c0)" by fastforce
  obtain r1 d1 where u: "ollama_usage j r0 d = (r1, d1)" by fastforce
  have "r = r1" "c' = c0" using assms(1) j m u by (auto simp: ollama_answer_def)
  with ollama_message_calls [OF m] ollama_usage_calls [OF u] assms(2) show ?thesis by auto
qed

lemma run_good_calls:
  assumes "tools_ok tools" "list_all good_call tcs"
  shows "run_tool_calls tools tcs a w \<noteq> None"
  using assms(2)
proof (induction tcs arbitrary: a w)
  case (Cons tc tcs)
  then obtain i n s where tc: "tc = stored_call i n s" by (auto simp: good_call_def)
  obtain t where t: "tool_find tools (Some n) = Some t" by (simp add: tool_find_def)
  have "run_tool t f w \<noteq> None" for f
    using t assms(1) by (auto simp: run_tool_def tool_find_def tools_ok_def list_all_iff dest!: find_Some_mem split: option.splits)
  with Cons t show ?case
    by (auto simp: tc Let_def cJSON_GetStringValue_def split: option.splits)
qed simp

text \<open>C27: whatever an Ollama server answers, the tool calls the agent gets from it are well formed:
  each has a name that is not empty and arguments that read back as JSON, their identifiers are
  distinct (up to the 32-bit counter), and processing them never dereferences a NULL name.\<close>

theorem ollama_calls_safe:
  assumes "ollama_chat_complete curl m t (d, c, w) = (resp, st)" and "lr_tool_calls resp = Some calls"
    and "tools_ok tools"
  shows "\<exists>tcs. calls = JArray tcs \<and> tcs \<noteq> [] \<and> list_all good_call tcs
    \<and> (length tcs \<le> 2 ^ 32 \<longrightarrow> distinct (map (\<lambda>tc. get_str (Some tc) ''id'') tcs))
    \<and> (\<forall>a v. run_tool_calls tools tcs a v \<noteq> None)"
proof -
  obtain r w' where h: "http_post_json curl (trunc_to 512 (ol_base_url d @ ''/api/chat''))
      (cJSON_PrintUnformatted (llm_request_body (ol_model d) False m t)) 120 w = (r, w')" by fastforce
  have "hr_error r = None"
    using assms(1,2) h by (auto simp: ollama_chat_complete_def failed_response_def no_response_def Let_def split: option.splits)
  then obtain body d' c' where "ollama_answer body d c = (resp, d', c')"
    using assms(1) h by (auto simp: ollama_chat_complete_def Let_def split: prod.splits option.splits)
  from ollama_answer_calls [OF this assms(2)] obtain tcs out
    where o: "calls = JArray out" "out \<noteq> []" "ollama_calls c tcs = (out, c')" by blast
  have "distinct (map (\<lambda>tc. get_str (Some tc) ''id'') out)" if "length out \<le> 2 ^ 32"
    unfolding ollama_calls_ids [OF o(3)] by (rule ids_distinct [OF that])
  with o ollama_calls_good [OF o(3)] run_good_calls [OF assms(3)] show ?thesis by blast
qed

section \<open>Sending the calls back\<close>



section \<open>Answers the program fails on\<close>

lemma fg_normalize_missing:
  "\<exists>v \<in> set vs. get_str (Some v) ''name'' = None \<Longrightarrow> fst (fg_normalize c vs) = None"
proof (induction vs arbitrary: c)
  case (Cons v vs)
  show ?case
  proof (cases "get_str (Some v) ''name''")
    case (Some n)
    then have "fst (fg_normalize (c + 1) vs) = None" using Cons by simp
    with Some show ?thesis by (auto split: prod.split)
  qed simp
qed simp

lemma fg_normalize_named:
  "\<forall>v \<in> set vs. get_str (Some v) ''name'' \<noteq> None \<Longrightarrow>
     \<exists>calls c'. fg_normalize c vs = (Some calls, c') \<and>
       map (\<lambda>tc. get_str (cJSON_GetObjectItem (Some tc) ''function'') ''name'') calls =
       map (\<lambda>v. get_str (Some v) ''name'') vs"
proof (induction vs arbitrary: c)
  case (Cons v vs)
  then obtain n where n: "get_str (Some v) ''name'' = Some n" by auto
  obtain calls c' where "fg_normalize (c + 1) vs = (Some calls, c')"
    "map (\<lambda>tc. get_str (cJSON_GetObjectItem (Some tc) ''function'') ''name'') calls = map (\<lambda>v. get_str (Some v) ''name'') vs"
    using Cons by (metis list.set_intros(2))
  with n show ?case by (simp add: cJSON_GetStringValue_def)
qed simp

text \<open>When a service reports a failed tool use whose text holds an array of calls, the calls are
  recovered in order if each has a name; otherwise the parsed array is deleted twice.\<close>

theorem openai_recovery_outcome:
  assumes "cJSON_Parse (c_str body) = Some e" and "cJSON_GetObjectItem (Some e) ''error'' = Some eo"
    and "get_str (Some eo) ''code'' = Some ''tool_use_failed''"
    and "get_str (Some eo) ''failed_generation'' = Some text"
    and "strchr (CHR ''['') text = Some arr" and "cJSON_Parse arr = Some (JArray vs)" and "vs \<noteq> []"
  shows "(fst (openai_http_error status (Some body) d c) = None \<longleftrightarrow> (\<exists>v \<in> set vs. get_str (Some v) ''name'' = None))
    \<and> (\<forall>r. fst (openai_http_error status (Some body) d c) = Some r \<longrightarrow>
         lr_error r = None \<and> (\<exists>calls. lr_tool_calls r = Some (JArray calls) \<and>
           map (\<lambda>tc. get_str (cJSON_GetObjectItem (Some tc) ''function'') ''name'') calls = map (\<lambda>v. get_str (Some v) ''name'') vs))"
proof -
  have p: "fg_search c text = (case fg_normalize c vs of
      (Some calls, c') \<Rightarrow> (Recovered calls, c') | (None, c') \<Rightarrow> (DoubleDelete, c'))"
    using assms(5-7) by (subst fg_search.simps)
      (simp add: Let_def cJSON_IsArray_def cJSON_GetArraySize_def comp_def del: strchr_None)
  have h: "openai_http_error status (Some body) d c =
      (case fg_normalize c vs of (Some calls, c') \<Rightarrow> (Some (no_response\<lparr>lr_tool_calls := Some (JArray calls)\<rparr>), c')
        | (None, c') \<Rightarrow> (None, c'))"
    using assms(1-4) p by (auto simp: openai_http_error_def recover_calls_def split: option.split prod.split)
  show ?thesis
  proof (cases "\<exists>v \<in> set vs. get_str (Some v) ''name'' = None")
    case True
    have "fst (fg_normalize c vs) = None" by (rule fg_normalize_missing [OF True])
    with h True show ?thesis by (auto split: prod.splits option.splits)
  next
    case False
    then obtain calls c' where "fg_normalize c vs = (Some calls, c')"
      "map (\<lambda>tc. get_str (cJSON_GetObjectItem (Some tc) ''function'') ''name'') calls = map (\<lambda>v. get_str (Some v) ''name'') vs"
      using fg_normalize_named [of vs c] by metis
    with h False show ?thesis by (auto simp: no_response_def)
  qed
qed

text \<open>A status outside 2xx is an error with a text, unless calls were recovered from it.\<close>

lemma openai_status_error:
  assumes "fst (openai_http_error status body d c) = Some r"
  shows "(\<exists>e. lr_error r = Some e \<and> lr_tool_calls r = None) \<or> (\<exists>calls. lr_error r = None \<and> lr_tool_calls r = Some (JArray calls))"
  using assms by (auto simp: openai_http_error_def failed_response_def no_response_def Let_def
      split: option.splits prod.splits recovery.splits)

lemma ollama_no_message:
  assumes "cJSON_Parse (c_str body) = Some j" "get_str (Some j) ''error'' = None" "truncated_tools j = None"
    "cJSON_GetObjectItem (Some j) ''message'' = None"
  shows "\<exists>r d'. ollama_answer body d c = (r, d', c) \<and> lr_error r = None \<and> lr_content r = None \<and> lr_tool_calls r = None"
proof -
  obtain r d' where u: "ollama_usage j no_response d = (r, d')" by fastforce
  then show ?thesis using assms ollama_usage_calls [OF u]
    by (simp add: ollama_answer_def ollama_message_def no_response_def)
qed

text \<open>An Ollama answer without a message, such as an empty JSON object, makes the agent pass a
  NULL string to \<open>strdup\<close>: the turn does not end in a reply.\<close>

theorem ollama_empty_answer_crashes:
  assumes "cJSON_Parse (c_str body) = Some j" and "get_str (Some j) ''error'' = None"
    and "truncated_tools j = None" and "cJSON_GetObjectItem (Some j) ''message'' = None"
    and "malloc_ok curl w" and "\<forall>n. realloc_ok curl n" and "\<forall>rq. perform curl rq w = (Transfer 200 [body], w')"
    and "u \<noteq> ''''" and "0 < max_iterations a"
  shows "fst (agent_chat (ollama_provider curl) tools a (Some u) (d, c, w)) = Crash"
proof -
  obtain b where b: "write_chunks (realloc_ok curl) [body] \<lparr>wb_data = '''', wb_cap = 4096\<rparr> = Some b"
    using write_chunks_total assms(6) by blast
  have "wb_data b = body" using write_chunks_data [OF b] by (simp add: wb_ok_def)
  with assms(5,7) b have p: "http_post_json curl url bd t w = (\<lparr>hr_status = 200, hr_body = Some body, hr_error = None\<rparr>, w')" for url bd t
    by (simp add: http_post_json_def http_post_def)
  obtain r d' where r: "ollama_answer body d c = (r, d', c)" "lr_error r = None" "lr_content r = None" "lr_tool_calls r = None"
    using ollama_no_message [OF assms(1-4)] by blast
  have cc: "chat_complete (ollama_provider curl) m t (d, c, w) = (r, d', c, w')" for m t
    by (simp add: ollama_provider_def ollama_chat_complete_def p r)
  have it: "max_iterations (ensure_system a) = max_iterations a"
    by (auto simp: ensure_system_def agent_add_message_def agent_compact_history_def Let_def)
  obtain n where n: "nat (max_iterations a) = Suc n" using assms(9) by (cases "nat (max_iterations a)") auto
  show ?thesis
    using assms(8) by (simp add: agent_chat_def Let_def it n cc r strip_think_tags_def)
qed

section \<open>Witnesses\<close>

definition answering :: "string \<Rightarrow> unit curl" where
  "answering body = \<lparr>perform = (\<lambda>_ w. (Transfer 200 [body], w)), write_error = '''',
                     realloc_ok = (\<lambda>_. True), malloc_ok = (\<lambda>_. True)\<rparr>"

lemma ollama_empty_answer_crashes_witness:
  "fst (agent_chat (ollama_provider (answering ''{}'')) [] agent_create (Some ''hi'') (ollama_create None None, 0, ())) = Crash"
proof (rule ollama_empty_answer_crashes)
  show "cJSON_Parse (c_str ''{}'') = Some (JObject [])" by code_simp
qed (simp_all add: answering_def truncated_tools_def agent_create_def MAX_ITERATIONS_def cJSON_GetStringValue_def)


definition fg_body :: string where
  \<open>fg_body = ''{"error":{"code":"tool_use_failed","failed_generation":"try [{}]"}}''\<close>

lemma openai_recovery_outcome_witness:
  "fst (openai_http_error 400 (Some fg_body) (the (openai_create None None (Some ''sk-x'') None None)) 0) = None"
proof -
  let ?eo = "JObject [(''code'', JString ''tool_use_failed''), (''failed_generation'', JString ''try [{}]'')]"
  have b: "cJSON_Parse (c_str fg_body) = Some (JObject [(''error'', ?eo)])" by code_simp
  have m: "\<not> strcasecmp_eq ''failed_generation'' ''code''" by code_simp
  have s: "strchr (CHR ''['') ''try [{}]'' = Some ''[{}]''" by code_simp
  have a: "cJSON_Parse ''[{}]'' = Some (JArray [JObject []])" by code_simp
  show ?thesis
    using openai_recovery_outcome [OF b lookup_hit _ _ s a, of 400] m
    by (simp add: lookup_miss cJSON_GetStringValue_def)
qed

definition ollama_body :: string where
  \<open>ollama_body = ''{"message":{"tool_calls":[{"function":{"name":"ls"}}]}}''\<close>

lemma ollama_calls_safe_witness:
  "\<exists>resp st tcs. ollama_chat_complete (answering ollama_body) ''[]'' None (ollama_create None None, 0, ()) = (resp, st)
    \<and> lr_tool_calls resp = Some (JArray tcs) \<and> tcs \<noteq> [] \<and> list_all good_call tcs"
proof -
  let ?resp = "no_response\<lparr>lr_tool_calls := Some (JArray [stored_call ''call_1'' ''ls'' ''{}''])\<rparr>"
  have a: "ollama_answer ollama_body (ollama_create None None) 0 = (?resp, ollama_create None None, 1)" by code_simp
  have r: "ollama_chat_complete (answering ollama_body) ''[]'' None (ollama_create None None, 0, ()) =
      (?resp, ollama_create None None, 1, ())"
    by (simp add: ollama_chat_complete_def http_post_json_def http_post_def answering_def write_callback_def
        Let_def a)
  have t: "lr_tool_calls ?resp = Some (JArray [stored_call ''call_1'' ''ls'' ''{}''])" by simp
  have "tools_ok ([] :: (ollama_data \<times> 32 word \<times> unit) tools)" by (simp add: tools_ok_def)
  from ollama_calls_safe [OF r t this] r show ?thesis by simp
qed


end
