(* ===== verification/Skills.thy ===== *)
theory Skills
  imports Config Json
begin

text \<open>
  Model of \<open>src/tools/skills/skills.c\<close>: the front matter of a skill file, the scan of the skills
  directory, and the part of the system prompt made from the skills. The file system, \<open>system\<close>
  and the environment are a record of functions. Strings built in a \<open>strbuf\<close> are plain
  strings here, as \<open>Core_Types\<close> justifies.
\<close>

definition MAX_SKILLS :: nat where "MAX_SKILLS = 64"
definition MAX_REQUIRES :: nat where "MAX_REQUIRES = 8"
definition MAX_REQ_LEN :: nat where "MAX_REQ_LEN = 64"

record skill =
  sk_name :: string
  sk_description :: string
  sk_path :: string
  sk_slug :: string
  sk_always :: bool
  sk_bins :: "string list"
  sk_envs :: "string list"
  sk_available :: bool
  sk_content :: string

record skills =
  workspace :: string
  skills_dir :: string
  skill_list :: "skill list"

text \<open>
  What the loader asks of the system: the text of a file, the names in a directory, whether a path
  exists and is a directory (\<open>None\<close>: it does not exist), the exit status of a shell command, and
  a variable of the environment.
\<close>

record sk_os =
  os_text :: "string \<Rightarrow> string option"
  os_dir :: "string \<Rightarrow> string list option"
  os_kind :: "string \<Rightarrow> bool option"
  os_system :: "string \<Rightarrow> int"
  os_getenv :: "string \<Rightarrow> string option"

section \<open>Requirements\<close>

definition path_command :: "string \<Rightarrow> string" where
  "path_command bin = trunc_to 256 (''command -v '' @ bin @ '' >/dev/null 2>&1'')"

definition cmd_on_path :: "sk_os \<Rightarrow> string \<Rightarrow> bool" where
  "cmd_on_path os bin \<longleftrightarrow> bin = '''' \<or> os_system os (path_command bin) = 0"

definition env_set :: "sk_os \<Rightarrow> string \<Rightarrow> bool" where
  "env_set os var \<longleftrightarrow> (case os_getenv os var of None \<Rightarrow> False | Some v \<Rightarrow> v \<noteq> '''')"

definition split_words :: "string \<Rightarrow> string list" where
  "split_words src =
     map (trunc_to MAX_REQ_LEN)
       (take MAX_REQUIRES (strtok_all (\<lambda>c. c = SP \<or> c = TAB \<or> c = CHR '','') (trunc_to 512 src)))"

section \<open>Front matter\<close>

definition chomp :: "string \<Rightarrow> string" where
  "chomp s =
     (let t = (if s \<noteq> [] \<and> last s = NL then butlast s else s)
      in if t \<noteq> [] \<and> last t = CR then butlast t else t)"

definition fm_line :: "string \<Rightarrow> skill \<Rightarrow> skill" where
  "fm_line line sk =
     (case strchr (CHR '':'') line of
        None \<Rightarrow> sk
      | Some colon \<Rightarrow>
          (let key = str_trim (before (CHR '':'') line); val = str_trim (tl colon)
           in if key = ''name'' then sk\<lparr>sk_name := trunc_to 256 val\<rparr>
              else if key = ''description'' then sk\<lparr>sk_description := trunc_to 256 val\<rparr>
              else if key = ''always'' then sk\<lparr>sk_always := (val = ''true'' \<or> val = ''yes'' \<or> val = ''1'')\<rparr>
              else if key = ''requires_bins'' then sk\<lparr>sk_bins := split_words val\<rparr>
              else if key = ''requires_env'' then sk\<lparr>sk_envs := split_words val\<rparr>
              else sk))"

definition HRULE :: string where "HRULE = ''---''"

text \<open>The reading loop: the number of rules, whether the front matter is open, the record, the body.\<close>

definition skill_line :: "string \<Rightarrow> nat \<times> bool \<times> skill \<times> string \<Rightarrow> nat \<times> bool \<times> skill \<times> string" where
  "skill_line raw st =
     (case st of (dashes, in_fm, sk, body) \<Rightarrow>
        (let line = chomp (c_str raw);
             d = (if line = HRULE then dashes + 1 else dashes)
         in if line = HRULE \<and> d = 1 then (d, True, sk, body)
            else if line = HRULE \<and> d = 2 then (d, False, sk, body)
            else if in_fm then (d, in_fm, fm_line line sk, body)
            else if d \<ge> 2 then (d, in_fm, sk, body @ line @ [NL])
            else (d, in_fm, sk, body)))"

definition read_skill :: "string \<Rightarrow> skill \<Rightarrow> skill" where
  "read_skill text sk =
     (let sk0 = sk\<lparr>sk_name := trunc_to 256 (sk_slug sk), sk_description := ''A custom skill'',
                   sk_always := False, sk_bins := [], sk_envs := []\<rparr>;
          ls = fgets_lines 1024 text;
          (dashes, in_fm, sk1, body) = fold skill_line ls (0, False, sk0, '''')
      in sk1\<lparr>sk_content := (if dashes < 2 then concat (map c_str ls) else body)\<rparr>)"

definition parse_skill_file :: "sk_os \<Rightarrow> string \<Rightarrow> skill \<Rightarrow> skill option" where
  "parse_skill_file os path sk =
     map_option (\<lambda>text.
        let sk1 = read_skill text sk
        in sk1\<lparr>sk_available := list_all (cmd_on_path os) (sk_bins sk1) \<and> list_all (env_set os) (sk_envs sk1)\<rparr>)
       (os_text os path)"

section \<open>The directory\<close>

definition empty_skill :: skill where
  "empty_skill = \<lparr>sk_name = '''', sk_description = '''', sk_path = '''', sk_slug = '''', sk_always = False,
     sk_bins = [], sk_envs = [], sk_available = False, sk_content = ''''\<rparr>"

definition scan_entry :: "sk_os \<Rightarrow> string \<Rightarrow> string \<Rightarrow> skill option" where
  "scan_entry os dir name =
     (if name \<noteq> '''' \<and> hd name = CHR ''.'' then None
      else
        let skill_dir = trunc_to 1024 (dir @ ''/'' @ name);
            skill_path = trunc_to 1040 (skill_dir @ ''/SKILL.md'')
        in if os_kind os skill_dir \<noteq> Some True \<or> os_kind os skill_path = None then None
           else parse_skill_file os skill_path
                  (empty_skill\<lparr>sk_slug := trunc_to 256 name, sk_path := trunc_to 1040 skill_path\<rparr>))"

fun scan_names :: "sk_os \<Rightarrow> string \<Rightarrow> string list \<Rightarrow> skill list \<Rightarrow> skill list" where
  "scan_names os dir [] acc = acc"
| "scan_names os dir (n # ns) acc =
     (if length acc \<ge> MAX_SKILLS then acc
      else scan_names os dir ns (case scan_entry os dir n of None \<Rightarrow> acc | Some sk \<Rightarrow> acc @ [sk]))"

definition skills_scan :: "sk_os \<Rightarrow> skills \<Rightarrow> skills" where
  "skills_scan os s =
     s\<lparr>skill_list := (case os_dir os (skills_dir s) of None \<Rightarrow> [] | Some names \<Rightarrow> scan_names os (skills_dir s) names [])\<rparr>"

text \<open>The result, and the directory that is made when it does not exist.\<close>

definition skills_create :: "sk_os \<Rightarrow> string option \<Rightarrow> skills \<times> string option" where
  "skills_create os dir =
     (let ws = (case dir of None \<Rightarrow> ''.'' | Some d \<Rightarrow> if d = '''' then ''.'' else d);
          sd = trunc_to 512 (ws @ ''/skills'')
      in (skills_scan os \<lparr>workspace = trunc_to 512 ws, skills_dir = sd, skill_list = []\<rparr>,
          if os_kind os sd = None then Some sd else None))"

definition skills_reload :: "sk_os \<Rightarrow> skills \<Rightarrow> result \<times> skills" where
  "skills_reload os s = (ok, skills_scan os s)"

definition skills_count :: "skills option \<Rightarrow> nat" where
  "skills_count s = (case s of None \<Rightarrow> 0 | Some s \<Rightarrow> length (skill_list s))"

definition skill_at :: "skills option \<Rightarrow> int \<Rightarrow> skill option" where
  "skill_at s i =
     (case s of None \<Rightarrow> None
      | Some s \<Rightarrow> if i < 0 \<or> i \<ge> int (length (skill_list s)) then None else Some (skill_list s ! nat i))"

definition skills_name :: "skills option \<Rightarrow> int \<Rightarrow> string option" where
  "skills_name s i = map_option sk_slug (skill_at s i)"

definition skills_description :: "skills option \<Rightarrow> int \<Rightarrow> string option" where
  "skills_description s i = map_option sk_description (skill_at s i)"

section \<open>The prompt\<close>

definition xml_char :: "char \<Rightarrow> string" where
  "xml_char c =
     (if c = CHR ''&'' then ''&amp;'' else if c = CHR ''<'' then ''&lt;''
      else if c = CHR ''>'' then ''&gt;'' else if c = DQ then ''&quot;'' else [c])"

definition xml_append :: "string \<Rightarrow> string \<Rightarrow> string" where
  "xml_append sb s = sb @ concat (map xml_char s)"

definition active_entry :: "skill \<Rightarrow> string" where
  "active_entry sk = ''### Skill: '' @ sk_name sk @ [NL, NL] @ sk_content sk @ [NL, NL] @ ''---'' @ [NL, NL]"

definition missing_deps :: "sk_os \<Rightarrow> skill \<Rightarrow> string list" where
  "missing_deps os sk =
     map (\<lambda>b. ''CLI: '' @ xml_append '''' b) (filter (\<lambda>b. \<not> cmd_on_path os b) (sk_bins sk)) @
     map (\<lambda>e. ''ENV: '' @ xml_append '''' e) (filter (\<lambda>e. \<not> env_set os e) (sk_envs sk))"

definition summary_entry :: "sk_os \<Rightarrow> string \<Rightarrow> skill \<Rightarrow> string" where
  "summary_entry os ws sk =
     ''  <skill available='' @ [DQ] @ (if sk_available sk then ''true'' else ''false'') @ [DQ] @ ''>'' @ [NL] @
     ''    <name>'' @ xml_append '''' (sk_name sk) @ ''</name>'' @ [NL] @
     ''    <description>'' @ xml_append '''' (sk_description sk) @ ''</description>'' @ [NL] @
     ''    <location>'' @ ws @ ''/skills/'' @ sk_slug sk @ ''/SKILL.md</location>'' @ [NL] @
     (if sk_available sk then ''''
      else ''    <requires>'' @ join '', '' (missing_deps os sk) @ ''</requires>'' @ [NL]) @
     ''  </skill>'' @ [NL]"

definition summary_intro :: string where
  \<open>summary_intro =
     ''## Skills'' @ [NL, NL] @
     ''The following skills extend your capabilities. '' @
     ''To use a skill, read its SKILL.md with the read_file tool. '' @
     ''Skills with available="false" need dependencies installed first.'' @ [NL, NL] @
     ''<skills>'' @ [NL]\<close>

definition skills_get_prompt :: "sk_os \<Rightarrow> skills \<Rightarrow> string" where
  "skills_get_prompt os s =
     (let act = filter (\<lambda>sk. sk_always sk \<and> sk_available sk) (skill_list s);
          rest = filter (\<lambda>sk. \<not> sk_always sk) (skill_list s)
      in (if act = [] then '''' else ''## Active Skills'' @ [NL, NL] @ concat (map active_entry act)) @
         (if rest = [] then ''''
          else summary_intro @ concat (map (summary_entry os (workspace s)) rest) @ ''</skills>'' @ [NL]))"

text \<open>The startup line; the missing requirements are collected in 128 bytes.\<close>

definition add_missing :: "string \<Rightarrow> string \<Rightarrow> string" where
  "add_missing x miss =
     (let m = (if miss \<noteq> [] then miss @ take (127 - length miss) '','' else miss)
      in m @ take (127 - length m) x)"

definition summary_word :: "sk_os \<Rightarrow> skill \<Rightarrow> string" where
  "summary_word os sk =
     (if sk_always sk \<and> sk_available sk then [ESC] @ ''[35m'' @ sk_slug sk @ ''*'' @ [ESC] @ ''[0m''
      else if sk_available sk then [ESC] @ ''[32m'' @ sk_slug sk @ [ESC] @ ''[0m''
      else [ESC] @ ''[2m'' @ sk_slug sk @ ''[needs:'' @
        fold add_missing (filter (\<lambda>e. \<not> env_set os e) (sk_envs sk))
          (fold add_missing (filter (\<lambda>b. \<not> cmd_on_path os b) (sk_bins sk)) '''') @
        '']'' @ [ESC] @ ''[0m'')"

definition skills_print_summary :: "sk_os \<Rightarrow> skills option \<Rightarrow> string" where
  "skills_print_summary os s =
     (if skills_count s = 0 then ''  Skills   : (none)'' @ [NL]
      else ''  Skills   : '' @ join ''  '' (map (summary_word os) (skill_list (the s))) @ [NL] @
        ''  '' @ [ESC] @ ''[2m(* = always loaded into context)'' @ [ESC] @ ''[0m'' @ [NL])"


section \<open>Reading a skill file\<close>

definition plain_line :: "string \<Rightarrow> bool" where
  "plain_line l \<longleftrightarrow> NL \<notin> set l \<and> NUL \<notin> set l \<and> (l = [] \<or> last l \<noteq> CR) \<and> length l < 1022"

definition plain_value :: "string \<Rightarrow> bool" where
  "plain_value v \<longleftrightarrow> v \<noteq> '''' \<and> str_trim v = v \<and> NL \<notin> set v \<and> NUL \<notin> set v \<and> length v < 256"

lemma chomp_line: "l = [] \<or> last l \<noteq> CR \<Longrightarrow> chomp (l @ [NL]) = l"
  by (auto simp: chomp_def)

lemma skill_line_plain:
  assumes "plain_line l"
  shows "skill_line (l @ [NL]) (dashes, in_fm, sk, body) =
    (let d = (if l = HRULE then dashes + 1 else dashes)
     in if l = HRULE \<and> d = 1 then (d, True, sk, body)
        else if l = HRULE \<and> d = 2 then (d, False, sk, body)
        else if in_fm then (d, in_fm, fm_line l sk, body)
        else if d \<ge> 2 then (d, in_fm, sk, body @ l @ [NL])
        else (d, in_fm, sk, body))"
proof -
  have "NUL \<notin> set (l @ [NL])" using assms by (simp add: plain_line_def NUL_def)
  then show ?thesis
    using assms by (simp add: skill_line_def c_str_plain chomp_line plain_line_def)
qed

lemma skill_line_fm:
  "plain_line l \<Longrightarrow> l \<noteq> HRULE \<Longrightarrow> skill_line (l @ [NL]) (1, True, sk, body) = (1, True, fm_line l sk, body)"
  by (simp add: skill_line_plain)

lemma skill_line_body:
  "plain_line l \<Longrightarrow> 2 \<le> dashes \<Longrightarrow>
   \<exists>d. 2 \<le> d \<and> skill_line (l @ [NL]) (dashes, False, sk, body) = (d, False, sk, body @ l @ [NL])"
  by (auto simp: skill_line_plain Let_def)

abbreviation unlines :: "string list \<Rightarrow> string" where
  "unlines ls \<equiv> concat (map (\<lambda>l. l @ [NL]) ls)"

lemma fgets_unlines:
  "list_all plain_line ls \<Longrightarrow> fgets_lines 1024 (unlines ls) = map (\<lambda>l. l @ [NL]) ls"
  by (induction ls) (auto simp: plain_line_def fgets_lines_line)

lemma fold_body:
  "list_all plain_line ls \<Longrightarrow> 2 \<le> dashes \<Longrightarrow>
   \<exists>d. 2 \<le> d \<and> fold skill_line (map (\<lambda>l. l @ [NL]) ls) (dashes, False, sk, body) = (d, False, sk, body @ unlines ls)"
proof (induction ls arbitrary: dashes body)
  case (Cons l ls)
  then obtain d where "2 \<le> d" "skill_line (l @ [NL]) (dashes, False, sk, body) = (d, False, sk, body @ l @ [NL])"
    using skill_line_body by (metis list.pred_inject(2))
  with Cons.IH [of d "body @ l @ [NL]"] Cons.prems show ?case by simp
qed auto

lemma fm_entry:
  assumes "str_trim v = v" "CHR '':'' \<notin> set k" "str_trim k = k"
  shows "strchr (CHR '':'') (k @ '': '' @ v) = Some ('': '' @ v)" "before (CHR '':'') (k @ '': '' @ v) = k"
    "str_trim (SP # v) = v"
proof -
  show "strchr (CHR '':'') (k @ '': '' @ v) = Some ('': '' @ v)" "before (CHR '':'') (k @ '': '' @ v) = k"
    using assms(2) by auto
  have "isspace SP" by code_simp
  then have "ltrim (SP # v) = ltrim v" by (simp add: ltrim_def)
  then show "str_trim (SP # v) = v" using assms(1) by (simp add: str_trim_def)
qed

definition fm_bool :: "bool \<Rightarrow> string" where
  "fm_bool b = (if b then ''true'' else ''false'')"

definition front_matter :: "string \<Rightarrow> string \<Rightarrow> bool \<Rightarrow> string list" where
  "front_matter n d al = [HRULE, ''name: '' @ n, ''description: '' @ d, ''always: '' @ fm_bool al, HRULE]"

lemma trim_keys:
  "str_trim ''name'' = ''name''" "str_trim ''description'' = ''description''" "str_trim ''always'' = ''always''"
  by code_simp+

lemma trim_bool: "str_trim (fm_bool b) = fm_bool b"
proof -
  have "str_trim (fm_bool True) = fm_bool True" "str_trim (fm_bool False) = fm_bool False" by code_simp+
  then show ?thesis by (cases b) (simp_all only:)
qed

lemma fm_line_fields:
  assumes "plain_value v"
  shows "fm_line (''name: '' @ v) sk = sk\<lparr>sk_name := v\<rparr>"
    "fm_line (''description: '' @ v) sk = sk\<lparr>sk_description := v\<rparr>"
proof -
  have v: "str_trim v = v" "length v < 256" using assms by (auto simp: plain_value_def)
  show "fm_line (''name: '' @ v) sk = sk\<lparr>sk_name := v\<rparr>"
    using fm_entry [OF v(1), of "''name''"] v by (simp add: fm_line_def trim_keys)
  show "fm_line (''description: '' @ v) sk = sk\<lparr>sk_description := v\<rparr>"
    using fm_entry [OF v(1), of "''description''"] v by (simp add: fm_line_def trim_keys)
qed

lemma fm_line_always: "fm_line (''always: '' @ fm_bool al) sk = sk\<lparr>sk_always := al\<rparr>"
  using fm_entry [OF trim_bool, of "''always''" al] by (simp add: fm_line_def trim_keys) (simp add: fm_bool_def)

lemma front_matter_plain:
  assumes "plain_value n" "plain_value d"
  shows "list_all plain_line (front_matter n d al)"
proof -
  have "v = [] \<or> last v \<noteq> CR" if "plain_value v" for v
    using that str_trim_ends [of v] by (auto simp: plain_value_def isspace_def byte_def)
  then show ?thesis
    using assms by (auto simp: front_matter_def plain_line_def plain_value_def HRULE_def NUL_def fm_bool_def)
qed

lemma fold_front_matter:
  assumes "plain_value n" "plain_value d"
  shows "fold skill_line (map (\<lambda>l. l @ [NL]) (front_matter n d al)) (0, False, sk, '''') =
    (2, False, sk\<lparr>sk_name := n, sk_description := d, sk_always := al\<rparr>, '''')"
proof -
  have ne: "''name: '' @ n \<noteq> HRULE" "''description: '' @ d \<noteq> HRULE" "''always: '' @ fm_bool al \<noteq> HRULE"
    by (simp_all add: HRULE_def)
  from front_matter_plain [OF assms, of al]
  have p: "plain_line HRULE" "plain_line (''name: '' @ n)" "plain_line (''description: '' @ d)"
    "plain_line (''always: '' @ fm_bool al)"
    by (simp_all only: front_matter_def list.pred_inject simp_thms)
  have op: "skill_line (HRULE @ [NL]) (0, False, sk, '''') = (1, True, sk, '''')"
    and cl: "skill_line (HRULE @ [NL]) (1, True, sk', '''') = (2, False, sk', '''')" for sk'
    by (simp_all add: skill_line_plain [OF p(1)])
  note s = skill_line_fm [OF p(2) ne(1)] skill_line_fm [OF p(3) ne(2)] skill_line_fm [OF p(4) ne(3)]
  show ?thesis
    by (simp only: front_matter_def list.map fold.simps o_apply id_apply op cl s
        fm_line_fields [OF assms(1)] fm_line_fields [OF assms(2)] fm_line_always)
qed




text \<open>
  Two horizontal rules in a file without a front matter are taken for one: the text before the
  second rule is lost.
\<close>

lemma rules_taken_for_front_matter:
  "sk_content (read_skill (unlines [''Intro'', ''---'', ''Step: one'', ''---'', ''End'']) empty_skill) = unlines [''End'']"
  by code_simp

section \<open>Requirements run a shell\<close>

lemma split_words_bound: "length (split_words v) \<le> MAX_REQUIRES \<and> (\<forall>w \<in> set (split_words v). length w < MAX_REQ_LEN)"
  by (auto simp: split_words_def MAX_REQ_LEN_def trunc_to_def)

text \<open>A word of \<open>requires_bins\<close> reaches the shell as it is, whatever it contains.\<close>

lemma bins_reach_shell: "w \<in> set (split_words v) \<Longrightarrow> path_command w = ''command -v '' @ w @ '' >/dev/null 2>&1''"
  using split_words_bound [of v] by (auto simp: path_command_def MAX_REQ_LEN_def)

lemma bins_command_injection: "split_words ''x;reboot'' = [''x;reboot'']"
  by code_simp

section \<open>The table\<close>

definition skills_ok :: "skills \<Rightarrow> bool" where
  "skills_ok s \<longleftrightarrow> length (skill_list s) \<le> MAX_SKILLS \<and>
     (\<forall>sk \<in> set (skill_list s). length (sk_slug sk) < 256 \<and> length (sk_name sk) < 256 \<and> length (sk_description sk) < 256
        \<and> length (sk_bins sk) \<le> MAX_REQUIRES \<and> length (sk_envs sk) \<le> MAX_REQUIRES
        \<and> (sk_slug sk = '''' \<or> hd (sk_slug sk) \<noteq> CHR ''.''))"

definition fields_ok :: "skill \<Rightarrow> bool" where
  "fields_ok sk \<longleftrightarrow> length (sk_name sk) < 256 \<and> length (sk_description sk) < 256
     \<and> length (sk_bins sk) \<le> MAX_REQUIRES \<and> length (sk_envs sk) \<le> MAX_REQUIRES"

lemma fm_line_ok: "fields_ok sk \<Longrightarrow> fields_ok (fm_line l sk) \<and> sk_slug (fm_line l sk) = sk_slug sk"
  using split_words_bound by (auto simp: fields_ok_def fm_line_def Let_def trunc_to_def split: option.split)

lemma fold_lines_ok:
  "fields_ok sk \<Longrightarrow> fold skill_line ls (d, f, sk, b) = (d', f', sk', b') \<Longrightarrow> fields_ok sk' \<and> sk_slug sk' = sk_slug sk"
proof (induction ls arbitrary: d f sk b)
  case (Cons l ls)
  obtain d1 f1 sk1 b1 where s: "skill_line l (d, f, sk, b) = (d1, f1, sk1, b1)" by (metis surj_pair)
  then have "sk1 = sk \<or> sk1 = fm_line (chomp (c_str l)) sk"
    by (auto simp: skill_line_def Let_def split: if_splits)
  then have "fields_ok sk1 \<and> sk_slug sk1 = sk_slug sk" using fm_line_ok Cons.prems(1) by auto
  with Cons.IH [of sk1 d1 f1 b1] Cons.prems(2) s show ?case by simp
qed simp

lemma read_skill_ok: "fields_ok (read_skill text sk) \<and> sk_slug (read_skill text sk) = sk_slug sk"
proof -
  let ?sk = "sk\<lparr>sk_name := trunc_to 256 (sk_slug sk), sk_description := ''A custom skill'',
                sk_always := False, sk_bins := [], sk_envs := []\<rparr>"
  obtain d f sk1 b where r: "fold skill_line (fgets_lines 1024 text) (0, False, ?sk, '''') = (d, f, sk1, b)"
    by (metis surj_pair)
  have "fields_ok ?sk" by (simp add: fields_ok_def trunc_to_def)
  from fold_lines_ok [OF this r] r show ?thesis by (simp add: read_skill_def fields_ok_def)
qed

lemma scan_entry_ok:
  assumes "scan_entry os dir name = Some sk"
  shows "fields_ok sk \<and> length (sk_slug sk) < 256 \<and> (sk_slug sk = '''' \<or> hd (sk_slug sk) \<noteq> CHR ''.'')"
proof -
  have h: "name = '''' \<or> hd name \<noteq> CHR ''.''"
    using assms by (auto simp: scan_entry_def split: if_splits)
  obtain path where p: "parse_skill_file os path (empty_skill\<lparr>sk_slug := trunc_to 256 name, sk_path := trunc_to 1040 path\<rparr>) = Some sk"
    using assms by (auto simp: scan_entry_def Let_def split: if_splits)
  let ?sk0 = "empty_skill\<lparr>sk_slug := trunc_to 256 name, sk_path := trunc_to 1040 path\<rparr>"
  obtain tx where "sk = (read_skill tx ?sk0)\<lparr>sk_available := list_all (cmd_on_path os) (sk_bins (read_skill tx ?sk0)) \<and>
        list_all (env_set os) (sk_envs (read_skill tx ?sk0))\<rparr>"
    using p by (auto simp: parse_skill_file_def Let_def)
  moreover from this have "fields_ok sk \<and> sk_slug sk = sk_slug ?sk0"
    using read_skill_ok [of tx ?sk0] by (simp add: fields_ok_def)
  moreover have "trunc_to 256 name = '''' \<or> hd (trunc_to 256 name) = hd name"
    by (cases name) (simp_all add: trunc_to_def)
  ultimately show ?thesis using h take_trunc_length [of 256 name] by auto
qed

lemma scan_names_ok:
  assumes "length acc \<le> MAX_SKILLS"
    and "\<forall>sk \<in> set acc. fields_ok sk \<and> length (sk_slug sk) < 256 \<and> (sk_slug sk = '''' \<or> hd (sk_slug sk) \<noteq> CHR ''.'')"
  shows "length (scan_names os dir ns acc) \<le> MAX_SKILLS \<and> (\<forall>sk \<in> set (scan_names os dir ns acc).
    fields_ok sk \<and> length (sk_slug sk) < 256 \<and> (sk_slug sk = '''' \<or> hd (sk_slug sk) \<noteq> CHR ''.''))"
  using assms
proof (induction ns arbitrary: acc)
  case (Cons n ns)
  show ?case
  proof (cases "length acc \<ge> MAX_SKILLS")
    case False
    let ?acc = "case scan_entry os dir n of None \<Rightarrow> acc | Some sk \<Rightarrow> acc @ [sk]"
    from False have l: "length ?acc \<le> MAX_SKILLS" by (simp split: option.split)
    have e: "scan_names os dir (n # ns) acc = scan_names os dir ns ?acc" using False by simp
    show ?thesis unfolding e
      by (rule Cons.IH [OF l]) (use Cons.prems(2) scan_entry_ok [of os dir n] in \<open>cases "scan_entry os dir n"; simp\<close>)
  qed (use Cons.prems in simp)
qed simp

lemma skills_scan_ok: "skills_ok (skills_scan os s)"
  using scan_names_ok [of "[]" os "skills_dir s"]
  by (auto simp: skills_ok_def skills_scan_def fields_ok_def split: option.split)

section \<open>The prompt\<close>

text \<open>Reading the four entities back.\<close>

fun xml_read :: "string \<Rightarrow> string" where
  "xml_read [] = []"
| "xml_read (c # s) =
     (if c = CHR ''&'' then
        (if prefix ''amp;'' s then CHR ''&'' # xml_read (drop 4 s)
         else if prefix ''lt;'' s then CHR ''<'' # xml_read (drop 3 s)
         else if prefix ''gt;'' s then CHR ''>'' # xml_read (drop 3 s)
         else if prefix ''quot;'' s then DQ # xml_read (drop 5 s)
         else c # xml_read s)
      else c # xml_read s)"

lemma xml_read_char: "xml_read (xml_char c @ s) = c # xml_read s"
  by (simp add: xml_char_def)

text \<open>Not an always-skill with a missing requirement.\<close>

definition loadable :: "skill \<Rightarrow> bool" where
  "loadable sk \<longleftrightarrow> (sk_always sk \<longrightarrow> sk_available sk)"

text \<open>The names, descriptions and requirements of the skills cannot break the structure of the
  skills section of the prompt: their escaped form has no markup characters and determines the
  original text; and a skill that is marked as always loaded but lacks a requirement leaves no trace
  in the prompt, neither its text nor the note about what is missing.\<close>

theorem skills_prompt_escapes:
  "xml_read (xml_append '''' s) = s
   \<and> set (xml_append '''' s) \<inter> {CHR ''<'', CHR ''>'', DQ} = {}
   \<and> skills_get_prompt os t =
     skills_get_prompt os (t\<lparr>skill_list := filter loadable (skill_list t)\<rparr>)"
proof (intro conjI)
  show "xml_read (xml_append '''' s) = s"
    by (induction s) (simp_all add: xml_append_def xml_read_char del: xml_read.simps(2))
  show "set (xml_append '''' s) \<inter> {CHR ''<'', CHR ''>'', DQ} = {}"
    by (induction s) (auto simp: xml_append_def xml_char_def)
  have "filter (\<lambda>sk. sk_always sk \<and> sk_available sk) (skill_list t) =
      filter (\<lambda>sk. sk_always sk \<and> sk_available sk) (filter loadable (skill_list t))"
    "filter (\<lambda>sk. \<not> sk_always sk) (skill_list t) =
      filter (\<lambda>sk. \<not> sk_always sk) (filter loadable (skill_list t))"
    unfolding filter_filter by (rule filter_cong; auto simp: loadable_def)+
  then show "skills_get_prompt os t =
     skills_get_prompt os (t\<lparr>skill_list := filter loadable (skill_list t)\<rparr>)"
    by (simp add: skills_get_prompt_def Let_def del: filter_filter)
qed

end
