(* ===== verification/Email_Channel.thy ===== *)
theory Email_Channel
  imports Worker Allowlist Config
begin

text \<open>
  Model of \<open>src/channels/email/email_channel.c\<close>: reading headers and bodies of received messages,
  the poll of the mailbox, and the replies. IMAP and SMTP transfers (libcurl) are a record of
  functions on the world. The allowlist is shared with the rest of the program, so it is an
  argument; \<open>None\<close> is the NULL pointer. The bus is what is published, in order. Log lines are
  not modelled.
\<close>

definition EMAIL_ADDR_MAX :: nat where "EMAIL_ADDR_MAX = 256"
definition EMAIL_SUBJ_MAX :: nat where "EMAIL_SUBJ_MAX = 512"
definition EMAIL_BODY_MAX :: nat where "EMAIL_BODY_MAX = 16384"

record email_channel =
  imap_url :: string
  smtp_url :: string
  address :: string
  password :: string
  inbox :: string
  subject_tag :: string
  poll_interval :: int
  em_running :: bool
  last_uid :: nat
  last_from :: string
  last_subject :: string
  last_message_id :: string

section \<open>Received data\<close>

text \<open>\<open>write_cb\<close>: the buffer grows to the exact size; \<open>None\<close>: \<open>realloc\<close> failed.\<close>

definition write_cb :: "(nat \<Rightarrow> bool) \<Rightarrow> string \<Rightarrow> string option \<Rightarrow> string option option" where
  "write_cb alloc chunk m =
     (let d = (case m of None \<Rightarrow> chunk | Some d \<Rightarrow> d @ chunk)
      in if alloc (length d + 1) then Some (Some d) else None)"

fun write_all :: "(nat \<Rightarrow> bool) \<Rightarrow> string list \<Rightarrow> string option \<Rightarrow> string option option" where
  "write_all alloc [] m = Some m"
| "write_all alloc (c # cs) m = (case write_cb alloc c m of None \<Rightarrow> None | Some m' \<Rightarrow> write_all alloc cs m')"

section \<open>Headers\<close>

definition header_value :: "string \<Rightarrow> string" where
  "header_value rest =
     rtrim_by (\<lambda>c. c = CR \<or> c = SP) (before NL (dropWhile (\<lambda>c. c = SP \<or> c = TAB) rest))"

function extract_header :: "string \<Rightarrow> string \<Rightarrow> string option" where
  "extract_header p field =
     (if p = [] then None
      else if case_prefix field p \<and> length field < length p \<and> p ! length field = CHR '':'' then
        Some (header_value (drop (length field + 1) p))
      else case strchr NL p of None \<Rightarrow> None | Some q \<Rightarrow> extract_header (tl q) field)"
  by pat_completeness auto
termination
proof (relation "measure (\<lambda>(p, _). length p)", goal_cases)
  case (2 p field q)
  from strchr_split [OF 2(3)] obtain u where "p = before NL p @ q" "q = NL # u" by blast
  then have "length p = length (before NL p) + length q" "q = NL # u" by (metis length_append, simp)
  then show ?case by simp
qed simp

declare extract_header.simps [simp del]

definition is_trail :: "char \<Rightarrow> bool" where
  "is_trail c \<longleftrightarrow> c = CR \<or> c = NL \<or> c = SP"

text \<open>\<open>rtrim\<close> and the cut at the largest body.\<close>

definition body_text :: "string \<Rightarrow> string" where
  "body_text s = take EMAIL_BODY_MAX (rtrim_by is_trail s)"

definition CRLF :: string where "CRLF = [CR, NL]"

text \<open>What follows the blank line after the headers.\<close>

definition after_blank :: "string \<Rightarrow> string option" where
  "after_blank s =
     (case strstr s (CRLF @ CRLF) of
        Some b \<Rightarrow> Some (drop 4 b)
      | None \<Rightarrow> (case strstr s [NL, NL] of Some b \<Rightarrow> Some (drop 2 b) | None \<Rightarrow> None))"

definition boundary_of :: "string \<Rightarrow> string" where
  "boundary_of ct =
     (case strstr ct ''boundary'' of
        None \<Rightarrow> ''''
      | Some b \<Rightarrow>
          (let bp = dropWhile (\<lambda>c. c = SP \<or> c = CHR ''='') (drop 8 b)
           in if bp \<noteq> [] \<and> hd bp = DQ then take 253 (takeWhile (\<lambda>c. c \<noteq> DQ) (tl bp))
              else take 253 (takeWhile (\<lambda>c. c \<noteq> CHR '';'' \<and> c \<noteq> CR \<and> c \<noteq> NL) bp)))"

definition no_plain_body :: string where "no_plain_body = ''(no plain text body)''"

definition skip_char :: "char \<Rightarrow> string \<Rightarrow> string" where
  "skip_char c s = (if s \<noteq> [] \<and> hd s = c then tl s else s)"

lemma skip_char_length: "length (skip_char c s) \<le> length s"
  by (simp add: skip_char_def)

lemma scan_parts_less:
  assumes "strstr p (''--'' @ b) = Some q"
  shows "length (skip_char NL (skip_char CR (drop (length b + 2) q))) < length p"
proof -
  have "length b + 2 \<le> length q" "length q \<le> length p" using strstr_length [OF assms] by simp_all
  then have "length (drop (length b + 2) q) < length p" by simp
  then show ?thesis
    by (rule le_less_trans [OF order_trans [OF skip_char_length skip_char_length]])
qed

text \<open>The loop over the parts; the boundary in the message is \<open>--\<close> and \<open>b\<close>.\<close>

function scan_parts :: "string \<Rightarrow> string \<Rightarrow> string" where
  "scan_parts b p =
     (case strstr p (''--'' @ b) of
        None \<Rightarrow> no_plain_body
      | Some q \<Rightarrow>
          (let part = skip_char NL (skip_char CR (drop (length b + 2) q))
           in if part \<noteq> [] \<and> hd part = CHR ''-'' then no_plain_body
              else case after_blank part of
                None \<Rightarrow> scan_parts b part
              | Some part_body \<Rightarrow>
                  (case extract_header part ''Content-Type'' of
                     Some ct \<Rightarrow>
                       if case_prefix ''text/plain'' ct then
                         body_text (case strstr part_body (''--'' @ b) of
                            None \<Rightarrow> part_body
                          | Some e \<Rightarrow> take (length part_body - length e) part_body)
                       else scan_parts b part
                   | None \<Rightarrow> scan_parts b part)))"
  by pat_completeness auto

termination
proof (relation "measure (\<lambda>(b, p). length p)", goal_cases)
  case (2 b p q part)
  show ?case unfolding 2(2) in_measure prod.case by (rule scan_parts_less [OF 2(1)])
next
  case (3 b p q part)
  show ?case unfolding 3(2) in_measure prod.case by (rule scan_parts_less [OF 3(1)])
next
  case (4 b p q part)
  show ?case unfolding 4(2) in_measure prod.case by (rule scan_parts_less [OF 4(1)])
qed simp

declare scan_parts.simps [simp del]

definition extract_body :: "string \<Rightarrow> string" where
  "extract_body msg =
     (let simple = (case after_blank msg of Some b \<Rightarrow> body_text b | None \<Rightarrow> msg)
      in case extract_header msg ''Content-Type'' of
           None \<Rightarrow> simple
         | Some ct \<Rightarrow>
             if contains ct ''multipart'' then
               (if boundary_of ct = '''' then simple else scan_parts (boundary_of ct) msg)
             else simple)"

definition extract_addr :: "string \<Rightarrow> string" where
  "extract_addr fr =
     (let bare = rtrim_by isspace fr
      in case strchr (CHR ''<'') fr of
           None \<Rightarrow> bare
         | Some lt \<Rightarrow>
             (if CHR ''>'' \<in> set lt \<and> before (CHR ''>'') (tl lt) \<noteq> '''' then before (CHR ''>'') (tl lt) else bare))"

section \<open>Transfers\<close>

record imap_request =
  im_url :: string
  im_user :: string
  im_password :: string
  im_custom :: "string option"

record smtp_request =
  sm_url :: string
  sm_user :: string
  sm_password :: string
  sm_from :: string
  sm_rcpt :: string
  sm_data :: string

text \<open>
  \<open>imap\<close>: None when there is no handle or the transfer fails, otherwise the received chunks.
  \<open>smtp\<close>: whether the message was accepted. \<open>curl_ok\<close>: a handle for a message can be made.
\<close>

record 'w mail =
  imap :: "imap_request \<Rightarrow> 'w \<Rightarrow> string list option \<times> 'w"
  smtp :: "smtp_request \<Rightarrow> 'w \<Rightarrow> bool \<times> 'w"
  curl_ok :: "'w \<Rightarrow> bool"
  mem_ok :: "nat \<Rightarrow> bool"

definition imap_perform :: "'w mail \<Rightarrow> imap_request \<Rightarrow> 'w \<Rightarrow> string option \<times> 'w" where
  "imap_perform ml rq w =
     (case imap ml rq w of
        (None, w') \<Rightarrow> (None, w')
      | (Some cs, w') \<Rightarrow> ((case write_all (mem_ok ml) cs None of None \<Rightarrow> None | Some d \<Rightarrow> d), w'))"

definition imap_search_unseen :: "'w mail \<Rightarrow> email_channel \<Rightarrow> 'w \<Rightarrow> string option \<times> 'w" where
  "imap_search_unseen ml ec w =
     imap_perform ml \<lparr>im_url = trunc_to 600 (imap_url ec @ ''/'' @ inbox ec), im_user = address ec,
       im_password = password ec, im_custom = Some ''UID SEARCH UNSEEN''\<rparr> w"

definition imap_fetch_message :: "'w mail \<Rightarrow> email_channel \<Rightarrow> nat \<Rightarrow> 'w \<Rightarrow> string option \<times> 'w" where
  "imap_fetch_message ml ec uid w =
     imap_perform ml \<lparr>im_url = trunc_to 600 (imap_url ec @ ''/'' @ inbox ec @ ''/;UID='' @ nat_str uid),
       im_user = address ec, im_password = password ec, im_custom = None\<rparr> w"

text \<open>\<open>smtp_read_cb\<close>: what is copied, and the new position.\<close>

definition smtp_read_cb :: "string \<Rightarrow> nat \<Rightarrow> nat \<Rightarrow> string \<times> nat" where
  "smtp_read_cb payload pos avail =
     (let remain = length payload - pos
      in if remain = 0 then ('''', pos)
         else let n = (if remain < avail then remain else avail)
              in (take n (drop pos payload), pos + n))"

definition PAYLOAD_SIZE :: nat where "PAYLOAD_SIZE = EMAIL_BODY_MAX + 2048"

definition hdr_line :: "string \<Rightarrow> string \<Rightarrow> string" where
  "hdr_line name v = name @ '': '' @ v @ CRLF"

definition smtp_payload :: "email_channel \<Rightarrow> nat \<Rightarrow> string \<Rightarrow> string \<Rightarrow> string \<Rightarrow> string option \<Rightarrow> string" where
  "smtp_payload ec now to_addr subject body in_reply_to =
     (let msg_id = trunc_to 128 (''<'' @ nat_str now @ ''.'' @ address ec @ ''>'')
      in hdr_line ''From'' (''Dobby <'' @ address ec @ ''>'') @
         hdr_line ''To'' (''<'' @ to_addr @ ''>'') @
         hdr_line ''Subject'' subject @
         hdr_line ''Message-ID'' msg_id @
         (case in_reply_to of
            None \<Rightarrow> ''''
          | Some r \<Rightarrow> if r = '''' then '''' else hdr_line ''In-Reply-To'' r @ hdr_line ''References'' r) @
         hdr_line ''Content-Type'' ''text/plain; charset=utf-8'' @
         CRLF @ body @ CRLF)"

text \<open>
  \<open>smtp_send\<close>. The callback is told to read as many bytes as the whole message has, while the
  buffer holds \<open>PAYLOAD_SIZE\<close>: \<open>OverRead\<close> when the message does not fit.
\<close>

datatype sent = OverRead | Sent bool

definition smtp_send ::
  "'w mail \<Rightarrow> email_channel \<Rightarrow> nat \<Rightarrow> string \<Rightarrow> string \<Rightarrow> string \<Rightarrow> string option \<Rightarrow> 'w \<Rightarrow> sent \<times> 'w" where
  "smtp_send ml ec now to_addr subject body in_reply_to w =
     (let payload = smtp_payload ec now to_addr subject body in_reply_to
      in if \<not> curl_ok ml w then (Sent False, w)
         else if length payload \<ge> PAYLOAD_SIZE then (OverRead, w)
         else case smtp ml \<lparr>sm_url = smtp_url ec, sm_user = address ec, sm_password = password ec,
                            sm_from = address ec, sm_rcpt = to_addr, sm_data = payload\<rparr> w of
           (b, w') \<Rightarrow> (Sent b, w'))"

definition sender_ok :: "allowlist option \<Rightarrow> string \<Rightarrow> bool" where
  "sender_ok al v = (case al of None \<Rightarrow> True | Some a \<Rightarrow> allowlist_check a ACL_EMAIL v)"

definition reply_subject :: "email_channel \<Rightarrow> string" where
  "reply_subject ec =
     trunc_to EMAIL_SUBJ_MAX
       (if last_subject ec \<noteq> '''' then
          (if case_prefix ''re:'' (last_subject ec) then last_subject ec else ''Re: '' @ last_subject ec)
        else ''Re: '' @ subject_tag ec)"

text \<open>The channel's \<open>send\<close>; \<open>None\<close>: nothing is sent.\<close>

definition email_send ::
  "allowlist option \<Rightarrow> 'w mail \<Rightarrow> email_channel \<Rightarrow> nat \<Rightarrow> outbound_msg \<Rightarrow> 'w \<Rightarrow> sent option \<times> 'w" where
  "email_send al ml ec now m w =
     (if \<not> sender_ok al (o_chat_id m) then (None, w)
      else case smtp_send ml ec now (o_chat_id m) (reply_subject ec) (o_content m)
             (if last_message_id ec \<noteq> '''' then Some (last_message_id ec) else None) w of
        (r, w') \<Rightarrow> (Some r, w'))"

section \<open>The poll\<close>

text \<open>One message: the reply context, what is published, and the world.\<close>

definition process_uid ::
  "allowlist option \<Rightarrow> 'w mail \<Rightarrow> email_channel \<Rightarrow> nat \<Rightarrow> 'w \<Rightarrow> email_channel \<times> inbound_msg list \<times> 'w" where
  "process_uid al ml ec uid w =
     (case imap_fetch_message ml ec uid w of
        (None, w') \<Rightarrow> (ec, [], w')
      | (Some raw, w') \<Rightarrow>
          (let msg = c_str raw; body = extract_body msg
           in case map_option extract_addr (extract_header msg ''From'') of
                None \<Rightarrow> (ec, [], w')
              | Some sender \<Rightarrow>
                  if sender = '''' \<or> body = '''' then (ec, [], w')
                  else
                    (let ec' = ec\<lparr>last_from := trunc_to EMAIL_ADDR_MAX sender,
                           last_subject := trunc_to EMAIL_SUBJ_MAX (or_empty (extract_header msg ''Subject'')),
                           last_message_id := trunc_to 512 (or_empty (extract_header msg ''Message-ID''))\<rparr>
                     in if \<not> sender_ok al sender then (ec', [], w')
                        else (ec', [inbound_msg_new (Some ''email'') (Some sender) (Some sender) (Some body) None], w'))))"

definition ULONG_MAX :: int where "ULONG_MAX = 2 ^ 64 - 1"

definition strtoul10 :: "string \<Rightarrow> nat" where
  "strtoul10 s =
     (case scan_int s of
        None \<Rightarrow> 0
      | Some (v, _) \<Rightarrow> if \<bar>v\<bar> > ULONG_MAX then nat ULONG_MAX else nat (v mod (ULONG_MAX + 1)))"

fun process_tokens ::
  "allowlist option \<Rightarrow> 'w mail \<Rightarrow> email_channel \<Rightarrow> string list \<Rightarrow> 'w \<Rightarrow> email_channel \<times> inbound_msg list \<times> 'w" where
  "process_tokens al ml ec [] w = (ec, [], w)"
| "process_tokens al ml ec (tok # toks) w =
     (let uid = strtoul10 tok
      in if uid > 0 \<and> uid > last_uid ec then
           (let (ec1, ms, w1) = process_uid al ml ec uid w;
                ec2 = (if uid > last_uid ec1 then ec1\<lparr>last_uid := uid\<rparr> else ec1);
                (ec3, ms', w2) = process_tokens al ml ec2 toks w1
            in (ec3, ms @ ms', w2))
         else process_tokens al ml ec toks w)"

definition search_tokens :: "string \<Rightarrow> string list" where
  "search_tokens result =
     (let p = (if case_prefix ''* SEARCH'' result then drop 8 result else result)
      in strtok_all (\<lambda>c. c = SP \<or> c = CR \<or> c = NL) (dropWhile (\<lambda>c. c = SP) p))"

text \<open>One round of the poll thread; it is repeated every \<open>poll_interval\<close> seconds while running.\<close>

definition email_poll :: "allowlist option \<Rightarrow> 'w mail \<Rightarrow> email_channel \<Rightarrow> 'w \<Rightarrow> email_channel \<times> inbound_msg list \<times> 'w" where
  "email_poll al ml ec w =
     (case imap_search_unseen ml ec w of
        (None, w') \<Rightarrow> (ec, [], w')
      | (Some result, w') \<Rightarrow>
          if c_str result = '''' then (ec, [], w')
          else process_tokens al ml ec (search_tokens (c_str result)) w')"

section \<open>Creation and status\<close>

text \<open>\<open>env_pw\<close> is the environment variable \<open>EMAIL_PASSWORD\<close>. None: the channel is disabled.\<close>

definition email_channel_create :: "config option \<Rightarrow> string option \<Rightarrow> email_channel option" where
  "email_channel_create cfg env_pw =
     (case cfg of
        None \<Rightarrow> None
      | Some _ \<Rightarrow>
          (let get = config_get cfg ''email'';
               imap = or_empty (get ''imap_url'' None);
               pw = (if env_pw = None \<or> env_pw = Some '''' then get ''password'' (Some '''') else env_pw);
               iv = config_get_int cfg ''email'' ''poll_interval'' 60
           in if imap = '''' then None
              else Some
                \<lparr>imap_url = trunc_to 512 imap, smtp_url = trunc_to 512 (or_empty (get ''smtp_url'' None)),
                 address = trunc_to EMAIL_ADDR_MAX (or_empty (get ''address'' None)),
                 password = trunc_to 256 (or_empty pw), inbox = trunc_to 128 (or_empty (get ''inbox'' (Some ''INBOX''))),
                 subject_tag = trunc_to 128 (or_empty (get ''subject_tag'' (Some ''[Dobby]''))),
                 poll_interval = (if iv < 5 then 5 else iv), em_running = False,
                 last_uid = 0, last_from = '''', last_subject = '''', last_message_id = ''''\<rparr>))"

definition email_channel_start :: "bool \<Rightarrow> email_channel option \<Rightarrow> bool \<times> email_channel option" where
  "email_channel_start thread_ok ch =
     (case ch of
        None \<Rightarrow> (False, None)
      | Some c \<Rightarrow> (thread_ok, Some (c\<lparr>em_running := thread_ok\<rparr>)))"

definition or_none :: "string \<Rightarrow> string" where
  "or_none s = (if s \<noteq> '''' then s else ''(none)'')"

definition email_channel_status :: "email_channel \<Rightarrow> nat \<Rightarrow> string" where
  "email_channel_status ch n =
     trunc_to n
       (''  Address      : '' @ address ch @ [NL] @
        ''  IMAP         : '' @ imap_url ch @ [NL] @
        ''  SMTP         : '' @ smtp_url ch @ [NL] @
        ''  Inbox        : '' @ inbox ch @ [NL] @
        ''  Poll interval: '' @ int_str (poll_interval ch) @ ''s'' @ [NL] @
        ''  Last UID seen: '' @ nat_str (last_uid ch) @ [NL] @
        ''  Last sender  : '' @ or_none (last_from ch) @ [NL] @
        ''  Last subject : '' @ or_none (last_subject ch) @ [NL] @
        ''  Running      : '' @ (if em_running ch then ''yes'' else ''no'') @ [NL])"

definition email_channel_is_allowed :: "allowlist option \<Rightarrow> email_channel option \<Rightarrow> string option \<Rightarrow> bool" where
  "email_channel_is_allowed al ch a =
     (case (ch, a) of (Some _, Some v) \<Rightarrow> sender_ok al v | _ \<Rightarrow> False)"

definition email_channel_send_direct ::
  "allowlist option \<Rightarrow> 'w mail \<Rightarrow> email_channel option \<Rightarrow> nat \<Rightarrow> string \<Rightarrow> string \<Rightarrow> string \<Rightarrow> 'w \<Rightarrow> sent \<times> 'w" where
  "email_channel_send_direct al ml ch now to subject body w =
     (case ch of
        None \<Rightarrow> (Sent False, w)
      | Some ec \<Rightarrow> if \<not> sender_ok al to then (Sent False, w) else smtp_send ml ec now to subject body None w)"

end
