(* ===== verification/Whatsapp.thy ===== *)
theory Whatsapp
  imports Email_Channel
begin

text \<open>
  Model of \<open>src/channels/whatsapp/whatsapp_channel.c\<close>, and of the two sending tools
  \<open>src/tools/email/email_tool.c\<close> and \<open>src/tools/whatsapp/whatsapp_tool.c\<close>. The socket to the
  bridge is a pair of functions on the world; the receive thread is a fold over the bytes read.
\<close>

definition READ_BUF :: nat where "READ_BUF = 4096"
definition WA_LINE_MAX :: nat where "WA_LINE_MAX = 8192"

record whatsapp_channel =
  wa_host :: string
  wa_port :: int
  wa_token :: string
  wa_sock :: bool
  wa_running :: bool

text \<open>\<open>wa_write\<close>: a write to the socket, and whether it succeeded; \<open>wa_connect\<close>: a connection attempt.\<close>

record 'w bridge =
  wa_write :: "string \<Rightarrow> 'w \<Rightarrow> bool \<times> 'w"
  wa_connect :: "string \<Rightarrow> int \<Rightarrow> 'w \<Rightarrow> bool \<times> 'w"

definition ensure_jid :: "string \<Rightarrow> nat \<Rightarrow> string" where
  "ensure_jid i n = trunc_to n (if CHR ''@'' \<in> set i then i else i @ ''@s.whatsapp.net'')"

definition send_line :: "'w bridge \<Rightarrow> whatsapp_channel \<Rightarrow> string \<Rightarrow> 'w \<Rightarrow> bool \<times> 'w" where
  "send_line br ch json w =
     (if \<not> wa_sock ch then (False, w)
      else case wa_write br json w of
        (False, w1) \<Rightarrow> (False, w1)
      | (True, w1) \<Rightarrow> wa_write br [NL] w1)"

section \<open>Messages from the bridge\<close>

definition handle_message :: "allowlist option \<Rightarrow> json \<Rightarrow> inbound_msg option" where
  "handle_message al obj =
     (case (get_str (Some obj) ''sender'', get_str (Some obj) ''content'') of
        (Some sender, Some cont) \<Rightarrow>
          (let pn = or_empty (get_str (Some obj) ''pn'');
               user_id = (if pn \<noteq> '''' then pn else sender);
               reply_jid = or_empty (get_str (Some obj) ''replyJid'');
               meta = (if reply_jid \<noteq> '''' then trunc_to 256 (''replyJid='' @ reply_jid) else '''')
           in if \<not> sender_ok al user_id then None
              else Some (inbound_msg_new (Some ''whatsapp'') (Some user_id)
                     (Some (trunc_to 128 (''whatsapp:'' @ user_id))) (Some cont)
                     (if meta \<noteq> '''' then Some meta else None)))
      | _ \<Rightarrow> None)"

text \<open>A complete line: what is published; status lines print a note for the terminal.\<close>

datatype wa_event = Publish inbound_msg | Print string

definition handle_status :: "string \<Rightarrow> wa_event list" where
  "handle_status status =
     (if status = ''connected'' then [Print (''[whatsapp] '' @ [CHR 0xE2, CHR 0x9C, CHR 0x85] @ '' Bridge connected'' @ [NL])]
      else if status = ''disconnected'' then [Print (''[whatsapp] '' @
        [CHR 0xE2, CHR 0x9A, CHR 0xA0, CHR 0xEF, CHR 0xB8, CHR 0x8F] @ ''  Bridge disconnected'' @ [NL])] else [])"

definition handle_line :: "allowlist option \<Rightarrow> string \<Rightarrow> wa_event list" where
  "handle_line al line =
     (case cJSON_Parse (c_str line) of
        None \<Rightarrow> []
      | Some obj \<Rightarrow>
          (case get_str (Some obj) ''type'' of
             None \<Rightarrow> []
           | Some t \<Rightarrow>
               if t = ''message'' then (case handle_message al obj of None \<Rightarrow> [] | Some m \<Rightarrow> [Publish m])
               else if t = ''status'' then
                 (case get_str (Some obj) ''status'' of None \<Rightarrow> [] | Some s \<Rightarrow> handle_status s)
               else []))"

text \<open>One byte of the stream; the state is the line so far.\<close>

definition recv_byte :: "allowlist option \<Rightarrow> char \<Rightarrow> string \<times> wa_event list \<Rightarrow> string \<times> wa_event list" where
  "recv_byte al c st =
     (case st of (line, evs) \<Rightarrow>
        if c = NL then ('''', if line \<noteq> '''' then evs @ handle_line al line else evs)
        else if length line < WA_LINE_MAX - 1 then (line @ [c], evs) else (line, evs))"

definition recv_chunk :: "allowlist option \<Rightarrow> string \<Rightarrow> string \<times> wa_event list \<Rightarrow> string \<times> wa_event list" where
  "recv_chunk al raw st = fold (recv_byte al) raw st"

text \<open>
  The receive thread between two waits: it connects and sends the token when it is not connected;
  \<open>read\<close> gives bytes or the end of the connection.
\<close>

definition auth_frame :: "string \<Rightarrow> string" where
  "auth_frame token = cJSON_PrintUnformatted (JObject [(''type'', JString ''auth''), (''token'', JString token)])"

definition recv_connect :: "'w bridge \<Rightarrow> whatsapp_channel \<Rightarrow> 'w \<Rightarrow> whatsapp_channel \<times> 'w" where
  "recv_connect br ch w =
     (if wa_sock ch then (ch, w)
      else case wa_connect br (wa_host ch) (wa_port ch) w of
        (False, w1) \<Rightarrow> (ch, w1)
      | (True, w1) \<Rightarrow>
          (let ch1 = ch\<lparr>wa_sock := True\<rparr>
           in (ch1, if wa_token ch \<noteq> '''' then snd (send_line br ch1 (auth_frame (wa_token ch)) w1) else w1)))"

datatype wa_read = Bytes string | Closed

definition recv_read ::
  "allowlist option \<Rightarrow> wa_read \<Rightarrow> whatsapp_channel \<Rightarrow> string \<times> wa_event list \<Rightarrow> whatsapp_channel \<times> string \<times> wa_event list" where
  "recv_read al r ch st =
     (case r of
        Closed \<Rightarrow> (ch\<lparr>wa_sock := False\<rparr>, st)
      | Bytes raw \<Rightarrow> if raw = '''' then (ch\<lparr>wa_sock := False\<rparr>, st) else (ch, recv_chunk al raw st))"

section \<open>Replies\<close>

definition reply_jid_of :: "string option \<Rightarrow> string" where
  "reply_jid_of meta =
     (case meta of
        None \<Rightarrow> ''''
      | Some m \<Rightarrow>
          (case strstr m ''replyJid='' of
             None \<Rightarrow> ''''
           | Some tag \<Rightarrow>
               (let j = before (CHR '';'') (drop 9 tag) in if length j < 256 then j else '''')))"

definition reply_number :: "string \<Rightarrow> string" where
  "reply_number chat_id = (case strchr (CHR '':'') chat_id of None \<Rightarrow> chat_id | Some c \<Rightarrow> tl c)"

definition send_frame :: "string \<Rightarrow> string \<Rightarrow> string \<Rightarrow> json" where
  "send_frame jid reply_jid txt =
     JObject ([(''type'', JString ''send''), (''to'', JString jid)] @
       (if reply_jid \<noteq> '''' then [(''replyJid'', JString reply_jid)] else []) @
       [(''text'', JString txt)])"

definition whatsapp_dispatch_send :: "'w bridge \<Rightarrow> whatsapp_channel \<Rightarrow> outbound_msg \<Rightarrow> 'w \<Rightarrow> 'w" where
  "whatsapp_dispatch_send br ch msg w =
     (let pn = reply_number (o_chat_id msg)
      in if pn = '''' \<or> \<not> wa_sock ch then w
         else snd (send_line br ch
                (cJSON_PrintUnformatted (send_frame (ensure_jid pn 256) (reply_jid_of (o_metadata msg)) (o_content msg))) w))"

section \<open>Creation and sending on demand\<close>

definition whatsapp_channel_create :: "config option \<Rightarrow> whatsapp_channel option" where
  "whatsapp_channel_create cfg =
     (let host = or_empty (config_get cfg ''whatsapp'' ''bridge_host'' None)
      in if host = '''' then None
         else Some \<lparr>wa_host = trunc_to 128 host,
                    wa_port = config_get_int cfg ''whatsapp'' ''bridge_port'' 3001,
                    wa_token = trunc_to 256 (or_empty (config_get cfg ''whatsapp'' ''bridge_token'' (Some ''''))),
                    wa_sock = False, wa_running = False\<rparr>)"

definition whatsapp_channel_start :: "bool \<Rightarrow> whatsapp_channel option \<Rightarrow> bool \<times> whatsapp_channel option" where
  "whatsapp_channel_start thread_ok ch =
     (case ch of None \<Rightarrow> (False, None) | Some c \<Rightarrow> (thread_ok, Some (c\<lparr>wa_running := thread_ok\<rparr>)))"

definition whatsapp_channel_send :: "'w bridge \<Rightarrow> whatsapp_channel option \<Rightarrow> string \<Rightarrow> string \<Rightarrow> 'w \<Rightarrow> bool \<times> 'w" where
  "whatsapp_channel_send br ch to txt w =
     (case ch of
        None \<Rightarrow> (False, w)
      | Some c \<Rightarrow> send_line br c (cJSON_PrintUnformatted (JObject
            [(''type'', JString ''send''), (''to'', JString (ensure_jid to 128)), (''text'', JString txt)])) w)"

definition whatsapp_channel_is_allowed :: "allowlist option \<Rightarrow> whatsapp_channel option \<Rightarrow> string \<Rightarrow> bool" where
  "whatsapp_channel_is_allowed al ch pn = (case ch of None \<Rightarrow> True | Some _ \<Rightarrow> sender_ok al pn)"

section \<open>The sending tools\<close>

definition json_result :: "bool \<Rightarrow> string \<Rightarrow> string" where
  "json_result b m =
     cJSON_PrintUnformatted (JObject [(''ok'', JBool b), (if b then ''message'' else ''error'', JString m)])"

definition quote :: "string \<Rightarrow> string" where
  "quote s = [CHR 0x27] @ s @ [CHR 0x27]"

text \<open>A string argument that is present and not empty.\<close>

definition arg_given :: "json option \<Rightarrow> string \<Rightarrow> string option" where
  "arg_given args k = (case get_str args k of None \<Rightarrow> None | Some s \<Rightarrow> if s = '''' then None else Some s)"

definition email_blocked_note :: "string \<Rightarrow> string" where
  "email_blocked_note to =
     trunc_to 512 (''BLOCKED by email allowlist: '' @ quote to @ '' is not a permitted recipient. '' @
       ''Fix: add it to allowlist.conf under [email] allow = ..., or run: /email allow '' @ to)"

definition email_failed_note :: string where
  "email_failed_note =
     ''SMTP send failed. The email was not sent. '' @
     ''Possible causes: wrong smtp_url, wrong EMAIL_PASSWORD, '' @
     ''network error, or recipient blocked by allowlist. '' @
     ''Check [gateway:warn] logs for details.''"

text \<open>The tool's reply; \<open>None\<close>: the transfer reads past its buffer.\<close>

definition email_tool_execute ::
  "allowlist option \<Rightarrow> 'w mail \<Rightarrow> email_channel option \<Rightarrow> nat \<Rightarrow> json option \<Rightarrow> 'w \<Rightarrow> string option \<times> 'w" where
  "email_tool_execute al ml ch now args w =
     (case ch of
        None \<Rightarrow> (Some (json_result False ''Email not configured. No [email] section in dobby.conf.''), w)
      | Some ec \<Rightarrow>
          (case (arg_given args ''to'', arg_given args ''subject'', arg_given args ''body'') of
             (None, _, _) \<Rightarrow> (Some (json_result False (quote ''to'' @ '' parameter is required'')), w)
           | (_, None, _) \<Rightarrow> (Some (json_result False (quote ''subject'' @ '' parameter is required'')), w)
           | (_, _, None) \<Rightarrow> (Some (json_result False (quote ''body'' @ '' parameter is required'')), w)
           | (Some to, Some subject, Some body) \<Rightarrow>
               if \<not> email_channel_is_allowed al ch (Some to) then (Some (json_result False (email_blocked_note to)), w)
               else case email_channel_send_direct al ml ch now to subject body w of
                 (OverRead, w') \<Rightarrow> (None, w')
               | (Sent True, w') \<Rightarrow> (Some (json_result True (trunc_to 512 (''Email sent to '' @ to))), w')
               | (Sent False, w') \<Rightarrow> (Some (json_result False email_failed_note), w')))"

definition wa_failed_note :: string where
  "wa_failed_note = ''Send failed '' @ [CHR 0xE2, CHR 0x80, CHR 0x94] @ '' is the bridge running and connected?''"

definition wa_tool_execute ::
  "allowlist option \<Rightarrow> 'w bridge \<Rightarrow> whatsapp_channel option \<Rightarrow> json option \<Rightarrow> 'w \<Rightarrow> string \<times> 'w" where
  "wa_tool_execute al br ch args w =
     (case ch of
        None \<Rightarrow> (json_result False ''WhatsApp not configured. Add [whatsapp] bridge_host to dobby.conf.'', w)
      | Some _ \<Rightarrow>
          (case (arg_given args ''to'', arg_given args ''text'') of
             (None, _) \<Rightarrow> (json_result False (quote ''to'' @ '' is required (phone number or JID)''), w)
           | (_, None) \<Rightarrow> (json_result False (quote ''text'' @ '' is required''), w)
           | (Some to, Some txt) \<Rightarrow>
               if \<not> whatsapp_channel_is_allowed al ch to then
                 (json_result False (trunc_to 512 (''BLOCKED by allowlist: '' @ quote to @
                    '' is not a permitted WhatsApp recipient.'')), w)
               else case whatsapp_channel_send br ch to txt w of
                 (True, w') \<Rightarrow> (json_result True (trunc_to 256 (''WhatsApp message sent to '' @ to)), w')
               | (False, w') \<Rightarrow> (json_result False wa_failed_note, w')))"


section \<open>The stream of frames\<close>

definition frame_line :: "string \<Rightarrow> bool" where
  "frame_line l \<longleftrightarrow> NL \<notin> set l \<and> length l < WA_LINE_MAX"

definition line_events :: "allowlist option \<Rightarrow> string \<Rightarrow> wa_event list" where
  "line_events al l = (if l = '''' then [] else handle_line al l)"

lemma recv_part:
  "NL \<notin> set l \<Longrightarrow> length pre + length l < WA_LINE_MAX \<Longrightarrow> recv_chunk al l (pre, evs) = (pre @ l, evs)"
proof (induction l arbitrary: pre)
  case (Cons c l)
  then have "recv_byte al c (pre, evs) = (pre @ [c], evs)" by (auto simp: recv_byte_def)
  with Cons.IH [of "pre @ [c]"] Cons.prems show ?case by (simp add: recv_chunk_def)
qed (simp add: recv_chunk_def)

lemma recv_chunk_append: "recv_chunk al (a @ b) st = recv_chunk al b (recv_chunk al a st)"
  by (simp add: recv_chunk_def)

lemma recv_line:
  assumes "frame_line l"
  shows "recv_chunk al (l @ [NL]) ('''', evs) = ('''', evs @ line_events al l)"
proof -
  have "recv_chunk al l ('''', evs) = (l, evs)"
    using recv_part [of l "''''" al evs] assms by (simp add: frame_line_def)
  then show ?thesis unfolding recv_chunk_append
    by (simp add: recv_chunk_def recv_byte_def line_events_def)
qed

lemma recv_lines:
  "list_all frame_line ls \<Longrightarrow>
   recv_chunk al (concat (map (\<lambda>l. l @ [NL]) ls)) ('''', evs) = ('''', evs @ concat (map (line_events al) ls))"
proof (induction ls arbitrary: evs)
  case (Cons l ls)
  have e: "concat (map (\<lambda>l. l @ [NL]) (l # ls)) = (l @ [NL]) @ concat (map (\<lambda>l. l @ [NL]) ls)" by simp
  have "frame_line l" "list_all frame_line ls" using Cons.prems by simp_all
  then have "recv_chunk al ((l @ [NL]) @ concat (map (\<lambda>l. l @ [NL]) ls)) ('''', evs) =
      ('''', (evs @ line_events al l) @ concat (map (line_events al) ls))"
    using recv_line Cons.IH recv_chunk_append by metis
  then show ?case unfolding e by simp
qed (simp add: recv_chunk_def)



text \<open>A partial line survives the loss of the connection and spoils the first frame of the next one.\<close>

lemma partial_line_kept: "snd (recv_read al Closed ch st) = st"
  by (simp add: recv_read_def)

definition connected_frame :: string where
  \<open>connected_frame = ''{"type":"status","status":"connected"}''\<close>

lemma partial_line_spoils:
  "line_events None connected_frame \<noteq> []" "line_events None (CHR ''{'' # connected_frame) = []"
  by code_simp+

section \<open>Replies reach the sender\<close>

text \<open>The reply to a WhatsApp message goes to the number it came from, completed to an identifier,
  and carries the reply identifier of the message unchanged.\<close>

theorem whatsapp_reply_addressed:
  assumes "handle_message al obj = Some m"
    and "user = (if or_empty (get_str (Some obj) ''pn'') \<noteq> '''' then or_empty (get_str (Some obj) ''pn'')
                 else or_empty (get_str (Some obj) ''sender''))"
    and "user \<noteq> ''''" and "length user < 119"
    and "rj = or_empty (get_str (Some obj) ''replyJid'')" and "length rj < 247" and "CHR '';'' \<notin> set rj"
    and "wa_sock ch"
  shows "sender_ok al user \<and> i_sender_id m = user
    \<and> whatsapp_dispatch_send br ch (reply_msg m resp) w =
        snd (send_line br ch (cJSON_PrintUnformatted (send_frame (ensure_jid user 256) rj resp)) w)"
proof -
  from assms(1) obtain sender cont where sc: "get_str (Some obj) ''sender'' = Some sender" "get_str (Some obj) ''content'' = Some cont"
    by (auto simp: handle_message_def split: option.splits)
  with assms(2) have u: "user = (if or_empty (get_str (Some obj) ''pn'') \<noteq> '''' then or_empty (get_str (Some obj) ''pn'') else sender)"
    by (simp add: or_empty_def)
  have chat: "trunc_to 128 (''whatsapp:'' @ user) = ''whatsapp:'' @ user" using assms(4) by simp
  have meta: "trunc_to 256 (''replyJid='' @ rj) = ''replyJid='' @ rj" using assms(6) by simp
  have ok: "sender_ok al user" and m: "m = inbound_msg_new (Some ''whatsapp'') (Some user) (Some (''whatsapp:'' @ user)) (Some cont)
      (if rj \<noteq> '''' then Some (''replyJid='' @ rj) else None)"
    using assms(1) sc u chat meta
    by (auto simp: handle_message_def Let_def assms(5) [symmetric] split: if_splits)
  have "reply_number (''whatsapp:'' @ user) = user" by (simp add: reply_number_def)
  moreover have "reply_jid_of (if rj \<noteq> '''' then Some (''replyJid='' @ rj) else None) = rj"
    using assms(6,7) by (simp add: reply_jid_of_def Let_def)
  ultimately show ?thesis
    using ok m assms(3,8)
    by (simp add: whatsapp_dispatch_send_def reply_msg_def outbound_msg_new_def inbound_msg_new_def or_empty_def)
qed

section \<open>The tools\<close>

text \<open>Neither sending tool transmits anything to a recipient the allowlist refuses: the reply says
  so and the world is unchanged.\<close>

theorem send_tools_refuse:
  assumes "arg_given args ''to'' = Some to" and "\<not> sender_ok al to"
    and "arg_given args ''subject'' \<noteq> None" and "arg_given args ''body'' \<noteq> None" and "arg_given args ''text'' \<noteq> None"
  shows "email_tool_execute al ml (Some ec) now args w = (Some (json_result False (email_blocked_note to)), w)
    \<and> snd (wa_tool_execute al br (Some ch) args v) = v"
  using assms by (auto simp: email_tool_execute_def email_channel_is_allowed_def wa_tool_execute_def
      whatsapp_channel_is_allowed_def)


definition idle_bridge :: "nat bridge" where
  "idle_bridge = \<lparr>wa_write = (\<lambda>_ w. (True, w + 1)), wa_connect = (\<lambda>_ _ w. (True, w))\<rparr>"

definition wa_example :: whatsapp_channel where
  "wa_example = \<lparr>wa_host = ''h'', wa_port = 3001, wa_token = '''', wa_sock = True, wa_running = True\<rparr>"

definition wa_message :: json where
  "wa_message = JObject [(''sender'', JString ''1@lid''), (''pn'', JString ''1''), (''replyJid'', JString ''1@lid''), (''content'', JString ''hi'')]"

lemma wa_message_fields:
  "get_str (Some wa_message) ''pn'' = Some ''1''" "get_str (Some wa_message) ''replyJid'' = Some ''1@lid''"
  "get_str (Some wa_message) ''sender'' = Some ''1@lid''" "get_str (Some wa_message) ''content'' = Some ''hi''"
  by code_simp+

lemma whatsapp_reply_addressed_witness:
  "\<exists>m. handle_message None wa_message = Some m \<and>
    whatsapp_dispatch_send idle_bridge wa_example (reply_msg m ''ok'') 0 =
      snd (send_line idle_bridge wa_example (cJSON_PrintUnformatted (send_frame (ensure_jid ''1'' 256) ''1@lid'' ''ok'')) 0)"
proof -
  obtain m where m: "handle_message None wa_message = Some m"
    by (simp add: handle_message_def wa_message_fields sender_ok_def or_empty_def Let_def)
  from whatsapp_reply_addressed [OF m, of "''1''" "''1@lid''" wa_example idle_bridge "''ok''" 0] m show ?thesis
    by (simp add: wa_message_fields or_empty_def wa_example_def)
qed

lemma send_tools_refuse_witness:
  "snd (wa_tool_execute (Some (\<lambda>_. \<lparr>rules = [''me@h''], enabled = True\<rparr>)) idle_bridge (Some wa_example)
     (Some (JObject [(''to'', JString ''x@y''), (''subject'', JString ''s''), (''body'', JString ''b''), (''text'', JString ''t'')])) 5) = 5"
proof -
  let ?args = "Some (JObject [(''to'', JString ''x@y''), (''subject'', JString ''s''), (''body'', JString ''b''), (''text'', JString ''t'')])"
  have "arg_given ?args ''to'' = Some ''x@y''" "arg_given ?args ''subject'' \<noteq> None" "arg_given ?args ''body'' \<noteq> None"
    "arg_given ?args ''text'' \<noteq> None" "\<not> sender_ok (Some (\<lambda>_. \<lparr>rules = [''me@h''], enabled = True\<rparr>)) ''x@y''" by code_simp+
  then show ?thesis by (intro conjunct2 [OF send_tools_refuse]) simp_all
qed

end
