(* ===== verification/Email_Props.thy ===== *)
theory Email_Props
  imports Email_Channel
begin

text \<open>
  Properties of the email channel: messages it composes are read back by its own parser, the poll
  treats each message once, and the allowlist decides what is published and sent.
\<close>

section \<open>Composed messages are read back\<close>

definition one_line :: "string \<Rightarrow> bool" where
  "one_line s \<longleftrightarrow> NL \<notin> set s"

lemma strchr_line: "NL \<notin> set l \<Longrightarrow> strchr NL (l @ CRLF @ r) = Some (NL # r)"
  by (simp add: CRLF_def)

lemma extract_header_skip:
  assumes "one_line l" "\<not> (case_prefix f (l @ CRLF @ r) \<and> length f < length (l @ CRLF @ r) \<and> (l @ CRLF @ r) ! length f = CHR '':'')"
  shows "extract_header (l @ CRLF @ r) f = extract_header r f"
proof -
  have "l @ CRLF @ r \<noteq> []" by (simp add: CRLF_def)
  then have "extract_header (l @ CRLF @ r) f =
      (case strchr NL (l @ CRLF @ r) of None \<Rightarrow> None | Some q \<Rightarrow> extract_header (tl q) f)"
    by (subst extract_header.simps) (simp only: assms(2) if_False)
  with assms(1) show ?thesis by (simp only: one_line_def strchr_line option.case list.sel not_False_eq_True)
qed

lemma dropWhile_id: "s = [] \<or> \<not> P (hd s) \<Longrightarrow> dropWhile P s = s"
  by (cases s) auto

lemma rtrim_by_id: "s = [] \<or> \<not> P (last s) \<Longrightarrow> rtrim_by P s = s"
  by (cases s rule: rev_cases) (auto simp: rtrim_by_def)

lemma rtrim_by_snoc: "P c \<Longrightarrow> rtrim_by P (s @ [c]) = rtrim_by P s"
  by (simp add: rtrim_by_def)

text \<open>A value that stays as it is in a header line.\<close>

definition clean_value :: "string \<Rightarrow> bool" where
  "clean_value v \<longleftrightarrow> one_line v \<and> v \<noteq> '''' \<and> hd v \<noteq> SP \<and> hd v \<noteq> TAB \<and> last v \<noteq> SP \<and> last v \<noteq> CR"

lemma header_value_clean: "clean_value v \<Longrightarrow> header_value (SP # v @ CRLF @ r) = v"
proof -
  assume v: "clean_value v"
  have "dropWhile (\<lambda>c. c = SP \<or> c = TAB) (SP # v @ CRLF @ r) = v @ CRLF @ r"
    using v by (auto simp: clean_value_def intro!: dropWhile_id)
  moreover have "before NL (v @ CRLF @ r) = v @ [CR]"
    using v by (simp add: clean_value_def one_line_def CRLF_def)
  ultimately show ?thesis
    using v by (simp add: header_value_def rtrim_by_snoc rtrim_by_id clean_value_def)
qed

lemma extract_header_hit:
  assumes "clean_value v"
  shows "extract_header (hdr_line name v @ r) name = Some v"
proof -
  have "case_prefix name (hdr_line name v @ r)" by (simp add: case_prefix_def hdr_line_def)
  moreover have "drop (length name + 1) (hdr_line name v @ r) = SP # v @ CRLF @ r"
    by (simp add: hdr_line_def)
  moreover have "hdr_line name v @ r \<noteq> []" "length name < length (hdr_line name v @ r)"
    "(hdr_line name v @ r) ! length name = CHR '':''"
    by (simp_all add: hdr_line_def nth_append)
  ultimately show ?thesis using header_value_clean [OF assms]
    by (subst extract_header.simps) simp
qed

lemma extract_header_pass:
  assumes "one_line v" "one_line name" "name \<noteq> ''''" "f \<noteq> ''''" "to_lower (hd f) \<noteq> to_lower (hd name)"
  shows "extract_header (hdr_line name v @ r) f = extract_header r f"
proof -
  obtain c n d g where "name = c # n" "f = d # g" using assms(3,4) by (metis neq_Nil_conv)
  then have "\<not> case_prefix f ((name @ '': '' @ v) @ CRLF @ r)" using assms(5) by (auto simp: case_prefix_def)
  moreover have "one_line (name @ '': '' @ v)" using assms(1,2) by (simp add: one_line_def)
  ultimately show ?thesis using extract_header_skip [of "name @ '': '' @ v" f r] by (simp add: hdr_line_def)
qed

text \<open>The first blank line of a text made of header lines.\<close>

lemma strstr_skip_line:
  "one_line l \<Longrightarrow> strstr (l @ CR # NL # r) (CRLF @ CRLF) = strstr (CR # NL # r) (CRLF @ CRLF)"
proof (induction l)
  case (Cons c l)
  have "\<not> prefix (CRLF @ CRLF) (c # l @ CR # NL # r)"
    using Cons.prems by (cases l) (auto simp: CRLF_def one_line_def)
  with Cons show ?case by (simp add: one_line_def)
qed simp

lemma strstr_next_line:
  assumes "one_line l" "l \<noteq> ''''" "hd l \<noteq> CR"
  shows "strstr (CR # NL # l @ CRLF @ r) (CRLF @ CRLF) = strstr (CR # NL # r) (CRLF @ CRLF)"
proof -
  obtain c k where l: "l = c # k" using assms(2) by (cases l) auto
  have "strstr (CR # NL # l @ CRLF @ r) (CRLF @ CRLF) = strstr (l @ CR # NL # r) (CRLF @ CRLF)"
    using assms(3) l by (simp add: CRLF_def)
  with strstr_skip_line [OF assms(1)] show ?thesis by simp
qed

lemma header_line: "hdr_line name v = (name @ '': '' @ v) @ CRLF"
  by (simp add: hdr_line_def)

lemma after_blank_headers:
  assumes "\<forall>h \<in> set (h0 # hs). one_line h \<and> h \<noteq> '''' \<and> hd h \<noteq> CR"
  shows "after_blank (concat (map (\<lambda>h. h @ CRLF) (h0 # hs)) @ CRLF @ r) = Some r"
proof -
  have "strstr (CR # NL # concat (map (\<lambda>h. h @ CRLF) hs) @ CRLF @ r) (CRLF @ CRLF) = Some (CRLF @ CRLF @ r)"
    if "\<forall>h \<in> set hs. one_line h \<and> h \<noteq> '''' \<and> hd h \<noteq> CR" for hs
    using that
  proof (induction hs)
    case Nil
    show ?case by (simp add: CRLF_def)
  next
    case (Cons h hs)
    from strstr_next_line [of h "concat (map (\<lambda>h. h @ CRLF) hs) @ CRLF @ r"] Cons show ?case by simp
  qed
  from this [of hs] assms strstr_skip_line [of h0]
  have "strstr (concat (map (\<lambda>h. h @ CRLF) (h0 # hs)) @ CRLF @ r) (CRLF @ CRLF) = Some (CRLF @ CRLF @ r)"
    by (simp add: CRLF_def)
  then show ?thesis by (simp add: after_blank_def CRLF_def)
qed

lemma extract_addr_angle:
  assumes "a \<noteq> ''''" "CHR ''>'' \<notin> set a" "CHR ''<'' \<notin> set n"
  shows "extract_addr (n @ ''<'' @ a @ ''>'') = a"
  using assms by (simp add: extract_addr_def)

definition mail_text :: "string \<Rightarrow> bool" where
  "mail_text b \<longleftrightarrow> b \<noteq> '''' \<and> \<not> is_trail (last b) \<and> length b \<le> EMAIL_BODY_MAX"

lemma body_text_crlf: "mail_text b \<Longrightarrow> body_text (b @ CRLF) = b"
proof -
  assume b: "mail_text b"
  have "rtrim_by is_trail (b @ CRLF) = rtrim_by is_trail ((b @ [CR]) @ [NL])" by (simp add: CRLF_def)
  also have "\<dots> = rtrim_by is_trail b" by (simp only: rtrim_by_snoc is_trail_def simp_thms)
  also have "\<dots> = b" using b by (simp add: rtrim_by_id mail_text_def)
  finally show ?thesis using b by (simp add: body_text_def mail_text_def)
qed

definition plain_address :: "string \<Rightarrow> bool" where
  "plain_address a \<longleftrightarrow> a \<noteq> '''' \<and> one_line a \<and> CHR ''>'' \<notin> set a \<and> length a < 100"

definition mail_headers :: "email_channel \<Rightarrow> nat \<Rightarrow> string \<Rightarrow> string \<Rightarrow> string option \<Rightarrow> string list" where
  "mail_headers ec now to_addr subject reply =
     [''From: Dobby <'' @ address ec @ ''>'', ''To: <'' @ to_addr @ ''>'', ''Subject: '' @ subject,
      ''Message-ID: '' @ trunc_to 128 (''<'' @ nat_str now @ ''.'' @ address ec @ ''>'')] @
     (case reply of None \<Rightarrow> [] | Some r \<Rightarrow> if r = '''' then [] else [''In-Reply-To: '' @ r, ''References: '' @ r]) @
     [''Content-Type: text/plain; charset=utf-8'']"

lemma payload_headers:
  "smtp_payload ec now to_addr subject body reply =
     concat (map (\<lambda>h. h @ CRLF) (mail_headers ec now to_addr subject reply)) @ CRLF @ body @ CRLF"
  by (simp add: smtp_payload_def mail_headers_def hdr_line_def Let_def split: option.split)

lemma nat_str_one_line: "one_line (nat_str n)"
  using nat_str_digits [of n] by (auto simp: one_line_def list_all_iff isdigit_def byte_def)

lemma msg_id_clean: "plain_address a \<Longrightarrow> one_line (trunc_to 128 (''<'' @ nat_str now @ ''.'' @ a @ ''>''))"
  using nat_str_one_line [of now]
  by (auto simp: one_line_def trunc_to_def plain_address_def dest!: in_set_takeD)




section \<open>The poll\<close>

text \<open>The UIDs that are treated: those greater than every one before.\<close>

fun new_uids :: "nat \<Rightarrow> nat list \<Rightarrow> nat list" where
  "new_uids seen [] = []"
| "new_uids seen (u # us) = (if u > 0 \<and> u > seen then u # new_uids u us else new_uids seen us)"

lemma new_uids_greater: "u \<in> set (new_uids seen us) \<Longrightarrow> seen < u \<and> u \<in> set us"
  by (induction seen us rule: new_uids.induct) (auto split: if_splits)

lemma new_uids_sorted: "sorted_wrt (<) (new_uids seen us)"
  by (induction seen us rule: new_uids.induct) (auto dest: new_uids_greater)

definition step_uid ::
  "allowlist option \<Rightarrow> 'w mail \<Rightarrow> nat \<Rightarrow> email_channel \<times> inbound_msg list \<times> 'w \<Rightarrow> email_channel \<times> inbound_msg list \<times> 'w" where
  "step_uid al ml uid st =
     (case st of (ec, ms, w) \<Rightarrow>
        (case process_uid al ml ec uid w of (ec', ms', w') \<Rightarrow> (ec'\<lparr>last_uid := uid\<rparr>, ms @ ms', w')))"

lemma step_uid_eq [simp]:
  "process_uid al ml ec u w = (ec1, ms1, w1) \<Longrightarrow> step_uid al ml u (ec, ms, w) = (ec1\<lparr>last_uid := u\<rparr>, ms @ ms1, w1)"
  by (simp add: step_uid_def)

lemma process_uid_last: "process_uid al ml ec uid w = (ec', ms, w') \<Longrightarrow> last_uid ec' = last_uid ec"
  by (auto simp: process_uid_def Let_def split: prod.splits option.splits if_splits)

lemma fold_step_uid_acc:
  "fold (step_uid al ml) us (ec, ms, w) =
     (case fold (step_uid al ml) us (ec, [], w) of (ec', ms', w') \<Rightarrow> (ec', ms @ ms', w'))"
proof (induction us arbitrary: ec ms w)
  case (Cons u us)
  obtain ec1 ms1 w1 where p: "process_uid al ml ec u w = (ec1, ms1, w1)" by (metis surj_pair)
  show ?case
    using Cons.IH [of "ec1\<lparr>last_uid := u\<rparr>" "ms @ ms1" w1] Cons.IH [of "ec1\<lparr>last_uid := u\<rparr>" ms1 w1]
    by (simp add: p split: prod.split)
qed simp

text \<open>C31: a round of the poll treats exactly the UIDs that exceed all before, each once and in
  increasing order, and remembers the greatest, so over all rounds no message is treated twice;
  whether its text could be fetched makes no difference.\<close>

theorem email_poll_once:
  "process_tokens al ml ec toks w =
     fold (step_uid al ml) (new_uids (last_uid ec) (map strtoul10 toks)) (ec, [], w)
   \<and> sorted_wrt (<) (new_uids (last_uid ec) (map strtoul10 toks))
   \<and> last_uid (fst (process_tokens al ml ec toks w)) =
     (if new_uids (last_uid ec) (map strtoul10 toks) = [] then last_uid ec
      else List.last (new_uids (last_uid ec) (map strtoul10 toks)))"
proof (intro conjI)
  have eq: "process_tokens al ml ec toks w =
     fold (step_uid al ml) (new_uids (last_uid ec) (map strtoul10 toks)) (ec, [], w)" for ec toks w
  proof (induction toks arbitrary: ec w)
    case (Cons t ts)
    let ?u = "strtoul10 t"
    show ?case
    proof (cases "?u > 0 \<and> ?u > last_uid ec")
      case True
      obtain ec1 ms1 w1 where p: "process_uid al ml ec ?u w = (ec1, ms1, w1)" by (metis surj_pair)
      then have "last_uid ec1 = last_uid ec" by (rule process_uid_last)
      with True Cons.IH [of "ec1\<lparr>last_uid := ?u\<rparr>" w1] p show ?thesis
        by (simp add: Let_def fold_step_uid_acc [of al ml _ _ ms1] split: prod.split)
    qed (use Cons.IH in \<open>auto simp: Let_def\<close>)
  qed simp
  then show "process_tokens al ml ec toks w =
     fold (step_uid al ml) (new_uids (last_uid ec) (map strtoul10 toks)) (ec, [], w)" .
  show "sorted_wrt (<) (new_uids (last_uid ec) (map strtoul10 toks))" by (rule new_uids_sorted)
  have "last_uid (fst (fold (step_uid al ml) us (ec, ms, w))) = (if us = [] then last_uid ec else List.last us)" for us ec ms w
  proof (induction us arbitrary: ec ms w)
    case (Cons u us)
    obtain ec1 ms1 w1 where "process_uid al ml ec u w = (ec1, ms1, w1)" by (metis surj_pair)
    then show ?case using Cons.IH [of "ec1\<lparr>last_uid := u\<rparr>" "ms @ ms1" w1] by simp
  qed simp
  then show "last_uid (fst (process_tokens al ml ec toks w)) =
     (if new_uids (last_uid ec) (map strtoul10 toks) = [] then last_uid ec
      else List.last (new_uids (last_uid ec) (map strtoul10 toks)))"
    by (simp add: eq)
qed

text \<open>A message whose transfer fails is passed over for good.\<close>

lemma failed_fetch_lost:
  assumes "imap_fetch_message ml ec (strtoul10 tok) w = (None, w')" "last_uid ec < strtoul10 tok"
  shows "process_tokens al ml ec [tok] w = (ec\<lparr>last_uid := strtoul10 tok\<rparr>, [], w')"
  using assms by (simp add: process_uid_def)

section \<open>The allowlist\<close>

text \<open>C32: every message the channel publishes comes from an allowed sender, has a text, and is
  addressed so that the reply goes back to that sender; and no message leaves for a recipient the
  list refuses, neither as a reply nor on demand.\<close>

theorem email_allowlist_enforced:
  assumes "process_uid al ml ec uid w = (ec', ms, w')"
  shows "(\<forall>m \<in> set ms. sender_ok al (i_sender_id m) \<and> i_channel m = ''email'' \<and> i_chat_id m = i_sender_id m
        \<and> i_sender_id m \<noteq> '''' \<and> i_content m \<noteq> '''')
    \<and> (\<not> sender_ok al (o_chat_id om) \<longrightarrow> email_send al ml2 ec2 now om v = (None, v))
    \<and> (\<not> sender_ok al to \<longrightarrow> email_channel_send_direct al ml2 ch now to subj body v = (Sent False, v))"
proof (intro conjI)
  show "\<forall>m \<in> set ms. sender_ok al (i_sender_id m) \<and> i_channel m = ''email'' \<and> i_chat_id m = i_sender_id m
        \<and> i_sender_id m \<noteq> '''' \<and> i_content m \<noteq> ''''"
    using assms by (auto simp: process_uid_def Let_def inbound_msg_new_def or_empty_def
        split: prod.splits option.splits if_splits)
  show "\<not> sender_ok al (o_chat_id om) \<longrightarrow> email_send al ml2 ec2 now om v = (None, v)"
    by (simp add: email_send_def)
  show "\<not> sender_ok al to \<longrightarrow> email_channel_send_direct al ml2 ch now to subj body v = (Sent False, v)"
    by (simp add: email_channel_send_direct_def split: option.split)
qed

text \<open>A message from a sender the list refuses still replaces the reply context: the next reply to
  an allowed person carries the refused sender's subject and message identifier.\<close>

theorem email_blocked_sender_sets_context:
  assumes "imap_fetch_message ml ec uid w = (Some raw, w')" and "NUL \<notin> set raw"
    and "extract_header raw ''From'' = Some fr" and "extract_addr fr \<noteq> ''''" and "extract_body raw \<noteq> ''''"
    and "extract_header raw ''Subject'' = Some subj" and "case_prefix ''re:'' subj" and "length subj < EMAIL_SUBJ_MAX"
    and "\<not> sender_ok al (extract_addr fr)"
  shows "\<exists>ec'. process_uid al ml ec uid w = (ec', [], w') \<and> reply_subject ec' = subj"
proof -
  have c: "c_str raw = raw" using assms(2) by (simp add: c_str_def takeWhile_eq_all_conv)
  have "subj \<noteq> ''''" using assms(7) by (auto simp: case_prefix_def)
  with assms c show ?thesis
    by (simp add: process_uid_def Let_def or_empty_def reply_subject_def EMAIL_SUBJ_MAX_def)
qed

section \<open>Sending\<close>

lemma smtp_read_step:
  "smtp_read_cb p pos avail = (c, pos') \<Longrightarrow> pos \<le> length p \<Longrightarrow>
     take pos p @ c = take pos' p \<and> pos' \<le> length p \<and> (0 < avail \<longrightarrow> (c = '''' \<longleftrightarrow> pos = length p))"
  by (auto simp: smtp_read_cb_def Let_def take_add split: if_splits)

text \<open>Sending a text of 18 KB or more makes the transfer read past the end of the message buffer,
  whatever the recipient and the subject.\<close>

theorem smtp_send_overreads:
  assumes "curl_ok ml w" and "18432 \<le> length body"
  shows "smtp_send ml ec now to subj body reply w = (OverRead, w)"
proof -
  have "length body \<le> length (smtp_payload ec now to subj body reply)"
    by (simp add: smtp_payload_def Let_def)
  with assms show ?thesis by (simp add: smtp_send_def Let_def PAYLOAD_SIZE_def EMAIL_BODY_MAX_def)
qed


section \<open>Witnesses\<close>

definition test_channel :: email_channel where
  "test_channel = \<lparr>imap_url = ''i'', smtp_url = ''s'', address = ''d@h'', password = ''p'', inbox = ''INBOX'',
     subject_tag = ''[Dobby]'', poll_interval = 60, em_running = True, last_uid = 0, last_from = '''',
     last_subject = '''', last_message_id = ''''\<rparr>"

definition one_mail :: "string \<Rightarrow> unit mail" where
  "one_mail raw = \<lparr>imap = (\<lambda>_ w. (Some [raw], w)), smtp = (\<lambda>_ w. (True, w)), curl_ok = (\<lambda>_. True),
     mem_ok = (\<lambda>_. True)\<rparr>"

lemma fetch_one_mail: "imap_fetch_message (one_mail raw) ec uid w = (Some raw, w)"
  by (simp add: imap_fetch_message_def imap_perform_def one_mail_def write_cb_def)


definition spam :: string where
  "spam = hdr_line ''From'' ''<x@y>'' @ hdr_line ''Subject'' ''Re: win'' @ CRLF @ ''hi'' @ CRLF"

definition only_me :: allowlist where
  "only_me = (\<lambda>_. \<lparr>rules = [''me@h''], enabled = True\<rparr>)"

lemma spam_facts: "NUL \<notin> set spam" "extract_header spam ''From'' = Some ''<x@y>''"
  "extract_header spam ''Subject'' = Some ''Re: win''" "extract_addr ''<x@y>'' = ''x@y''" "\<not> sender_ok (Some only_me) ''x@y''"
  "after_blank spam = Some (''hi'' @ CRLF)" "extract_header spam ''Content-Type'' = None"
  by code_simp+

lemma spam_body: "extract_body spam = ''hi''"
proof -
  have "mail_text ''hi''" by (simp add: mail_text_def is_trail_def EMAIL_BODY_MAX_def)
  from body_text_crlf [OF this] show ?thesis by (simp add: extract_body_def spam_facts)
qed

lemma email_blocked_sender_sets_context_witness:
  "\<exists>ec'. process_uid (Some only_me) (one_mail spam) test_channel 7 () = (ec', [], ()) \<and> reply_subject ec' = ''Re: win''"
proof (rule email_blocked_sender_sets_context [where fr = "''<x@y>''" and subj = "''Re: win''"])
  show "imap_fetch_message (one_mail spam) test_channel 7 () = (Some spam, ())" by (rule fetch_one_mail)
  show "case_prefix ''re:'' ''Re: win''" by code_simp
qed (use spam_facts spam_body in \<open>simp_all add: EMAIL_SUBJ_MAX_def\<close>)

lemma email_allowlist_enforced_witness:
  "snd (process_uid (Some only_me) (one_mail spam) test_channel 7 ()) = ([], ())
    \<and> email_channel_send_direct (Some only_me) (one_mail spam) (Some test_channel) 5 ''x@y'' ''s'' ''b'' () = (Sent False, ())"
proof -
  from email_blocked_sender_sets_context_witness obtain ec'
    where e: "process_uid (Some only_me) (one_mail spam) test_channel 7 () = (ec', [], ())" by blast
  from email_allowlist_enforced [OF e, where to = "''x@y''" and ?ml2.0 = "one_mail spam"] e spam_facts(5)
  show ?thesis by simp
qed

lemma smtp_send_overreads_witness:
  "smtp_send (one_mail '''') test_channel 5 ''a@b'' ''s'' (replicate 20000 (CHR ''x'')) None () = (OverRead, ())"
  by (rule smtp_send_overreads) (simp_all add: one_mail_def)

end
