(* ===== verification/Gateway.thy ===== *)
theory Gateway
  imports Scheduler Subagent Email_Channel
begin

text \<open>
  Model of \<open>src/gateway/gateway.c\<close>: reading and routing of HTTP requests, the responses, and the
  listener with its bounded number of connection threads. The socket is the list of what its
  reads return; what the handlers ask of the other components is a record.
\<close>

definition GATEWAY_MAX_THREADS :: nat where "GATEWAY_MAX_THREADS = 8"
definition GATEWAY_BODY_LIMIT :: int where "GATEWAY_BODY_LIMIT = 32 * 1024"
definition GATEWAY_RECV_BUF :: nat where "GATEWAY_RECV_BUF = 64 * 1024"
definition VERSION_STRING :: string where "VERSION_STRING = ''1.0.0''"

section \<open>Responses\<close>

definition reason_phrase :: "int \<Rightarrow> string" where
  "reason_phrase code =
     (if code = 200 then ''OK'' else if code = 400 then ''Bad Request'' else if code = 404 then ''Not Found''
      else if code = 503 then ''Service Unavailable'' else ''Internal Server Error'')"

definition response_head :: "int \<Rightarrow> string \<Rightarrow> nat \<Rightarrow> string" where
  "response_head code ctype body_len =
     ''HTTP/1.1 '' @ int_str code @ '' '' @ reason_phrase code @ CRLF @
     ''Content-Type: '' @ ctype @ CRLF @
     ''Content-Length: '' @ nat_str body_len @ CRLF @
     ''Access-Control-Allow-Origin: *'' @ CRLF @
     ''Connection: close'' @ CRLF @ CRLF"

definition send_response :: "int \<Rightarrow> string \<Rightarrow> string \<Rightarrow> string" where
  "send_response code ctype body = response_head code ctype (length body) @ body"

definition send_json :: "int \<Rightarrow> string \<Rightarrow> string" where
  "send_json code json = send_response code ''application/json'' json"

definition send_json_obj :: "int \<Rightarrow> json \<Rightarrow> string" where
  "send_json_obj code obj = send_json code (cJSON_PrintUnformatted obj)"

section \<open>Requests\<close>

fun strcasestr_at :: "string \<Rightarrow> string \<Rightarrow> string option" where
  "strcasestr_at [] n = (if n = [] then Some [] else None)"
| "strcasestr_at (c # s) n = (if case_prefix n (c # s) then Some (c # s) else strcasestr_at s n)"

text \<open>The test after each read; the buffer is taken to end after the bytes read so far.\<close>

definition request_complete :: "string \<Rightarrow> bool" where
  "request_complete buf =
     (case strstr (c_str buf) (CRLF @ CRLF) of
        None \<Rightarrow> False
      | Some hdr_end \<Rightarrow>
          (case strcasestr_at (c_str buf) ''Content-Length:'' of
             None \<Rightarrow> True
           | Some cl \<Rightarrow>
               (let cl_val = strtol10 (drop 15 cl);
                    hdr_bytes = length (c_str buf) - length hdr_end + 4
                in cl_val \<le> 0 \<or> cl_val > GATEWAY_BODY_LIMIT \<or> int (length buf - hdr_bytes) \<ge> cl_val)))"

fun read_loop :: "string list \<Rightarrow> string \<Rightarrow> string" where
  "read_loop [] buf = buf"
| "read_loop (r # rs) buf =
     (if length buf < GATEWAY_RECV_BUF - 1 then
        (let got = take (GATEWAY_RECV_BUF - 1 - length buf) r; buf' = buf @ got
         in if got = [] then buf else if request_complete buf' then buf' else read_loop rs buf')
      else buf)"

definition read_request :: "string list \<Rightarrow> string option" where
  "read_request reads = (let buf = read_loop reads '''' in if buf = '''' then None else Some buf)"

definition request_body :: "string \<Rightarrow> string option" where
  "request_body buf = map_option (drop 4) (strstr buf (CRLF @ CRLF))"

text \<open>\<open>%ns\<close> of \<open>sscanf\<close>: the word and the rest.\<close>

definition scan_word :: "nat \<Rightarrow> string \<Rightarrow> string \<times> string" where
  "scan_word n s =
     (let t = ltrim s; wd = take n (takeWhile (\<lambda>c. \<not> isspace c) t) in (wd, drop (length wd) t))"

definition request_line :: "string \<Rightarrow> string \<times> string" where
  "request_line raw =
     (let (method, rest) = scan_word 15 raw; (path, _) = scan_word 255 rest
      in (method, before (CHR ''?'') path))"

section \<open>Handlers\<close>

record gw_env =
  gw_bus :: "bus option"
  gw_sched :: "scheduler option"
  gw_pool :: "pool option"
  gw_email :: "email_channel option"
  gw_allow :: "allowlist option"
  gw_debug :: bool
  gw_html :: "string option"
  gw_now :: int
  gw_file :: "string \<Rightarrow> (int \<times> string) option"
  gw_popen :: "string \<Rightarrow> string option"
  gw_tmux_socket :: "string option"

text \<open>\<open>gw_file\<close>: size and content of a file that can be opened; \<open>gw_popen\<close>: output of a command.\<close>

definition load_html :: "gw_env \<Rightarrow> string option" where
  "load_html g =
     (case gw_html g of
        None \<Rightarrow> None
      | Some path \<Rightarrow>
          if path = '''' then None
          else case gw_file g path of
            None \<Rightarrow> None
          | Some (sz, text) \<Rightarrow> if sz \<le> 0 \<or> sz > 2 * 1024 * 1024 then None else Some (take (nat sz) text))"

definition FALLBACK_HTML :: string where
  \<open>FALLBACK_HTML =
    ''<!DOCTYPE html><html><head><meta charset='UTF-8'>'' @
    ''<title>Dobby</title>'' @
    ''<style>body{font-family:monospace;background:#05050f;color:#a855f7;'' @
    ''display:flex;flex-direction:column;align-items:center;justify-content:center;'' @
    ''height:100vh;gap:12px}</style></head><body>'' @
    ''<h2>&#9889; Dobby</h2>'' @
    ''<p>chat.html not found. Place it in the assets/ directory and restart.</p>'' @
    ''</body></html>''\<close>

definition handle_root :: "gw_env \<Rightarrow> string" where
  "handle_root g =
     send_response 200 ''text/html; charset=utf-8'' (case load_html g of Some h \<Rightarrow> h | None \<Rightarrow> FALLBACK_HTML)"

definition gw_status :: "gw_env \<Rightarrow> string" where
  "gw_status g = send_json_obj 200 (JObject
     [(''status'', JString ''ok''), (''version'', JString VERSION_STRING),
      (''bus_ready'', JBool (gw_bus g \<noteq> None)), (''debug'', JBool (gw_debug g)),
      (''inbound_queue'', JInt (int (bus_inbound_size (gw_bus g)))),
      (''outbound_queue'', JInt (int (bus_outbound_size (gw_bus g))))])"

definition handle_email :: "gw_env \<Rightarrow> string" where
  "handle_email g = send_json_obj 200 (JObject (
     (case gw_email g of
        None \<Rightarrow> [(''configured'', JBool False)]
      | Some ec \<Rightarrow> [(''configured'', JBool True), (''last_from'', JString ''''), (''last_subject'', JString ''''),
                   (''status_text'', JString (email_channel_status ec 1024))]) @
     [(''allowlist'', JArray (case gw_allow g of
          None \<Rightarrow> []
        | Some al \<Rightarrow> if allowlist_is_enabled al ACL_EMAIL then map JString (rules (al ACL_EMAIL)) else [])),
      (''allowlist_enabled'', JBool (case gw_allow g of None \<Rightarrow> False | Some al \<Rightarrow> allowlist_is_enabled al ACL_EMAIL))]))"

definition handle_subagents :: "gw_env \<Rightarrow> string" where
  "handle_subagents g = send_json 200 (subagent_pool_json (gw_now g) (gw_pool g))"

definition handle_tasks :: "gw_env \<Rightarrow> string" where
  "handle_tasks g = send_json 200 (scheduler_task_json (gw_sched g))"

definition tmux_format :: string where
  \<open>tmux_format = [CHR 0x27] @ ''#{session_name}'' @ [TAB] @ ''#{session_windows}'' @ [TAB] @ ''#{session_created}'' @ [CHR 0x27]\<close>

definition tmux_command :: "string option \<Rightarrow> string" where
  "tmux_command sock =
     trunc_to 256 (if sock = None \<or> sock = Some '''' then ''tmux ls -F '' @ tmux_format @ '' 2>&1''
       else ''tmux -S '' @ [CHR 0x27] @ the sock @ [CHR 0x27] @ '' ls -F '' @ tmux_format @ '' 2>&1'')"

definition tmux_item :: "string \<Rightarrow> json" where
  "tmux_item line0 =
     (let line = (if line0 \<noteq> '''' \<and> last line0 = NL then butlast line0 else line0);
          w = map_option tl (strchr TAB line);
          c = (case w of None \<Rightarrow> None | Some x \<Rightarrow> map_option tl (strchr TAB x))
      in JObject [(''name'', JString (before TAB line)),
                  (''windows'', JString (case w of None \<Rightarrow> '''' | Some x \<Rightarrow> before TAB x)),
                  (''created'', JString (case c of None \<Rightarrow> '''' | Some x \<Rightarrow> x))])"

definition tmux_stop :: "string \<Rightarrow> bool" where
  "tmux_stop line \<longleftrightarrow> contains line ''no server running'' \<or> contains line ''no sessions'' \<or> contains line ''error connecting''"

definition handle_tmux :: "gw_env \<Rightarrow> string" where
  "handle_tmux g =
     (let ls = (case gw_popen g (tmux_command (gw_tmux_socket g)) of None \<Rightarrow> [] | Some out \<Rightarrow> fgets_lines 512 out)
      in send_json 200 (cJSON_PrintUnformatted
           (JArray (map (\<lambda>l. tmux_item l) (takeWhile (\<lambda>l. \<not> tmux_stop l) (map c_str ls))))))"

text \<open>A request is answered at once, or its message goes to the agent and the thread waits.\<close>

datatype gw_action = Answer string | AskAgent string string

definition handle_chat :: "gw_env \<Rightarrow> string \<Rightarrow> string \<Rightarrow> gw_action" where
  \<open>handle_chat g raw client_ip =
     (if gw_bus g = None then Answer (send_json 503 ''{"error":"Bus not initialised"}'')
      else case request_body raw of
        None \<Rightarrow> Answer (send_json 400 ''{"error":"Empty request body"}'')
      | Some body \<Rightarrow>
          if body = '''' then Answer (send_json 400 ''{"error":"Empty request body"}'')
          else case cJSON_Parse body of
            None \<Rightarrow> Answer (send_json 400 ''{"error":"Invalid JSON"}'')
          | Some req \<Rightarrow>
              (case get_str (Some req) ''message'' of
                 None \<Rightarrow> Answer (send_json 400 ''{"error":"'message' field required"}'')
               | Some msg \<Rightarrow>
                   if msg = '''' then Answer (send_json 400 ''{"error":"'message' field required"}'')
                   else AskAgent (if client_ip \<noteq> '''' then client_ip else ''unknown'') msg))\<close>

text \<open>The message posted for a request; \<open>addr\<close> is the address of the thread's response pair.\<close>

definition chat_inbound :: "nat \<Rightarrow> string \<Rightarrow> string \<Rightarrow> inbound_msg" where
  "chat_inbound addr chat_id msg =
     inbound_msg_new (Some ''http'') (Some chat_id) (Some chat_id) (Some msg) (Some (''rp='' @ hex_str addr))"

definition chat_answer :: "string option \<Rightarrow> string" where
  "chat_answer resp = send_json_obj 200 (JObject [(''response'', JString (or_empty resp))])"

text \<open>\<open>gateway_conn_thread\<close>; \<open>None\<close>: the connection is closed without an answer.\<close>

definition gateway_conn :: "gw_env \<Rightarrow> string list \<Rightarrow> string \<Rightarrow> gw_action option" where
  \<open>gateway_conn g reads client_ip =
     (case read_request reads of
        None \<Rightarrow> None
      | Some buf \<Rightarrow>
          (let raw = c_str buf; (method, path) = request_line raw
           in Some
             (if path = ''/'' \<or> path = ''/index.html'' then Answer (handle_root g)
              else if path = ''/api/status'' then Answer (gw_status g)
              else if path = ''/api/chat'' then
                (if method = ''POST'' then handle_chat g raw client_ip
                 else if method = ''OPTIONS'' then Answer (send_json 200 ''{}'')
                 else Answer (send_json 400 ''{"error":"POST required"}''))
              else if path = ''/api/tasks'' then Answer (handle_tasks g)
              else if path = ''/api/subagents'' then Answer (handle_subagents g)
              else if path = ''/api/tmux'' then Answer (handle_tmux g)
              else if path = ''/api/email'' then Answer (handle_email g)
              else if path = ''/favicon.ico'' then Answer (send_response 204 ''image/x-icon'' '''')
              else Answer (send_json 404 ''{"error":"Not found"}''))))\<close>

section \<open>The listener\<close>

datatype listener = LTop | LWaiting | LAccepting | LStopped

record gateway =
  gw_port :: int
  gw_running :: bool
  gw_slots :: nat
  gw_conns :: nat
  gw_listener :: listener

definition gateway_create :: "int \<Rightarrow> gateway" where
  "gateway_create port =
     \<lparr>gw_port = (if port > 0 then port else 8080), gw_running = False, gw_slots = GATEWAY_MAX_THREADS,
      gw_conns = 0, gw_listener = LStopped\<rparr>"

text \<open>The debug flag, from the argument or the variable \<open>DEBUG\<close>.\<close>

definition debug_flag :: "bool \<Rightarrow> string option \<Rightarrow> bool" where
  "debug_flag d env = (d \<or> (case env of None \<Rightarrow> False | Some e \<Rightarrow> e = ''1'' \<or> strcasecmp_eq e ''true''))"

text \<open>The three calls that may fail, each with its error text.\<close>

definition gateway_start :: "string option \<Rightarrow> string option \<Rightarrow> string option \<Rightarrow> gateway \<Rightarrow> result \<times> gateway" where
  "gateway_start sock_err bind_err listen_err g =
     (case sock_err of
        Some e \<Rightarrow> (err ERR_IO (''socket(): '' @ e), g)
      | None \<Rightarrow>
          (case bind_err of
             Some e \<Rightarrow> (err ERR_IO (''bind(:'' @ int_str (gw_port g) @ ''): '' @ e), g)
           | None \<Rightarrow>
               (case listen_err of
                  Some e \<Rightarrow> (err ERR_IO (''listen(): '' @ e), g)
                | None \<Rightarrow> (ok, g\<lparr>gw_running := True, gw_listener := LTop\<rparr>))))"

inductive gw_step :: "gateway \<Rightarrow> gateway \<Rightarrow> bool" where
  enter: "\<lbrakk>gw_listener g = LTop; gw_running g\<rbrakk> \<Longrightarrow> gw_step g (g\<lparr>gw_listener := LWaiting\<rparr>)"
| leave: "\<lbrakk>gw_listener g = LTop; \<not> gw_running g\<rbrakk> \<Longrightarrow> gw_step g (g\<lparr>gw_listener := LStopped\<rparr>)"
| take_slot: "\<lbrakk>gw_listener g = LWaiting; 0 < gw_slots g; gw_running g\<rbrakk> \<Longrightarrow>
     gw_step g (g\<lparr>gw_slots := gw_slots g - 1, gw_listener := LAccepting\<rparr>)"
| quit: "\<lbrakk>gw_listener g = LWaiting; 0 < gw_slots g; \<not> gw_running g\<rbrakk> \<Longrightarrow>
     gw_step g (g\<lparr>gw_listener := LStopped\<rparr>)"
| accepted: "gw_listener g = LAccepting \<Longrightarrow>
     gw_step g (g\<lparr>gw_conns := gw_conns g + 1, gw_listener := LTop\<rparr>)"
| no_thread: "gw_listener g = LAccepting \<Longrightarrow>
     gw_step g (g\<lparr>gw_slots := gw_slots g + 1, gw_listener := LTop\<rparr>)"
| accept_fails: "gw_listener g = LAccepting \<Longrightarrow>
     gw_step g (g\<lparr>gw_slots := gw_slots g + 1, gw_listener := (if gw_running g then LTop else LStopped)\<rparr>)"
| conn_done: "0 < gw_conns g \<Longrightarrow>
     gw_step g (g\<lparr>gw_conns := gw_conns g - 1, gw_slots := gw_slots g + 1\<rparr>)"
| shut: "gw_running g \<Longrightarrow> gw_step g (g\<lparr>gw_running := False\<rparr>)"

inductive gw_reach :: "gateway \<Rightarrow> gateway \<Rightarrow> bool" for g0 where
  start: "gateway_start None None None g0 = (r, g) \<Longrightarrow> gw_reach g0 g"
| more: "gw_reach g0 g \<Longrightarrow> gw_step g g' \<Longrightarrow> gw_reach g0 g'"

end
