(* ===== verification/Gateway_Props.thy ===== *)
theory Gateway_Props
  imports Gateway Email_Props
begin

text \<open>
  Properties of the HTTP gateway: requests are reassembled from any split into reads, the reply of
  the agent reaches the client that asked, and the number of connection threads is bounded.
\<close>

section \<open>The listener\<close>

definition holding :: "gateway \<Rightarrow> nat" where
  "holding g = (if gw_listener g = LAccepting then 1 else 0)"

lemma gw_step_slots:
  "gw_step g g' \<Longrightarrow> gw_slots g' + gw_conns g' + holding g' = gw_slots g + gw_conns g + holding g"
  by (induction rule: gw_step.induct) (auto simp: holding_def)

text \<open>C19: at most eight connections are served at the same time: a thread slot is free, held by the
  listener, or held by one connection, in every reachable state; and when eight connections wait,
  the listener can only go on, or stop, after one of them has ended.\<close>

theorem gateway_threads_bounded:
  assumes "gw_reach (gateway_create port) g"
  shows "gw_slots g + gw_conns g + holding g = GATEWAY_MAX_THREADS \<and>
    (gw_conns g = GATEWAY_MAX_THREADS \<and> gw_listener g = LWaiting \<and> gw_step g g' \<longrightarrow>
      gw_listener g' = LWaiting \<and> (gw_conns g' = GATEWAY_MAX_THREADS \<or> gw_conns g' + 1 = GATEWAY_MAX_THREADS))"
proof
  show s: "gw_slots g + gw_conns g + holding g = GATEWAY_MAX_THREADS"
    using assms
  proof (induction rule: gw_reach.induct)
    case (start r g)
    then show ?case by (auto simp: gateway_start_def gateway_create_def holding_def)
  next
    case (more g g')
    then show ?case using gw_step_slots by simp
  qed
  with assms show "gw_conns g = GATEWAY_MAX_THREADS \<and> gw_listener g = LWaiting \<and> gw_step g g' \<longrightarrow>
      gw_listener g' = LWaiting \<and> (gw_conns g' = GATEWAY_MAX_THREADS \<or> gw_conns g' + 1 = GATEWAY_MAX_THREADS)"
    by (auto elim: gw_step.cases)
qed

section \<open>Requests\<close>

lemma strstr_append_left: "strstr (p @ q) n = Some t \<Longrightarrow> contains p n \<Longrightarrow> \<exists>t'. strstr p n = Some t' \<and> t = t' @ q"
proof (induction p)
  case Nil
  then show ?case by (cases q) (auto split: if_splits)
next
  case (Cons c p)
  show ?case
  proof (cases "prefix n (c # p)")
    case True
    then have "prefix n (c # p @ q)" by (metis append_Cons prefix_prefix)
    with Cons.prems True show ?thesis by auto
  next
    case False
    then have p: "contains p n" using Cons.prems(2) by simp
    show ?thesis
    proof (cases "prefix n (c # p @ q)")
      case True
      from p obtain t' where "strstr p n = Some t'" by auto
      then have "length n \<le> length (c # p)" using strstr_length by fastforce
      with True False show ?thesis by (metis append_Cons prefix_append prefix_length_le append_eq_append_conv2 prefixI prefix_length_prefix prefix_order.refl)
    next
      case nf: False
      with Cons.prems have "strstr (p @ q) n = Some t" by simp
      with Cons.IH p False show ?thesis by simp
    qed
  qed
qed

lemma strcasestr_append: "strcasestr_at p n = Some t \<Longrightarrow> n \<noteq> [] \<Longrightarrow> strcasestr_at (p @ q) n = Some (t @ q)"
proof (induction p)
  case (Cons c p)
  show ?case
  proof (cases "case_prefix n (c # p)")
    case True
    then have "case_prefix n (c # p @ q)" unfolding case_prefix_def by (metis append_Cons map_append prefix_prefix)
    moreover have "t = c # p" using True Cons.prems by simp
    ultimately show ?thesis by simp
  next
    case False
    then obtain t' where p: "strcasestr_at p n = Some t" using Cons.prems by simp
    have "length n \<le> length p" using p
      by (induction p) (auto simp: case_prefix_def split: if_splits dest: prefix_length_le)
    then have "\<not> case_prefix n (c # p @ q)" using False
      by (auto simp: case_prefix_def) (metis length_Cons length_map map_append prefix_append prefix_length_le append_Cons le_SucI map_eq_Cons_conv prefix_length_prefix prefixI list.simps(9))
    with Cons False p show ?thesis by simp
  qed
qed auto

lemma scan_int_append:
  assumes "scan_int s = Some (v, r)" "r \<noteq> []"
  shows "scan_int (s @ b) = Some (v, r @ b)"
proof -
  obtain c l where l: "ltrim s = c # l" using assms by (cases "ltrim s") (auto simp: scan_int_def Let_def split: if_splits)
  then have "\<exists>x \<in> set s. \<not> isspace x"
    by (metis dropWhile_eq_Nil_conv list.distinct(1) ltrim_def)
  then have lb: "ltrim (s @ b) = c # l @ b"
    using l by (metis append_Cons dropWhile_append1 ltrim_def)
  have "dropWhile isdigit (t @ b) = dropWhile isdigit t @ b \<and> takeWhile isdigit (t @ b) = takeWhile isdigit t"
    if "dropWhile isdigit t \<noteq> []" for t
    using that by (induction t) auto
  with assms l lb show ?thesis by (auto simp: scan_int_def Let_def split: if_splits)
qed


section \<open>Reading a request\<close>

text \<open>A request with its length: the text of its headers, and the body.\<close>

definition sized_request :: "string \<Rightarrow> string \<Rightarrow> bool" where
  "sized_request hdr body \<longleftrightarrow>
     NUL \<notin> set (hdr @ body) \<and> length (hdr @ CRLF @ CRLF @ body) < GATEWAY_RECV_BUF \<and>
     strstr (hdr @ CRLF @ CRLF @ body) (CRLF @ CRLF) = Some (CRLF @ CRLF @ body) \<and>
     0 < length body \<and> int (length body) \<le> GATEWAY_BODY_LIMIT \<and>
     (\<exists>cl r. strcasestr_at (hdr @ CRLF @ CRLF) ''Content-Length:'' = Some cl \<and>
        scan_int (drop 15 cl) = Some (int (length body), r) \<and> r \<noteq> [])"

lemma strcasestr_length: "strcasestr_at s n = Some t \<Longrightarrow> length n \<le> length t"
  by (induction s) (auto simp: case_prefix_def split: if_splits dest: prefix_length_le)

lemma complete_iff:
  assumes rq: "sized_request hdr body" and p: "p @ q = hdr @ CRLF @ CRLF @ body"
  shows "request_complete p \<longleftrightarrow> q = ''''"
proof -
  have nul: "NUL \<notin> set p"
  proof -
    have "set p \<subseteq> set (hdr @ CRLF @ CRLF @ body)" using p by (metis Un_upper1 set_append)
    then show ?thesis using rq by (auto simp: sized_request_def CRLF_def NUL_def)
  qed
  have c: "c_str p = p" using nul by (simp add: c_str_def takeWhile_eq_all_conv)
  have first: "strstr (p @ q) (CRLF @ CRLF) = Some (CRLF @ CRLF @ body)" using rq p by (simp add: sized_request_def)
  show ?thesis
  proof (cases "strstr p (CRLF @ CRLF)")
    case None
    then have "\<not> request_complete p" by (simp add: request_complete_def c)
    moreover have "q \<noteq> ''''" using None first by auto
    ultimately show ?thesis by simp
  next
    case (Some t)
    then obtain t' where "strstr p (CRLF @ CRLF) = Some t'" "CRLF @ CRLF @ body = t' @ q"
      using strstr_append_left [OF first] by auto
    with Some have t: "CRLF @ CRLF @ body = t @ q" by simp
    have "prefix (CRLF @ CRLF) t" using strstr_split [OF Some] by simp
    then obtain b where b: "t = CRLF @ CRLF @ b" "body = b @ q" using t by (auto simp: prefix_def)
    then have pe: "p = (hdr @ CRLF @ CRLF) @ b" using p by simp
    obtain cl r where cl: "strcasestr_at (hdr @ CRLF @ CRLF) ''Content-Length:'' = Some cl"
      "scan_int (drop 15 cl) = Some (int (length body), r)" "r \<noteq> []"
      using rq by (auto simp: sized_request_def)
    have scl: "strcasestr_at p ''Content-Length:'' = Some (cl @ b)"
      unfolding pe by (rule strcasestr_append [OF cl(1)]) simp
    have "15 \<le> length cl" using strcasestr_length [OF cl(1)] by simp
    then have "drop 15 (cl @ b) = drop 15 cl @ b" by simp
    then have "strtol10 (drop 15 (cl @ b)) = clamp_long (int (length body))"
      using scan_int_append [OF cl(2,3), of b] by (simp add: strtol10_def)
    moreover have len: "0 < int (length body)" "int (length body) \<le> GATEWAY_BODY_LIMIT"
      using rq by (auto simp: sized_request_def)
    ultimately have v: "strtol10 (drop 15 (cl @ b)) = int (length body)"
      by (simp add: clamp_long_def GATEWAY_BODY_LIMIT_def)
    have "length p - (length p - length t + 4) = length b" using pe b by (simp add: CRLF_def)
    then have "request_complete p \<longleftrightarrow> int (length b) \<ge> int (length body)"
      using Some scl v len by (simp add: request_complete_def c)
    with b show ?thesis by simp
  qed
qed

lemma read_loop_whole:
  assumes rq: "sized_request hdr body"
  shows "p @ concat chunks = hdr @ CRLF @ CRLF @ body \<Longrightarrow> concat chunks \<noteq> '''' \<Longrightarrow> list_all (\<lambda>c. c \<noteq> '''') chunks \<Longrightarrow>
    read_loop (chunks @ rest) p = hdr @ CRLF @ CRLF @ body"
proof (induction chunks arbitrary: p)
  case (Cons c cs)
  have "length (p @ concat (c # cs)) < GATEWAY_RECV_BUF"
    using rq Cons.prems(1) by (simp add: sized_request_def)
  then have len: "length p + length c + length (concat cs) < GATEWAY_RECV_BUF" by simp
  have c: "c \<noteq> ''''" using Cons.prems(3) by simp
  then have "length p < GATEWAY_RECV_BUF - 1" "take (GATEWAY_RECV_BUF - 1 - length p) c = c"
    using len by (cases c; simp)+
  then have step: "read_loop ((c # cs) @ rest) p = (if request_complete (p @ c) then p @ c else read_loop (cs @ rest) (p @ c))"
    using c by simp
  have e: "(p @ c) @ concat cs = hdr @ CRLF @ CRLF @ body" using Cons.prems(1) by simp
  note ci = complete_iff [OF rq e]
  show ?case
  proof (cases "concat cs = ''''")
    case True
    with ci have "request_complete (p @ c)" by blast
    with step have "read_loop ((c # cs) @ rest) p = p @ c" by simp
    with e show ?thesis unfolding True by simp
  next
    case False
    with ci have "\<not> request_complete (p @ c)" by blast
    with step have "read_loop ((c # cs) @ rest) p = read_loop (cs @ rest) (p @ c)" by (simp only: if_False)
    also have "\<dots> = hdr @ CRLF @ CRLF @ body" using Cons.IH [OF e False] Cons.prems(3) by simp
    finally show ?thesis .
  qed
qed simp

lemma read_request_whole:
  assumes "sized_request hdr body" "concat chunks = hdr @ CRLF @ CRLF @ body" "list_all (\<lambda>c. c \<noteq> '''') chunks"
  shows "read_request (chunks @ rest) = Some (hdr @ CRLF @ CRLF @ body)"
proof -
  have "read_loop (chunks @ rest) '''' = hdr @ CRLF @ CRLF @ body"
    using read_loop_whole [OF assms(1), of "''''" chunks rest] assms(2,3) by (simp add: CRLF_def)
  then show ?thesis by (simp add: read_request_def) (simp add: CRLF_def)
qed

lemma request_body_sized: "sized_request hdr body \<Longrightarrow> request_body (hdr @ CRLF @ CRLF @ body) = Some body"
  by (simp add: request_body_def sized_request_def) (simp add: CRLF_def)

text \<open>A request with a body of at most 32 KB is read whole, however the connection splits it: the
  loop stops exactly when the announced number of bytes has arrived, and the handler gets the body.\<close>

theorem gateway_reads_whole_request:
  assumes "sized_request hdr body" and "concat chunks = hdr @ CRLF @ CRLF @ body" and "list_all (\<lambda>c. c \<noteq> '''') chunks"
  shows "read_request (chunks @ rest) = Some (hdr @ CRLF @ CRLF @ body)
    \<and> request_body (hdr @ CRLF @ CRLF @ body) = Some body"
  using read_request_whole [OF assms] request_body_sized [OF assms(1)] by simp

section \<open>Answers\<close>

lemma head_lines:
  "response_head code ctype n @ body =
     concat (map (\<lambda>h. h @ CRLF)
       [''HTTP/1.1 '' @ int_str code @ '' '' @ reason_phrase code, ''Content-Type: '' @ ctype,
        ''Content-Length: '' @ nat_str n, ''Access-Control-Allow-Origin: *'', ''Connection: close'']) @ CRLF @ body"
  by (simp add: response_head_def)

lemma response_body:
  assumes "one_line ctype"
  shows "after_blank (send_response code ctype body) = Some body"
proof -
  have i: "one_line (int_str code)" using nat_str_one_line by (auto simp: int_str_def one_line_def)
  have r: "one_line (reason_phrase code)" by (simp add: reason_phrase_def one_line_def)
  show ?thesis unfolding send_response_def head_lines
    by (rule after_blank_headers) (use i r nat_str_one_line [of "length body"] assms in \<open>auto simp: one_line_def\<close>)
qed

lemma request_body_blank: "strstr s (CRLF @ CRLF) \<noteq> None \<Longrightarrow> request_body s = after_blank s"
  by (auto simp: request_body_def after_blank_def)

text \<open>C20: the reply to a chat request reaches the thread that asked: the worker finds the response
  pair from the metadata of the message, hands it the agent's text, and the answer sent to the
  client is JSON that reads back as that text.\<close>

theorem gateway_chat_reply:
  assumes "0 < addr" and "addr < 2 ^ 64" and "pairs s addr = Some rp" and "NUL \<notin> set resp"
  shows "\<exists>rp'. pairs (worker_finish (chat_inbound addr ip msg) resp s) addr = Some rp'
      \<and> (\<exists>rp''. response_pair_wait rp' = Some (Some resp, rp''))
      \<and> crashed (worker_finish (chat_inbound addr ip msg) resp s) = crashed s
      \<and> after_blank (chat_answer (Some resp)) = Some (cJSON_PrintUnformatted (JObject [(''response'', JString resp)]))
      \<and> cJSON_Parse (cJSON_PrintUnformatted (JObject [(''response'', JString resp)])) = Some (JObject [(''response'', JString resp)])"
proof -
  have m: "response_pair_from_meta (i_metadata (chat_inbound addr ip msg)) = Some addr"
    using scan_hex_str [of addr] assms(1,2)
    by (simp add: chat_inbound_def inbound_msg_new_def response_pair_from_meta_def)
  have "one_line ''application/json''" by code_simp
  from response_body [OF this] have a: "after_blank (chat_answer (Some resp)) =
      Some (cJSON_PrintUnformatted (JObject [(''response'', JString resp)]))"
    by (simp add: chat_answer_def send_json_obj_def send_json_def or_empty_def)
  have "wf_json 0 (JObject [(''response'', JString resp)])"
    using assms(4) by (simp add: CJSON_NESTING_LIMIT_def) (simp add: NUL_def)
  then have "cJSON_Parse (cJSON_PrintUnformatted (JObject [(''response'', JString resp)])) = Some (JObject [(''response'', JString resp)])"
    by (rule print_parse_roundtrip)
  with m assms(3) a show ?thesis
    by (simp add: worker_finish_def response_pair_deliver_def response_pair_wait_def del: print_value.simps)
qed

text \<open>Only a POST to the chat route with a JSON body that has a non-empty message reaches the agent,
  and what reaches it is that message, under the address of the client.\<close>

theorem gateway_asks_agent:
  assumes "gateway_conn g reads client_ip = Some (AskAgent chat_id msg)"
  shows "\<exists>buf body req. read_request reads = Some buf \<and> request_line (c_str buf) = (''POST'', ''/api/chat'')
    \<and> request_body (c_str buf) = Some body \<and> cJSON_Parse body = Some req
    \<and> get_str (Some req) ''message'' = Some msg \<and> msg \<noteq> '''' \<and> gw_bus g \<noteq> None
    \<and> chat_id = (if client_ip \<noteq> '''' then client_ip else ''unknown'')"
proof -
  obtain buf where b: "read_request reads = Some buf" using assms by (auto simp: gateway_conn_def split: option.splits)
  obtain mt pt where l: "request_line (c_str buf) = (mt, pt)" by fastforce
  have h: "mt = ''POST'' \<and> pt = ''/api/chat'' \<and> handle_chat g (c_str buf) client_ip = AskAgent chat_id msg"
    using assms b l by (simp add: gateway_conn_def split: if_splits)
  then show ?thesis using b l
    by (auto simp: handle_chat_def split: option.splits if_splits)
qed

text \<open>The answer for the icon has the reason phrase of a server error.\<close>

lemma icon_reason: "prefix ''HTTP/1.1 204 Internal Server Error'' (send_response 204 ''image/x-icon'' '''')"
  by code_simp


section \<open>Witnesses\<close>

lemma gateway_threads_bounded_witness: "\<exists>g. gw_reach (gateway_create 0) g \<and> gw_slots g + gw_conns g + holding g = 8"
proof -
  have "gw_reach (gateway_create 0) ((gateway_create 0)\<lparr>gw_running := True, gw_listener := LTop\<rparr>)"
    by (rule gw_reach.start [where r = ok]) (simp add: gateway_start_def)
  with gateway_threads_bounded [OF this] show ?thesis by (auto simp: GATEWAY_MAX_THREADS_def)
qed

definition chat_head :: string where
  "chat_head = ''POST /api/chat HTTP/1.1'' @ CRLF @ ''content-length: 16''"

definition chat_body :: string where
  \<open>chat_body = ''{"message":"hi"}''\<close>

lemma chat_sized: "sized_request chat_head chat_body"
proof -
  have n: "NUL \<notin> set (chat_head @ chat_body)" by code_simp
  have l: "length (chat_head @ CRLF @ CRLF @ chat_body) = 63" "length chat_body = 16" by code_simp+
  have s: "strstr (chat_head @ CRLF @ CRLF @ chat_body) (CRLF @ CRLF) = Some (CRLF @ CRLF @ chat_body)" by code_simp
  let ?cl = "''content-length: 16'' @ CRLF @ CRLF"
  have cl: "strcasestr_at (chat_head @ CRLF @ CRLF) ''Content-Length:'' = Some ?cl" by code_simp
  have si: "scan_int (drop 15 ?cl) = Some (16, CRLF @ CRLF)" by code_simp
  have r: "CRLF @ CRLF \<noteq> ''''" by (simp add: CRLF_def)
  have i: "int (length chat_body) = 16" unfolding l by simp
  show ?thesis unfolding sized_request_def GATEWAY_RECV_BUF_def GATEWAY_BODY_LIMIT_def i unfolding l
  proof (intro conjI)
    show "\<exists>cl r. strcasestr_at (chat_head @ CRLF @ CRLF) ''Content-Length:'' = Some cl \<and>
        scan_int (drop 15 cl) = Some (16, r) \<and> r \<noteq> []"
      by (rule exI [of _ ?cl], rule exI [of _ "CRLF @ CRLF"]) (intro conjI cl si r)
  qed (rule n s | simp)+
qed

lemma gateway_reads_whole_request_witness:
  "read_request [chat_head, CRLF, CRLF @ chat_body, ''next''] = Some (chat_head @ CRLF @ CRLF @ chat_body)"
proof -
  have "list_all (\<lambda>c. c \<noteq> '''') [chat_head, CRLF, CRLF @ chat_body]" by code_simp
  from gateway_reads_whole_request [OF chat_sized _ this, of "[''next'']"] show ?thesis by simp
qed

lemma gateway_chat_reply_witness:
  "\<exists>rp'. pairs (worker_finish (chat_inbound 4096 ''10.0.0.1'' ''hi'') ''yo''
     ((sys_init 60 ())\<lparr>pairs := [4096 \<mapsto> response_pair_init]\<rparr>)) 4096 = Some rp' \<and> rp_done rp'"
proof -
  have "NUL \<notin> set ''yo''" by code_simp
  from gateway_chat_reply [OF _ _ _ this, of 4096 "(sys_init 60 ())\<lparr>pairs := [4096 \<mapsto> response_pair_init]\<rparr>"
      response_pair_init "''10.0.0.1''" "''hi''"] show ?thesis
    by (auto simp: response_pair_wait_def split: if_splits)
qed

definition gw_example :: gw_env where
  "gw_example = \<lparr>gw_bus = Some bus_create, gw_sched = None, gw_pool = None, gw_email = None, gw_allow = None,
     gw_debug = False, gw_html = None, gw_now = 0, gw_file = (\<lambda>_. None), gw_popen = (\<lambda>_. None), gw_tmux_socket = None\<rparr>"

lemma gateway_asks_agent_witness:
  "\<exists>buf. gateway_conn gw_example [chat_head @ CRLF @ CRLF @ chat_body] ''10.0.0.1'' = Some (AskAgent ''10.0.0.1'' ''hi'')
    \<and> request_line (c_str buf) = (''POST'', ''/api/chat'')"
proof -
  let ?R = "chat_head @ CRLF @ CRLF @ chat_body"
  have "list_all (\<lambda>c. c \<noteq> '''') [?R]" by (simp add: CRLF_def)
  from read_request_whole [OF chat_sized _ this, of "[]"] have r: "read_request [?R] = Some ?R" by simp
  have c: "c_str ?R = ?R" "request_line ?R = (''POST'', ''/api/chat'')" by code_simp+
  have "request_body ?R = Some chat_body" by (rule request_body_sized [OF chat_sized])
  moreover have "cJSON_Parse chat_body = Some (JObject [(''message'', JString ''hi'')])" "chat_body \<noteq> ''''" by code_simp+
  moreover have "get_str (Some (JObject [(''message'', JString ''hi'')])) ''message'' = Some ''hi''" by code_simp
  ultimately have "gateway_conn gw_example [?R] ''10.0.0.1'' = Some (AskAgent ''10.0.0.1'' ''hi'')"
    by (simp add: gateway_conn_def r c handle_chat_def gw_example_def)
  with gateway_asks_agent [OF this] show ?thesis by blast
qed

end
