(* ===== verification/Slash_Commands.thy ===== *)
theory Slash_Commands
  imports Skills Gateway Agent Email_Props
begin

text \<open>
  Model of \<open>src/ux/slash_commands.c\<close>. The context with the components the commands look at is a
  record; the registered tools and channels, the system and the mail transport are another. A
  command gives the text of the output buffer of \<open>sz\<close> bytes and the new context. \<open>None\<close> is the
  buffer overflow of \<open>allowlist_save_email\<close> or the over-read of \<open>smtp_send\<close>.
\<close>

section \<open>Text\<close>

definition u8 :: "nat list \<Rightarrow> string" where "u8 = map char_of"
definition BAR :: "nat \<Rightarrow> string" where "BAR n = concat (replicate n (u8 [0xE2, 0x94, 0x81]))"
definition EMDASH :: string where "EMDASH = u8 [0xE2, 0x80, 0x94]"
definition ELLIPSIS :: string where "ELLIPSIS = u8 [0xE2, 0x80, 0xA6]"
definition ARROW :: string where "ARROW = u8 [0xE2, 0x86, 0x92]"
definition CHECK :: string where "CHECK = u8 [0xE2, 0x9C, 0x93]"
definition CROSS :: string where "CROSS = u8 [0xE2, 0x9C, 0x97]"
definition SPARKLES :: string where "SPARKLES = u8 [0xE2, 0x9C, 0xA8]"

definition buf_append :: "nat \<Rightarrow> string \<Rightarrow> string \<Rightarrow> string" where
  "buf_append sz p buf = (if length buf \<ge> sz - 1 then buf else buf @ trunc_to (sz - length buf) p)"

definition buf_appends :: "nat \<Rightarrow> string list \<Rightarrow> string \<Rightarrow> string" where
  "buf_appends sz ps buf = fold (buf_append sz) ps buf"

text \<open>\<open>%2d\<close>\<close>

definition pad_left2 :: "nat \<Rightarrow> string" where
  "pad_left2 n = (if n < 10 then SP # nat_str n else nat_str n)"

section \<open>The context\<close>

record 'w slash =
  sl_agent :: "agent option"
  sl_provider :: "(string \<times> string) option"
  sl_sched :: "scheduler option"
  sl_skills :: "skills option"
  sl_bus :: "bus option"
  sl_sessions :: "agent session_manager option"
  sl_email :: "email_channel option"
  sl_allow :: "allowlist option"
  sl_path :: "string option"
  sl_file :: "string option"
  sl_world :: 'w

text \<open>\<open>sl_file\<close> is the content of the allowlist file; \<open>se_writable\<close>: it can be written.\<close>

record 'w slash_env =
  se_tools :: "'w tools"
  se_channels :: "'w channels"
  se_os :: sk_os
  se_mail :: "'w mail"
  se_now :: int
  se_popen :: "string \<Rightarrow> string option"
  se_tmux :: "string option"
  se_writable :: bool

section \<open>Commands that show\<close>

definition cmd_help :: "nat \<Rightarrow> string" where
  "cmd_help sz = trunc_to sz
     (BAR 3 @ '' Dobby Commands '' @ BAR 40 @ [NL, ESC] @ ''[1mAgent'' @ [ESC] @ ''[0m'' @
       [NL] @ ''  /status              '' @ EMDASH @
       '' Provider, model, session message count'' @ [NL] @
       ''  /usage               '' @ EMDASH @ '' Message count for this session'' @ [NL] @
       ''  /new                 '' @ EMDASH @ '' Start a fresh conversation'' @ [NL] @
       ''  /model               '' @ EMDASH @ '' Show current model'' @ [NL, ESC] @
       ''[1mArchitecture'' @ [ESC] @ ''[0m'' @ [NL] @
       ''  /channels            '' @ EMDASH @ '' Registered channels (CLI, HTTP, Email'' @
       ELLIPSIS @ '')'' @ [NL] @ ''  /sessions            '' @ EMDASH @
       '' Active sessions: key, messages, idle time'' @ [NL] @
       ''  /bus                 '' @ EMDASH @ '' Message bus queue depths'' @ [NL, ESC] @
       ''[1mTools & Skills'' @ [ESC] @ ''[0m'' @ [NL] @
       ''  /tools               '' @ EMDASH @ '' All registered tools'' @ [NL] @
       ''  /skills              '' @ EMDASH @ '' Loaded skills'' @ [NL] @
       ''  /skills reload       '' @ EMDASH @ '' Re-scan skills/ directory from disk'' @ [NL] @
       ''  /tasks               '' @ EMDASH @ '' Active background tasks'' @ [NL] @
       ''  /tmux                '' @ EMDASH @ '' Active tmux sessions'' @ [NL, ESC] @
       ''[1mEmail'' @ [ESC] @ ''[0m'' @ [NL] @
       ''  /email status        '' @ EMDASH @ '' Channel config and connection info'' @ [NL] @
       ''  /email allowlist     '' @ EMDASH @ '' Show allowed senders/recipients'' @ [NL] @
       ''  /email allow <addr>  '' @ EMDASH @ '' Add address to allowlist (persists)'' @ [NL] @
       ''  /email deny  <addr>  '' @ EMDASH @ '' Remove address from allowlist (persists)'' @
       [NL] @ ''  /email send  <addr>  '' @ EMDASH @ '' Send a quick test email to <addr>'' @
       [NL, ESC] @ ''[1mOther'' @ [ESC] @ ''[0m'' @ [NL] @
       ''  /help                '' @ EMDASH @ '' Show this help'' @ [NL] @
       ''  /quit                '' @ EMDASH @ '' Exit Dobby'' @ [NL] @
       BAR 60 @ [NL])"

definition cmd_status :: "'w slash_env \<Rightarrow> 'w slash \<Rightarrow> nat \<Rightarrow> string" where
  "cmd_status en c sz = trunc_to sz
     (BAR 3 @ '' Dobby Status '' @ BAR 28 @ [NL] @
       ''  Version  : '' @ [ESC] @ ''[32m'' @ VERSION_STRING @ [ESC] @ ''[0m'' @ [NL] @
       ''  Provider : '' @ [ESC] @ ''[36m'' @
       (case sl_provider c of None \<Rightarrow> ''none'' | Some p \<Rightarrow> fst p) @
       [ESC] @ ''[0m'' @ [NL] @ ''  Model    : '' @ [ESC] @ ''[36m'' @
       (case sl_provider c of None \<Rightarrow> ''none'' | Some p \<Rightarrow> snd p) @
       [ESC] @ ''[0m'' @ [NL] @ ''  Messages : '' @
       nat_str (agent_message_count (sl_agent c)) @ ''  (this session)'' @ [NL] @
       ''  Sessions : '' @ int_str (session_count (sl_sessions c)) @ '' active'' @ [NL] @
       ''  Channels : '' @ nat_str (channel_count (se_channels en)) @ '' registered'' @ [NL] @
       ''  Tools    : '' @ nat_str (tool_count (se_tools en)) @ '' registered'' @ [NL] @
       ''  Skills   : '' @ nat_str (skills_count (sl_skills c)) @ '' loaded'' @ [NL] @
       BAR 46 @ [NL])"

definition known_channels :: "string list" where
  "known_channels = [''cli'', ''http'', ''email'']"

definition cmd_channels :: "'w slash_env \<Rightarrow> nat \<Rightarrow> string" where
  "cmd_channels en sz =
     (let n = channel_count (se_channels en);
          shown = List.map_filter (\<lambda>k. channel_find (se_channels en) (Some k)) known_channels
      in buf_appends sz
        ([(BAR 3 @ '' Channels ('' @ nat_str n @ '' registered) '' @ BAR 31 @ [NL])] @
         (if n = 0 then [(''  No channels registered.'' @ [NL])]
          else map (\<lambda>ch. (''  '' @ [ESC] @ ''[36m'' @ pad_right 12 (ch_name ch) @ [ESC] @ ''[0m  active'' @ [NL])) shown @
            (if length shown < n then [(''  '' @ ELLIPSIS @ '' and '' @ nat_str (n - length shown) @ '' more'' @ [NL])] else [])) @
         [(''  '' @ [ESC] @ ''[2mSessions are isolated per channel:user pair.'' @ [ESC] @ ''[0m'' @
       [NL] @ BAR 60 @ [NL])]) '''')"

definition cmd_sessions :: "'w slash_env \<Rightarrow> 'w slash \<Rightarrow> nat \<Rightarrow> string" where
  "cmd_sessions en c sz =
     (let n = session_count (sl_sessions c)
      in buf_appends sz
        [(BAR 3 @ '' Sessions ('' @ int_str n @ '' active) '' @ BAR 35 @ [NL]),
         (case sl_sessions c of
            None \<Rightarrow> (''  No active sessions.'' @ [NL])
          | Some sm \<Rightarrow>
              if n = 0 then (''  No active sessions.'' @ [NL])
              else snd (session_snapshot agent_message_count (se_now en) sm 4096)),
         (''  '' @ [ESC] @ ''[2mSessions expire after idle TTL. Use /new to reset this one.'' @
       [ESC] @ ''[0m'' @ [NL] @ BAR 60 @ [NL])] '''')"

definition cmd_bus :: "'w slash \<Rightarrow> nat \<Rightarrow> string" where
  "cmd_bus c sz =
     (if sl_bus c = None then trunc_to sz (''Bus not available.'' @ [NL])
      else trunc_to sz
        (BAR 3 @ '' Message Bus '' @ BAR 30 @ [NL] @
       ''  Inbound queue  : '' @ nat_str (bus_inbound_size (sl_bus c)) @
       '' message(s) pending'' @ [NL] @ ''  Outbound queue : '' @
       nat_str (bus_outbound_size (sl_bus c)) @ '' message(s) pending'' @ [NL] @
       ''  '' @ [ESC] @ ''[2mInbound: channels '' @ ARROW @ '' worker '' @ ARROW @ '' agent'' @
       [ESC] @ ''[0m'' @ [NL] @ ''  '' @ [ESC] @ ''[2mOutbound: agent '' @ ARROW @
       '' dispatcher '' @ ARROW @ '' channels'' @ [ESC] @ ''[0m'' @ [NL] @
       BAR 46 @ [NL]))"

definition cmd_tools :: "'w slash_env \<Rightarrow> nat \<Rightarrow> string" where
  "cmd_tools en sz =
     buf_appends sz
       ([(BAR 3 @ '' Tools ('' @ nat_str (tool_count (se_tools en)) @ '') '' @ BAR 43 @ [NL])] @
        map (\<lambda>t. (''  '' @ [ESC] @ ''[36m'' @ pad_right 24 (fmt_s (tool_name t)) @ [ESC] @ ''[0m '' @
       fmt_s (description t) @ [NL])) (se_tools en) @
        [(BAR 60 @ [NL])]) ''''"

definition cmd_skills :: "'w slash \<Rightarrow> nat \<Rightarrow> string" where
  "cmd_skills c sz =
     (if skills_count (sl_skills c) = 0 then trunc_to sz (''No skills loaded. Add SKILL.md files to the skills/ directory.'' @ [NL])
      else buf_appends sz
        ([(BAR 3 @ '' Skills ('' @ nat_str (skills_count (sl_skills c)) @ '') '' @ BAR 3 @ [NL])] @
         map (\<lambda>sk. (''  '' @ [ESC] @ ''[35m'' @ pad_right 24 (sk_slug sk) @ [ESC] @ ''[0m '' @
       sk_description sk @ [NL])) (skill_list (the (sl_skills c))) @
         [(BAR 60 @ [NL] @ ''  '' @ [ESC] @ ''[2mUse /skills reload to refresh from disk.'' @
       [ESC] @ ''[0m'' @ [NL])]) '''')"

definition cmd_skills_reload :: "'w slash_env \<Rightarrow> 'w slash \<Rightarrow> nat \<Rightarrow> string \<times> 'w slash" where
  "cmd_skills_reload en c sz =
     (case sl_skills c of
        None \<Rightarrow> (trunc_to sz (''Skills system not available.'' @ [NL]), c)
      | Some sk \<Rightarrow>
          (case skills_reload (se_os en) sk of
             (r, sk') \<Rightarrow>
               (trunc_to sz
                  (if r_status r = OK then (CHECK @ '' Skills reloaded. '' @ nat_str (skills_count (Some sk')) @
       '' skill(s) loaded.'' @ [NL])
                   else (''Reload failed: '' @
       (case r_message r of None \<Rightarrow> ''unknown error'' | Some m \<Rightarrow> m) @
       [NL])),
                c\<lparr>sl_skills := Some sk'\<rparr>)))"

definition cmd_tasks :: "'w slash \<Rightarrow> nat \<Rightarrow> string" where
  "cmd_tasks c sz =
     (let b = buf_append sz (BAR 3 @ '' Background Tasks '' @ BAR 38 @ [NL]) '''';
          b' = b @ scheduler_task_snapshot (sl_sched c) (sz - length b)
      in buf_append sz (BAR 60 @ [NL] @ ''  '' @ [ESC] @
       ''[2mUse schedule_add / schedule_control tools to manage.'' @ [ESC] @ ''[0m'' @ [NL]) b')"

definition tmux_line :: "string \<Rightarrow> string" where
  "tmux_line l = (''  '' @ [ESC] @ ''[36m'' @ l @ [ESC] @ ''[0m'')"

definition tmux_error :: "string \<Rightarrow> bool" where
  "tmux_error l \<longleftrightarrow> contains l ''no server running'' \<or> contains l ''no sessions'' \<or> contains l ''error''"

definition no_tmux :: string where "no_tmux = (''  No active tmux sessions.'' @ [NL])"

definition tmux_ls_command :: "string option \<Rightarrow> string" where
  "tmux_ls_command sock =
     trunc_to 256 (if sock = None \<or> sock = Some '''' then (''tmux ls 2>&1'') else (''tmux -S '' @ [CHR 0x27] @ the sock @ [CHR 0x27] @ '' ls 2>&1''))"

definition cmd_tmux :: "'w slash_env \<Rightarrow> nat \<Rightarrow> string" where
  "cmd_tmux en sz =
     buf_appends sz
       ([(BAR 3 @ '' tmux Sessions '' @ BAR 41 @ [NL])] @
        (case se_popen en (tmux_ls_command (se_tmux en)) of
           None \<Rightarrow> [(''  tmux not available.'' @ [NL])]
         | Some out \<Rightarrow>
             (let ls = map c_str (fgets_lines 256 out); good = takeWhile (\<lambda>l. \<not> tmux_error l) ls
              in map tmux_line good @ (if length good < length ls \<or> ls = [] then [no_tmux] else []))) @
        [(BAR 60 @ [NL])]) ''''"

section \<open>Email commands\<close>

definition cmd_email_status :: "'w slash \<Rightarrow> nat \<Rightarrow> string" where
  "cmd_email_status c sz =
     buf_appends sz
       [(BAR 3 @ '' Email Channel '' @ BAR 41 @ [NL]),
        (case sl_email c of
           None \<Rightarrow> (''  Email channel not configured.'' @ [NL] @
       ''  Add [email] section to dobby.conf to enable.'' @ [NL])
         | Some ec \<Rightarrow> email_channel_status ec 1024),
        (BAR 60 @ [NL])] ''''"

definition cmd_email_allowlist :: "'w slash \<Rightarrow> nat \<Rightarrow> string" where
  "cmd_email_allowlist c sz =
     (let rs = (case sl_allow c of None \<Rightarrow> [] | Some al \<Rightarrow> rules (al ACL_EMAIL))
      in buf_appends sz
        ([(BAR 3 @ '' Email Allowlist '' @ BAR 40 @ [NL])] @
         (if (case sl_allow c of None \<Rightarrow> True | Some al \<Rightarrow> \<not> allowlist_is_enabled al ACL_EMAIL) then
            [(''  '' @ [ESC] @ ''[33mAllowlist DISABLED'' @ [ESC] @ ''[0m '' @ EMDASH @
       '' all senders/recipients accepted.'' @ [NL] @
       ''  Add [email] section to allowlist.conf to restrict.'' @ [NL])]
          else [(''  '' @ [ESC] @ ''[32mAllowlist ACTIVE'' @ [ESC] @ ''[0m '' @ EMDASH @ '' '' @
       nat_str (length rs) @ '' rule(s):'' @ [NL])] @
            map (\<lambda>(i, p). (''    '' @ [ESC] @ ''[36m'' @ pad_left2 i @ ''.'' @ [ESC] @ ''[0m  '' @ p @ [NL])) (zip [1..<length rs + 1] rs) @
            (if rs = [] then [(''    (no rules '' @ EMDASH @ '' all email will be blocked)'' @ [NL])] else [])) @
         [(''  Use /email allow <addr>  to add a rule'' @ [NL] @
       ''  Use /email deny  <addr>  to remove a rule'' @ [NL] @
       BAR 60 @ [NL])]) '''')"

definition or_unknown :: "string option \<Rightarrow> string" where
  "or_unknown m = (case m of None \<Rightarrow> ''unknown'' | Some s \<Rightarrow> s)"

text \<open>Saving after a change: what the message says, with the text for each outcome.\<close>

definition save_rules ::
  "'w slash_env \<Rightarrow> 'w slash \<Rightarrow> nat \<Rightarrow> string \<Rightarrow> (string \<Rightarrow> string) \<Rightarrow> string \<Rightarrow> (string \<times> 'w slash) option" where
  "save_rules en c sz saved failed runtime =
     (case sl_path c of
        None \<Rightarrow> Some (trunc_to sz runtime, c)
      | Some path \<Rightarrow>
          (case allowlist_save_email (sl_allow c) (sl_file c) (se_writable en) of
             None \<Rightarrow> None
           | Some (r, file) \<Rightarrow>
               Some (trunc_to sz (if r_status r = OK then saved else failed (or_unknown (r_message r))),
                     c\<lparr>sl_file := file\<rparr>)))"

definition cmd_email_allow :: "'w slash_env \<Rightarrow> 'w slash \<Rightarrow> nat \<Rightarrow> string \<Rightarrow> (string \<times> 'w slash) option" where
  "cmd_email_allow en c sz addr =
     (if addr = '''' then Some (trunc_to sz (''Usage: /email allow <address-or-pattern>'' @ [NL] @
       ''  e.g. /email allow user@example.com'' @ [NL] @
       ''       /email allow *@mycompany.com'' @ [NL]), c)
      else case sl_allow c of
        None \<Rightarrow> Some (trunc_to sz (''Allowlist not available.'' @ [NL]), c)
      | Some al \<Rightarrow>
          (case allowlist_add al ACL_EMAIL addr of
             (r, al') \<Rightarrow>
               if r_status r \<noteq> OK then
                 Some (trunc_to sz (''Error: '' @ or_unknown (r_message r) @ [NL]), c\<lparr>sl_allow := Some al'\<rparr>)
               else save_rules en (c\<lparr>sl_allow := Some al'\<rparr>) sz
                 (CHECK @ '' Added '' @ [ESC] @ ''[36m'' @ addr @ [ESC] @
       ''[0m to email allowlist (saved to '' @ (fmt_s (sl_path c)) @ '').'' @ [NL])
                 (\<lambda>m. (CHECK @ '' Added '' @ [ESC] @ ''[36m'' @ addr @ [ESC] @
       ''[0m to email allowlist (save failed: '' @ m @ '').'' @ [NL]))
                 (CHECK @ '' Added '' @ [ESC] @ ''[36m'' @ addr @ [ESC] @ ''[0m (runtime only '' @
       EMDASH @ '' no config path set).'' @ [NL])))"

definition cmd_email_deny :: "'w slash_env \<Rightarrow> 'w slash \<Rightarrow> nat \<Rightarrow> string \<Rightarrow> (string \<times> 'w slash) option" where
  "cmd_email_deny en c sz addr =
     (if addr = '''' then Some (trunc_to sz (''Usage: /email deny <address-or-pattern>'' @ [NL]), c)
      else case sl_allow c of
        None \<Rightarrow> Some (trunc_to sz (''Allowlist not available.'' @ [NL]), c)
      | Some al \<Rightarrow>
          (case allowlist_remove (Some al) ACL_EMAIL (Some addr) of
             (False, al') \<Rightarrow> Some (trunc_to sz (''Address '' @ [ESC] @ ''[36m'' @ addr @ [ESC] @ ''[0m not found in email allowlist.'' @
       [NL]), c)
           | (True, al') \<Rightarrow> save_rules en (c\<lparr>sl_allow := al'\<rparr>) sz
                 (CHECK @ '' Removed '' @ [ESC] @ ''[36m'' @ addr @ [ESC] @
       ''[0m from email allowlist (saved).'' @ [NL])
                 (\<lambda>m. (CHECK @ '' Removed '' @ [ESC] @ ''[36m'' @ addr @ [ESC] @ ''[0m (save failed: '' @ m @
       '').'' @ [NL]))
                 (CHECK @ '' Removed '' @ [ESC] @ ''[36m'' @ addr @ [ESC] @ ''[0m (runtime only).'' @ [NL])))"

definition test_mail_body :: string where
  "test_mail_body = (''Hi,'' @ [NL, NL] @ ''This is a test email from Dobby AI Agent.'' @ [NL, NL] @ EMDASH @
       '' Dobby'' @ [NL])"

definition cmd_email_send :: "'w slash_env \<Rightarrow> 'w slash \<Rightarrow> nat \<Rightarrow> string \<Rightarrow> (string \<times> 'w slash) option" where
  "cmd_email_send en c sz addr =
     (if addr = '''' then Some (trunc_to sz (''Usage: /email send <address>'' @ [NL] @
       ''  Sends a quick test email from Dobby.'' @ [NL]), c)
      else case sl_email c of
        None \<Rightarrow> Some (trunc_to sz (''Email channel not configured.'' @ [NL]), c)
      | Some ec \<Rightarrow>
          if \<not> email_channel_is_allowed (sl_allow c) (Some ec) (Some addr) then
            Some (trunc_to sz (''Blocked: '' @ [ESC] @ ''[36m'' @ addr @ [ESC] @
       ''[0m is not in the email allowlist.'' @ [NL] @
       ''Use /email allow '' @ addr @ '' first.'' @ [NL]), c)
          else case email_channel_send_direct (sl_allow c) (se_mail en) (Some ec) (nat (se_now en)) addr
                 ''[Dobby] Test email'' test_mail_body (sl_world c) of
            (OverRead, w) \<Rightarrow> None
          | (Sent b, w) \<Rightarrow>
              Some (trunc_to sz (if b then (CHECK @ '' Test email sent to '' @ [ESC] @ ''[36m'' @ addr @ [ESC] @ ''[0m.'' @ [NL]) else (CROSS @ '' Failed to send to '' @ [ESC] @ ''[36m'' @ addr @ [ESC] @
       ''[0m. Check SMTP config.'' @ [NL])), c\<lparr>sl_world := w\<rparr>))"

definition cmd_email :: "'w slash_env \<Rightarrow> 'w slash \<Rightarrow> nat \<Rightarrow> string \<Rightarrow> (string \<times> 'w slash) option" where
  "cmd_email en c sz subcmd =
     (let a = str_trim subcmd
      in if a = '''' \<or> a = ''status'' then Some (cmd_email_status c sz, c)
         else if a = ''allowlist'' \<or> a = ''list'' then Some (cmd_email_allowlist c sz, c)
         else if prefix ''allow '' a then cmd_email_allow en c sz (str_trim (drop 6 a))
         else if prefix ''deny '' a then cmd_email_deny en c sz (str_trim (drop 5 a))
         else if prefix ''send '' a then cmd_email_send en c sz (str_trim (drop 5 a))
         else Some (trunc_to sz
           (''Unknown email subcommand: '' @ a @ [NL] @
       ''  /email status       '' @ EMDASH @ '' channel info'' @ [NL] @
       ''  /email allowlist    '' @ EMDASH @ '' show allowed addresses'' @ [NL] @
       ''  /email allow <addr> '' @ EMDASH @ '' add to allowlist'' @ [NL] @
       ''  /email deny  <addr> '' @ EMDASH @ '' remove from allowlist'' @ [NL] @
       ''  /email send  <addr> '' @ EMDASH @ '' send test email'' @ [NL]), c))"

section \<open>The dispatcher\<close>

definition cmd_model :: "'w slash \<Rightarrow> nat \<Rightarrow> string \<Rightarrow> string" where
  "cmd_model c sz a =
     trunc_to sz (if a = '''' then (''Model: '' @
       (case sl_provider c of None \<Rightarrow> ''none'' | Some p \<Rightarrow> snd p) @
       '' ('' @
       (case sl_provider c of None \<Rightarrow> ''none'' | Some p \<Rightarrow> fst p) @
       '')'' @ [NL])
       else (''Set model = '' @ a @ '' in dobby.conf and restart.'' @ [NL]))"

text \<open>Whether the line was a command, the output buffer, and the context; \<open>out\<close> is the buffer before.\<close>

definition slash_handle :: "'w slash_env \<Rightarrow> string \<Rightarrow> 'w slash \<Rightarrow> string \<Rightarrow> nat \<Rightarrow> (bool \<times> string \<times> 'w slash) option" where
  "slash_handle en input c out sz =
     (let show = (\<lambda>s. Some (True, s, c)); eff = map_option (\<lambda>(s, c'). (True, s, c'))
      in if input = '''' \<or> hd input \<noteq> CHR ''/'' then Some (False, out, c)
         else if input = ''/help'' then show (cmd_help sz)
         else if input = ''/status'' then show (cmd_status en c sz)
         else if input = ''/channels'' then show (cmd_channels en sz)
         else if input = ''/sessions'' then show (cmd_sessions en c sz)
         else if input = ''/bus'' then show (cmd_bus c sz)
         else if input = ''/tools'' then show (cmd_tools en sz)
         else if input = ''/skills reload'' then eff (Some (cmd_skills_reload en c sz))
         else if input = ''/skills'' then show (cmd_skills c sz)
         else if input = ''/tasks'' then show (cmd_tasks c sz)
         else if input = ''/tmux'' then show (cmd_tmux en sz)
         else if input = ''/new'' then
           Some (True, trunc_to sz (SPARKLES @ '' New conversation started.'' @ [NL]), c\<lparr>sl_agent := map_option agent_new_conversation (sl_agent c)\<rparr>)
         else if prefix ''/model'' input then show (cmd_model c sz (str_trim (drop 6 input)))
         else if input = ''/usage'' then
           show (trunc_to sz (''Messages in this session: '' @ nat_str (agent_message_count (sl_agent c)) @ [NL]))
         else if prefix ''/email'' input then eff (cmd_email en c sz (drop 6 input))
         else if input = ''/quit'' \<or> input = ''/exit'' then show (trunc_to sz ''__QUIT__'')
         else show (trunc_to sz (''Unknown command: '' @ input @ ''  (try /help)'' @ [NL])))"

section \<open>The reply stays in the buffer\<close>

lemma trunc_to_fits: "0 < sz \<Longrightarrow> length (trunc_to sz p) < sz"
  using take_trunc_length [of sz p] by linarith

lemma buf_append_fits: "length buf < sz \<Longrightarrow> length (buf_append sz p buf) < sz"
  using trunc_to_fits [of "sz - length buf" p] by (auto simp: buf_append_def)

lemma buf_appends_fits: "length buf < sz \<Longrightarrow> length (buf_appends sz ps buf) < sz"
  unfolding buf_appends_def by (induction ps arbitrary: buf) (simp_all add: buf_append_fits)

lemma cmd_tasks_fits: "0 < sz \<Longrightarrow> length (cmd_tasks c sz) < sz"
proof -
  assume sz: "0 < sz"
  have step: "length b < sz \<Longrightarrow> length (b @ scheduler_task_snapshot (sl_sched c) (sz - length b)) < sz" for b
    using scheduler_task_snapshot_fits [of "sz - length b" "sl_sched c"] by simp
  with sz show ?thesis unfolding cmd_tasks_def Let_def by (intro buf_append_fits step) (simp only: list.size)
qed

lemmas slash_fits = trunc_to_fits buf_appends_fits cmd_tasks_fits

lemma save_rules_fits: "0 < sz \<Longrightarrow> save_rules en c sz a f b = Some (r, c') \<Longrightarrow> length r < sz"
  by (auto simp: save_rules_def slash_fits split: option.splits prod.splits)

lemma cmd_email_fits: "0 < sz \<Longrightarrow> cmd_email en c sz a = Some (r, c') \<Longrightarrow> length r < sz"
  unfolding cmd_email_def Let_def cmd_email_allow_def cmd_email_deny_def cmd_email_send_def
    cmd_email_status_def cmd_email_allowlist_def
  by (auto simp: slash_fits split: if_splits option.splits prod.splits sent.splits bool.splits dest: save_rules_fits)

lemma shown_fits: "0 < sz \<Longrightarrow> length (cmd_help sz) < sz" "0 < sz \<Longrightarrow> length (cmd_status en c sz) < sz"
  "0 < sz \<Longrightarrow> length (cmd_channels en sz) < sz" "0 < sz \<Longrightarrow> length (cmd_sessions en c sz) < sz"
  "0 < sz \<Longrightarrow> length (cmd_bus c sz) < sz" "0 < sz \<Longrightarrow> length (cmd_tools en sz) < sz"
  "0 < sz \<Longrightarrow> length (cmd_skills c sz) < sz" "0 < sz \<Longrightarrow> length (cmd_tmux en sz) < sz"
  "0 < sz \<Longrightarrow> length (cmd_model c sz a) < sz" "0 < sz \<Longrightarrow> length (fst (cmd_skills_reload en c sz)) < sz"
  unfolding cmd_help_def cmd_status_def cmd_channels_def cmd_sessions_def cmd_bus_def cmd_tools_def
    cmd_skills_def cmd_tmux_def cmd_model_def cmd_skills_reload_def Let_def
  by (auto intro!: slash_fits split: option.splits prod.splits)

text \<open>The first command that matches decides, so a property of each branch is one of the dispatcher.\<close>

definition fits_in :: "nat \<Rightarrow> (bool \<times> string \<times> 'a) option \<Rightarrow> bool" where
  "fits_in sz x = (case x of None \<Rightarrow> True | Some (h, r, _) \<Rightarrow> h \<longrightarrow> length r < sz)"

lemma fits_in_if: "fits_in sz x \<Longrightarrow> fits_in sz y \<Longrightarrow> fits_in sz (if b then x else y)"
  by simp

lemma fits_in_intros:
  "length r < sz \<Longrightarrow> fits_in sz (Some (h, r, c))" "fits_in sz (Some (False, r, c))"
  "(\<And>r c. x = Some (r, c) \<Longrightarrow> length r < sz) \<Longrightarrow> fits_in sz (map_option (\<lambda>(s, c). (h, s, c)) x)"
  by (auto simp: fits_in_def split: option.split)

lemma reload_fits: "0 < sz \<Longrightarrow> Some (cmd_skills_reload en c sz) = Some (r, c') \<Longrightarrow> length r < sz"
  using shown_fits(10) [of sz en c] by simp

lemma slash_handle_fits: "0 < sz \<Longrightarrow> fits_in sz (slash_handle en input c out sz)"
  unfolding slash_handle_def Let_def
  by (intro fits_in_if fits_in_intros shown_fits slash_fits)
    (assumption | erule (1) reload_fits cmd_email_fits)+

text \<open>A context with rules and nowhere to save them.\<close>

definition bare_slash :: "allowlist \<Rightarrow> unit slash" where
  "bare_slash al = \<lparr>sl_agent = None, sl_provider = None, sl_sched = None, sl_skills = None, sl_bus = None,
     sl_sessions = None, sl_email = None, sl_allow = Some al, sl_path = None, sl_file = None, sl_world = ()\<rparr>"

text \<open>No tools, no channels, no files, and a mail server that takes everything.\<close>

definition quiet_env :: "unit slash_env" where
  "quiet_env = \<lparr>se_tools = [], se_channels = [], se_os = \<lparr>os_text = (\<lambda>_. None), os_dir = (\<lambda>_. None),
     os_kind = (\<lambda>_. None), os_system = (\<lambda>_. 1), os_getenv = (\<lambda>_. None)\<rparr>, se_mail = one_mail '''', se_now = 0,
     se_popen = (\<lambda>_. None), se_tmux = None, se_writable = True\<rparr>"

text \<open>The reply of every slash command fits its buffer: the text is shorter than the \<open>sz\<close> bytes, so
  that its terminator is inside, whatever the tools, skills, sessions and tasks are called.\<close>

theorem slash_reply_fits:
  assumes "0 < sz" "slash_handle en input c out sz = Some (True, r, c')"
  shows "length r < sz"
  using slash_handle_fits [OF assms(1), of en input c out] by (simp add: assms(2) fits_in_def)

lemma slash_reply_fits_witness:
  "\<exists>r c'. slash_handle quiet_env ''/quit'' (bare_slash allowlist_create) [] 5 = Some (True, r, c') \<and> length r < 5"
proof -
  have "slash_handle quiet_env ''/quit'' (bare_slash allowlist_create) [] 5 = Some (True, ''__QU'', bare_slash allowlist_create)"
    by (simp add: slash_handle_def trunc_to_def)
  with slash_reply_fits [OF _ this] show ?thesis by simp
qed

section \<open>What a command changes\<close>

text \<open>The allowlist file, the e-mail rules and the outside world are all an \<open>/email\<close> command touches.\<close>

definition email_effect :: "'w slash \<Rightarrow> 'w slash \<Rightarrow> bool" where
  "email_effect c c' \<longleftrightarrow>
     c' = c\<lparr>sl_allow := sl_allow c', sl_file := sl_file c', sl_world := sl_world c'\<rparr>
     \<and> (\<forall>t. t \<noteq> ACL_EMAIL \<longrightarrow> map_option (\<lambda>al. al t) (sl_allow c') = map_option (\<lambda>al. al t) (sl_allow c))
     \<and> (\<forall>al. sl_allow c = Some al \<and> acl_ok al \<longrightarrow> (\<exists>al'. sl_allow c' = Some al' \<and> acl_ok al'))"

lemma email_effect_refl: "email_effect c c"
  by (simp add: email_effect_def)

lemma email_effect_world: "email_effect c (c\<lparr>sl_world := w\<rparr>)"
  by (simp add: email_effect_def)

lemma save_rules_effect:
  "save_rules en c sz a f b = Some (r, c') \<Longrightarrow> c' = c\<lparr>sl_file := sl_file c'\<rparr>"
  by (auto simp: save_rules_def split: option.splits prod.splits)

lemma email_effect_file:
  assumes "email_effect c c'" "c'' = c'\<lparr>sl_file := sl_file c''\<rparr>"
  shows "email_effect c c''"
proof -
  obtain f where f: "c'' = c'\<lparr>sl_file := f\<rparr>" using assms(2) by blast
  show ?thesis using assms(1) unfolding email_effect_def f by (cases c; cases c') simp
qed

lemma email_effect_add:
  "sl_allow c = Some al \<Longrightarrow> allowlist_add al ACL_EMAIL p = (r, al') \<Longrightarrow> email_effect c (c\<lparr>sl_allow := Some al'\<rparr>)"
  using acl_ok_add [of al ACL_EMAIL p]
  by (auto simp: email_effect_def) (auto simp: allowlist_add_def split: if_splits)

lemma allowlist_remove_other:
  "allowlist_remove (Some al) t p = (b, al'') \<Longrightarrow> \<exists>al'. al'' = Some al' \<and> (\<forall>u. u \<noteq> t \<longrightarrow> al' u = al u)"
  by (auto simp: allowlist_remove_def split: option.splits)

lemma email_effect_remove:
  assumes "sl_allow c = Some al" "allowlist_remove (Some al) ACL_EMAIL p = (b, al'')"
  shows "email_effect c (c\<lparr>sl_allow := al''\<rparr>)"
proof -
  obtain al' where a: "al'' = Some al'" "\<forall>u. u \<noteq> ACL_EMAIL \<longrightarrow> al' u = al u"
    using allowlist_remove_other [OF assms(2)] by blast
  have "acl_ok al \<Longrightarrow> acl_ok al'" using acl_ok_remove assms(2) a(1) by blast
  with a assms(1) show ?thesis by (simp add: email_effect_def)
qed

lemma cmd_email_allow_effect: "cmd_email_allow en c sz a = Some (r, c') \<Longrightarrow> email_effect c c'"
  unfolding cmd_email_allow_def
  by (auto split: if_splits option.splits prod.splits intro: email_effect_refl email_effect_add
      dest!: save_rules_effect elim!: email_effect_file [rotated])

lemma cmd_email_deny_effect: "cmd_email_deny en c sz a = Some (r, c') \<Longrightarrow> email_effect c c'"
  unfolding cmd_email_deny_def
  by (auto split: if_splits option.splits prod.splits bool.splits intro: email_effect_refl email_effect_remove
      dest!: save_rules_effect elim!: email_effect_file [rotated])

lemma cmd_email_send_effect: "cmd_email_send en c sz a = Some (r, c') \<Longrightarrow> email_effect c c'"
  unfolding cmd_email_send_def
  by (auto split: if_splits option.splits prod.splits sent.splits intro: email_effect_refl email_effect_world)

lemma cmd_email_effect: "cmd_email en c sz a = Some (r, c') \<Longrightarrow> email_effect c c'"
  unfolding cmd_email_def Let_def
  by (auto split: if_splits intro: email_effect_refl
      dest: cmd_email_allow_effect cmd_email_deny_effect cmd_email_send_effect)

definition slash_effect :: "string \<Rightarrow> 'w slash \<Rightarrow> (bool \<times> string \<times> 'w slash) option \<Rightarrow> bool" where
  "slash_effect input c x = (case x of None \<Rightarrow> True | Some (_, _, c') \<Rightarrow>
     c' = c
     \<or> input = ''/new'' \<and> c' = c\<lparr>sl_agent := map_option agent_new_conversation (sl_agent c)\<rparr>
     \<or> input = ''/skills reload'' \<and> c' = c\<lparr>sl_skills := sl_skills c'\<rparr>
     \<or> prefix ''/email'' input \<and> email_effect c c')"

lemma slash_effect_if: "(b \<Longrightarrow> slash_effect i c x) \<Longrightarrow> slash_effect i c y \<Longrightarrow> slash_effect i c (if b then x else y)"
  by simp

lemma slash_effect_intros:
  "slash_effect i c (Some (h, r, c))"
  "i = ''/new'' \<Longrightarrow> slash_effect i c (Some (h, r, c\<lparr>sl_agent := map_option agent_new_conversation (sl_agent c)\<rparr>))"
  "i = ''/skills reload'' \<Longrightarrow> slash_effect i c (map_option (\<lambda>(s, c). (h, s, c)) (Some (cmd_skills_reload en c sz)))"
  "prefix ''/email'' i \<Longrightarrow> slash_effect i c (map_option (\<lambda>(s, c). (h, s, c)) (cmd_email en c sz a))"
  by (auto simp: slash_effect_def cmd_skills_reload_def split: option.split prod.splits dest: cmd_email_effect)

lemma slash_handle_effect: "slash_effect input c (slash_handle en input c out sz)"
  unfolding slash_handle_def Let_def by (intro slash_effect_if slash_effect_intros) assumption+

text \<open>A slash command leaves every component as it was, except that \<open>/new\<close> empties the conversation,
  \<open>/skills reload\<close> replaces the skills, and an \<open>/email\<close> command may change the e-mail rules with
  their file and send mail; the rules for commands, paths and endpoints never change, and a
  consistent allowlist stays consistent.\<close>

theorem slash_changes_only:
  assumes "slash_handle en input c out sz = Some (h, r, c')"
  shows "(c' = c
      \<or> input = ''/new'' \<and> c' = c\<lparr>sl_agent := map_option agent_new_conversation (sl_agent c)\<rparr>
      \<or> input = ''/skills reload'' \<and> c' = c\<lparr>sl_skills := sl_skills c'\<rparr>
      \<or> prefix ''/email'' input \<and> c' = c\<lparr>sl_allow := sl_allow c', sl_file := sl_file c', sl_world := sl_world c'\<rparr>)
    \<and> (t \<noteq> ACL_EMAIL \<longrightarrow> map_option (\<lambda>al. al t) (sl_allow c') = map_option (\<lambda>al. al t) (sl_allow c))
    \<and> (sl_allow c = Some al \<and> acl_ok al \<longrightarrow> (\<exists>al'. sl_allow c' = Some al' \<and> acl_ok al'))"
proof -
  have "slash_effect input c (Some (h, r, c'))" using slash_handle_effect [of input c en out sz] by (simp only: assms)
  then consider "c' = c" | "input = ''/new''" "c' = c\<lparr>sl_agent := map_option agent_new_conversation (sl_agent c)\<rparr>"
    | "input = ''/skills reload''" "c' = c\<lparr>sl_skills := sl_skills c'\<rparr>" | "prefix ''/email'' input" "email_effect c c'"
    unfolding slash_effect_def option.case prod.case by blast
  then show ?thesis
  proof cases
    case 3
    then have "sl_allow c' = sl_allow c" by (cases c'; cases c) simp
    with 3 show ?thesis by simp
  next
    case 4
    then show ?thesis unfolding email_effect_def by blast
  qed simp_all
qed

lemma slash_changes_only_witness:
  "\<exists>r c'. slash_handle quiet_env ''/quit'' (bare_slash allowlist_create) [] 5 = Some (True, r, c')
     \<and> map_option (\<lambda>al. al ACL_COMMAND) (sl_allow c') = map_option (\<lambda>al. al ACL_COMMAND) (sl_allow (bare_slash allowlist_create))"
proof -
  have e: "slash_handle quiet_env ''/quit'' (bare_slash allowlist_create) [] 5 = Some (True, ''__QU'', bare_slash allowlist_create)"
    by (simp add: slash_handle_def trunc_to_def)
  from slash_changes_only [OF e, of ACL_COMMAND] e show ?thesis by blast
qed

section \<open>The rule commands\<close>

lemma slash_email:
  assumes "clean_rule p"
  shows "slash_handle en (''/email allow '' @ p) c out sz =
      map_option (\<lambda>(s, c'). (True, s, c')) (cmd_email_allow en c sz p)"
    "slash_handle en (''/email deny '' @ p) c out sz =
      map_option (\<lambda>(s, c'). (True, s, c')) (cmd_email_deny en c sz p)"
proof -
  have p: "p \<noteq> []" "\<not> isspace (last p)" "str_trim p = p"
    using assms str_trim_clean [OF assms] by (auto simp: clean_rule_def list_all_iff)
  have t: "str_trim (SP # x # w @ SP # p) = x # w @ SP # p" if "\<not> isspace x" for x w
  proof -
    have "ltrim (SP # x # w @ SP # p) = ltrim (x # w @ SP # p)" by (simp add: ltrim_def isspace_def)
    moreover have "str_trim (x # w @ SP # p) = x # w @ SP # p" using p that by (intro str_trim_id) simp
    ultimately show ?thesis by (simp add: str_trim_def)
  qed
  have a: "str_trim ('' allow '' @ p) = ''allow '' @ p" using t [of "CHR ''a''" "''llow''"] by (simp add: isspace_def)
  have d: "str_trim ('' deny '' @ p) = ''deny '' @ p" using t [of "CHR ''d''" "''eny''"] by (simp add: isspace_def)
  show "slash_handle en (''/email allow '' @ p) c out sz =
      map_option (\<lambda>(s, c'). (True, s, c')) (cmd_email_allow en c sz p)"
    using a p by (simp add: slash_handle_def cmd_email_def Let_def)
  show "slash_handle en (''/email deny '' @ p) c out sz =
      map_option (\<lambda>(s, c'). (True, s, c')) (cmd_email_deny en c sz p)"
    using d p by (simp add: slash_handle_def cmd_email_def Let_def)
qed

lemma save_rules_allow: "save_rules en c sz a f b = Some (r, c') \<Longrightarrow> sl_allow c' = sl_allow c"
  by (auto simp: save_rules_def split: option.splits prod.splits)

lemma allow_command:
  assumes "clean_rule p" "sl_allow c = Some al" "length (rules (al ACL_EMAIL)) < MAX_RULES"
    "slash_handle en (''/email allow '' @ p) c out sz = Some (h, r, c')"
  shows "sl_allow c' = Some (al(ACL_EMAIL := \<lparr>rules = rules (al ACL_EMAIL) @ [p], enabled = True\<rparr>))"
proof -
  note run = assms(4) [unfolded slash_email(1) [OF assms(1)]]
  have "p \<noteq> []" using assms(1) by (simp add: clean_rule_def)
  with assms(2,3) run have "\<exists>a f b. save_rules en (c\<lparr>sl_allow := Some (snd (allowlist_add al ACL_EMAIL p))\<rparr>) sz a f b = Some (r, c')"
    by (auto simp: cmd_email_allow_def allowlist_add_def ok_def)
  then have "sl_allow c' = Some (snd (allowlist_add al ACL_EMAIL p))" by (auto dest: save_rules_allow)
  then show ?thesis using assms(3) by (simp add: allowlist_add_def)
qed

lemma deny_command:
  assumes "clean_rule p" "sl_allow c = Some al" "remove_rule p (rules (al ACL_EMAIL)) = Some ps"
    "slash_handle en (''/email deny '' @ p) c out sz = Some (h, r, c')"
  shows "sl_allow c' = Some (al(ACL_EMAIL := \<lparr>rules = ps, enabled = (if ps = [] then False else enabled (al ACL_EMAIL))\<rparr>))"
proof -
  note run = assms(4) [unfolded slash_email(2) [OF assms(1)]]
  have p: "p \<noteq> []" using assms(1) by (simp add: clean_rule_def)
  have rm: "allowlist_remove (Some al) ACL_EMAIL (Some p) =
      (True, Some (al(ACL_EMAIL := \<lparr>rules = ps, enabled = (if ps = [] then False else enabled (al ACL_EMAIL))\<rparr>)))"
    unfolding allowlist_remove_def prod.case option.case assms(3) ..
  have "\<exists>a f b. cmd_email_deny en c sz p =
      save_rules en (c\<lparr>sl_allow := snd (allowlist_remove (Some al) ACL_EMAIL (Some p))\<rparr>) sz a f b"
    unfolding cmd_email_deny_def
    by (intro exI) (simp only: p assms(2) rm if_False option.case prod.case bool.case snd_conv)
  then obtain a f b where e: "cmd_email_deny en c sz p =
      save_rules en (c\<lparr>sl_allow := snd (allowlist_remove (Some al) ACL_EMAIL (Some p))\<rparr>) sz a f b" by blast
  have "cmd_email_deny en c sz p = Some (r, c')" using run by (cases "cmd_email_deny en c sz p") auto
  then have "save_rules en (c\<lparr>sl_allow := snd (allowlist_remove (Some al) ACL_EMAIL (Some p))\<rparr>) sz a f b = Some (r, c')"
    by (simp only: e)
  then have "sl_allow c' = snd (allowlist_remove (Some al) ACL_EMAIL (Some p))" by (auto dest: save_rules_allow)
  then show ?thesis unfolding rm by simp
qed

lemma remove_rule_snoc: "list_all (\<lambda>q. \<not> strcasecmp_eq q p) ps \<Longrightarrow> remove_rule p (ps @ [p]) = Some ps"
  by (induction ps) (auto simp: strcasecmp_eq_def)

text \<open>Allowing an address that no rule names yet and then denying it gives the allowlist that was
  there before, in every rule list and in the enforcement flag.\<close>

theorem slash_allow_deny_restores:
  assumes "acl_ok al" "sl_allow c = Some al" "clean_rule p" "length (rules (al ACL_EMAIL)) < MAX_RULES"
    "list_all (\<lambda>q. \<not> strcasecmp_eq q p) (rules (al ACL_EMAIL))"
    "slash_handle en (''/email allow '' @ p) c out sz = Some (h1, r1, c1)"
    "slash_handle en (''/email deny '' @ p) c1 out sz = Some (h2, r2, c2)"
  shows "sl_allow c1 \<noteq> Some al \<and> sl_allow c2 = Some al"
proof -
  let ?new = "al(ACL_EMAIL := \<lparr>rules = rules (al ACL_EMAIL) @ [p], enabled = True\<rparr>)"
  have c1: "sl_allow c1 = Some ?new" by (rule allow_command [OF assms(3,2,4,6)])
  have rm: "remove_rule p (rules (?new ACL_EMAIL)) = Some (rules (al ACL_EMAIL))"
    using remove_rule_snoc [OF assms(5)] by simp
  have en: "enabled (al ACL_EMAIL) = (rules (al ACL_EMAIL) \<noteq> [])" using assms(1) unfolding acl_ok_def by blast
  have same: "\<lparr>rules = rules (al ACL_EMAIL), enabled = (if rules (al ACL_EMAIL) = [] then False else True)\<rparr> = al ACL_EMAIL"
    using en by (cases "al ACL_EMAIL") auto
  have up: "?new(ACL_EMAIL := l) = al(ACL_EMAIL := l)" for l by (rule fun_upd_upd)
  have "sl_allow c2 = Some al"
    using deny_command [OF assms(3) c1 rm assms(7)] unfolding up
    by (simp only: fun_upd_same acl_list.select_convs same fun_upd_triv)
  moreover have "rules (?new ACL_EMAIL) \<noteq> rules (al ACL_EMAIL)" by simp
  then have "?new \<noteq> al" by metis
  with c1 have "sl_allow c1 \<noteq> Some al" by (simp only: option.inject not_False_eq_True)
  ultimately show ?thesis by blast
qed

lemma clean_bob: "clean_rule ''bob@x.org''"
  by (simp add: clean_rule_def isspace_def)

lemma bare_allow: "\<exists>r c1. slash_handle en (''/email allow '' @ ''bob@x.org'') (bare_slash allowlist_create) out 80 = Some (True, r, c1) \<and> sl_path c1 = None"
  unfolding slash_email(1) [OF clean_bob]
  by (simp add: cmd_email_allow_def save_rules_def bare_slash_def allowlist_add_def allowlist_create_def MAX_RULES_def ok_def)

lemma slash_allow_deny_restores_witness:
  "\<exists>h1 r1 c1 h2 r2 c2. slash_handle quiet_env (''/email allow '' @ ''bob@x.org'') (bare_slash allowlist_create) [] 80 = Some (h1, r1, c1)
    \<and> slash_handle quiet_env (''/email deny '' @ ''bob@x.org'') c1 [] 80 = Some (h2, r2, c2)
    \<and> sl_allow c1 \<noteq> Some allowlist_create \<and> sl_allow c2 = Some allowlist_create"
proof -
  let ?en = quiet_env
  have s: "sl_allow (bare_slash allowlist_create) = Some allowlist_create" by (simp add: bare_slash_def)
  have l: "length (rules (allowlist_create ACL_EMAIL)) < MAX_RULES"
    "list_all (\<lambda>q. \<not> strcasecmp_eq q ''bob@x.org'') (rules (allowlist_create ACL_EMAIL))"
    by (simp_all add: allowlist_create_def MAX_RULES_def)
  obtain r1 c1 where 1: "slash_handle ?en (''/email allow '' @ ''bob@x.org'') (bare_slash allowlist_create) [] 80 = Some (True, r1, c1)"
    "sl_path c1 = None" using bare_allow by blast
  have a1: "sl_allow c1 = Some (allowlist_create(ACL_EMAIL := \<lparr>rules = rules (allowlist_create ACL_EMAIL) @ [''bob@x.org''], enabled = True\<rparr>))"
    by (rule allow_command [OF clean_bob s l(1) 1(1)])
  have "\<exists>h2 r2 c2. slash_handle ?en (''/email deny '' @ ''bob@x.org'') c1 [] 80 = Some (h2, r2, c2)"
    unfolding slash_email(2) [OF clean_bob] using a1 1(2)
    by (auto simp: cmd_email_deny_def save_rules_def split: prod.split bool.split)
  then obtain h2 r2 c2 where 2: "slash_handle ?en (''/email deny '' @ ''bob@x.org'') c1 [] 80 = Some (h2, r2, c2)" by blast
  from slash_allow_deny_restores [OF acl_ok_create s clean_bob l 1(1) 2] 1(1) 2 show ?thesis by blast
qed

text \<open>\<open>/email deny\<close> for the only rule reports the address as removed, and from then on mail from
  and to everybody is accepted: with no rules left the e-mail list is not enforced any more.\<close>

theorem slash_deny_last_opens:
  assumes "sl_allow c = Some al" "clean_rule p" "rules (al ACL_EMAIL) = [q]" "strcasecmp_eq q p"
    "slash_handle en (''/email deny '' @ p) c out sz = Some (h, r, c')"
  shows "email_channel_is_allowed (sl_allow c') (Some ec) (Some anyone)"
proof -
  have "remove_rule p (rules (al ACL_EMAIL)) = Some []" using assms(3,4) by simp
  from deny_command [OF assms(2,1) this assms(5)] show ?thesis
    by (simp add: email_channel_is_allowed_def sender_ok_def allowlist_check_def)
qed

lemma slash_deny_last_opens_witness:
  "\<exists>h r c'. slash_handle quiet_env (''/email deny '' @ ''bob@x.org'') (bare_slash (one_rule ACL_EMAIL ''bob@x.org'')) [] 80 = Some (h, r, c')
     \<and> email_channel_is_allowed (sl_allow c') (Some test_channel) (Some ''mallory@evil.com'')"
proof -
  let ?al = "one_rule ACL_EMAIL ''bob@x.org''"
  have s: "sl_allow (bare_slash ?al) = Some ?al" by (simp add: bare_slash_def)
  have e: "strcasecmp_eq ''bob@x.org'' ''bob@x.org''" by (simp add: strcasecmp_eq_def)
  have "\<exists>h r c'. slash_handle quiet_env (''/email deny '' @ ''bob@x.org'') (bare_slash ?al) [] 80 = Some (h, r, c')"
    unfolding slash_email(2) [OF clean_bob]
    by (auto simp: cmd_email_deny_def save_rules_def bare_slash_def split: prod.split bool.split)
  then obtain h r c' where 1: "slash_handle quiet_env (''/email deny '' @ ''bob@x.org'') (bare_slash ?al) [] 80 = Some (h, r, c')"
    by blast
  from slash_deny_last_opens [OF s clean_bob one_rule_ok(2) e 1] 1 show ?thesis by blast
qed

end
