(* ===== verification/Serial_Tool.thy ===== *)
theory Serial_Tool
  imports Json
begin

text \<open>
  Model of \<open>src/tools/serial/serial_tool.c\<close>: device profiles, the read loop with its deadline, the
  login, running commands and the tool. The port is a record of operations on a world \<open>'w\<close>: the
  monotonic clock in nanoseconds, \<open>select\<close> with the quantum of 50 ms, \<open>read\<close>, \<open>write\<close> and the
  others; at most one port is open, so the descriptor is implicit. The loops return \<open>None\<close> when
  they never end.
\<close>

section \<open>Constants and data\<close>

definition SERIAL_MAX_OUTPUT_BYTES :: nat where "SERIAL_MAX_OUTPUT_BYTES = 262144"
definition SERIAL_READ_CHUNK :: nat where "SERIAL_READ_CHUNK = 512"
definition SERIAL_MAX_DEVICES :: nat where "SERIAL_MAX_DEVICES = 64"
definition SERIAL_MAX_COMMANDS :: nat where "SERIAL_MAX_COMMANDS = 32"
definition DEVICE_CONF_KEY_LEN :: nat where "DEVICE_CONF_KEY_LEN = 64"
definition DEVICE_CONF_VAL_LEN :: nat where "DEVICE_CONF_VAL_LEN = 256"

record serial_device =
  sd_name :: string
  sd_port :: string
  sd_baud :: int
  sd_username :: string
  sd_password :: string
  sd_login_prompt :: string
  sd_prompt :: string
  sd_no_login :: bool
  sd_timeout :: int
  sd_login_timeout :: int
  sd_delay_ms :: int

datatype sel = SelIntr | SelFail | SelTimeout | SelReady
datatype wrote = WroteIntr | WroteFail | Wrote nat
datatype port_stat = NoPort string | NotCharDevice | CharDevice

text \<open>
  \<open>io_read\<close> gives the bytes, none when \<open>read\<close> returned 0 or an error; \<open>io_open\<close> and
  \<open>io_setattr\<close> give the error text when they fail; \<open>io_conf\<close> is the content of \<open>device.conf\<close>.
\<close>

record 'w serial_io =
  io_now :: "'w \<Rightarrow> int \<times> 'w"
  io_select :: "'w \<Rightarrow> sel \<times> 'w"
  io_read :: "'w \<Rightarrow> string \<times> 'w"
  io_write :: "string \<Rightarrow> 'w \<Rightarrow> wrote \<times> 'w"
  io_drain :: "'w \<Rightarrow> 'w"
  io_flush :: "bool \<Rightarrow> 'w \<Rightarrow> 'w"
  io_sleep :: "int \<Rightarrow> 'w \<Rightarrow> 'w"
  io_stat :: "string \<Rightarrow> 'w \<Rightarrow> port_stat"
  io_open :: "string \<Rightarrow> 'w \<Rightarrow> string option \<times> 'w"
  io_setattr :: "int \<Rightarrow> 'w \<Rightarrow> string option \<times> 'w"
  io_close :: "'w \<Rightarrow> 'w"
  io_conf :: "'w \<Rightarrow> string option"

section \<open>Device profiles\<close>

definition default_device :: "string \<Rightarrow> serial_device" where
  "default_device name =
     \<lparr>sd_name = trunc_to DEVICE_CONF_KEY_LEN name, sd_port = '''', sd_baud = 115200, sd_username = '''',
      sd_password = '''', sd_login_prompt = '''', sd_prompt = ''#'', sd_no_login = False, sd_timeout = 10,
      sd_login_timeout = 30, sd_delay_ms = 300\<rparr>"

abbreviation blank :: "char \<Rightarrow> bool" where
  "blank c \<equiv> c = SP \<or> c = TAB"

text \<open>
  \<open>atof\<close> for decimal numbers, and the conversion of seconds to milliseconds; a value that does not
  fit an \<open>int\<close> gives what the x86 instruction gives.
\<close>

definition atof :: "string \<Rightarrow> double" where
  "atof s = (case strtod (ltrim s) of None \<Rightarrow> Fin 0 | Some (d, _) \<Rightarrow> d)"

definition delay_of :: "string \<Rightarrow> int" where
  "delay_of s =
     (case atof s of
        Inf _ \<Rightarrow> INT_MIN
      | Fin q \<Rightarrow>
          (case round_double (q * 1000) of
             Inf _ \<Rightarrow> INT_MIN
           | Fin m \<Rightarrow>
               (let i = (if m \<ge> 0 then \<lfloor>m\<rfloor> else - \<lfloor>- m\<rfloor>)
                in if i < INT_MIN \<or> INT_MAX < i then INT_MIN else i)))"

definition device_key :: "string \<Rightarrow> string \<Rightarrow> serial_device \<Rightarrow> serial_device" where
  "device_key key val d =
     (let v = trunc_to DEVICE_CONF_VAL_LEN val
      in if key = ''port'' then d\<lparr>sd_port := v\<rparr>
         else if key = ''baud'' then d\<lparr>sd_baud := atoi val\<rparr>
         else if key = ''username'' then d\<lparr>sd_username := v\<rparr>
         else if key = ''password'' then d\<lparr>sd_password := v\<rparr>
         else if key = ''login_prompt'' then d\<lparr>sd_login_prompt := v\<rparr>
         else if key = ''prompt'' then d\<lparr>sd_prompt := v\<rparr>
         else if key = ''no_login'' then d\<lparr>sd_no_login := val = ''true'' \<or> val = ''1'' \<or> val = ''yes''\<rparr>
         else if key = ''timeout'' then d\<lparr>sd_timeout := atoi val\<rparr>
         else if key = ''login_timeout'' then d\<lparr>sd_login_timeout := atoi val\<rparr>
         else if key = ''inter_cmd_delay'' then d\<lparr>sd_delay_ms := delay_of val\<rparr>
         else d)"

text \<open>One line: the devices so far, in order; the last one is the current section. \<open>None\<close> stops.\<close>

definition device_line :: "nat \<Rightarrow> string \<Rightarrow> serial_device list \<Rightarrow> serial_device list option" where
  "device_line max_devices line devs =
     (let s = rtrim_by (\<lambda>c. c = NL \<or> c = CR) (dropWhile blank line)
      in if s = '''' \<or> hd s = CHR ''#'' \<or> hd s = CHR '';'' then Some devs
         else if hd s = CHR ''['' then
           (if CHR '']'' \<notin> set s then Some devs
            else if length devs \<ge> max_devices then None
            else Some (devs @ [default_device (tl (before (CHR '']'') s))]))
         else if devs = [] then Some devs
         else case strchr (CHR ''='') s of
           None \<Rightarrow> Some devs
         | Some eq \<Rightarrow>
             Some (butlast devs @
               [device_key (rtrim_by blank (before (CHR ''='') s)) (dropWhile blank (tl eq)) (List.last devs)]))"

fun device_lines :: "nat \<Rightarrow> string list \<Rightarrow> serial_device list \<Rightarrow> serial_device list" where
  "device_lines m [] devs = devs"
| "device_lines m (l # ls) devs =
     (case device_line m (c_str l) devs of None \<Rightarrow> devs | Some devs' \<Rightarrow> device_lines m ls devs')"

definition parse_device_conf :: "string option \<Rightarrow> nat \<Rightarrow> serial_device list" where
  "parse_device_conf file m =
     (case file of None \<Rightarrow> [] | Some t \<Rightarrow> device_lines m (fgets_lines 512 t) [])"

definition device_lookup :: "string option \<Rightarrow> string \<Rightarrow> serial_device option" where
  "device_lookup file name =
     (if name = '''' then None
      else find (\<lambda>d. sd_name d = name) (parse_device_conf file SERIAL_MAX_DEVICES))"

section \<open>Opening the port\<close>

definition baud_rates :: "int list" where
  "baud_rates = [50, 75, 110, 134, 150, 200, 300, 600, 1200, 1800, 2400, 4800, 9600, 19200, 38400, 57600,
     115200, 230400, 460800, 921600]"

text \<open>The speed constant is represented by the rate it stands for.\<close>

definition baud_to_speed :: "int \<Rightarrow> int option" where
  "baud_to_speed baud = (if baud \<in> set baud_rates then Some baud else None)"

text \<open>The error, if any; otherwise the port is open.\<close>

definition serial_open :: "'w serial_io \<Rightarrow> string \<Rightarrow> int \<Rightarrow> 'w \<Rightarrow> string option \<times> 'w" where
  "serial_open io port baud w =
     (let fail = (\<lambda>m. Some (trunc_to 1024 m))
      in case io_stat io port w of
           NoPort e \<Rightarrow> (fail (''Device not found: '' @ port @ '' ('' @ e @ '')''), w)
         | NotCharDevice \<Rightarrow> (fail (port @ '' is not a character device''), w)
         | CharDevice \<Rightarrow>
             (case baud_to_speed baud of
                None \<Rightarrow> (fail (''Unsupported baud rate: '' @ int_str baud), w)
              | Some speed \<Rightarrow>
                  (case io_open io port w of
                     (Some e, w1) \<Rightarrow>
                       (fail (''Cannot open '' @ port @ '': '' @ e @ '' '' @ map char_of [0xE2, 0x80, 0x94 :: nat] @
                          '' try: sudo chmod a+rw '' @ port), w1)
                   | (None, w1) \<Rightarrow>
                       (case io_setattr io speed w1 of
                          (Some e, w2) \<Rightarrow> (fail (''tcsetattr failed on '' @ port @ '': '' @ e), io_close io w2)
                        | (None, w2) \<Rightarrow> (None, io_flush io True w2)))))"

section \<open>Escape sequences\<close>

definition csi_final :: "char \<Rightarrow> bool" where
  "csi_final c \<longleftrightarrow> 0x40 \<le> byte c \<and> byte c \<le> 0x7e"

function strip_ansi :: "string \<Rightarrow> string" where
  "strip_ansi s =
     (case s of
        [] \<Rightarrow> []
      | c # cs \<Rightarrow>
          if c \<noteq> ESC then c # strip_ansi cs
          else case cs of
            [] \<Rightarrow> []
          | d # ds \<Rightarrow>
              if d = CHR ''['' then strip_ansi (drop 1 (dropWhile (\<lambda>c. \<not> csi_final c) ds))
              else if d = CHR ''('' \<or> d = CHR '')'' then strip_ansi (drop 1 ds)
              else strip_ansi ds)"
  by pat_completeness auto
termination
proof (relation "measure length", goal_cases)
  case (3 s c cs d ds)
  have "length (dropWhile (\<lambda>c. \<not> csi_final c) ds) \<le> length ds" by (rule length_dropWhile_le)
  with 3 show ?case by simp
qed auto

declare strip_ansi.simps [simp del]

section \<open>Reading and writing\<close>

text \<open>The first of the patterns that is not empty and in the text; the text ends at a NUL byte.\<close>

definition first_match :: "string list \<Rightarrow> string \<Rightarrow> nat option" where
  "first_match pats sb = find (\<lambda>p. pats ! p \<noteq> '''' \<and> contains (c_str sb) (pats ! p)) [0..<length pats]"

definition append_capped :: "string \<Rightarrow> string \<Rightarrow> string" where
  "append_capped sb s =
     (if length sb < SERIAL_MAX_OUTPUT_BYTES then sb @ take (SERIAL_MAX_OUTPUT_BYTES - length sb) s else sb)"

partial_function (option) read_until ::
  "'w serial_io \<Rightarrow> string list \<Rightarrow> int \<Rightarrow> string \<Rightarrow> 'w \<Rightarrow> (nat option \<times> string \<times> 'w) option" where
  "read_until io pats deadline sb w =
     (case io_now io w of (t, w1) \<Rightarrow>
        if t < deadline then
          (case io_select io w1 of (s, w2) \<Rightarrow>
             if s = SelFail then Some (None, sb, w2)
             else if s = SelReady then
               (case io_read io w2 of (raw, w3) \<Rightarrow>
                  if raw = [] then read_until io pats deadline sb w3
                  else case first_match pats (append_capped sb (strip_ansi (take SERIAL_READ_CHUNK raw))) of
                    Some p \<Rightarrow> Some (Some p, append_capped sb (strip_ansi (take SERIAL_READ_CHUNK raw)), w3)
                  | None \<Rightarrow> read_until io pats deadline (append_capped sb (strip_ansi (take SERIAL_READ_CHUNK raw))) w3)
             else read_until io pats deadline sb w2)
        else Some (None, sb, w1))"

partial_function (option) write_loop :: "'w serial_io \<Rightarrow> string \<Rightarrow> 'w \<Rightarrow> (bool \<times> 'w) option" where
  "write_loop io buf w =
     (if buf = [] then Some (True, w)
      else case io_write io buf w of (r, w') \<Rightarrow>
        (case r of
           WroteIntr \<Rightarrow> write_loop io buf w'
         | WroteFail \<Rightarrow> Some (False, w')
         | Wrote n \<Rightarrow> write_loop io (drop n buf) w'))"

definition serial_send :: "'w serial_io \<Rightarrow> string \<Rightarrow> 'w \<Rightarrow> (bool \<times> 'w) option" where
  "serial_send io s w =
     (case write_loop io (s @ [CR, NL]) w of
        None \<Rightarrow> None
      | Some (True, w') \<Rightarrow> Some (True, io_drain io w')
      | Some (False, w') \<Rightarrow> Some (False, w'))"

section \<open>Login\<close>

text \<open>The last 200 bytes, as \<open>%.200s\<close> shows them.\<close>

definition tail200 :: "string \<Rightarrow> string" where
  "tail200 s = take 200 (c_str (drop (length s - 200) s))"

definition fail_words :: "string list" where
  "fail_words = [''incorrect'', ''denied'', ''failed'', ''invalid'', ''error'']"

definition login_patterns :: "serial_device \<Rightarrow> string list" where
  "login_patterns dev =
     (if sd_login_prompt dev = '''' then [] else [sd_login_prompt dev]) @
     [''login:'', ''Login:'', ''username:'', ''Username:'', sd_prompt dev]"

definition quoted :: "string \<Rightarrow> string" where
  "quoted s = [CHR 0x27] @ s @ [CHR 0x27]"

definition no_shell_error :: "serial_device \<Rightarrow> string \<Rightarrow> string" where
  "no_shell_error dev buf =
     trunc_to 1024
       (case find (\<lambda>f. contains (c_str buf) f) fail_words of
          Some f \<Rightarrow> ''Login failed (detected '' @ quoted f @ ''). Check credentials. Last: '' @ tail200 buf
        | None \<Rightarrow> ''Shell prompt '' @ quoted (sd_prompt dev) @ '' not seen after login within '' @
            int_str (sd_login_timeout dev) @ ''s. Last: '' @ tail200 buf)"

text \<open>The steps after the user name: the password when there is one, and the shell prompt.\<close>

definition login_shell ::
  "'w serial_io \<Rightarrow> serial_device \<Rightarrow> int \<Rightarrow> 'w \<Rightarrow> ((string + string) \<times> 'w) option" where
  "login_shell io dev deadline w =
     (case read_until io [sd_prompt dev] deadline '''' w of
        None \<Rightarrow> None
      | Some (Some _, buf, w1) \<Rightarrow> Some (Inr ''ok'', w1)
      | Some (None, buf, w1) \<Rightarrow> Some (Inl (no_shell_error dev buf), w1))"

definition login_password ::
  "'w serial_io \<Rightarrow> serial_device \<Rightarrow> int \<Rightarrow> 'w \<Rightarrow> ((string + string) \<times> 'w) option" where
  "login_password io dev deadline w =
     (if sd_password dev = '''' then login_shell io dev deadline w
      else case read_until io [''password:'', ''Password:''] deadline '''' w of
        None \<Rightarrow> None
      | Some (None, buf, w1) \<Rightarrow>
          Some (Inl (trunc_to 1024 (''Password prompt not found after sending username. Last: '' @ tail200 buf)), w1)
      | Some (Some _, buf, w1) \<Rightarrow>
          (case serial_send io (sd_password dev) w1 of
             None \<Rightarrow> None
           | Some (_, w2) \<Rightarrow> login_shell io dev deadline w2))"

text \<open>The error or the login status.\<close>

definition serial_login :: "'w serial_io \<Rightarrow> serial_device \<Rightarrow> 'w \<Rightarrow> ((string + string) \<times> 'w) option" where
  "serial_login io dev w =
     (if sd_no_login dev \<or> sd_username dev = '''' then Some (Inr ''skipped'', w)
      else case io_now io w of (t, w1) \<Rightarrow>
        (case serial_send io '''' w1 of
           None \<Rightarrow> None
         | Some (_, w2) \<Rightarrow>
             (case read_until io (login_patterns dev) (t + sd_login_timeout dev * 1000000000) '''' (io_sleep io 300000000 w2) of
                None \<Rightarrow> None
              | Some (None, buf, w3) \<Rightarrow>
                  Some (Inl (trunc_to 1024 (''Login prompt not found within '' @ int_str (sd_login_timeout dev) @
                    ''s. Last: '' @ tail200 buf)), w3)
              | Some (Some i, buf, w3) \<Rightarrow>
                  if i = length (login_patterns dev) - 1 then Some (Inr ''already_authenticated'', w3)
                  else (case serial_send io (sd_username dev) w3 of
                    None \<Rightarrow> None
                  | Some (_, w4) \<Rightarrow> login_password io dev (t + sd_login_timeout dev * 1000000000) w4))))"

section \<open>Running a command\<close>

record cmd_result =
  cr_command :: string
  cr_output :: string
  cr_status :: string

text \<open>The lines of the output without their newlines; the last one only if it is not empty.\<close>

fun out_lines :: "string \<Rightarrow> string \<Rightarrow> string list" where
  "out_lines acc [] = (if acc = [] then [] else [rev acc])"
| "out_lines acc (c # cs) = (if c = NL then rev acc # out_lines [] cs else out_lines (c # acc) cs)"

definition drop_cr :: "string \<Rightarrow> string" where
  "drop_cr line = (if line \<noteq> [] \<and> List.last line = CR then butlast line else line)"

text \<open>One line: whether the echo has been removed, and the text so far.\<close>

definition clean_line :: "string \<Rightarrow> string \<Rightarrow> string \<Rightarrow> bool \<times> string \<Rightarrow> bool \<times> string" where
  "clean_line command prompt l st =
     (case st of (echo_removed, cleaned) \<Rightarrow>
        (let line = drop_cr l; trimmed = dropWhile blank line
         in if \<not> echo_removed \<and> contains trimmed command then (True, cleaned)
            else if trimmed = prompt then st
            else (echo_removed, (if cleaned = [] then line else cleaned @ [NL] @ line))))"

definition trim_end :: "char \<Rightarrow> bool" where
  "trim_end c \<longleftrightarrow> c = NL \<or> c = CR \<or> c = SP"

definition clean_output :: "string \<Rightarrow> string \<Rightarrow> string \<Rightarrow> string" where
  "clean_output command prompt buf =
     rtrim_by trim_end (dropWhile trim_end
       (snd (fold (clean_line command prompt) (out_lines [] (c_str buf)) (False, ''''))))"

definition run_one_command ::
  "'w serial_io \<Rightarrow> string \<Rightarrow> string \<Rightarrow> int \<Rightarrow> 'w \<Rightarrow> (cmd_result \<times> 'w) option" where
  "run_one_command io command prompt timeout_sec w =
     (case io_now io w of (t, w1) \<Rightarrow>
        (case serial_send io command (io_flush io False w1) of
           None \<Rightarrow> None
         | Some (False, w2) \<Rightarrow>
             Some (\<lparr>cr_command = trunc_to 1024 command, cr_output = ''write failed'', cr_status = ''error''\<rparr>, w2)
         | Some (True, w2) \<Rightarrow>
             (case read_until io [prompt] (t + timeout_sec * 1000000000) '''' w2 of
                None \<Rightarrow> None
              | Some (m, buf, w3) \<Rightarrow>
                  Some (\<lparr>cr_command = trunc_to 1024 command, cr_output = clean_output command prompt buf,
                         cr_status = (if m = None then ''timeout'' else ''ok'')\<rparr>, w3))))"

fun run_commands ::
  "'w serial_io \<Rightarrow> serial_device \<Rightarrow> string list \<Rightarrow> 'w \<Rightarrow> (cmd_result list \<times> 'w) option" where
  "run_commands io dev [] w = Some ([], w)"
| "run_commands io dev (c # cs) w =
     (case run_one_command io c (sd_prompt dev) (sd_timeout dev) w of
        None \<Rightarrow> None
      | Some (r, w1) \<Rightarrow>
          (let w2 = (if cs \<noteq> [] \<and> 0 < sd_delay_ms dev then io_sleep io (sd_delay_ms dev * 1000000) w1 else w1)
           in case run_commands io dev cs w2 of
                None \<Rightarrow> None
              | Some (rs, w3) \<Rightarrow> Some (r # rs, w3)))"

section \<open>The tool\<close>

definition json_err :: "string \<Rightarrow> string" where
  "json_err m = cJSON_PrintUnformatted (JObject [(''status'', JString ''error''), (''error'', JString m)])"

definition result_item :: "cmd_result \<Rightarrow> json" where
  "result_item r = JObject [(''command'', JString (cr_command r)), (''output'', JString (cr_output r)),
     (''status'', JString (cr_status r))]"

definition build_result ::
  "string \<Rightarrow> string option \<Rightarrow> serial_device \<Rightarrow> string \<Rightarrow> cmd_result list \<Rightarrow> string \<Rightarrow> int \<Rightarrow> string" where
  "build_result status device_name dev login_status results error_msg elapsed_ms =
     cJSON_PrintUnformatted (JObject
       ([(''status'', JString status)] @
        (case device_name of None \<Rightarrow> [] | Some n \<Rightarrow> if n = '''' then [] else [(''device'', JString n)]) @
        [(''port'', JString (sd_port dev)), (''baud'', JInt (sd_baud dev)),
         (''login_status'', JString login_status),
         (''commands'', JArray (map (\<lambda>r. JString (cr_command r)) results)),
         (''results'', JArray (map result_item results))] @
        (if error_msg = '''' then [] else [(''error'', JString error_msg)]) @
        [(''elapsed_ms'', JInt elapsed_ms)]))"

text \<open>The arguments that override the profile.\<close>

definition str_over :: "json option \<Rightarrow> string \<Rightarrow> string \<Rightarrow> string" where
  "str_over args k old = (case get_str args k of None \<Rightarrow> old | Some s \<Rightarrow> trunc_to DEVICE_CONF_VAL_LEN s)"

definition int_over :: "json option \<Rightarrow> string \<Rightarrow> int \<Rightarrow> int" where
  "int_over args k old =
     (let v = cJSON_GetObjectItem args k in if cJSON_IsNumber v then valueint v else old)"

definition with_args :: "json option \<Rightarrow> serial_device \<Rightarrow> serial_device" where
  "with_args args d =
     d\<lparr>sd_port := (if get_str args ''port'' = Some '''' then sd_port d else str_over args ''port'' (sd_port d)),
       sd_baud := int_over args ''baud'' (sd_baud d),
       sd_username := str_over args ''username'' (sd_username d),
       sd_password := str_over args ''password'' (sd_password d),
       sd_login_prompt := str_over args ''login_prompt'' (sd_login_prompt d),
       sd_prompt := str_over args ''prompt'' (sd_prompt d),
       sd_no_login := (case cJSON_GetObjectItem args ''no_login'' of Some (JBool b) \<Rightarrow> b | _ \<Rightarrow> sd_no_login d),
       sd_timeout := int_over args ''timeout'' (sd_timeout d),
       sd_login_timeout := int_over args ''login_timeout'' (sd_login_timeout d),
       sd_delay_ms := int_over args ''inter_cmd_delay_ms'' (sd_delay_ms d)\<rparr>"

definition overall_step :: "cmd_result \<Rightarrow> string \<times> string \<Rightarrow> string \<times> string" where
  "overall_step r st =
     (case st of (overall, detail) \<Rightarrow>
        (let sep = (if detail = '''' then '''' else detail @ ''; '')
         in if cr_status r = ''error'' then (''error'', sep @ ''error: '' @ cr_command r)
            else if cr_status r = ''timeout'' \<and> overall \<noteq> ''error'' then (''timeout'', sep @ ''timeout: '' @ cr_command r)
            else st))"

definition tool_commands :: "json option \<Rightarrow> string list" where
  "tool_commands args =
     (case cJSON_GetObjectItem args ''commands'' of
        Some (JArray vs) \<Rightarrow>
          map (\<lambda>j. case j of JString s \<Rightarrow> s | _ \<Rightarrow> '''') (take SERIAL_MAX_COMMANDS vs)
      | _ \<Rightarrow> [])"

text \<open>The part with the open port: the login and the commands.\<close>

definition serial_session ::
  "'w serial_io \<Rightarrow> string option \<Rightarrow> serial_device \<Rightarrow> string list \<Rightarrow> int \<Rightarrow> 'w \<Rightarrow> (string \<times> 'w) option" where
  "serial_session io name dev cmds t0 w =
     (case serial_login io dev w of
        None \<Rightarrow> None
      | Some (Inl e, w1) \<Rightarrow>
          (case io_now io (io_close io w1) of (t, w2) \<Rightarrow>
             Some (build_result ''login_failed'' name dev ''failed'' [] e ((t - t0) div 1000000), w2))
      | Some (Inr ls, w1) \<Rightarrow>
          (case run_commands io dev cmds w1 of
             None \<Rightarrow> None
           | Some (rs, w2) \<Rightarrow>
               (case io_now io (io_close io w2) of (t, w3) \<Rightarrow>
                  (let (overall, detail) = fold overall_step rs (''ok'', '''')
                   in Some (build_result overall name dev ls rs detail ((t - t0) div 1000000), w3)))))"

definition conf_path_note :: "string \<Rightarrow> string \<Rightarrow> string" where
  "conf_path_note name path = trunc_to 1024 (''Device '' @ quoted name @ '' not found in '' @ path)"

definition serial_execute :: "'w serial_io \<Rightarrow> string \<Rightarrow> json option \<Rightarrow> 'w \<Rightarrow> (string \<times> 'w) option" where
  "serial_execute io conf_path args w0 =
     (case io_now io w0 of (t0, w) \<Rightarrow>
        (let name = (case get_str args ''device'' of None \<Rightarrow> None | Some n \<Rightarrow> if n = '''' then None else Some n)
         in case (case name of None \<Rightarrow> Some (default_device '''') | Some n \<Rightarrow> device_lookup (io_conf io w) n) of
              None \<Rightarrow> Some (json_err (conf_path_note (the name) conf_path), w)
            | Some prof \<Rightarrow>
                (let dev = with_args args prof; cmds = tool_commands args
                 in if sd_port dev = '''' then
                      Some (json_err (quoted ''port'' @ '' is required (or specify a '' @ quoted ''device'' @ '' name)''), w)
                    else if sd_prompt dev = '''' then Some (json_err (quoted ''prompt'' @ '' is required''), w)
                    else if cmds = [] then
                      Some (json_err (quoted ''commands'' @ '' array is required and must be non-empty''), w)
                    else case serial_open io (sd_port dev) (sd_baud dev) w of
                      (Some e, w1) \<Rightarrow> Some (json_err e, w1)
                    | (None, w1) \<Rightarrow> serial_session io name dev cmds t0 w1)))"

text \<open>The path \<open>serial_tool_register\<close> keeps.\<close>

definition conf_path_set :: "string option \<Rightarrow> string \<Rightarrow> string" where
  "conf_path_set path old = (case path of None \<Rightarrow> old | Some p \<Rightarrow> if p = '''' then old else trunc_to 512 p)"

section \<open>The port\<close>

text \<open>
  What the tool relies on: the monotonic clock advances with every reading and is never set back,
  \<open>write\<close> makes progress or fails, and only \<open>open\<close> and \<open>close\<close> change the number of open ports.
  The functions that only some calls use are listed with what they keep.
\<close>

definition clock_ok :: "'w serial_io \<Rightarrow> ('w \<Rightarrow> int) \<Rightarrow> bool" where
  "clock_ok io clock \<longleftrightarrow> (\<forall>w. fst (io_now io w) = clock w \<and> clock w < clock (snd (io_now io w))
     \<and> clock w \<le> clock (snd (io_select io w)) \<and> clock w \<le> clock (snd (io_read io w)))"

definition write_ok :: "'w serial_io \<Rightarrow> bool" where
  "write_ok io \<longleftrightarrow> (\<forall>buf w. buf \<noteq> [] \<longrightarrow> fst (io_write io buf w) \<noteq> WroteIntr \<and> fst (io_write io buf w) \<noteq> Wrote 0)"

definition ports_ok :: "'w serial_io \<Rightarrow> ('w \<Rightarrow> nat) \<Rightarrow> bool" where
  "ports_ok io n \<longleftrightarrow> (\<forall>w. n (snd (io_now io w)) = n w \<and> n (snd (io_select io w)) = n w \<and> n (snd (io_read io w)) = n w
     \<and> n (io_drain io w) = n w \<and> (\<forall>b. n (io_flush io b w) = n w) \<and> (\<forall>t. n (io_sleep io t w) = n w)
     \<and> (\<forall>buf. n (snd (io_write io buf w)) = n w) \<and> (\<forall>s. n (snd (io_setattr io s w)) = n w)
     \<and> (\<forall>p. n (snd (io_open io p w)) = (if fst (io_open io p w) = None then Suc (n w) else n w))
     \<and> n (io_close io w) = n w - 1)"

definition port_ok :: "'w serial_io \<Rightarrow> ('w \<Rightarrow> int) \<Rightarrow> ('w \<Rightarrow> nat) \<Rightarrow> bool" where
  "port_ok io clock n \<longleftrightarrow> clock_ok io clock \<and> write_ok io \<and> ports_ok io n"

text \<open>What \<open>read_until\<close> reports about the buffer it returns.\<close>

definition read_result :: "'w serial_io \<Rightarrow> ('w \<Rightarrow> int) \<Rightarrow> string list \<Rightarrow> int \<Rightarrow> nat option \<Rightarrow> string \<Rightarrow> 'w \<Rightarrow> bool" where
  "read_result io clock pats deadline m sb w =
     (case m of
        Some p \<Rightarrow> first_match pats sb = Some p
      | None \<Rightarrow> deadline \<le> clock w \<or> (\<exists>v. io_select io v = (SelFail, w)))"

lemma append_capped_length: "length sb \<le> SERIAL_MAX_OUTPUT_BYTES \<Longrightarrow> length (append_capped sb s) \<le> SERIAL_MAX_OUTPUT_BYTES"
  by (auto simp: append_capped_def)

lemma append_capped_prefix: "prefix sb (append_capped sb s)"
  by (simp add: append_capped_def)

lemma read_until_returns:
  assumes "clock_ok io clock" "length sb \<le> SERIAL_MAX_OUTPUT_BYTES"
  shows "\<exists>m sb' w'. read_until io pats deadline sb w = Some (m, sb', w')
    \<and> read_result io clock pats deadline m sb' w' \<and> prefix sb sb' \<and> length sb' \<le> SERIAL_MAX_OUTPUT_BYTES
    \<and> (ports_ok io n \<longrightarrow> n w' = n w)"
  using assms(2)
proof (induction "nat (deadline - clock w)" arbitrary: sb w rule: less_induct)
  case less
  obtain t w1 where now: "io_now io w = (t, w1)" by fastforce
  obtain s w2 where sl: "io_select io w1 = (s, w2)" by fastforce
  obtain raw w3 where rd: "io_read io w2 = (raw, w3)" by fastforce
  have t: "t = clock w" "clock w < clock w1" "clock w1 \<le> clock w2" "clock w2 \<le> clock w3"
    using assms(1) now sl rd unfolding clock_ok_def by (metis fst_conv snd_conv)+
  have n: "ports_ok io n \<longrightarrow> n w1 = n w \<and> n w2 = n w \<and> n w3 = n w"
    using now sl rd unfolding ports_ok_def by (metis snd_conv)
  let ?sb = "append_capped sb (strip_ansi (take SERIAL_READ_CHUNK raw))"
  show ?case
  proof (cases "t < deadline")
    case False
    with now t n less.prems show ?thesis
      by (subst read_until.simps) (auto simp: read_result_def)
  next
    case True
    have again: "clock w < clock v \<Longrightarrow> length sb0 \<le> SERIAL_MAX_OUTPUT_BYTES \<Longrightarrow> prefix sb sb0 \<Longrightarrow> (ports_ok io n \<longrightarrow> n v = n w) \<Longrightarrow>
      \<exists>m sb' w'. read_until io pats deadline sb0 v = Some (m, sb', w')
        \<and> read_result io clock pats deadline m sb' w' \<and> prefix sb sb' \<and> length sb' \<le> SERIAL_MAX_OUTPUT_BYTES
        \<and> (ports_ok io n \<longrightarrow> n w' = n w)" for v sb0
      using less.hyps [of v sb0] True t(1) prefix_order.order_trans [of sb sb0] by fastforce
    consider "s = SelFail" | "s = SelReady" "raw = []" | "s = SelReady" "raw \<noteq> []" "first_match pats ?sb = None"
      | p where "s = SelReady" "raw \<noteq> []" "first_match pats ?sb = Some p" | "s = SelIntr" | "s = SelTimeout"
      by (cases s) auto
    then show ?thesis
    proof cases
      case 1
      with now sl True n less.prems show ?thesis
        by (subst read_until.simps) (auto simp: read_result_def)
    next
      case 2
      have "read_until io pats deadline sb w = read_until io pats deadline sb w3"
        using now sl rd True 2 by (subst read_until.simps) simp
      with again [of w3 sb] t n less.prems show ?thesis by simp
    next
      case 3
      have "read_until io pats deadline sb w = read_until io pats deadline ?sb w3"
        using now sl rd True 3 by (subst read_until.simps) simp
      with again [of w3 ?sb] t n less.prems show ?thesis
        by (simp add: append_capped_length append_capped_prefix)
    next
      case 4
      have "read_until io pats deadline sb w = Some (Some p, ?sb, w3)"
        using now sl rd True 4 by (subst read_until.simps) simp
      with 4 n less.prems show ?thesis
        by (simp add: append_capped_length append_capped_prefix read_result_def)
    next
      case 5
      have "read_until io pats deadline sb w = read_until io pats deadline sb w2"
        using now sl True 5 by (subst read_until.simps) simp
      with again [of w2 sb] t n less.prems show ?thesis by simp
    next
      case 6
      have "read_until io pats deadline sb w = read_until io pats deadline sb w2"
        using now sl True 6 by (subst read_until.simps) simp
      with again [of w2 sb] t n less.prems show ?thesis by simp
    qed
  qed
qed

lemma write_loop_returns:
  assumes "write_ok io"
  shows "\<exists>b w'. write_loop io buf w = Some (b, w') \<and> (ports_ok io n \<longrightarrow> n w' = n w)"
proof (induction "length buf" arbitrary: buf w rule: less_induct)
  case less
  show ?case
  proof (cases "buf = []")
    case False
    obtain r w1 where wr: "io_write io buf w = (r, w1)" by fastforce
    have r: "r \<noteq> WroteIntr" "r \<noteq> Wrote 0" "ports_ok io n \<longrightarrow> n w1 = n w"
      using assms wr False unfolding write_ok_def ports_ok_def by (metis fst_conv snd_conv)+
    show ?thesis
    proof (cases r)
      case (Wrote k)
      with r have "length (drop k buf) < length buf" using False by (cases k) auto
      from less.hyps [OF this, of w1] wr Wrote False r show ?thesis
        by (subst write_loop.simps) auto
    next
      case WroteFail
      then have "write_loop io buf w = Some (False, w1)" using wr False by (subst write_loop.simps) simp
      with r show ?thesis by blast
    qed (use r in simp)
  qed (subst write_loop.simps, auto)
qed

lemma serial_send_returns:
  assumes "write_ok io"
  shows "\<exists>b w'. serial_send io s w = Some (b, w') \<and> (ports_ok io n \<longrightarrow> n w' = n w)"
proof -
  obtain b w' where "write_loop io (s @ [CR, NL]) w = Some (b, w')" "ports_ok io n \<longrightarrow> n w' = n w"
    using write_loop_returns [OF assms] by blast
  then show ?thesis by (cases b) (auto simp: serial_send_def ports_ok_def)
qed

lemmas port_unfold = port_ok_def clock_ok_def write_ok_def ports_ok_def

text \<open>A step of the session that always returns and leaves the number of open ports alone.\<close>

definition returns :: "('w \<Rightarrow> nat) \<Rightarrow> ('w \<Rightarrow> ('a \<times> 'w) option) \<Rightarrow> bool" where
  "returns n f \<longleftrightarrow> (\<forall>w. \<exists>a w'. f w = Some (a, w') \<and> n w' = n w)"

lemma returnsI: "(\<And>w. \<exists>a w'. f w = Some (a, w') \<and> n w' = n w) \<Longrightarrow> returns n f"
  by (simp add: returns_def)

lemma returnsE: "returns n f \<Longrightarrow> (\<And>a w'. f w = Some (a, w') \<Longrightarrow> n w' = n w \<Longrightarrow> thesis) \<Longrightarrow> thesis"
  by (auto simp: returns_def)

lemma io_keeps:
  assumes "port_ok io clock n"
  shows "n (snd (io_now io w)) = n w" "n (io_flush io b w) = n w" "n (io_sleep io t w) = n w"
    "io_now io w = (t0, w') \<Longrightarrow> n w' = n w"
  using assms unfolding port_ok_def ports_ok_def by (metis snd_conv)+

lemma read_until_keeps:
  assumes "port_ok io clock n"
  obtains m buf w' where "read_until io pats deadline '''' w = Some (m, buf, w')" "n w' = n w"
proof -
  have "clock_ok io clock" "ports_ok io n" using assms by (simp_all add: port_ok_def)
  with read_until_returns [of io clock "[]" pats deadline w n] that show thesis by fastforce
qed

lemma serial_send_keeps:
  assumes "port_ok io clock n"
  obtains b w' where "serial_send io s w = Some (b, w')" "n w' = n w"
proof -
  have "write_ok io" "ports_ok io n" using assms by (simp_all add: port_ok_def)
  with serial_send_returns [of io s w n] that show thesis by blast
qed

lemma login_shell_returns: "port_ok io clock n \<Longrightarrow> returns n (login_shell io dev deadline)"
proof (rule returnsI)
  fix w assume p: "port_ok io clock n"
  obtain m buf w' where "read_until io [sd_prompt dev] deadline '''' w = Some (m, buf, w')" "n w' = n w"
    by (rule read_until_keeps [OF p])
  then show "\<exists>a w'. login_shell io dev deadline w = Some (a, w') \<and> n w' = n w"
    by (cases m) (auto simp: login_shell_def)
qed

lemma login_password_returns: "port_ok io clock n \<Longrightarrow> returns n (login_password io dev deadline)"
proof (rule returnsI)
  fix w assume p: "port_ok io clock n"
  obtain m buf w1 where r: "read_until io [''password:'', ''Password:''] deadline '''' w = Some (m, buf, w1)" "n w1 = n w"
    by (rule read_until_keeps [OF p])
  obtain b w2 where s: "serial_send io (sd_password dev) w1 = Some (b, w2)" "n w2 = n w1"
    by (rule serial_send_keeps [OF p])
  obtain a w3 where l: "login_shell io dev deadline w2 = Some (a, w3)" "n w3 = n w2"
    by (rule returnsE [OF login_shell_returns [OF p]])
  obtain a' w4 where l': "login_shell io dev deadline w = Some (a', w4)" "n w4 = n w"
    by (rule returnsE [OF login_shell_returns [OF p]])
  show "\<exists>a w'. login_password io dev deadline w = Some (a, w') \<and> n w' = n w"
    using r s l l' by (cases m) (auto simp: login_password_def)
qed

lemma serial_login_returns: "port_ok io clock n \<Longrightarrow> returns n (serial_login io dev)"
proof (rule returnsI)
  fix w assume p: "port_ok io clock n"
  obtain t w1 where now: "io_now io w = (t, w1)" by fastforce
  obtain b w2 where s: "serial_send io '''' w1 = Some (b, w2)" "n w2 = n w1"
    by (rule serial_send_keeps [OF p])
  obtain m buf w3 where r: "read_until io (login_patterns dev) (t + sd_login_timeout dev * 1000000000) ''''
      (io_sleep io 300000000 w2) = Some (m, buf, w3)" "n w3 = n (io_sleep io 300000000 w2)"
    by (rule read_until_keeps [OF p])
  obtain b' w4 where s': "serial_send io (sd_username dev) w3 = Some (b', w4)" "n w4 = n w3"
    by (rule serial_send_keeps [OF p])
  obtain a w5 where l: "login_password io dev (t + sd_login_timeout dev * 1000000000) w4 = Some (a, w5)" "n w5 = n w4"
    by (rule returnsE [OF login_password_returns [OF p]])
  have "n w1 = n w" "n (io_sleep io 300000000 w2) = n w2" using io_keeps [OF p] now by blast+
  with r s s' l show "\<exists>a w'. serial_login io dev w = Some (a, w') \<and> n w' = n w"
    by (cases m) (simp_all add: serial_login_def now)
qed

lemma run_one_command_returns: "port_ok io clock n \<Longrightarrow> returns n (run_one_command io c prompt timeout)"
proof (rule returnsI)
  fix w assume p: "port_ok io clock n"
  obtain t w1 where now: "io_now io w = (t, w1)" by fastforce
  obtain b w2 where s: "serial_send io c (io_flush io False w1) = Some (b, w2)" "n w2 = n (io_flush io False w1)"
    by (rule serial_send_keeps [OF p])
  obtain m buf w3 where r: "read_until io [prompt] (t + timeout * 1000000000) '''' w2 = Some (m, buf, w3)" "n w3 = n w2"
    by (rule read_until_keeps [OF p])
  have "n w1 = n w" "n (io_flush io False w1) = n w1" using io_keeps [OF p] now by blast+
  with r s show "\<exists>a w'. run_one_command io c prompt timeout w = Some (a, w') \<and> n w' = n w"
    by (cases b) (simp_all add: run_one_command_def now)
qed

lemma run_commands_returns: "port_ok io clock n \<Longrightarrow> returns n (run_commands io dev cs)"
proof (induction cs)
  case (Cons c cs)
  note p = Cons.prems
  show ?case
  proof (rule returnsI)
    fix w
    obtain r w1 where r: "run_one_command io c (sd_prompt dev) (sd_timeout dev) w = Some (r, w1)" "n w1 = n w"
      by (rule returnsE [OF run_one_command_returns [OF p]])
    let ?w2 = "if cs \<noteq> [] \<and> 0 < sd_delay_ms dev then io_sleep io (sd_delay_ms dev * 1000000) w1 else w1"
    obtain rs w3 where rs: "run_commands io dev cs ?w2 = Some (rs, w3)" "n w3 = n ?w2"
      by (rule returnsE [OF Cons.IH [OF p]])
    have "n ?w2 = n w1" using io_keeps(3) [OF p] by simp
    with r rs show "\<exists>a w'. run_commands io dev (c # cs) w = Some (a, w') \<and> n w' = n w"
      by (simp add: Let_def)
  qed
qed (simp add: returns_def)

lemma serial_session_returns:
  assumes "port_ok io clock n" "0 < n w"
  shows "\<exists>j w'. serial_session io name dev cmds t0 w = Some (j, w') \<and> n w' = n w - 1"
proof -
  have close: "n (io_close io v) = n v - 1" for v using assms(1) by (simp add: port_ok_def ports_ok_def)
  obtain a w1 where l: "serial_login io dev w = Some (a, w1)" "n w1 = n w"
    by (rule returnsE [OF serial_login_returns [OF assms(1)]])
  show ?thesis
  proof (cases a)
    case (Inl e)
    then show ?thesis using l close io_keeps(1) [OF assms(1), of "io_close io w1"]
      by (auto simp: serial_session_def split: prod.split)
  next
    case (Inr ls)
    obtain rs w2 where r: "run_commands io dev cmds w1 = Some (rs, w2)" "n w2 = n w1"
      by (rule returnsE [OF run_commands_returns [OF assms(1)]])
    with Inr l show ?thesis using close io_keeps(1) [OF assms(1), of "io_close io w2"]
      by (auto simp: serial_session_def split: prod.split)
  qed
qed

lemma serial_open_ports:
  assumes "port_ok io clock n"
  shows "n (snd (serial_open io port baud w)) = (if fst (serial_open io port baud w) = None then Suc (n w) else n w)"
proof -
  have p: "\<And>s w. n (snd (io_setattr io s w)) = n w" "\<And>w. n (io_flush io True w) = n w"
    "\<And>p w. n (snd (io_open io p w)) = (if fst (io_open io p w) = None then Suc (n w) else n w)"
    "\<And>w. n (io_close io w) = n w - 1"
    using assms by (simp_all add: port_ok_def ports_ok_def)
  obtain e w1 where o1: "io_open io port w = (e, w1)" by fastforce
  show ?thesis
  proof (cases "io_stat io port w = CharDevice \<and> baud_to_speed baud \<noteq> None \<and> e = None")
    case True
    then obtain speed where sp: "baud_to_speed baud = Some speed" by blast
    obtain e2 w2 where s2: "io_setattr io speed w1 = (e2, w2)" by fastforce
    have "n w2 = Suc (n w)" using p(1) [of speed w1] p(3) [of port w] o1 s2 True by simp
    with True o1 s2 sp p show ?thesis by (cases e2) (simp_all add: serial_open_def)
  next
    case False
    with o1 p(3) [of port w] show ?thesis
      by (auto simp: serial_open_def Let_def split: port_stat.split option.split prod.split)
  qed
qed

text \<open>C22: A call of \<open>serial_exec\<close> always returns, whatever the device sends or keeps back, as long as
  the clock advances and \<open>write\<close> makes progress; and on every path, a refused argument, a failed login
  or a command that timed out included, every port it opened is closed again.\<close>

theorem serial_execute_returns_closed:
  assumes "port_ok io clock n"
  shows "\<exists>j w'. serial_execute io path args w = Some (j, w') \<and> n w' = n w"
proof -
  obtain t0 w1 where now: "io_now io w = (t0, w1)" by fastforce
  have nw1: "n w1 = n w" using io_keeps(4) [OF assms now] .
  have opened: "\<exists>j w'. (case serial_open io port baud w1 of (Some e, w1) \<Rightarrow> Some (json_err e, w1)
      | (None, w1) \<Rightarrow> serial_session io name dev cmds t0 w1) = Some (j, w') \<and> n w' = n w" for port baud name dev cmds
  proof -
    obtain e w2 where o1: "serial_open io port baud w1 = (e, w2)" by fastforce
    show ?thesis
    proof (cases e)
      case None
      with serial_open_ports [OF assms, of port baud w1] o1 have "n w2 = Suc (n w)" using nw1 by simp
      with serial_session_returns [OF assms, of w2 name dev cmds t0] o1 None show ?thesis by simp
    next
      case (Some m)
      with serial_open_ports [OF assms, of port baud w1] o1 have "n w2 = n w" using nw1 by simp
      with o1 Some show ?thesis by simp
    qed
  qed
  show ?thesis
    unfolding serial_execute_def now prod.case Let_def
    using opened nw1 by (auto split: option.split)
qed

text \<open>A port on which nothing is ever received: the clock and the number of open ports.\<close>

definition silent_port :: "(int \<times> nat) serial_io" where
  "silent_port = \<lparr>io_now = (\<lambda>(t, n). (t, (t + 1, n))), io_select = (\<lambda>(t, n). (SelTimeout, (t + 50000000, n))),
     io_read = (\<lambda>w. ([], w)), io_write = (\<lambda>buf w. (Wrote (length buf), w)), io_drain = (\<lambda>w. w),
     io_flush = (\<lambda>b w. w), io_sleep = (\<lambda>ns (t, n). (t + ns, n)), io_stat = (\<lambda>p w. CharDevice),
     io_open = (\<lambda>p (t, n). (None, (t, Suc n))), io_setattr = (\<lambda>s w. (None, w)),
     io_close = (\<lambda>(t, n). (t, n - 1)), io_conf = (\<lambda>w. None)\<rparr>"

lemma silent_port_ok: "port_ok silent_port fst snd"
  by (auto simp: port_unfold silent_port_def)

lemma serial_execute_returns_closed_witness:
  "\<exists>j w'. serial_execute silent_port [] (Some (JObject [(''port'', JString ''/dev/ttyS0''),
      (''commands'', JArray [JString ''uname'', JString ''id''])])) (0, 0) = Some (j, w') \<and> snd w' = 0"
  using serial_execute_returns_closed [OF silent_port_ok, of "[]" "Some (JObject [(''port'', JString ''/dev/ttyS0''),
      (''commands'', JArray [JString ''uname'', JString ''id''])])" "(0, 0)"] by (simp only: snd_conv)

section \<open>What a command shows\<close>

lemma out_lines_line: "NL \<notin> set l \<Longrightarrow> out_lines acc (l @ NL # s) = (rev acc @ l) # out_lines [] s"
  by (induction l arbitrary: acc) auto

lemma out_lines_end: "NL \<notin> set l \<Longrightarrow> out_lines acc l = (if acc = [] \<and> l = [] then [] else [rev acc @ l])"
  by (induction l arbitrary: acc) auto

text \<open>A line of text: no newline, no NUL, no carriage return.\<close>

definition text_line :: "string \<Rightarrow> bool" where
  "text_line l \<longleftrightarrow> NL \<notin> set l \<and> NUL \<notin> set l \<and> CR \<notin> set l"

lemma drop_cr_line: "drop_cr (l @ [CR]) = l" "CR \<notin> set l \<Longrightarrow> drop_cr l = l"
  by (auto simp: drop_cr_def dest: last_in_set)

lemma out_lines_crlf:
  "list_all text_line ls \<Longrightarrow> out_lines [] (concat (map (\<lambda>l. l @ [CR, NL]) ls) @ s) = map (\<lambda>l. l @ [CR]) ls @ out_lines [] s"
proof (induction ls)
  case (Cons l ls)
  then have "NL \<notin> set (l @ [CR])" by (simp add: text_line_def)
  from out_lines_line [OF this, of "[]"] Cons show ?case by simp
qed simp

lemma clean_line_text:
  "text_line l \<Longrightarrow> dropWhile blank l \<noteq> prompt \<Longrightarrow>
   clean_line command prompt (l @ [CR]) (True, cleaned) = (True, if cleaned = [] then l else cleaned @ [NL] @ l)"
  by (simp add: clean_line_def drop_cr_line Let_def)

lemma clean_lines_more:
  assumes "list_all text_line ls" "list_all (\<lambda>l. dropWhile blank l \<noteq> prompt) ls" "cleaned \<noteq> []"
  shows "fold (clean_line command prompt) (map (\<lambda>l. l @ [CR]) ls) (True, cleaned) =
    (True, cleaned @ concat (map (\<lambda>l. NL # l) ls))"
  using assms
proof (induction ls arbitrary: cleaned)
  case (Cons l ls)
  then show ?case by (simp add: clean_line_text)
qed simp

lemma join_nl: "join [NL] (l # ls) = l @ concat (map (\<lambda>l. NL # l) ls)"
  by (induction ls arbitrary: l) auto

lemma dropWhile_nonblank: "s \<noteq> [] \<Longrightarrow> \<not> P (hd s) \<Longrightarrow> \<exists>q. dropWhile P (p @ s) = q @ s"
  by (induction p) (auto simp: neq_Nil_conv)

lemma last_join: "ls \<noteq> [] \<Longrightarrow> List.last ls \<noteq> [] \<Longrightarrow> List.last (join [NL] ls) = List.last (List.last ls) \<and> join [NL] ls \<noteq> []"
proof (induction "[NL]" ls rule: join.induct)
  case (3 s t ss)
  then show ?case by simp
qed simp_all



section \<open>Escape sequences across reads\<close>

lemma strip_ansi_plain: "ESC \<notin> set s \<Longrightarrow> strip_ansi (s @ t) = s @ strip_ansi t"
proof (induction s)
  case (Cons c s)
  then show ?case by (subst strip_ansi.simps) auto
qed simp

lemma strip_ansi_Nil: "strip_ansi [] = []"
  by (subst strip_ansi.simps) simp

text \<open>A colour sequence that two reads split leaves its end in the output.\<close>

lemma strip_ansi_split:
  "strip_ansi (ESC # ''[31m'') = []" "strip_ansi (ESC # ''[3'') @ strip_ansi ''1m'' = ''1m''"
proof -
  show "strip_ansi (ESC # ''[31m'') = []"
    by (subst strip_ansi.simps) (simp add: csi_final_def byte_def strip_ansi_Nil)
  have "strip_ansi (ESC # ''[3'') = []"
    by (subst strip_ansi.simps) (simp add: csi_final_def byte_def strip_ansi_Nil)
  then show "strip_ansi (ESC # ''[3'') @ strip_ansi ''1m'' = ''1m''"
    using strip_ansi_plain [of "''1m''" "[]"] by (simp add: strip_ansi_Nil)
qed

section \<open>Profiles written to a file and looked up\<close>

lemma atoi_int_str: "INT_MIN \<le> i \<Longrightarrow> i \<le> INT_MAX \<Longrightarrow> atoi (int_str i) = i"
proof -
  assume i: "INT_MIN \<le> i" "i \<le> INT_MAX"
  have h: "isdigit (hd (nat_str n))" for n using nat_str_digits [of n] by (cases "nat_str n") auto
  have nh: "\<not> isspace c \<and> c \<noteq> CHR ''-'' \<and> c \<noteq> CHR ''+''" if "isdigit c" for c
    using that by (auto simp: isdigit_def isspace_def byte_def)
  have lt: "ltrim (nat_str n) = nat_str n" for n
    using h [of n] nh by (cases "nat_str n") (auto simp: ltrim_def)
  have s: "scan_int (int_str i) = Some (i, [])"
  proof (cases "i < 0")
    case True
    then show ?thesis by (simp add: int_str_def scan_int_def ltrim_def isspace_def byte_def Let_def)
  next
    case False
    then show ?thesis using h [of "nat i"] nh
      by (simp add: int_str_def scan_int_def Let_def lt)
  qed
  show ?thesis using i by (simp add: atoi_def strtol10_def s clamp_long_def wrap32_def INT_MIN_def INT_MAX_def)
qed

text \<open>A value that stays as it is, and a profile that can be written.\<close>

definition conf_value :: "string \<Rightarrow> bool" where
  "conf_value v \<longleftrightarrow> text_line v \<and> length v < DEVICE_CONF_VAL_LEN \<and> (v = [] \<or> \<not> blank (hd v))"

definition conf_int :: "int \<Rightarrow> bool" where
  "conf_int i \<longleftrightarrow> INT_MIN \<le> i \<and> i \<le> INT_MAX"

definition device_ok :: "serial_device \<Rightarrow> bool" where
  "device_ok d \<longleftrightarrow> text_line (sd_name d) \<and> CHR '']'' \<notin> set (sd_name d) \<and> length (sd_name d) < DEVICE_CONF_KEY_LEN
     \<and> sd_name d \<noteq> [] \<and> list_all conf_value [sd_port d, sd_username d, sd_password d, sd_login_prompt d, sd_prompt d]
     \<and> list_all conf_int [sd_baud d, sd_timeout d, sd_login_timeout d] \<and> sd_delay_ms d = 300"

definition device_fields :: "serial_device \<Rightarrow> (string \<times> string) list" where
  "device_fields d =
     [(''port'', sd_port d), (''baud'', int_str (sd_baud d)), (''username'', sd_username d),
      (''password'', sd_password d), (''login_prompt'', sd_login_prompt d), (''prompt'', sd_prompt d),
      (''no_login'', if sd_no_login d then ''yes'' else ''no''), (''timeout'', int_str (sd_timeout d)),
      (''login_timeout'', int_str (sd_login_timeout d))]"

definition device_text :: "serial_device \<Rightarrow> string list" where
  "device_text d = (CHR ''['' # sd_name d @ '']'') # map (\<lambda>(k, v). k @ '' = '' @ v) (device_fields d)"

definition conf_text :: "serial_device list \<Rightarrow> string" where
  "conf_text ds = concat (map (\<lambda>l. l @ [NL]) (concat (map device_text ds)))"

lemma rtrim_line: "l \<noteq> [] \<Longrightarrow> text_line l \<Longrightarrow> rtrim_by (\<lambda>c. c = NL \<or> c = CR) (l @ [NL]) = l"
  by (cases l rule: rev_cases) (auto simp: rtrim_by_def text_line_def)

lemma device_line_section:
  assumes "text_line name" "CHR '']'' \<notin> set name" "length devs < m"
  shows "device_line m ((CHR ''['' # name @ '']'') @ [NL]) devs = Some (devs @ [default_device name])"
proof -
  let ?l = "CHR ''['' # name @ '']''"
  have "rtrim_by (\<lambda>c. c = NL \<or> c = CR) (?l @ [NL]) = ?l"
    by (rule rtrim_line) (use assms(1) in \<open>simp_all add: text_line_def NUL_def\<close>)
  moreover have "before (CHR '']'') ?l = CHR ''['' # name" using assms(2) by (simp add: before_append_notin)
  ultimately show ?thesis using assms(3) by (simp add: device_line_def Let_def)
qed

text \<open>A key as it is written in the file.\<close>

definition conf_key :: "string \<Rightarrow> bool" where
  "conf_key k \<longleftrightarrow> k \<noteq> [] \<and> list_all (\<lambda>c. c \<notin> {SP, TAB, NL, CR, NUL, CHR ''='', CHR ''#'', CHR '';'', CHR ''[''}) k"

lemma device_line_value:
  assumes "conf_key k" "text_line v" "v = [] \<or> \<not> blank (hd v)"
  shows "device_line m ((k @ '' = '' @ v) @ [NL]) (ds @ [d]) = Some (ds @ [device_key k v d])"
proof -
  let ?l = "k @ '' = '' @ v"
  obtain c k' where k: "k = c # k'" using assms(1) by (cases k) (auto simp: conf_key_def)
  have notin: "CHR ''='' \<notin> set k" "\<not> blank c" "c \<notin> {CHR ''#'', CHR '';'', CHR ''[''}" "\<not> blank (List.last k)"
    using assms(1) last_in_set [of k] unfolding k by (auto simp: conf_key_def list_all_iff)
  have "rtrim_by (\<lambda>c. c = NL \<or> c = CR) (?l @ [NL]) = ?l"
    by (rule rtrim_line) (use assms in \<open>auto simp: text_line_def conf_key_def list_all_iff NUL_def\<close>)
  moreover have "dropWhile blank (?l @ [NL]) = ?l @ [NL]" using notin(2) unfolding k by simp
  moreover have "strchr (CHR ''='') ?l = Some (''= '' @ v)" using notin(1)
    by (simp add: strchr_append_notin)
  moreover have "before (CHR ''='') ?l = k @ [SP]" using notin(1) by (simp add: before_append_notin)
  moreover have "rtrim_by blank (k @ [SP]) = k"
    using notin(4) unfolding k by (cases "c # k'" rule: rev_cases) (auto simp: rtrim_by_def)
  moreover have "dropWhile blank (SP # v) = v" using assms(3) by (cases v) auto
  moreover have "?l \<noteq> []" "hd ?l = c" unfolding k by simp_all
  ultimately show ?thesis using notin(3) unfolding device_line_def Let_def by simp
qed

lemma conf_keys: "list_all (\<lambda>(k, v). conf_key k) (device_fields d)"
  by (simp add: device_fields_def conf_key_def NUL_def)

lemma text_line_int: "text_line (int_str i)" "int_str i \<noteq> [] \<and> \<not> blank (hd (int_str i))"
proof -
  have d: "c \<in> set (nat_str n) \<Longrightarrow> isdigit c" for c n using nat_str_digits [of n] by (auto simp: list_all_iff)
  have nd: "isdigit c \<Longrightarrow> c \<noteq> NL \<and> c \<noteq> CR \<and> c \<noteq> NUL \<and> \<not> blank c" for c
    by (auto simp: isdigit_def byte_def NUL_def)
  show "text_line (int_str i)"
    unfolding text_line_def int_str_def using d nd by (auto simp: NUL_def split: if_splits)
  have h: "hd (nat_str n) \<noteq> SP \<and> hd (nat_str n) \<noteq> TAB" for n
    using nd [OF d [of "hd (nat_str n)" n]] by simp
  show "int_str i \<noteq> [] \<and> \<not> blank (hd (int_str i))" using h [of "nat i"] by (simp add: int_str_def)
qed

lemma device_fields_ok:
  "device_ok d \<Longrightarrow> list_all (\<lambda>(k, v). text_line v \<and> (v = [] \<or> \<not> blank (hd v))) (device_fields d)"
  using text_line_int by (simp add: device_ok_def device_fields_def conf_value_def)
    (simp add: text_line_def NUL_def)

lemma device_lines_values:
  assumes "list_all (\<lambda>(k, v). conf_key k) kvs" "list_all (\<lambda>(k, v). text_line v \<and> (v = [] \<or> \<not> blank (hd v))) kvs"
  shows "device_lines m (map (\<lambda>l. l @ [NL]) (map (\<lambda>(k, v). k @ '' = '' @ v) kvs) @ rest) (ds @ [d]) =
    device_lines m rest (ds @ [fold (\<lambda>(k, v). device_key k v) kvs d])"
  using assms
proof (induction kvs arbitrary: d)
  case (Cons kv kvs)
  obtain k v where kv: "kv = (k, v)" by fastforce
  have "NUL \<notin> set ((k @ '' = '' @ v) @ [NL])"
    using Cons.prems by (auto simp: kv conf_key_def text_line_def list_all_iff NUL_def)
  then have "c_str ((k @ '' = '' @ v) @ [NL]) = (k @ '' = '' @ v) @ [NL]" by (rule c_str_plain)
  moreover have "device_line m ((k @ '' = '' @ v) @ [NL]) (ds @ [d]) = Some (ds @ [device_key k v d])"
    using Cons.prems by (intro device_line_value) (simp_all add: kv)
  ultimately have "device_lines m (((k @ '' = '' @ v) @ [NL]) # map (\<lambda>l. l @ [NL]) (map (\<lambda>(k, v). k @ '' = '' @ v) kvs) @ rest) (ds @ [d]) =
      device_lines m (map (\<lambda>l. l @ [NL]) (map (\<lambda>(k, v). k @ '' = '' @ v) kvs) @ rest) (ds @ [device_key k v d])"
    unfolding device_lines.simps by simp
  with Cons kv show ?case by simp
qed simp

lemma fold_device_fields: "device_ok d \<Longrightarrow> fold (\<lambda>(k, v). device_key k v) (device_fields d) (default_device (sd_name d)) = d"
  by (cases d) (auto simp: device_ok_def device_fields_def device_key_def default_device_def conf_value_def conf_int_def
      atoi_int_str Let_def)

lemma device_lines_device:
  assumes "device_ok d" "length ds < m"
  shows "device_lines m (map (\<lambda>l. l @ [NL]) (device_text d) @ rest) ds = device_lines m rest (ds @ [d])"
proof -
  have name: "text_line (sd_name d)" "CHR '']'' \<notin> set (sd_name d)" using assms(1) by (simp_all add: device_ok_def)
  let ?l = "(CHR ''['' # sd_name d @ '']'') @ [NL]"
  have "c_str ?l = ?l" using name(1) by (intro c_str_plain) (auto simp: text_line_def NUL_def)
  with device_line_section [OF name assms(2)]
  have "device_lines m (?l # rest') ds = device_lines m rest' (ds @ [default_device (sd_name d)])" for rest'
    unfolding device_lines.simps by (simp only: option.case)
  with device_lines_values [OF conf_keys device_fields_ok [OF assms(1)], of m rest ds "default_device (sd_name d)"]
  show ?thesis unfolding device_text_def fold_device_fields [OF assms(1)] by simp
qed

lemma device_lines_devices:
  "list_all device_ok ds \<Longrightarrow> length acc + length ds \<le> m \<Longrightarrow>
   device_lines m (map (\<lambda>l. l @ [NL]) (concat (map device_text ds))) acc = acc @ ds"
proof (induction ds arbitrary: acc)
  case (Cons d ds)
  then show ?case using device_lines_device [of d acc m "map (\<lambda>l. l @ [NL]) (concat (map device_text ds))"] by simp
qed simp

lemma nat_str_short: "n < 10 ^ Suc k \<Longrightarrow> length (nat_str n) \<le> Suc k"
proof (induction k arbitrary: n)
  case 0
  then show ?case by (subst nat_str.simps) simp
next
  case (Suc k)
  then have "n div 10 < 10 ^ Suc k" by (simp add: less_mult_imp_div_less mult.commute)
  from Suc.IH [OF this] show ?case by (subst nat_str.simps) simp
qed

lemma int_str_short: "conf_int i \<Longrightarrow> length (int_str i) < 12"
proof -
  assume i: "conf_int i"
  have "i < 10000000000" "- i < 10000000000" using i by (simp_all add: conf_int_def INT_MIN_def INT_MAX_def)
  then have "nat i < 10 ^ Suc 9" "nat (- i) < 10 ^ Suc 9" by (auto simp: nat_less_iff)
  then have "length (nat_str (nat i)) \<le> Suc 9" "length (nat_str (nat (- i))) \<le> Suc 9"
    by (blast intro: nat_str_short)+
  then show ?thesis by (simp add: int_str_def)
qed

lemma fields_short: "device_ok d \<Longrightarrow> list_all (\<lambda>(k, v). length k \<le> 13 \<and> length v < 256) (device_fields d)"
  using int_str_short [of "sd_baud d"] int_str_short [of "sd_timeout d"] int_str_short [of "sd_login_timeout d"]
  by (simp add: device_fields_def device_ok_def conf_value_def DEVICE_CONF_VAL_LEN_def)

lemma device_text_lines: "device_ok d \<Longrightarrow> list_all (\<lambda>l. NL \<notin> set l \<and> length l + 1 < 512) (device_text d)"
proof -
  assume ok: "device_ok d"
  have "NL \<notin> set (k @ '' = '' @ v) \<and> length (k @ '' = '' @ v) + 1 < 512" if "(k, v) \<in> set (device_fields d)" for k v
  proof -
    have "length k \<le> 13 \<and> length v < 256" using fields_short [OF ok] that by (auto simp: list_all_iff)
    moreover have "NL \<notin> set k" using conf_keys [of d] that by (auto simp: list_all_iff conf_key_def)
    moreover have "NL \<notin> set v" using device_fields_ok [OF ok] that by (auto simp: list_all_iff text_line_def)
    ultimately show ?thesis by simp
  qed
  moreover have "NL \<notin> set (sd_name d)" "length (sd_name d) < 64"
    using ok by (simp_all add: device_ok_def text_line_def DEVICE_CONF_KEY_LEN_def)
  ultimately show ?thesis by (auto simp: device_text_def list_all_iff)
qed

lemma conf_text_lines:
  "list_all (\<lambda>l. NL \<notin> set l \<and> length l + 1 < n) ls \<Longrightarrow>
   fgets_lines n (concat (map (\<lambda>l. l @ [NL]) ls)) = map (\<lambda>l. l @ [NL]) ls"
  by (induction ls) (simp_all add: fgets_lines_line)

text \<open>Device profiles written to \<open>device.conf\<close> section by section are found again by their names, each
  with every field it was written with: port, speed, credentials, prompts and time limits.\<close>

theorem device_conf_roundtrip:
  assumes "list_all device_ok ds" "length ds \<le> SERIAL_MAX_DEVICES" "distinct (map sd_name ds)" "d \<in> set ds"
  shows "device_lookup (Some (conf_text ds)) (sd_name d) = Some d"
proof -
  have "list_all (\<lambda>l. NL \<notin> set l \<and> length l + 1 < 512) (concat (map device_text ds))"
    using assms(1) device_text_lines by (fastforce simp: list_all_iff)
  from conf_text_lines [OF this] have "parse_device_conf (Some (conf_text ds)) SERIAL_MAX_DEVICES = ds"
    using device_lines_devices [OF assms(1), of "[]" SERIAL_MAX_DEVICES] assms(2)
    by (simp add: parse_device_conf_def conf_text_def)
  moreover have "find (\<lambda>e. sd_name e = sd_name d) ds = Some d"
    using assms(3,4) by (induction ds) (auto simp: image_iff)
  moreover have "sd_name d \<noteq> []" using assms(1,4) by (auto simp: list_all_iff device_ok_def)
  ultimately show ?thesis by (simp add: device_lookup_def)
qed

definition router :: serial_device where
  "router = (default_device ''m1700'')\<lparr>sd_port := ''/dev/ttyUSB0'', sd_username := ''root'', sd_prompt := ''root@m1700:~#''\<rparr>"

lemma device_conf_roundtrip_witness:
  "device_lookup (Some (conf_text [router, default_device ''spare''])) ''m1700'' = Some router"
proof -
  have ok: "list_all device_ok [router, default_device ''spare'']"
    by (simp add: router_def default_device_def device_ok_def conf_value_def conf_int_def text_line_def NUL_def
        DEVICE_CONF_KEY_LEN_def DEVICE_CONF_VAL_LEN_def INT_MIN_def INT_MAX_def)
  have names: "sd_name router = ''m1700''" "sd_name (default_device ''spare'') = ''spare''"
    by (simp_all add: router_def default_device_def DEVICE_CONF_KEY_LEN_def)
  show ?thesis using device_conf_roundtrip [OF ok, of router] by (simp add: names SERIAL_MAX_DEVICES_def)
qed

section \<open>A banner that looks like a shell\<close>

text \<open>
  When the first bytes the device sends contain the shell prompt, and no login prompt yet, the tool
  takes the session for authenticated and never sends the user name. The default prompt is \<open>#\<close>.
\<close>

lemma login_banner:
  assumes "\<not> sd_no_login dev" "sd_username dev \<noteq> []"
    and "io_now io w = (t, w1)" "serial_send io [] w1 = Some (b, w2)"
    and "io_now io (io_sleep io 300000000 w2) = (t', w3)" "t' < t + sd_login_timeout dev * 1000000000"
    and "io_select io w3 = (SelReady, w4)" "io_read io w4 = (banner, w5)" "banner \<noteq> []"
    and "first_match (login_patterns dev) (append_capped [] (strip_ansi (take SERIAL_READ_CHUNK banner))) =
      Some (length (login_patterns dev) - 1)"
  shows "serial_login io dev w = Some (Inr ''already_authenticated'', w5)"
proof -
  have "read_until io (login_patterns dev) (t + sd_login_timeout dev * 1000000000) [] (io_sleep io 300000000 w2) =
      Some (Some (length (login_patterns dev) - 1), append_capped [] (strip_ansi (take SERIAL_READ_CHUNK banner)), w5)"
    by (subst read_until.simps) (simp add: assms)
  then show ?thesis by (simp add: serial_login_def assms)
qed

lemma login_banner_default:
  "first_match (login_patterns (default_device ''m1700''))
     (append_capped [] (strip_ansi (take SERIAL_READ_CHUNK ''# Welcome''))) = Some (length (login_patterns (default_device ''m1700'')) - 1)"
proof -
  have "strip_ansi ''# Welcome'' = ''# Welcome''" using strip_ansi_plain [of "''# Welcome''" "[]"] by (simp add: strip_ansi_Nil)
  then show ?thesis
    by (simp add: SERIAL_READ_CHUNK_def append_capped_def SERIAL_MAX_OUTPUT_BYTES_def first_match_def login_patterns_def
        default_device_def c_str_def NUL_def upt_rec)
qed

end
