(* ===== verification/Templates.thy ===== *)
theory Templates
  imports Dobby_Prelude
begin

text \<open>
  Model of \<open>src/core/templates.c\<close>: the files a fresh workspace is given. The file system is a map
  from paths to nodes; which paths can be created in a tree or read, and the names \<open>readdir\<close> gives
  for a directory, are the parameters of \<open>fs_env\<close>. Path buffers cut at 511 or 1023 bytes, as \<open>snprintf\<close> does.
\<close>

section \<open>The file system\<close>

text \<open>
  \<open>Other\<close> stands for nodes that are neither a directory nor a regular file, with the bytes a
  reader gets; \<open>Reg\<close> has the content and whether the file is executable.
\<close>

datatype node = Dir | Reg string bool | Other string

type_synonym tree = "string \<Rightarrow> node option"

record fs_env =
  can_create :: "tree \<Rightarrow> string \<Rightarrow> bool"
  can_read :: "string \<Rightarrow> bool"
  dir_names :: "string \<Rightarrow> string list"

fun bytes_of :: "node \<Rightarrow> string" where
  "bytes_of Dir = ''''"
| "bytes_of (Reg s x) = s"
| "bytes_of (Other s) = s"

fun chmod_x :: "node \<Rightarrow> node" where
  "chmod_x (Reg s x) = Reg s True"
| "chmod_x n = n"

section \<open>Operations\<close>

definition file_exists :: "tree \<Rightarrow> string \<Rightarrow> bool" where
  "file_exists fs path \<longleftrightarrow> fs path \<noteq> None"

definition ensure_dir :: "fs_env \<Rightarrow> string \<Rightarrow> tree \<Rightarrow> tree" where
  "ensure_dir e path fs = (if file_exists fs path \<or> \<not> can_create e fs path then fs else fs(path \<mapsto> Dir))"

definition copy_if_missing :: "fs_env \<Rightarrow> string \<Rightarrow> string \<Rightarrow> tree \<Rightarrow> tree" where
  "copy_if_missing e src dst fs =
     (if file_exists fs dst then fs
      else case fs src of
        None \<Rightarrow> fs
      | Some n \<Rightarrow> if can_read e src \<and> can_create e fs dst then fs(dst \<mapsto> Reg (bytes_of n) False) else fs)"

definition make_executable :: "string \<Rightarrow> tree \<Rightarrow> tree" where
  "make_executable path fs = (case fs path of None \<Rightarrow> fs | Some n \<Rightarrow> fs(path \<mapsto> chmod_x n))"

text \<open>\<open>"%s/%s"\<close> into a buffer of \<open>n\<close> bytes.\<close>

definition path_in :: "nat \<Rightarrow> string \<Rightarrow> string \<Rightarrow> string" where
  "path_in n dir name = trunc_to n (dir @ ''/'' @ name)"

definition is_script :: "string \<Rightarrow> bool" where
  "is_script name \<longleftrightarrow> length name > 3 \<and> drop (length name - 3) name = ''.sh''"

definition hidden :: "string \<Rightarrow> bool" where
  "hidden name \<longleftrightarrow> take 1 name = ''.''"

definition seed_file :: "fs_env \<Rightarrow> string \<Rightarrow> string \<Rightarrow> string \<Rightarrow> tree \<Rightarrow> tree" where
  "seed_file e sp dp name fs =
     (let fs' = copy_if_missing e sp dp fs in if is_script name then make_executable dp fs' else fs')"

function seed_dir :: "fs_env \<Rightarrow> string \<Rightarrow> string \<Rightarrow> nat \<Rightarrow> tree \<Rightarrow> tree" where
  "seed_dir e src dst depth fs =
     (if depth > 2 then fs
      else fold (\<lambda>name fs.
          if hidden name then fs
          else case fs (path_in 1024 src name) of
            None \<Rightarrow> fs
          | Some Dir \<Rightarrow> seed_dir e (path_in 1024 src name) (path_in 1024 dst name) (depth + 1) fs
          | Some (Reg s x) \<Rightarrow> seed_file e (path_in 1024 src name) (path_in 1024 dst name) name fs
          | Some (Other s) \<Rightarrow> fs)
        (dir_names e src) (ensure_dir e dst fs))"
  by pat_completeness auto
termination by (relation "measure (\<lambda>(e, src, dst, depth, fs). 3 - depth)") auto

declare seed_dir.simps [simp del]

section \<open>Seeding the workspace\<close>

definition prompt_files :: "string list" where
  "prompt_files = [''SOUL.md'', ''AGENT.md'', ''TOOLS.md'', ''HEARTBEAT.md'']"

definition seed_prompts :: "fs_env \<Rightarrow> string \<Rightarrow> string \<Rightarrow> tree \<Rightarrow> tree" where
  "seed_prompts e tmpl ws =
     fold (\<lambda>f. copy_if_missing e (path_in 512 tmpl f) (path_in 512 ws f)) prompt_files"

definition seed_memory :: "fs_env \<Rightarrow> string \<Rightarrow> string \<Rightarrow> tree \<Rightarrow> tree" where
  "seed_memory e tmpl ws fs =
     copy_if_missing e (path_in 512 tmpl ''memory/MEMORY.md'') (path_in 512 ws ''memory/MEMORY.md'')
       (ensure_dir e (path_in 512 ws ''memory'') fs)"

definition seed_skill :: "fs_env \<Rightarrow> string \<Rightarrow> string \<Rightarrow> string \<Rightarrow> tree \<Rightarrow> tree" where
  "seed_skill e skills_src skills_dst name fs =
     (if hidden name then fs
      else if fs (path_in 1024 skills_src name) = Some Dir
        then seed_dir e (path_in 1024 skills_src name) (path_in 1024 skills_dst name) 1 fs
      else fs)"

definition seed_skills :: "fs_env \<Rightarrow> string \<Rightarrow> string \<Rightarrow> tree \<Rightarrow> tree" where
  "seed_skills e skills_src ws fs =
     (if skills_src = '''' \<or> fs skills_src \<noteq> Some Dir then fs
      else fold (seed_skill e skills_src (path_in 512 ws ''skills'')) (dir_names e skills_src)
        (ensure_dir e (path_in 512 ws ''skills'') fs))"

definition or_default :: "string option \<Rightarrow> string \<Rightarrow> string" where
  "or_default s d = (case s of None \<Rightarrow> d | Some t \<Rightarrow> if t = '''' then d else t)"

definition templates_seed :: "fs_env \<Rightarrow> string option \<Rightarrow> string option \<Rightarrow> string option \<Rightarrow> tree \<Rightarrow> tree" where
  "templates_seed e template_dir skills_src workspace_dir fs =
     (let tmpl = or_default template_dir ''templates''; ws = or_default workspace_dir ''.''
      in seed_skills e (or_default skills_src '''') ws (seed_memory e tmpl ws (seed_prompts e tmpl ws fs)))"

section \<open>Existing files are kept\<close>

text \<open>
  \<open>grown r fs fs'\<close>: every node of \<open>fs\<close> is still there with its content, at most made executable,
  and nothing has changed at paths that do not start with \<open>r\<close>.
\<close>

definition grown :: "string \<Rightarrow> tree \<Rightarrow> tree \<Rightarrow> bool" where
  "grown r fs fs' \<longleftrightarrow>
     (\<forall>p n. fs p = Some n \<longrightarrow> fs' p = Some n \<or> fs' p = Some (chmod_x n)) \<and>
     (\<forall>p. \<not> prefix r p \<longrightarrow> fs' p = fs p)"

lemma chmod_x_idem [simp]: "chmod_x (chmod_x n) = chmod_x n"
  by (cases n) simp_all

lemma grown_refl [simp]: "grown r fs fs"
  by (simp add: grown_def)

lemma grown_trans [trans]: "grown r fs fs1 \<Longrightarrow> grown r fs1 fs2 \<Longrightarrow> grown r fs fs2"
  unfolding grown_def by (metis chmod_x_idem)

lemma grown_exists: "grown r fs fs' \<Longrightarrow> fs p \<noteq> None \<Longrightarrow> fs' p \<noteq> None"
  unfolding grown_def by (metis option.exhaust option.simps(3))

text \<open>Steps that only let the tree grow below \<open>r\<close>.\<close>

definition grows :: "string \<Rightarrow> (tree \<Rightarrow> tree) \<Rightarrow> bool" where
  "grows r A \<longleftrightarrow> (\<forall>fs. grown r fs (A fs))"

lemma grows_id: "grows r (\<lambda>fs. fs)"
  by (simp add: grows_def)

lemma grows_comp: "grows r A \<Longrightarrow> grows r B \<Longrightarrow> grows r (\<lambda>fs. A (B fs))"
  unfolding grows_def by (blast intro: grown_trans)

lemma grows_if: "grows r A \<Longrightarrow> grows r B \<Longrightarrow> grows r (\<lambda>fs. if c fs then A fs else B fs)"
  by (simp add: grows_def)

lemma grows_fold: "(\<And>x. grows r (f x)) \<Longrightarrow> grows r (fold f xs)"
proof (induction xs)
  case (Cons x xs)
  then show ?case using grows_comp [of r "fold f xs" "f x"] by (simp add: comp_def)
qed (simp add: grows_def)

lemma grows_ensure: "prefix r path \<Longrightarrow> grows r (ensure_dir e path)"
  by (auto simp: grows_def grown_def ensure_dir_def file_exists_def)

lemma grows_copy: "prefix r dst \<Longrightarrow> grows r (copy_if_missing e src dst)"
  by (auto simp: grows_def grown_def copy_if_missing_def file_exists_def split: option.splits)

lemma grows_chmod: "prefix r path \<Longrightarrow> grows r (make_executable path)"
  by (auto simp: grows_def grown_def make_executable_def split: option.splits)

lemma grows_file: "prefix r dp \<Longrightarrow> grows r (seed_file e sp dp name)"
  using grows_comp [OF grows_chmod [of r dp] grows_copy [of r dp e sp]] grows_copy [of r dp e sp]
  by (cases "is_script name") (simp_all add: seed_file_def grows_def Let_def)

lemma prefix_path_in: "prefix r dir \<Longrightarrow> length r < n \<Longrightarrow> prefix r (path_in n dir name)"
proof -
  assume "prefix r dir" "length r < n"
  then obtain z where "dir = r @ z" "take (n - 1) r = r" by (auto elim: prefixE)
  then have "path_in n dir name = r @ take (n - 1 - length r) (z @ ''/'' @ name)"
    by (simp add: path_in_def trunc_to_def)
  then show ?thesis by simp
qed

text \<open>One entry of a directory.\<close>

definition seed_entry :: "fs_env \<Rightarrow> string \<Rightarrow> string \<Rightarrow> nat \<Rightarrow> string \<Rightarrow> tree \<Rightarrow> tree" where
  "seed_entry e src dst depth name fs =
     (if hidden name then fs
      else case fs (path_in 1024 src name) of
        None \<Rightarrow> fs
      | Some Dir \<Rightarrow> seed_dir e (path_in 1024 src name) (path_in 1024 dst name) (depth + 1) fs
      | Some (Reg s x) \<Rightarrow> seed_file e (path_in 1024 src name) (path_in 1024 dst name) name fs
      | Some (Other s) \<Rightarrow> fs)"

lemma seed_dir_entries:
  "seed_dir e src dst depth fs =
     (if depth > 2 then fs else fold (seed_entry e src dst depth) (dir_names e src) (ensure_dir e dst fs))"
  by (subst seed_dir.simps) (simp add: seed_entry_def [abs_def])

lemma grows_seed_dir: "prefix r dst \<Longrightarrow> length r < 512 \<Longrightarrow> grows r (seed_dir e src dst depth)"
proof (induction "3 - depth" arbitrary: src dst depth rule: less_induct)
  case less
  show ?case
  proof (cases "depth > 2")
    case False
    have "grows r (seed_entry e src dst depth name)" for name
    proof -
      have p: "prefix r (path_in 1024 dst name)" using less.prems by (simp add: prefix_path_in)
      have "grows r (seed_dir e (path_in 1024 src name) (path_in 1024 dst name) (depth + 1))"
        using False less.prems p by (intro less.hyps) auto
      with grows_file [OF p] show ?thesis
        by (simp add: grows_def seed_entry_def split: option.splits node.splits)
    qed
    then have "grows r (\<lambda>fs. fold (seed_entry e src dst depth) (dir_names e src) (ensure_dir e dst fs))"
      using less.prems by (intro grows_comp [OF grows_fold grows_ensure])
    with False show ?thesis by (simp add: seed_dir_entries [abs_def])
  qed (simp add: seed_dir_entries [abs_def] grows_id)
qed

lemma grows_skill: "prefix r dst \<Longrightarrow> length r < 512 \<Longrightarrow> grows r (seed_skill e src dst name)"
  using grows_seed_dir [OF prefix_path_in [of r dst 1024 name], of e "path_in 1024 src name" 1]
  by (simp add: grows_def seed_skill_def)

lemma grows_seed:
  assumes "length (or_default workspace_dir ''.'') < 512"
  shows "grows (or_default workspace_dir ''.'') (templates_seed e template_dir skills_src workspace_dir)"
proof -
  let ?ws = "or_default workspace_dir ''.''" and ?tmpl = "or_default template_dir ''templates''"
    and ?src = "or_default skills_src ''''"
  have p: "prefix ?ws (path_in 512 ?ws f)" for f using assms by (simp add: prefix_path_in)
  have "grows ?ws (seed_prompts e ?tmpl ?ws)"
    unfolding seed_prompts_def by (intro grows_fold grows_copy p)
  note prompts = this
  have "grows ?ws (seed_memory e ?tmpl ?ws)"
    unfolding seed_memory_def [abs_def] by (intro grows_comp [OF grows_copy grows_ensure] p)
  note memory = this
  have "grows ?ws (seed_skills e ?src ?ws)"
    unfolding seed_skills_def [abs_def] using assms
    by (intro grows_if grows_id grows_comp [OF grows_fold grows_ensure] grows_skill p)
  from grows_comp [OF this grows_comp [OF memory prompts]] show ?thesis
    by (simp add: grows_def templates_seed_def Let_def)
qed


definition demo_fs :: tree where
  "demo_fs = [''/ws'' \<mapsto> Dir, ''/ws/SOUL.md'' \<mapsto> Reg ''mine'' False, ''templates/SOUL.md'' \<mapsto> Reg ''soul'' False,
     ''skills'' \<mapsto> Dir, ''skills/pdf'' \<mapsto> Dir, ''skills/pdf/run.sh'' \<mapsto> Reg ''ls'' False]"

definition demo_env :: fs_env where
  "demo_env = \<lparr>can_create = \<lambda>fs p. True, can_read = \<lambda>p. True,
     dir_names = \<lambda>p. if p = ''skills'' then [''.'', ''..'', ''pdf''] else if p = ''skills/pdf'' then [''.'', ''run.sh''] else []\<rparr>"


section \<open>A second run does nothing\<close>

text \<open>Equal up to the executable flags.\<close>

definition same_files :: "tree \<Rightarrow> tree \<Rightarrow> bool" where
  "same_files fs fs' \<longleftrightarrow> (\<forall>p. map_option chmod_x (fs p) = map_option chmod_x (fs' p))"

lemma same_files_trans [trans]: "same_files a b \<Longrightarrow> same_files b c \<Longrightarrow> same_files a c"
  by (simp add: same_files_def)

lemma same_files_refl [simp]: "same_files a a"
  by (simp add: same_files_def)

text \<open>A step that, once it has run, changes no file in any tree that has grown from its result.\<close>

definition settles :: "string \<Rightarrow> (tree \<Rightarrow> tree) \<Rightarrow> bool" where
  "settles r A \<longleftrightarrow> grows r A \<and> (\<forall>fs fs'. grown r (A fs) fs' \<longrightarrow> same_files (A fs') fs')"

lemma settlesI:
  "grows r A \<Longrightarrow> (\<And>fs fs'. grown r (A fs) fs' \<Longrightarrow> same_files (A fs') fs') \<Longrightarrow> settles r A"
  by (simp add: settles_def)

lemma settles_id: "settles r (\<lambda>fs. fs)"
  by (simp add: settles_def grows_id)

lemma settles_comp:
  assumes A: "settles r A" and B: "settles r B"
  shows "settles r (\<lambda>fs. A (B fs))"
proof (rule settlesI)
  show "grows r (\<lambda>fs. A (B fs))" using assms by (simp add: settles_def grows_comp)
  fix fs fs' assume g: "grown r (A (B fs)) fs'"
  have gA: "grown r x (A x)" and gB: "grown r x (B x)" for x using assms by (simp_all add: settles_def grows_def)
  have "same_files (B fs') fs'" using B grown_trans [OF gA g] by (simp add: settles_def)
  moreover have "same_files (A (B fs')) (B fs')" using A grown_trans [OF g gB] by (simp add: settles_def)
  ultimately show "same_files (A (B fs')) fs'" by (blast intro: same_files_trans)
qed

lemma settles_fold: "(\<And>x. settles r (f x)) \<Longrightarrow> settles r (fold f xs)"
proof (induction xs)
  case Nil
  then show ?case using settles_id by (simp add: id_def)
next
  case (Cons x xs)
  then show ?case using settles_comp [of r "fold f xs" "f x"] by (simp add: comp_def)
qed

text \<open>A choice that depends on a source node, which no step changes.\<close>

lemma settles_case:
  assumes p: "\<not> prefix r p" and A: "\<And>n. settles r (A n)"
  shows "settles r (\<lambda>fs. A (fs p) fs)"
proof (rule settlesI)
  show "grows r (\<lambda>fs. A (fs p) fs)" using A by (simp add: settles_def grows_def)
  fix fs fs' assume g: "grown r (A (fs p) fs) fs'"
  have "A (fs p) fs p = fs p" using A p by (simp add: settles_def grows_def grown_def)
  then have "fs' p = fs p" using g p by (simp add: grown_def)
  with A g show "same_files (A (fs' p) fs') fs'" by (simp add: settles_def)
qed

text \<open>What can be created does not depend on the tree.\<close>

definition steady :: "fs_env \<Rightarrow> bool" where
  "steady e \<longleftrightarrow> (\<forall>fs fs' p. can_create e fs p = can_create e fs' p)"

lemma settles_ensure: "steady e \<Longrightarrow> prefix r path \<Longrightarrow> settles r (ensure_dir e path)"
proof (rule settlesI)
  fix fs fs' assume e: "steady e" and g: "grown r (ensure_dir e path fs) fs'"
  show "same_files (ensure_dir e path fs') fs'"
  proof (cases "file_exists (ensure_dir e path fs) path")
    case True
    then have "file_exists fs' path" using grown_exists [OF g] by (simp add: file_exists_def)
    then show ?thesis by (simp add: ensure_dir_def)
  next
    case False
    then have "\<not> can_create e fs path" by (auto simp: ensure_dir_def file_exists_def split: if_splits)
    then have "\<not> can_create e fs' path" using e unfolding steady_def by metis
    then show ?thesis by (simp add: ensure_dir_def)
  qed
qed (rule grows_ensure)

lemma settles_chmod: "prefix r path \<Longrightarrow> settles r (make_executable path)"
  by (rule settlesI) (auto simp: grows_chmod same_files_def make_executable_def split: option.splits)

lemma settles_copy:
  assumes e: "steady e" and r: "prefix r dst" "\<not> prefix r src"
  shows "settles r (copy_if_missing e src dst)"
proof (rule settlesI)
  show "grows r (copy_if_missing e src dst)" using r by (simp add: grows_copy)
  fix fs fs' assume g: "grown r (copy_if_missing e src dst fs) fs'"
  have grow: "grown r fs (copy_if_missing e src dst fs)" using r grows_copy by (simp add: grows_def)
  have src: "fs' src = fs src" using grown_trans [OF grow g] r by (simp add: grown_def)
  show "same_files (copy_if_missing e src dst fs') fs'"
  proof (cases "file_exists (copy_if_missing e src dst fs) dst")
    case True
    then have "file_exists fs' dst" using grown_exists [OF g] by (simp add: file_exists_def)
    then show ?thesis by (simp add: copy_if_missing_def)
  next
    case False
    then have "fs src = None \<or> \<not> can_read e src \<or> \<not> can_create e fs dst"
      by (auto simp: copy_if_missing_def file_exists_def split: option.splits if_splits)
    then have "fs' src = None \<or> \<not> can_read e src \<or> \<not> can_create e fs' dst"
      using e src unfolding steady_def by metis
    then show ?thesis by (auto simp: copy_if_missing_def split: option.splits)
  qed
qed

lemma settles_file:
  "steady e \<Longrightarrow> prefix r dp \<Longrightarrow> \<not> prefix r sp \<Longrightarrow> settles r (seed_file e sp dp name)"
  using settles_comp [OF settles_chmod [of r dp] settles_copy [of e r dp sp]] settles_copy [of e r dp sp]
  by (cases "is_script name") (simp_all add: seed_file_def [abs_def] Let_def)

text \<open>Sources that are apart from the workspace stay so below any directory.\<close>

definition apart :: "string \<Rightarrow> string \<Rightarrow> bool" where
  "apart r s \<longleftrightarrow> \<not> prefix r s \<and> \<not> prefix s r"

lemma apart_path_in:
  assumes "apart r s" "length r < n"
  shows "apart r (path_in n s name)"
proof -
  let ?t = "s @ ''/'' @ name"
  have t: "prefix (path_in n s name) ?t" unfolding path_in_def trunc_to_def by (rule take_is_prefix)
  have s: "prefix s ?t" by simp
  have "\<not> prefix r ?t" using assms s prefix_same_cases unfolding apart_def by blast
  moreover have "prefix (path_in n s name) r \<Longrightarrow> False"
  proof -
    assume p: "prefix (path_in n s name) r"
    then have "length (path_in n s name) \<le> length r" by (rule prefix_length_le)
    moreover have "length (path_in n s name) = min (length ?t) (n - 1)" by (simp add: path_in_def trunc_to_def)
    ultimately have "length ?t < n \<or> length (path_in n s name) = length r" using assms(2) by linarith
    then have "path_in n s name = ?t \<or> path_in n s name = r"
      using p by (auto simp: path_in_def trunc_to_def prefix_def)
    then show False
      using p assms(1) s t prefix_order.trans unfolding apart_def by (metis prefix_same_cases)
  qed
  ultimately show ?thesis using t prefix_order.trans unfolding apart_def by blast
qed

lemma apart_src: "apart r s \<Longrightarrow> length r < n \<Longrightarrow> \<not> prefix r (path_in n s name)"
  using apart_path_in unfolding apart_def by blast

lemma settles_seed_dir:
  "steady e \<Longrightarrow> prefix r dst \<Longrightarrow> apart r src \<Longrightarrow> length r < 512 \<Longrightarrow> settles r (seed_dir e src dst depth)"
proof (induction "3 - depth" arbitrary: src dst depth rule: less_induct)
  case less
  show ?case
  proof (cases "depth > 2")
    case False
    have "settles r (seed_entry e src dst depth name)" for name
    proof -
      have p: "prefix r (path_in 1024 dst name)" and q: "apart r (path_in 1024 src name)"
        and o: "\<not> prefix r (path_in 1024 src name)"
        using less.prems by (simp_all add: prefix_path_in apart_path_in apart_src)
      have "settles r (seed_dir e (path_in 1024 src name) (path_in 1024 dst name) (depth + 1))"
        using False less.prems p q by (intro less.hyps) auto
      moreover have "settles r (seed_file e (path_in 1024 src name) (path_in 1024 dst name) name)"
        using less.prems(1) p o by (rule settles_file)
      ultimately have "settles r (case n of None \<Rightarrow> (\<lambda>fs. fs)
          | Some Dir \<Rightarrow> seed_dir e (path_in 1024 src name) (path_in 1024 dst name) (depth + 1)
          | Some (Reg s x) \<Rightarrow> seed_file e (path_in 1024 src name) (path_in 1024 dst name) name
          | Some (Other s) \<Rightarrow> (\<lambda>fs. fs))" for n
        using settles_id [of r] by (auto split: option.split node.split)
      from settles_case [OF o this] show ?thesis
        using settles_id [of r]
        by (cases "hidden name") (simp_all add: seed_entry_def [abs_def] option.case_distrib [of "\<lambda>f. f _"]
            node.case_distrib [of "\<lambda>f. f _"] cong: option.case_cong node.case_cong)
    qed
    then have "settles r (\<lambda>fs. fold (seed_entry e src dst depth) (dir_names e src) (ensure_dir e dst fs))"
      using less.prems by (intro settles_comp [OF settles_fold settles_ensure])
    with False show ?thesis by (simp add: seed_dir_entries [abs_def])
  qed (simp add: seed_dir_entries [abs_def] settles_id)
qed

lemma settles_skill:
  assumes "steady e" "prefix r dst" "apart r src" "length r < 512"
  shows "settles r (seed_skill e src dst name)"
proof -
  have "settles r (seed_dir e (path_in 1024 src name) (path_in 1024 dst name) 1)"
    using assms by (intro settles_seed_dir) (simp_all add: prefix_path_in apart_path_in)
  moreover have "\<not> prefix r (path_in 1024 src name)" using assms by (intro apart_src) auto
  ultimately have "settles r (\<lambda>fs. (if \<not> hidden name \<and> fs (path_in 1024 src name) = Some Dir
      then seed_dir e (path_in 1024 src name) (path_in 1024 dst name) 1 else (\<lambda>fs. fs)) fs)"
    using settles_id [of r]
    by (intro settles_case [where A = "\<lambda>n. if \<not> hidden name \<and> n = Some Dir
      then seed_dir e (path_in 1024 src name) (path_in 1024 dst name) 1 else (\<lambda>fs. fs)"]) auto
  then show ?thesis
    using settles_id [of r]
    by (cases "hidden name") (simp_all add: seed_skill_def [abs_def] if_distrib [of "\<lambda>f. f _"])
qed

text \<open>Seeding the workspace at every start is safe: a second run creates no file and changes no
  content, whatever the sources hold, when they lie outside the workspace.\<close>

theorem templates_seed_idempotent:
  assumes "steady e" and "length (or_default workspace_dir ''.'') < 512"
    and "apart (or_default workspace_dir ''.'') (or_default template_dir ''templates'')"
    and "or_default skills_src '''' \<noteq> '''' \<Longrightarrow> apart (or_default workspace_dir ''.'') (or_default skills_src '''')"
  shows "same_files
      (templates_seed e template_dir skills_src workspace_dir (templates_seed e template_dir skills_src workspace_dir fs))
      (templates_seed e template_dir skills_src workspace_dir fs)"
proof -
  let ?ws = "or_default workspace_dir ''.''" and ?tmpl = "or_default template_dir ''templates''"
    and ?src = "or_default skills_src ''''"
  have p: "prefix ?ws (path_in 512 ?ws f)" for f using assms by (simp add: prefix_path_in)
  have o: "\<not> prefix ?ws (path_in 512 ?tmpl f)" for f using assms by (simp add: apart_src)
  have "settles ?ws (seed_prompts e ?tmpl ?ws)"
    unfolding seed_prompts_def using assms(1) by (intro settles_fold settles_copy p o)
  note prompts = this
  have "settles ?ws (seed_memory e ?tmpl ?ws)"
    unfolding seed_memory_def [abs_def] using assms(1)
    by (intro settles_comp [OF settles_copy settles_ensure] p o)
  note memory = this
  have "settles ?ws (seed_skills e ?src ?ws)"
  proof (cases "?src = ''''")
    case False
    then have a: "apart ?ws ?src" by (rule assms(4))
    have "settles ?ws (\<lambda>fs. fold (seed_skill e ?src (path_in 512 ?ws ''skills'')) (dir_names e ?src)
        (ensure_dir e (path_in 512 ?ws ''skills'') fs))"
      using assms a by (intro settles_comp [OF settles_fold settles_ensure] settles_skill p)
    then have "settles ?ws (\<lambda>fs. (if fs ?src \<noteq> Some Dir then (\<lambda>fs. fs)
        else (\<lambda>fs. fold (seed_skill e ?src (path_in 512 ?ws ''skills'')) (dir_names e ?src)
          (ensure_dir e (path_in 512 ?ws ''skills'') fs))) fs)"
      using settles_id [of ?ws] a
      by (intro settles_case [where A = "\<lambda>n. if n \<noteq> Some Dir then (\<lambda>fs. fs)
        else (\<lambda>fs. fold (seed_skill e ?src (path_in 512 ?ws ''skills'')) (dir_names e ?src)
          (ensure_dir e (path_in 512 ?ws ''skills'') fs))"]) (auto simp: apart_def)
    then show ?thesis
      using False by (simp add: seed_skills_def [abs_def] if_distrib [of "\<lambda>f. f _"])
  qed (simp add: seed_skills_def [abs_def] settles_id)
  from settles_comp [OF this settles_comp [OF memory prompts]]
  have "settles ?ws (templates_seed e template_dir skills_src workspace_dir)"
    by (simp add: settles_def grows_def templates_seed_def Let_def)
  then show ?thesis unfolding settles_def using grown_refl by blast
qed

lemma templates_seed_idempotent_witness:
  "same_files
     (templates_seed demo_env None (Some ''skills'') (Some ''/ws'') (templates_seed demo_env None (Some ''skills'') (Some ''/ws'') demo_fs))
     (templates_seed demo_env None (Some ''skills'') (Some ''/ws'') demo_fs)"
  by (rule templates_seed_idempotent) (simp_all add: steady_def demo_env_def or_default_def apart_def)

text \<open>A script of the user that is there is not copied, but its mode is changed.\<close>

lemma user_script_chmod:
  "templates_seed demo_env None (Some ''skills'') (Some ''/ws'')
     (demo_fs(''/ws/skills'' \<mapsto> Dir, ''/ws/skills/pdf'' \<mapsto> Dir, ''/ws/skills/pdf/run.sh'' \<mapsto> Reg ''rm'' False))
     ''/ws/skills/pdf/run.sh'' = Some (Reg ''rm'' True)"
  by code_simp

text \<open>Directories three levels below the skills directory are not copied.\<close>

lemma seed_depth_limit: "seed_dir e src dst 3 fs = fs"
  by (simp add: seed_dir.simps)

end
