(* ===== verification/Typing.thy ===== *)
theory Typing
  imports Dobby_Prelude
begin

text \<open>
  Model of \<open>src/ux/typing.c\<close>, the status display: in daemon mode one line per change of state, in
  the terminal a spinner thread. The calls of \<open>status_set_detail\<close> come from the REPL and, while the
  REPL waits for the reply, from the agent's \<open>on_thinking\<close>; they never overlap (\<open>src/cli/main.c\<close>,
  lines 738 to 776). The two threads are interleaved by the step relation \<open>ui_step\<close>; a critical
  section of \<open>g_mu\<close> is one step.
\<close>

section \<open>States and labels\<close>

datatype agent_state = STATE_READY | STATE_THINKING | STATE_TOOL | STATE_API | STATE_IDLE

fun STATE_LABEL :: "agent_state \<Rightarrow> string" where
  "STATE_LABEL STATE_READY = ''Ready''"
| "STATE_LABEL STATE_THINKING = ''Thinking''"
| "STATE_LABEL STATE_TOOL = ''Executing Tool''"
| "STATE_LABEL STATE_API = ''Calling API''"
| "STATE_LABEL STATE_IDLE = ''Idle''"

definition should_spin :: "agent_state \<Rightarrow> bool" where
  "should_spin s \<longleftrightarrow> s = STATE_THINKING \<or> s = STATE_TOOL \<or> s = STATE_API"

definition SPINNER_COUNT :: nat where "SPINNER_COUNT = 10"

text \<open>The UTF-8 bytes of the ten braille frames.\<close>

definition SPINNER :: "string list" where
  "SPINNER = map (\<lambda>(a, b). map char_of [0xE2, a, b :: nat])
     [(0xA0, 0x8B), (0xA0, 0x99), (0xA0, 0xB9), (0xA0, 0xB8), (0xA0, 0xBC),
      (0xA0, 0xB4), (0xA0, 0xA6), (0xA0, 0xA7), (0xA0, 0x87), (0xA0, 0x8F)]"

definition clear_line :: string where
  "clear_line = [CR, ESC] @ ''[K''"

definition frame_text :: "nat \<Rightarrow> string \<Rightarrow> string" where
  "frame_text n msg = clear_line @ ''  '' @ SPINNER ! n @ '' '' @ msg"

section \<open>Daemon mode\<close>

text \<open>The line for one call, if any, and the new last state; \<open>None\<close> is the initial \<open>-1\<close>.\<close>

definition daemon_line :: "agent_state \<Rightarrow> string option \<Rightarrow> string" where
  "daemon_line s detail =
     (let d = (case detail of None \<Rightarrow> '''' | Some t \<Rightarrow> t)
      in ''  ['' @ STATE_LABEL s @ '']'' @ (if d = '''' then '''' else '' '') @ d @ [NL])"

definition daemon_set :: "agent_state \<times> string option \<Rightarrow> agent_state option \<times> string list \<Rightarrow> agent_state option \<times> string list" where
  "daemon_set call st =
     (case (call, st) of ((s, detail), (last_daemon, out)) \<Rightarrow>
        if last_daemon \<noteq> Some s then (Some s, out @ [daemon_line s detail]) else st)"

text \<open>The calls that print: the first of each run of calls with one state.\<close>

fun run_heads :: "('a \<times> 'b) list \<Rightarrow> ('a \<times> 'b) list" where
  "run_heads (x # y # xs) = (if fst x = fst y then run_heads (x # xs) else x # run_heads (y # xs))"
| "run_heads xs = xs"

lemma run_heads_hd: "\<exists>t. run_heads (c # cs) = c # t"
  by (induction "c # cs" arbitrary: c cs rule: run_heads.induct) (auto split: if_splits)

lemma run_heads_states: "map fst (run_heads xs) = remdups_adj (map fst xs)"
  by (induction xs rule: run_heads.induct) auto

lemma daemon_fold:
  "snd (fold daemon_set calls (Some s, out)) =
     out @ map (\<lambda>(s, d). daemon_line s d) (tl (run_heads ((s, d) # calls)))"
proof (induction calls arbitrary: s d out)
  case (Cons c calls)
  show ?case
  proof (cases "fst c = s")
    case True
    then show ?thesis using Cons.IH [of s out d] by (cases c) (simp add: daemon_set_def)
  next
    case False
    obtain t where "run_heads (c # calls) = c # t" using run_heads_hd by blast
    with False show ?thesis
      using Cons.IH [of "fst c" "out @ [daemon_line (fst c) (snd c)]" "snd c"]
      by (cases c) (auto simp: daemon_set_def)
  qed
qed simp

text \<open>In daemon mode a sequence of status calls prints one line for the first call of each run of
  calls with the same state, with that call's detail, and nothing for the others: the states shown
  are the sequence of states without adjacent repetitions.\<close>

theorem daemon_prints_changes:
  "snd (fold daemon_set calls (None, [])) = map (\<lambda>(s, d). daemon_line s d) (run_heads calls) \<and>
   map fst (run_heads calls) = remdups_adj (map fst calls)"
proof (cases calls)
  case (Cons c cs)
  obtain s d where c: "c = (s, d)" by (cases c)
  obtain t where "run_heads (c # cs) = c # t" using run_heads_hd by blast
  then show ?thesis
    using daemon_fold [of cs s "[daemon_line s d]" d] run_heads_states [of calls] Cons c
    by (simp add: daemon_set_def)
qed simp

section \<open>The spinner thread\<close>

text \<open>
  The heap holds the messages by address; \<open>g_message\<close> is the address of the current one. The spinner
  thread is at one of its program points: the test of \<open>g_active\<close>, the test of \<open>g_rl_active\<close>, the
  writing of a frame with the address it has read (\<open>None\<close> for the default text), the sleep, the
  clearing of the line at its end, and its end. The updating thread is outside
  \<open>status_set_detail\<close>, before its critical section, after it, waits in \<open>pthread_join\<close>, waits for
  the same in \<open>status_shutdown\<close>, or has shut the display down.
\<close>

datatype spin = NoSpin | Test nat | TestRl nat | Writing nat "nat option" | Sleep nat | Finish | Ended

datatype upd = Outside | Enter agent_state string | After agent_state | Join | Closing | Closed

datatype shown = Frame string | Cleared | Freed

record ui =
  g_active :: bool
  g_rl_active :: bool
  g_message :: "nat option"
  g_state :: agent_state
  heap :: "nat \<Rightarrow> string option"
  fresh :: nat
  spinner :: spin
  updater :: upd
  screen :: "shown list"

definition status_init :: ui where
  "status_init = \<lparr>g_active = False, g_rl_active = False, g_message = None, g_state = STATE_READY,
     heap = Map.empty, fresh = 0, spinner = NoSpin, updater = Outside, screen = []\<rparr>"

text \<open>The critical section: the old message is freed, the new one is a copy of the detail.\<close>

definition set_message :: "agent_state \<Rightarrow> string \<Rightarrow> ui \<Rightarrow> ui" where
  "set_message s detail u =
     (let h = (case g_message u of None \<Rightarrow> heap u | Some a \<Rightarrow> (heap u)(a := None))
      in if detail = '''' then u\<lparr>g_state := s, g_message := None, heap := h\<rparr>
         else u\<lparr>g_state := s, g_message := Some (fresh u), heap := h(fresh u \<mapsto> detail), fresh := fresh u + 1\<rparr>)"

definition print :: "shown \<Rightarrow> ui \<Rightarrow> ui" where
  "print x u = u\<lparr>screen := screen u @ [x]\<rparr>"

text \<open>What the frame shows; reading a freed message is \<open>Freed\<close>.\<close>

definition frame_shown :: "nat \<Rightarrow> nat option \<Rightarrow> ui \<Rightarrow> shown" where
  "frame_shown n msg u =
     (case msg of
        None \<Rightarrow> Frame (frame_text n ''Thinking...'')
      | Some a \<Rightarrow> (case heap u a of None \<Rightarrow> Freed | Some t \<Rightarrow> Frame (frame_text n t)))"

text \<open>The end of \<open>status_shutdown\<close>: the message is freed and the line cleared.\<close>

definition close_ui :: "ui \<Rightarrow> ui" where
  "close_ui u = print Cleared ((set_message (g_state u) '''' u)\<lparr>updater := Closed\<rparr>)"

inductive ui_step :: "ui \<Rightarrow> ui \<Rightarrow> bool" where
  call: "updater u = Outside \<Longrightarrow> \<not> g_rl_active u \<Longrightarrow> ui_step u (u\<lparr>updater := Enter s detail\<rparr>)"
| critical: "updater u = Enter s detail \<Longrightarrow> ui_step u ((set_message s detail u)\<lparr>updater := After s\<rparr>)"
| start: "updater u = After s \<Longrightarrow> should_spin s \<Longrightarrow> \<not> g_active u \<Longrightarrow>
    ui_step u (u\<lparr>g_active := True, spinner := Test 0, updater := Outside\<rparr>)"
| stop: "updater u = After s \<Longrightarrow> \<not> should_spin s \<Longrightarrow> g_active u \<Longrightarrow>
    ui_step u (u\<lparr>g_active := False, updater := Join\<rparr>)"
| keep: "updater u = After s \<Longrightarrow> should_spin s = g_active u \<Longrightarrow> ui_step u (u\<lparr>updater := Outside\<rparr>)"
| join: "updater u = Join \<Longrightarrow> spinner u = Ended \<Longrightarrow>
    ui_step u ((if g_rl_active u then u else print Cleared u)\<lparr>spinner := NoSpin, updater := Outside\<rparr>)"
| shut: "updater u = Outside \<Longrightarrow> \<not> g_rl_active u \<Longrightarrow> g_active u \<Longrightarrow>
    ui_step u (u\<lparr>g_active := False, updater := Closing\<rparr>)"
| shut_idle: "updater u = Outside \<Longrightarrow> \<not> g_rl_active u \<Longrightarrow> \<not> g_active u \<Longrightarrow> ui_step u (close_ui u)"
| shut_join: "updater u = Closing \<Longrightarrow> spinner u = Ended \<Longrightarrow> ui_step u (close_ui (u\<lparr>spinner := NoSpin\<rparr>))"
| rl_enter: "updater u = Outside \<Longrightarrow> g_state u = STATE_READY \<Longrightarrow> ui_step u (u\<lparr>g_rl_active := True\<rparr>)"
| rl_leave: "g_rl_active u \<Longrightarrow> ui_step u (u\<lparr>g_rl_active := False\<rparr>)"
| test: "spinner u = Test n \<Longrightarrow> ui_step u (u\<lparr>spinner := (if g_active u then TestRl n else Finish)\<rparr>)"
| test_rl: "spinner u = TestRl n \<Longrightarrow>
    ui_step u (u\<lparr>spinner := (if g_rl_active u then Sleep n else Writing n (g_message u))\<rparr>)"
| frame: "spinner u = Writing n msg \<Longrightarrow> ui_step u ((print (frame_shown n msg u) u)\<lparr>spinner := Sleep n\<rparr>)"
| sleep: "spinner u = Sleep n \<Longrightarrow> ui_step u (u\<lparr>spinner := Test ((n + 1) mod SPINNER_COUNT)\<rparr>)"
| finish: "spinner u = Finish \<Longrightarrow>
    ui_step u ((if g_rl_active u then u else print Cleared u)\<lparr>spinner := Ended\<rparr>)"

inductive ui_reachable :: "ui \<Rightarrow> bool" where
  init: "ui_reachable status_init"
| step: "ui_reachable u \<Longrightarrow> ui_step u u' \<Longrightarrow> ui_reachable u'"

inductive_cases ui_stepE: "ui_step u u'"

text \<open>
  The invariant: a thread exists exactly while the flag is set or it is being joined, the flag
  agrees with the state outside \<open>status_set_detail\<close>, the heap holds the current message and nothing
  else, and \<open>readline\<close> only runs outside with the state \<open>STATE_READY\<close>.
\<close>

definition thread_ok :: "ui \<Rightarrow> bool" where
  "thread_ok u \<longleftrightarrow>
     (spinner u \<noteq> NoSpin \<longleftrightarrow> g_active u \<or> updater u = Join \<or> updater u = Closing) \<and>
     (updater u = Outside \<longrightarrow> g_active u = should_spin (g_state u)) \<and>
     (\<forall>s. updater u = After s \<longrightarrow> g_state u = s) \<and>
     (updater u = Join \<longrightarrow> \<not> g_active u \<and> \<not> should_spin (g_state u)) \<and>
     (updater u = Closing \<or> updater u = Closed \<longrightarrow> \<not> g_active u) \<and>
     (g_active u \<longrightarrow> spinner u \<noteq> Finish \<and> spinner u \<noteq> Ended)"

definition heap_ok :: "ui \<Rightarrow> bool" where
  "heap_ok u \<longleftrightarrow> dom (heap u) = set_option (g_message u) \<and> (\<forall>a. g_message u = Some a \<longrightarrow> a < fresh u)"

definition readline_ok :: "ui \<Rightarrow> bool" where
  "readline_ok u \<longleftrightarrow> (g_rl_active u \<longrightarrow> updater u = Outside \<and> g_state u = STATE_READY)"

fun frame_ok :: "spin \<Rightarrow> bool" where
  "frame_ok (Test n) \<longleftrightarrow> n < SPINNER_COUNT"
| "frame_ok (TestRl n) \<longleftrightarrow> n < SPINNER_COUNT"
| "frame_ok (Writing n a) \<longleftrightarrow> n < SPINNER_COUNT"
| "frame_ok (Sleep n) \<longleftrightarrow> n < SPINNER_COUNT"
| "frame_ok p \<longleftrightarrow> True"

lemma set_message_sel [simp]:
  "g_active (set_message s d u) = g_active u" "g_rl_active (set_message s d u) = g_rl_active u"
  "g_state (set_message s d u) = s" "spinner (set_message s d u) = spinner u"
  "updater (set_message s d u) = updater u" "screen (set_message s d u) = screen u"
  by (simp_all add: set_message_def Let_def)

lemma set_message_heap: "heap_ok u \<Longrightarrow> heap_ok (set_message s d u)"
proof -
  assume ok: "heap_ok u"
  have "(case g_message u of None \<Rightarrow> heap u | Some a \<Rightarrow> (heap u)(a := None)) = Map.empty"
  proof (cases "g_message u")
    case None
    with ok show ?thesis by (simp add: heap_ok_def)
  next
    case (Some a)
    with ok have "dom ((heap u)(a := None)) = {}" by (simp add: heap_ok_def)
    with Some show ?thesis by (simp only: dom_eq_empty_conv option.case)
  qed
  then show ?thesis by (simp add: heap_ok_def set_message_def Let_def)
qed

lemma print_sel [simp]:
  "g_active (print x u) = g_active u" "g_rl_active (print x u) = g_rl_active u" "g_message (print x u) = g_message u"
  "g_state (print x u) = g_state u" "heap (print x u) = heap u" "fresh (print x u) = fresh u"
  "spinner (print x u) = spinner u" "updater (print x u) = updater u" "screen (print x u) = screen u @ [x]"
  by (simp_all add: print_def)

lemma close_sel [simp]:
  "g_active (close_ui u) = g_active u" "g_rl_active (close_ui u) = g_rl_active u" "g_state (close_ui u) = g_state u"
  "spinner (close_ui u) = spinner u" "updater (close_ui u) = Closed"
  by (simp_all add: close_ui_def)

lemma close_heap: "heap_ok u \<Longrightarrow> heap_ok (close_ui u)"
  using set_message_heap [of u "g_state u" "[]"] by (simp add: heap_ok_def close_ui_def)

lemma thread_ok_step: "ui_step u u' \<Longrightarrow> thread_ok u \<Longrightarrow> thread_ok u'"
  by (erule ui_step.cases) (auto simp: thread_ok_def)

lemma heap_ok_step: "ui_step u u' \<Longrightarrow> heap_ok u \<Longrightarrow> heap_ok u'"
proof (erule ui_step.cases, goal_cases)
  case (2 u s detail)
  then show ?case using set_message_heap [of u s detail] by (simp add: heap_ok_def)
next
  case (8 u)
  then show ?case using close_heap by simp
next
  case (9 u)
  then show ?case using close_heap [of "u\<lparr>spinner := NoSpin\<rparr>"] by (simp add: heap_ok_def)
qed (simp_all add: heap_ok_def)

lemma readline_ok_step: "ui_step u u' \<Longrightarrow> readline_ok u \<Longrightarrow> readline_ok u'"
  by (erule ui_step.cases) (simp_all add: readline_ok_def)

lemma frame_ok_step: "ui_step u u' \<Longrightarrow> frame_ok (spinner u) \<Longrightarrow> frame_ok (spinner u')"
  by (erule ui_step.cases) (simp_all add: SPINNER_COUNT_def)

lemma ui_reachable_ok:
  "ui_reachable u \<Longrightarrow> thread_ok u \<and> heap_ok u \<and> readline_ok u \<and> frame_ok (spinner u)"
proof (induction rule: ui_reachable.induct)
  case init
  show ?case by (simp add: thread_ok_def heap_ok_def readline_ok_def status_init_def should_spin_def)
next
  case (step u u')
  then show ?case by (blast intro: thread_ok_step heap_ok_step readline_ok_step frame_ok_step)
qed


definition after_call :: "agent_state \<Rightarrow> string \<Rightarrow> ui \<Rightarrow> ui" where
  "after_call s d u = (set_message s d u)\<lparr>updater := After s\<rparr>"

text \<open>A call from outside up to its last decision.\<close>

lemma reach_call:
  "ui_reachable u \<Longrightarrow> updater u = Outside \<Longrightarrow> \<not> g_rl_active u \<Longrightarrow> ui_reachable (after_call s d u)"
proof -
  assume u: "ui_reachable u" "updater u = Outside" "\<not> g_rl_active u"
  then have "ui_reachable (u\<lparr>updater := Enter s d\<rparr>)" by (blast intro: ui_reachable.step ui_step.call)
  then have "ui_reachable ((set_message s d (u\<lparr>updater := Enter s d\<rparr>))\<lparr>updater := After s\<rparr>)"
    by (rule ui_reachable.step) (rule ui_step.critical, simp)
  then show ?thesis by (cases "d = []"; cases "g_message u") (simp_all add: after_call_def set_message_def Let_def)
qed

definition thinking :: ui where
  "thinking = (after_call STATE_THINKING ''a'' status_init)\<lparr>g_active := True, spinner := Test 0, updater := Outside\<rparr>"

lemma reach_thinking: "ui_reachable thinking"
  unfolding thinking_def
  by (rule ui_reachable.step [OF reach_call [OF ui_reachable.init] ui_step.start [where s = STATE_THINKING]])
    (simp_all add: status_init_def after_call_def should_spin_def)


text \<open>The spinner takes the address of the message under the mutex but formats the text after it
  has released it, so a status update in between frees the text it is writing: a state is reachable
  in which a frame reads freed memory.\<close>

theorem spinner_use_after_free: "\<exists>u. ui_reachable u \<and> Freed \<in> set (screen u)"
proof -
  let ?w = "thinking\<lparr>spinner := Writing 0 (g_message thinking)\<rparr>"
  have "ui_reachable (thinking\<lparr>spinner := TestRl 0\<rparr>)"
    using ui_reachable.step [OF reach_thinking ui_step.test [of thinking 0]] by (simp add: thinking_def)
  from ui_reachable.step [OF this ui_step.test_rl [of _ 0]]
  have w: "ui_reachable ?w" by (simp add: thinking_def after_call_def status_init_def)
  have "ui_reachable (after_call STATE_THINKING ''b'' ?w)"
    by (rule reach_call [OF w]) (simp_all add: thinking_def after_call_def status_init_def)
  from ui_reachable.step [OF this ui_step.frame [of _ 0 "g_message thinking"]]
  have "ui_reachable ((print Freed (after_call STATE_THINKING ''b'' ?w))\<lparr>spinner := Sleep 0\<rparr>)"
    by (simp add: after_call_def frame_shown_def thinking_def set_message_def status_init_def Let_def)
  then show ?thesis by force
qed

text \<open>The number of steps the spinner still needs once the flag is cleared.\<close>

fun end_steps :: "spin \<Rightarrow> nat" where
  "end_steps (TestRl n) = 6"
| "end_steps (Writing n a) = 5"
| "end_steps (Sleep n) = 4"
| "end_steps (Test n) = 3"
| "end_steps Finish = 2"
| "end_steps Ended = 1"
| "end_steps NoSpin = 0"

text \<open>C38: stopping the spinner terminates: while the caller waits in \<open>pthread_join\<close> some thread can
  always take a step, and every step brings the spinner closer to its end or ends the wait, with no
  thread left; the same holds for the shutdown.\<close>

theorem status_stop_returns:
  assumes "ui_reachable u" and "updater u = Join \<or> updater u = Closing"
  shows "(\<exists>u'. ui_step u u') \<and>
         (\<forall>u'. ui_step u u' \<longrightarrow> end_steps (spinner u') < end_steps (spinner u) \<and>
            (updater u' = updater u \<or> (updater u' = Outside \<or> updater u' = Closed) \<and> spinner u' = NoSpin))"
proof
  have ok: "thread_ok u" "readline_ok u" using ui_reachable_ok [OF assms(1)] by simp_all
  then have "spinner u \<noteq> NoSpin" using assms(2) by (simp add: thread_ok_def)
  then show "\<exists>u'. ui_step u u'"
  proof (cases "spinner u")
    case Ended
    then show ?thesis using assms(2) ui_step.join [of u] ui_step.shut_join [of u] by blast
  qed (blast intro: test test_rl frame sleep finish)+
  show "\<forall>u'. ui_step u u' \<longrightarrow> end_steps (spinner u') < end_steps (spinner u) \<and>
            (updater u' = updater u \<or> (updater u' = Outside \<or> updater u' = Closed) \<and> spinner u' = NoSpin)"
  proof (intro allI impI)
    fix u' assume "ui_step u u'"
    then show "end_steps (spinner u') < end_steps (spinner u) \<and>
        (updater u' = updater u \<or> (updater u' = Outside \<or> updater u' = Closed) \<and> spinner u' = NoSpin)"
      using ok assms(2) by cases (auto simp: thread_ok_def readline_ok_def)
  qed
qed

definition stopping :: ui where
  "stopping = (after_call STATE_READY '''' thinking)\<lparr>g_active := False, updater := Join\<rparr>"

lemma reach_stopping: "ui_reachable stopping"
  unfolding stopping_def
  by (rule ui_reachable.step [OF reach_call [OF reach_thinking] ui_step.stop [where s = STATE_READY]])
    (simp_all add: thinking_def after_call_def status_init_def should_spin_def)

lemma status_stop_returns_witness: "\<exists>u'. ui_step stopping u'"
  using status_stop_returns [OF reach_stopping] by (simp add: stopping_def)

end
