(* ===== verification/Tool_Table.thy ===== *)
theory Tool_Table
  imports Tool_Registry Json_Props
begin

text \<open>
  The tools the program registers, as the \<open>tool_t\<close> structures of the tool sources declare them to
  the model: name, description and the JSON schema of the parameters. What a tool does is modelled
  in the theory of its component; here its \<open>execute\<close> function is a parameter.
\<close>

record tool_spec =
  ts_name :: string
  ts_description :: string
  ts_schema :: string

section \<open>The declarations\<close>

definition shell_exec_spec :: tool_spec where
  \<open>shell_exec_spec = \<lparr>ts_name = ''shell_exec'',
    ts_description = ''Execute a NON-INTERACTIVE shell command and return its output (stdout + stderr). Stdin '' @
      ''is /dev/null '' @
      map char_of [0xE2, 0x80, 0x94 :: nat] @
      '' the command cannot read user input and must not require a TTY. DO NOT use for: gdb, '' @
      ''vim, nano, less, top, htop, python REPL, ssh, docker run -it, or ANY program that is '' @
      ''interactive or needs a terminal. Use the tmux skill for those instead: create a tmux '' @
      ''session and send commands into it via send-keys.'',
    ts_schema = ''{"type":"object","properties":{"command":{"type":"string","description":"The shell '' @
      ''command to execute"},"timeout":{"type":"integer","description":"Timeout in seconds '' @
      ''(default 30, max 300)"}},"required":["command"]}''\<rparr>\<close>

definition file_read_spec :: tool_spec where
  \<open>file_read_spec = \<lparr>ts_name = ''file_read'',
    ts_description = ''Read the contents of a file'',
    ts_schema = ''{"type":"object","properties":{"path":{"type":"string","description":"Path to the '' @
      ''file"}},"required":["path"]}''\<rparr>\<close>

definition file_write_spec :: tool_spec where
  \<open>file_write_spec = \<lparr>ts_name = ''file_write'',
    ts_description = ''Write content to a file (creates or overwrites)'',
    ts_schema = ''{"type":"object","properties":{"path":{"type":"string","description":"Path to the '' @
      ''file"},"content":{"type":"string","description":"Content to '' @
      ''write"}},"required":["path","content"]}''\<rparr>\<close>

definition file_list_spec :: tool_spec where
  \<open>file_list_spec = \<lparr>ts_name = ''file_list'',
    ts_description = ''List files and directories in a path'',
    ts_schema = ''{"type":"object","properties":{"path":{"type":"string","description":"Directory path '' @
      ''(default: current dir)"}},"required":[]}''\<rparr>\<close>

definition file_search_spec :: tool_spec where
  \<open>file_search_spec = \<lparr>ts_name = ''file_search'',
    ts_description = ''Search for files by name pattern (recursive)'',
    ts_schema = ''{"type":"object","properties":{"path":{"type":"string","description":"Directory to '' @
      ''search in"},"pattern":{"type":"string","description":"Filename pattern to search '' @
      ''for"}},"required":["pattern"]}''\<rparr>\<close>

definition file_delete_spec :: tool_spec where
  \<open>file_delete_spec = \<lparr>ts_name = ''file_delete'',
    ts_description = ''Delete a file'',
    ts_schema = ''{"type":"object","properties":{"path":{"type":"string","description":"Path to the file '' @
      ''to delete"}},"required":["path"]}''\<rparr>\<close>

definition serial_exec_spec :: tool_spec where
  \<open>serial_exec_spec = \<lparr>ts_name = ''serial_exec'',
    ts_description = ''Execute commands on a serial-connected device (UART/TTY). Use '' @
      [CHR 0x27] @
      ''device'' @
      [CHR 0x27] @
      '' to reference a named profile from device.conf (preferred '' @
      map char_of [0xE2, 0x80, 0x94 :: nat] @
      '' no need to specify port/baud/credentials manually). Pass '' @
      [CHR 0x27] @
      ''commands'' @
      [CHR 0x27] @
      '' as an array of shell commands to run in sequence. Returns structured JSON with '' @
      ''per-command output and status.'',
    ts_schema = ''{"type":"object","properties":{"device":{"type":"string","description":"Named device '' @
      ''from device.conf (e.g. '' @
      [CHR 0x27] @
      ''m1700_0'' @
      [CHR 0x27] @
      ''). Resolves port, baud, credentials automatically."},"commands":{"type":"array","items":'' @
      ''{"type":"string"},"description":"Shell commands to run on the device in '' @
      ''order."},"port":{"type":"string","description":"Serial device path (e.g. /dev/ttyUSB0). '' @
      ''Required if '' @
      [CHR 0x27] @
      ''device'' @
      [CHR 0x27] @
      '' is not specified."},"baud":{"type":"integer","description":"Baud rate (default '' @
      ''115200)."},"no_login":{"type":"boolean","description":"Skip login '' @
      map char_of [0xE2, 0x80, 0x94 :: nat] @
      '' shell is already active on connect."},"username":{"type":"string","description":"Login '' @
      ''username (omit to skip login)."},"password":{"type":"string","description":"Login '' @
      ''password."},"login_prompt":{"type":"string","description":"Custom string the device '' @
      ''prints before username (e.g. '' @
      [CHR 0x27] @
      ''m1700 login'' @
      [CHR 0x27] @
      ''). Auto-detected if omitted."},"prompt":{"type":"string","description":"Shell prompt '' @
      ''string that marks end of command output (e.g. '' @
      [CHR 0x27] @
      ''root@m1700:~#'' @
      [CHR 0x27] @
      ''). Default: '' @
      [CHR 0x27] @
      ''#'' @
      [CHR 0x27] @
      ''."},"timeout":{"type":"integer","description":"Per-command timeout in seconds (default '' @
      ''10)."},"login_timeout":{"type":"integer","description":"Max seconds for the full login '' @
      ''sequence (default 30)."},"inter_cmd_delay_ms":{"type":"integer","description":"Milliseco'' @
      ''nds to wait between commands (default 300)."}},"required":["commands"]}''\<rparr>\<close>

definition memory_store_spec :: tool_spec where
  \<open>memory_store_spec = \<lparr>ts_name = ''memory_store'',
    ts_description = ''Save an important fact or preference to MEMORY.md. section must be one of: '' @
      [CHR 0x27] @
      ''User Information'' @
      [CHR 0x27] @
      '', '' @
      [CHR 0x27] @
      ''Preferences'' @
      [CHR 0x27] @
      '', '' @
      [CHR 0x27] @
      ''Project Context'' @
      [CHR 0x27] @
      '', '' @
      [CHR 0x27] @
      ''Important Notes'' @
      [CHR 0x27] @
      ''. key is a short label; value is the detailed content.'',
    ts_schema = ''{"type":"object","properties":{"section":{"type":"string","description":"One of: User '' @
      ''Information, Preferences, Project Context, Important '' @
      ''Notes"},"key":{"type":"string","description":"Short '' @
      ''label"},"value":{"type":"string","description":"Detailed fact to '' @
      ''remember"}},"required":["section","key","value"]}''\<rparr>\<close>

definition memory_recall_spec :: tool_spec where
  \<open>memory_recall_spec = \<lparr>ts_name = ''memory_recall'',
    ts_description = ''Recall a specific fact from MEMORY.md by section and key.'',
    ts_schema = ''{"type":"object","properties":{"section":{"type":"string"},"key":{"type":"string"}},"req'' @
      ''uired":["section","key"]}''\<rparr>\<close>

definition memory_search_spec :: tool_spec where
  \<open>memory_search_spec = \<lparr>ts_name = ''memory_search'',
    ts_description = ''Full-text search of MEMORY.md.'',
    ts_schema = ''{"type":"object","properties":{"query":{"type":"string"}},"required":["query"]}''\<rparr>\<close>

definition schedule_add_spec :: tool_spec where
  \<open>schedule_add_spec = \<lparr>ts_name = ''schedule_add'',
    ts_description = ''Schedule a recurring task. Use type="agent_turn" (default) when the task needs Dobby '' @
      ''tools (send_email, file ops, memory, etc.) '' @
      map char_of [0xE2, 0x80, 0x94 :: nat] @
      '' set '' @
      [CHR 0x27] @
      ''task'' @
      [CHR 0x27] @
      '' to a natural language instruction like "send a status email to user@example.com". Use '' @
      ''type="shell" only for pure system commands that need no Dobby tools.'',
    ts_schema = ''{"type":"object","properties":{"name":{"type":"string","description":"Short label for '' @
      ''this task"},"task":{"type":"string","description":"For agent_turn: natural language '' @
      ''instruction (e.g. '' @
      [CHR 0x27] @
      ''send a hello email to user@example.com'' @
      [CHR 0x27] @
      ''). For shell: shell command to run."},"interval":{"type":"string","description":"How '' @
      ''often to run, e.g. '' @
      [CHR 0x27] @
      ''every 5 minutes'' @
      [CHR 0x27] @
      '', '' @
      [CHR 0x27] @
      ''every 2 hours'' @
      [CHR 0x27] @
      ''"},"type":{"type":"string","enum":["agent_turn","shell"],"description":"agent_turn '' @
      ''(default): runs via agent loop with full tool access. shell: raw shell '' @
      ''command."}},"required":["name","task","interval"]}''\<rparr>\<close>

definition schedule_list_spec :: tool_spec where
  \<open>schedule_list_spec = \<lparr>ts_name = ''schedule_list'',
    ts_description = ''List all scheduled tasks with their IDs, types, intervals, and status'',
    ts_schema = ''{"type":"object","properties":{}}''\<rparr>\<close>

definition schedule_control_spec :: tool_spec where
  \<open>schedule_control_spec = \<lparr>ts_name = ''schedule_control'',
    ts_description = ''Manage scheduled tasks: list all, or pause/resume/delete by ID. Use '' @
      [CHR 0x27] @
      ''list'' @
      [CHR 0x27] @
      '' first to see task IDs.'',
    ts_schema = ''{"type":"object","properties":{"action":{"type":"string","enum":["list","pause","resume"'' @
      '',"delete"],"description":"list: show all tasks (no task_id needed). '' @
      ''pause/resume/delete: require task_id."},"task_id":{"type":"integer","description":"Task '' @
      ''ID (required for pause/resume/delete)"}},"required":["action"]}''\<rparr>\<close>

definition spawn_subagent_spec :: tool_spec where
  \<open>spawn_subagent_spec = \<lparr>ts_name = ''spawn_subagent'',
    ts_description = ''Spawn an independent sub-agent to work on a task in parallel. The sub-agent runs in its '' @
      ''own thread with full tool access (shell_exec, file_read, file_write, send_email, '' @
      ''memory_store, '' @
      map char_of [0xE2, 0x80, 0xA6 :: nat] @
      '') and its own isolated context window. Returns a subagent_id immediately '' @
      map char_of [0xE2, 0x80, 0x94 :: nat] @
      '' you are NOT blocked. Best for: long-running jobs, parallel research, concurrent file '' @
      ''work, or any self-contained delegated task. After spawning, continue other work then '' @
      ''check results with subagent_status.'',
    ts_schema = ''{"type":"object","properties":{"name":{"type":"string","description":"Short label, e.g. '' @
      [BSL] @
      ''"disk-report'' @
      [BSL] @
      ''" or '' @
      [BSL] @
      ''"email-draft'' @
      [BSL] @
      ''""},"task":{"type":"string","description":"Complete natural-language instruction. Be '' @
      ''specific '' @
      map char_of [0xE2, 0x80, 0x94 :: nat] @
      '' the sub-agent cannot ask follow-up questions. Example: '' @
      [BSL] @
      ''"Check disk usage on all mounted volumes and write a summary to workspace/disk-report.md'' @
      [BSL] @
      ''""},"context":{"type":"string","description":"Optional context to share: user '' @
      ''preferences, prior results, relevant file paths, '' @
      ''constraints."}},"required":["name","task"]}''\<rparr>\<close>

definition subagent_status_spec :: tool_spec where
  \<open>subagent_status_spec = \<lparr>ts_name = ''subagent_status'',
    ts_description = ''Check status and result of a sub-agent. Pass subagent_id (from spawn_subagent) for a '' @
      ''specific agent, or omit it to list all active sub-agents. Status: '' @
      [CHR 0x27] @
      ''running'' @
      [CHR 0x27] @
      '' = still working; '' @
      [CHR 0x27] @
      ''done'' @
      [CHR 0x27] @
      '' = result ready; '' @
      [CHR 0x27] @
      ''error'' @
      [CHR 0x27] @
      '' = failed; '' @
      [CHR 0x27] @
      ''timeout'' @
      [CHR 0x27] @
      '' = exceeded time limit.'',
    ts_schema = ''{"type":"object","properties":{"subagent_id":{"type":"integer","description":"ID from '' @
      ''spawn_subagent. Omit to list all sub-agents."}},"required":[]}''\<rparr>\<close>

definition send_email_spec :: tool_spec where
  \<open>send_email_spec = \<lparr>ts_name = ''send_email'',
    ts_description = ''Send an email via Dobby'' @
      [CHR 0x27] @
      ''s configured SMTP channel. Use this tool whenever you need to send an email '' @
      map char_of [0xE2, 0x80, 0x94 :: nat] @
      '' never use shell commands like `mail`, `sendmail`, or `mutt`. Parameters: to (recipient '' @
      ''address), subject, body (plain text).'',
    ts_schema = ''{"type":"object","properties":{"to":{"type":"string","description":"Recipient email '' @
      ''address"},"subject":{"type":"string","description":"Email subject '' @
      ''line"},"body":{"type":"string","description":"Plain text email '' @
      ''body"}},"required":["to","subject","body"]}''\<rparr>\<close>

definition send_whatsapp_spec :: tool_spec where
  \<open>send_whatsapp_spec = \<lparr>ts_name = ''send_whatsapp'',
    ts_description = ''Send a WhatsApp message via Dobby'' @
      [CHR 0x27] @
      ''s connected bridge. Use this instead of any shell command for WhatsApp. Parameters: to '' @
      ''(phone number like '' @
      [CHR 0x27] @
      ''919876543210'' @
      [CHR 0x27] @
      '' or full JID), text (message body).'',
    ts_schema = ''{"type":"object","properties":{"to":{"type":"string","description":"Recipient phone '' @
      ''number (digits only, with country code) or full WhatsApp '' @
      ''JID"},"text":{"type":"string","description":"Message text to '' @
      ''send"}},"required":["to","text"]}''\<rparr>\<close>

section \<open>Well-formed schemas\<close>

text \<open>
  A schema is an object of type \<open>object\<close> whose properties are objects, each with a type of JSON
  Schema, and every required name is one of the properties.
\<close>

definition schema_types :: "string list" where
  "schema_types = [''string'', ''integer'', ''boolean'', ''array'', ''number'', ''object'']"

definition property_ok :: "json \<Rightarrow> bool" where
  "property_ok j =
     (case j of JObject _ \<Rightarrow>
        (case cJSON_GetObjectItem (Some j) ''type'' of Some (JString t) \<Rightarrow> t \<in> set schema_types | _ \<Rightarrow> False)
      | _ \<Rightarrow> False)"

definition json_schema_ok :: "json \<Rightarrow> bool" where
  "json_schema_ok j =
     (cJSON_GetObjectItem (Some j) ''type'' = Some (JString ''object'') \<and>
      (case cJSON_GetObjectItem (Some j) ''properties'' of
         Some (JObject ps) \<Rightarrow>
           list_all (\<lambda>(k, p). property_ok p) ps \<and> distinct (map fst ps) \<and>
           (case cJSON_GetObjectItem (Some j) ''required'' of
              None \<Rightarrow> True
            | Some (JArray rs) \<Rightarrow> list_all (\<lambda>r. case r of JString n \<Rightarrow> n \<in> set (map fst ps) | _ \<Rightarrow> False) rs
            | _ \<Rightarrow> False)
       | _ \<Rightarrow> False))"

definition schema_ok :: "string \<Rightarrow> bool" where
  "schema_ok s = (case cJSON_Parse s of None \<Rightarrow> False | Some j \<Rightarrow> json_schema_ok j)"

section \<open>The registry of the program\<close>

definition tool_of :: "tool_spec \<Rightarrow> 'w tool_fn \<Rightarrow> 'w tool" where
  "tool_of s f = \<lparr>tool_name = Some (ts_name s), description = Some (ts_description s),
     parameters_schema = Some (ts_schema s), execute = Some f\<rparr>"

text \<open>In the order in which start-up registers them.\<close>

definition program_specs :: "tool_spec list" where
  "program_specs = [shell_exec_spec, file_read_spec, file_write_spec, file_list_spec, file_search_spec, file_delete_spec,
     serial_exec_spec, memory_store_spec, memory_recall_spec, memory_search_spec, schedule_add_spec,
     schedule_list_spec, schedule_control_spec, spawn_subagent_spec, subagent_status_spec, send_email_spec,
     send_whatsapp_spec]"

definition program_tools :: "(string \<Rightarrow> 'w tool_fn) \<Rightarrow> 'w tools" where
  "program_tools f = fold (\<lambda>s reg. tool_add (tool_of s (f (ts_name s))) reg) program_specs tool_registry_init"

lemma program_tools_map: "program_tools f = map (\<lambda>s. tool_of s (f (ts_name s))) program_specs"
  by (simp add: program_tools_def program_specs_def tool_add_def tool_register_def tool_of_def tool_registry_init_def
      MAX_TOOLS_def ok_def)

lemma shell_exec_ok: "schema_ok (ts_schema shell_exec_spec)" by code_simp
lemma file_read_ok: "schema_ok (ts_schema file_read_spec)" by code_simp
lemma file_write_ok: "schema_ok (ts_schema file_write_spec)" by code_simp
lemma file_list_ok: "schema_ok (ts_schema file_list_spec)" by code_simp
lemma file_search_ok: "schema_ok (ts_schema file_search_spec)" by code_simp
lemma file_delete_ok: "schema_ok (ts_schema file_delete_spec)" by code_simp
text \<open>The longest schema is compared with the printed value, and its parsing is the round trip.\<close>

definition serial_schema :: json where
  \<open>serial_schema = JObject [(''type'', JString ''object''), (''properties'', JObject [(''device'', JObject [(''type'',
    JString ''string''), (''description'', JString (''Named device from device.conf (e.g. '' @ [CHR
    0x27] @ ''m1700_0'' @ [CHR 0x27] @ ''). Resolves port, baud, credentials automatically.''))]), (
    ''commands'', JObject [(''type'', JString ''array''), (''items'', JObject [(''type'', JString
    ''string'')]), (''description'', JString ''Shell commands to run on the device in order.'')]), (
    ''port'', JObject [(''type'', JString ''string''), (''description'', JString (
    ''Serial device path (e.g. /dev/ttyUSB0). Required if '' @ [CHR 0x27] @ ''device'' @ [CHR 0x27]
    @ '' is not specified.''))]), (''baud'', JObject [(''type'', JString ''integer''), (
    ''description'', JString ''Baud rate (default 115200).'')]), (''no_login'', JObject [(''type'',
    JString ''boolean''), (''description'', JString (''Skip login '' @ map char_of [0xE2, 0x80, 0x94
    :: nat] @ '' shell is already active on connect.''))]), (''username'', JObject [(''type'',
    JString ''string''), (''description'', JString ''Login username (omit to skip login).'')]), (
    ''password'', JObject [(''type'', JString ''string''), (''description'', JString
    ''Login password.'')]), (''login_prompt'', JObject [(''type'', JString ''string''), (
    ''description'', JString (''Custom string the device prints before username (e.g. '' @ [CHR
    0x27] @ ''m1700 login'' @ [CHR 0x27] @ ''). Auto-detected if omitted.''))]), (''prompt'',
    JObject [(''type'', JString ''string''), (''description'', JString (
    ''Shell prompt string that marks end of command output (e.g. '' @ [CHR 0x27] @ ''root@m1700:~#''
    @ [CHR 0x27] @ ''). Default: '' @ [CHR 0x27] @ ''#'' @ [CHR 0x27] @ ''.''))]), (''timeout'',
    JObject [(''type'', JString ''integer''), (''description'', JString
    ''Per-command timeout in seconds (default 10).'')]), (''login_timeout'', JObject [(''type'',
    JString ''integer''), (''description'', JString
    ''Max seconds for the full login sequence (default 30).'')]), (''inter_cmd_delay_ms'', JObject
    [(''type'', JString ''integer''), (''description'', JString
    ''Milliseconds to wait between commands (default 300).'')])]), (''required'', JArray [JString
    ''commands''])]\<close>

lemma serial_exec_ok: "schema_ok (ts_schema serial_exec_spec)"
proof -
  have "ts_schema serial_exec_spec = cJSON_PrintUnformatted serial_schema" by code_simp
  moreover have "wf_json 0 serial_schema" "json_schema_ok serial_schema" by code_simp+
  ultimately show ?thesis using print_parse_roundtrip [of serial_schema] by (simp add: schema_ok_def)
qed
lemma memory_store_ok: "schema_ok (ts_schema memory_store_spec)" by code_simp
lemma memory_recall_ok: "schema_ok (ts_schema memory_recall_spec)" by code_simp
lemma memory_search_ok: "schema_ok (ts_schema memory_search_spec)" by code_simp
lemma schedule_add_ok: "schema_ok (ts_schema schedule_add_spec)" by code_simp
lemma schedule_list_ok: "schema_ok (ts_schema schedule_list_spec)" by code_simp
lemma schedule_control_ok: "schema_ok (ts_schema schedule_control_spec)" by code_simp
lemma spawn_subagent_ok: "schema_ok (ts_schema spawn_subagent_spec)" by code_simp
lemma subagent_status_ok: "schema_ok (ts_schema subagent_status_spec)" by code_simp
lemma send_email_ok: "schema_ok (ts_schema send_email_spec)" by code_simp
lemma send_whatsapp_ok: "schema_ok (ts_schema send_whatsapp_spec)" by code_simp

lemmas schemas_ok = shell_exec_ok file_read_ok file_write_ok file_list_ok file_search_ok file_delete_ok serial_exec_ok memory_store_ok memory_recall_ok memory_search_ok schedule_add_ok schedule_list_ok schedule_control_ok spawn_subagent_ok subagent_status_ok send_email_ok send_whatsapp_ok

lemma specs_ok: "list_all (\<lambda>s. schema_ok (ts_schema s)) program_specs"
  by (simp add: program_specs_def schemas_ok)

lemma specs_distinct: "distinct (map ts_name program_specs)"
  by code_simp

lemma find_distinct:
  "distinct (map f xs) \<Longrightarrow> x \<in> set xs \<Longrightarrow> find (\<lambda>y. g y = Some (f x)) (map h xs) = Some (h x)"
  if "\<And>y. g (h y) = Some (f y)"
  using that by (induction xs) (auto simp: image_iff)

text \<open>C40: every tool the program registers is well typed for the model: its schema parses, as an object
  type whose properties have types and whose required names are properties, and the registry finds
  the tool under its name, so that none shadows another.
\<close>

theorem tool_schemas_typed:
  "length (program_tools f) = 17 \<and>
   list_all (\<lambda>t. (case (tool_name t, parameters_schema t) of
        (Some n, Some s) \<Rightarrow> schema_ok s \<and> tool_find (program_tools f) (Some n) = Some (Some t)
      | _ \<Rightarrow> False)) (program_tools f)"
proof -
  have "tool_find (program_tools f) (Some (ts_name s)) = Some (Some (tool_of s (f (ts_name s))))"
    if "s \<in> set program_specs" for s
    using find_distinct [of tool_name "\<lambda>s. tool_of s (f (ts_name s))" ts_name, OF _ specs_distinct that]
    by (simp add: tool_find_def program_tools_map tool_of_def)
  moreover have "length program_specs = 17" by code_simp
  ultimately show ?thesis
    using specs_ok by (simp add: program_tools_map list_all_iff tool_of_def)
qed

end
