(* ===== verification/Heartbeat.thy ===== *)
theory Heartbeat
  imports Worker
begin

text \<open>
  Model of \<open>src/heartbeat/heartbeat.c\<close>, the table of periodic checks and the rounds of its thread,
  and of the check \<open>src/cli/main.c\<close> registers: it looks for tasks in \<open>HEARTBEAT.md\<close> and asks the
  agent to work on them. A check acts on the outside world \<open>'w\<close>.
\<close>

section \<open>The table and the rounds\<close>

definition MAX_CHECKS :: nat where "MAX_CHECKS = 16"

record 'w heartbeat_check =
  hc_name :: string
  hc_fn :: "'w \<Rightarrow> string option \<times> 'w"

record 'w heartbeat =
  hb_interval :: int
  hb_checks :: "'w heartbeat_check list"
  hb_running :: bool
  hb_notify :: "(string \<Rightarrow> 'w \<Rightarrow> 'w) option"

definition heartbeat_create :: "int \<Rightarrow> 'w heartbeat" where
  "heartbeat_create interval_sec =
     \<lparr>hb_interval = (if interval_sec > 0 then interval_sec else 60), hb_checks = [], hb_running = False, hb_notify = None\<rparr>"

definition heartbeat_add_check :: "string \<Rightarrow> ('w \<Rightarrow> string option \<times> 'w) \<Rightarrow> 'w heartbeat \<Rightarrow> 'w heartbeat" where
  "heartbeat_add_check name fn hb =
     (if length (hb_checks hb) \<ge> MAX_CHECKS then hb
      else hb\<lparr>hb_checks := hb_checks hb @ [\<lparr>hc_name = name, hc_fn = fn\<rparr>]\<rparr>)"

definition heartbeat_set_notify :: "(string \<Rightarrow> 'w \<Rightarrow> 'w) option \<Rightarrow> 'w heartbeat \<Rightarrow> 'w heartbeat" where
  "heartbeat_set_notify f hb = hb\<lparr>hb_notify := f\<rparr>"

definition heartbeat_start :: "'w heartbeat \<Rightarrow> 'w heartbeat" where
  "heartbeat_start hb = hb\<lparr>hb_running := True\<rparr>"

definition run_check :: "'w heartbeat \<Rightarrow> 'w heartbeat_check \<Rightarrow> 'w \<Rightarrow> 'w" where
  "run_check hb c w =
     (case hc_fn c w of
        (None, w1) \<Rightarrow> w1
      | (Some msg, w1) \<Rightarrow> (case hb_notify hb of None \<Rightarrow> w1 | Some notify \<Rightarrow> notify msg w1))"

text \<open>One round of \<open>heartbeat_thread\<close>; \<open>None\<close> ends the thread.\<close>

definition heartbeat_round :: "'w heartbeat \<Rightarrow> 'w \<Rightarrow> 'w option" where
  "heartbeat_round hb w = (if hb_running hb then Some (fold (run_check hb) (hb_checks hb) w) else None)"

definition heartbeat_destroy :: "'w heartbeat option \<Rightarrow> 'w heartbeat option" where
  "heartbeat_destroy hb = None"

section \<open>The tasks in HEARTBEAT.md\<close>

definition ACTIVE :: string where
  "ACTIVE = ''## Active Tasks''"

definition task_line :: "string \<Rightarrow> bool" where
  "task_line l =
     (let p = dropWhile (\<lambda>c. c = SP \<or> c = TAB) l
      in p \<noteq> '''' \<and> hd p \<noteq> NL \<and> hd p \<noteq> CR \<and> \<not> prefix ''<!--'' p)"

text \<open>The scan over the lines; the flag tells whether the last heading was that of the active tasks.\<close>

fun scan_tasks :: "bool \<Rightarrow> string list \<Rightarrow> bool" where
  "scan_tasks in_active [] = False"
| "scan_tasks in_active (l # ls) =
     (if prefix ACTIVE l then scan_tasks True ls
      else if prefix ''## '' l then scan_tasks False ls
      else if \<not> in_active then scan_tasks False ls
      else if task_line l then True
      else scan_tasks True ls)"

definition heartbeat_prompt :: string where
  "heartbeat_prompt = ''Check HEARTBEAT.md in the workspace. '' @
     ''Read the file, work through any tasks listed under '' @ [CHR 0x27] @ ''## Active Tasks'' @ [CHR 0x27] @ '', '' @
     ''then move completed tasks to '' @ [CHR 0x27] @ ''## Completed'' @ [CHR 0x27] @ '' and update the file.''"

definition heartbeat_msg :: inbound_msg where
  "heartbeat_msg = inbound_msg_new (Some ''heartbeat'') (Some ''heartbeat'') (Some ''heartbeat:tasks'')
     (Some heartbeat_prompt) None"

text \<open>
  The check: whether it publishes its message, and what the bus does with it. The file is its
  content, \<open>None\<close> when it cannot be opened.
\<close>

definition heartbeat_check_tasks :: "string option \<Rightarrow> bus option \<Rightarrow> pub_result option" where
  "heartbeat_check_tasks file bus =
     (case (bus, file) of
        (Some b, Some t) \<Rightarrow>
          if scan_tasks False (map c_str (fgets_lines 512 t))
          then Some (bus_publish_inbound (Some b) (Some heartbeat_msg)) else None
      | _ \<Rightarrow> None)"

lemma ACTIVE_heading: "prefix ACTIVE l \<Longrightarrow> prefix ''## '' l"
  by (auto simp: ACTIVE_def prefix_def)

text \<open>
  The same on the whole text: \<open>open_task\<close>: a task stands before the next heading; \<open>active_task\<close>: it
  does after some heading of active tasks.
\<close>

definition open_task :: "string list \<Rightarrow> bool" where
  "open_task ls \<longleftrightarrow> (\<exists>ys t zs. ls = ys @ t # zs \<and> task_line t \<and> (\<forall>l \<in> set (ys @ [t]). \<not> prefix ''## '' l))"

definition active_task :: "string list \<Rightarrow> bool" where
  "active_task ls \<longleftrightarrow> (\<exists>xs h rest. ls = xs @ h # rest \<and> prefix ACTIVE h \<and> open_task rest)"

lemma open_task_Cons: "open_task (l # ls) \<longleftrightarrow> \<not> prefix ''## '' l \<and> (task_line l \<or> open_task ls)"
proof
  assume "open_task (l # ls)"
  then obtain ys t zs where "l # ls = ys @ t # zs" "task_line t" "\<forall>l \<in> set (ys @ [t]). \<not> prefix ''## '' l"
    unfolding open_task_def by blast
  then show "\<not> prefix ''## '' l \<and> (task_line l \<or> open_task ls)"
    unfolding open_task_def by (cases ys) auto
next
  assume r: "\<not> prefix ''## '' l \<and> (task_line l \<or> open_task ls)"
  show "open_task (l # ls)"
  proof (cases "task_line l")
    case True
    with r have "l # ls = [] @ l # ls \<and> task_line l \<and> (\<forall>l \<in> set ([] @ [l]). \<not> prefix ''## '' l)" by simp
    then show ?thesis unfolding open_task_def by blast
  next
    case False
    with r obtain ys t zs where "ls = ys @ t # zs" "task_line t" "\<forall>l \<in> set (ys @ [t]). \<not> prefix ''## '' l"
      unfolding open_task_def by blast
    with r have "l # ls = (l # ys) @ t # zs \<and> task_line t \<and> (\<forall>l \<in> set ((l # ys) @ [t]). \<not> prefix ''## '' l)" by simp
    then show ?thesis unfolding open_task_def by blast
  qed
qed

lemma active_task_Cons: "active_task (l # ls) \<longleftrightarrow> prefix ACTIVE l \<and> open_task ls \<or> active_task ls"
  unfolding active_task_def by (subst Cons_eq_append_conv) blast

lemma scan_tasks_open: "scan_tasks in_active ls \<longleftrightarrow> in_active \<and> open_task ls \<or> active_task ls"
proof (induction ls arbitrary: in_active)
  case Nil
  show ?case by (simp add: open_task_def active_task_def)
next
  case (Cons l ls)
  then show ?case using ACTIVE_heading [of l] by (auto simp: open_task_Cons active_task_Cons)
qed


text \<open>No channel is called \<open>heartbeat\<close>, so what the agent answers to such a message is posted and
  then dropped by the dispatcher: the answer reaches nobody.
\<close>

theorem heartbeat_reply_dropped:
  assumes "channel_find reg (Some ''heartbeat'') = None"
  shows "wst (worker_finish heartbeat_msg resp s) = WPosting (reply_msg heartbeat_msg resp) \<and>
         dispatch reg (reply_msg heartbeat_msg resp) w = w"
  using assms
  by (simp add: worker_finish_def response_pair_from_meta_def dispatch_def reply_msg_def heartbeat_msg_def
      inbound_msg_new_def outbound_msg_new_def or_empty_def)

lemma heartbeat_reply_dropped_witness:
  "dispatch [\<lparr>ch_name = ''email'', ch_send = Some (\<lambda>m. Suc)\<rparr>] (reply_msg heartbeat_msg ''done'') (0 :: nat) = 0"
proof -
  let ?reg = "[\<lparr>ch_name = ''email'', ch_send = Some (\<lambda>m. Suc)\<rparr>]"
  have "channel_find ?reg (Some ''heartbeat'') = None" by (simp add: channel_find_def)
  from heartbeat_reply_dropped [OF this, of "''done''" "sys_init 60 0" 0] show ?thesis by blast
qed

section \<open>A round\<close>

text \<open>A round calls every registered check once, in the order they were added; none is ever removed.\<close>

lemma round_calls_checks:
  assumes "length names \<le> MAX_CHECKS" "length fns = length names"
  shows "hb_checks (fold (\<lambda>(n, f). heartbeat_add_check n f) (zip names fns) (heartbeat_create i)) =
    map (\<lambda>(n, f). \<lparr>hc_name = n, hc_fn = f\<rparr>) (zip names fns)"
proof -
  have "hb_checks (fold (\<lambda>(n, f). heartbeat_add_check n f) ps hb) =
      hb_checks hb @ map (\<lambda>(n, f). \<lparr>hc_name = n, hc_fn = f\<rparr>) ps"
    if "length (hb_checks hb) + length ps \<le> MAX_CHECKS" for ps and hb :: "'a heartbeat"
    using that by (induction ps arbitrary: hb) (auto simp: heartbeat_add_check_def)
  from this [of "heartbeat_create i" "zip names fns"] show ?thesis using assms by (simp add: heartbeat_create_def)
qed

end
