(* ===== verification/Log.thy ===== *)
theory Log
  imports Dobby_Prelude
begin

text \<open>
  Model of \<open>src/core/log.c\<close>: levels, the filter, and the two destinations. The time of day is an
  argument of each call, the formatted message its text; the log file is the text appended so far.
\<close>

datatype log_level = LOG_DEBUG | LOG_INFO | LOG_WARN | LOG_ERROR

fun level_rank :: "log_level \<Rightarrow> nat" where
  "level_rank LOG_DEBUG = 0"
| "level_rank LOG_INFO = 1"
| "level_rank LOG_WARN = 2"
| "level_rank LOG_ERROR = 3"

lemma level_rank_inject [simp]: "level_rank a = level_rank b \<longleftrightarrow> a = b"
  by (cases a; cases b) simp_all

text \<open>The order of the C enumeration.\<close>

instantiation log_level :: linorder
begin

definition less_eq_log_level :: "log_level \<Rightarrow> log_level \<Rightarrow> bool" where
  "a \<le> b \<longleftrightarrow> level_rank a \<le> level_rank b"

definition less_log_level :: "log_level \<Rightarrow> log_level \<Rightarrow> bool" where
  "a < b \<longleftrightarrow> level_rank a < level_rank b"

instance
  by standard (auto simp: less_eq_log_level_def less_log_level_def)

end

record logger =
  min_level :: log_level
  lg_file :: "string option"
  err_out :: string

definition log_start :: logger where
  "log_start = \<lparr>min_level = LOG_WARN, lg_file = None, err_out = ''''\<rparr>"

text \<open>\<open>file\<close>: \<open>None\<close> without a log file, otherwise the content \<open>fopen\<close> for appending finds, if it succeeds.\<close>

definition log_init :: "log_level \<Rightarrow> string option option \<Rightarrow> logger \<Rightarrow> logger" where
  "log_init lv file g =
     (case file of None \<Rightarrow> g\<lparr>min_level := lv\<rparr> | Some f \<Rightarrow> g\<lparr>min_level := lv, lg_file := f\<rparr>)"

definition log_shutdown :: "logger \<Rightarrow> logger" where
  "log_shutdown g = g\<lparr>lg_file := None\<rparr>"

definition log_set_level :: "log_level \<Rightarrow> logger \<Rightarrow> logger" where
  "log_set_level lv g = g\<lparr>min_level := lv\<rparr>"

fun level_names :: "log_level \<Rightarrow> string" where
  "level_names LOG_DEBUG = ''DEBUG''"
| "level_names LOG_INFO = ''INFO''"
| "level_names LOG_WARN = ''WARN''"
| "level_names LOG_ERROR = ''ERROR''"

fun level_colors :: "log_level \<Rightarrow> string" where
  "level_colors LOG_DEBUG = ESC # ''[36m''"
| "level_colors LOG_INFO = ESC # ''[32m''"
| "level_colors LOG_WARN = ESC # ''[33m''"
| "level_colors LOG_ERROR = ESC # ''[31m''"

text \<open>The part of a path behind the last slash.\<close>

definition base_name :: "string \<Rightarrow> string" where
  "base_name path = rev (takeWhile (\<lambda>c. c \<noteq> CHR ''/'') (rev path))"

record log_call =
  lc_level :: log_level
  lc_file :: string
  lc_line :: int
  lc_text :: string
  lc_time :: string

definition plain_entry :: "log_call \<Rightarrow> string" where
  "plain_entry c = ''['' @ lc_time c @ '' '' @ level_names (lc_level c) @ ''] '' @
     base_name (lc_file c) @ '':'' @ int_str (lc_line c) @ '': '' @ lc_text c @ [NL]"

definition color_entry :: "log_call \<Rightarrow> string" where
  "color_entry c = level_colors (lc_level c) @ ''['' @ lc_time c @ '' '' @ level_names (lc_level c) @ '']'' @
     ESC # ''[0m '' @ base_name (lc_file c) @ '':'' @ int_str (lc_line c) @ '': '' @ lc_text c @ [NL]"

definition log_write :: "bool \<Rightarrow> log_call \<Rightarrow> logger \<Rightarrow> logger" where
  "log_write use_color c g =
     (if lc_level c < min_level g then g
      else g\<lparr>err_out := err_out g @ (if use_color then color_entry c else plain_entry c),
             lg_file := map_option (\<lambda>f. f @ plain_entry c) (lg_file g)\<rparr>)"

text \<open>Whatever is logged, the log file grows by exactly the entries whose level is at least the
  minimum, in the order of the calls and without colours, and the terminal gets the same calls.
\<close>

theorem log_filters:
  assumes "lg_file g = Some f"
  shows "lg_file (fold (log_write use_color) calls g) =
           Some (f @ concat (map plain_entry (filter (\<lambda>c. min_level g \<le> lc_level c) calls))) \<and>
         err_out (fold (log_write use_color) calls g) =
           err_out g @ concat (map (if use_color then color_entry else plain_entry)
             (filter (\<lambda>c. min_level g \<le> lc_level c) calls))"
  using assms
proof (induction calls arbitrary: g f)
  case (Cons c calls)
  show ?case
  proof (cases "lc_level c < min_level g")
    case True
    then show ?thesis using Cons by (simp add: log_write_def not_le [symmetric])
  next
    case False
    then show ?thesis
      using Cons.prems Cons.IH [of "log_write use_color c g" "f @ plain_entry c"]
      by (simp add: log_write_def not_le [symmetric])
  qed
qed simp

definition demo_call :: "log_level \<Rightarrow> log_call" where
  "demo_call lv = \<lparr>lc_level = lv, lc_file = ''src/a.c'', lc_line = 7, lc_text = ''x'', lc_time = ''10:00:00''\<rparr>"

lemma log_filters_witness:
  "lg_file (fold (log_write False) [demo_call LOG_INFO, demo_call LOG_ERROR] (log_init LOG_WARN (Some (Some '''')) log_start)) =
     Some (plain_entry (demo_call LOG_ERROR))"
  using log_filters [of "log_init LOG_WARN (Some (Some '''')) log_start" "''''" False "[demo_call LOG_INFO, demo_call LOG_ERROR]"]
  by (simp add: log_init_def log_start_def less_eq_log_level_def demo_call_def del: fold_simps)

end
