(* ===== verification/Cli.thy ===== *)
theory Cli
  imports Slash_Commands Providers Heartbeat Log Serial_Tool Config Md_Memory History
begin

text \<open>
  Model of \<open>src/cli/main.c\<close>: the command line, the settings start-up derives from the environment
  and the configuration, the template agent and the agents cloned from it, and the REPL with its
  signals. What the agent answers to a message is a parameter of the REPL; the worker of
  \<open>Worker\<close> gives it.
\<close>

section \<open>The command line\<close>

record cli_args =
  ca_no_cli :: bool
  ca_no_http :: bool
  ca_debug :: bool
  ca_port :: int
  ca_log_level :: "string option"
  ca_log_file :: "string option"
  ca_config :: "string option"

definition no_args :: cli_args where
  "no_args = \<lparr>ca_no_cli = False, ca_no_http = False, ca_debug = False, ca_port = 0, ca_log_level = None,
     ca_log_file = None, ca_config = None\<rparr>"

text \<open>The loop over \<open>argv\<close>; \<open>None\<close>: the usage is shown.\<close>

fun parse_opts :: "string list \<Rightarrow> cli_args \<Rightarrow> cli_args option" where
  "parse_opts [] r = Some r"
| "parse_opts (a # args) r =
     (if a = ''-h'' \<or> a = ''--help'' then None
      else if a = ''--no-cli'' then parse_opts args (r\<lparr>ca_no_cli := True\<rparr>)
      else if a = ''--no-http'' then parse_opts args (r\<lparr>ca_no_http := True\<rparr>)
      else if a = ''-d'' \<or> a = ''--daemon'' then parse_opts args (r\<lparr>ca_no_cli := True\<rparr>)
      else if a = ''--debug'' then parse_opts args (r\<lparr>ca_debug := True\<rparr>)
      else case args of
        [] \<Rightarrow> None
      | v # rest \<Rightarrow>
          if a = ''-p'' \<or> a = ''--port'' then parse_opts rest (r\<lparr>ca_port := atoi v\<rparr>)
          else if a = ''-l'' \<or> a = ''--log-level'' then parse_opts rest (r\<lparr>ca_log_level := Some v\<rparr>)
          else if a = ''-L'' \<or> a = ''--log-file'' then parse_opts rest (r\<lparr>ca_log_file := Some v\<rparr>)
          else if a = ''-c'' \<or> a = ''--config'' then parse_opts rest (r\<lparr>ca_config := Some v\<rparr>)
          else None)"

definition debug_env :: "env \<Rightarrow> bool" where
  "debug_env env = (case env ''DEBUG'' of None \<Rightarrow> False | Some d \<Rightarrow> d = ''1'' \<or> strcasecmp_eq d ''true'')"

definition parse_args :: "env \<Rightarrow> string list \<Rightarrow> cli_args option" where
  "parse_args env argv = parse_opts argv (no_args\<lparr>ca_debug := debug_env env\<rparr>)"

section \<open>Settings\<close>

definition env_or_cfg :: "env \<Rightarrow> config option \<Rightarrow> string \<Rightarrow> string \<Rightarrow> string \<Rightarrow> string option \<Rightarrow> string option" where
  "env_or_cfg env cfg name sec key d = (if given (env name) then env name else config_get cfg sec key d)"

definition resolve_log_level :: "env \<Rightarrow> string option \<Rightarrow> config option \<Rightarrow> log_level" where
  "resolve_log_level env flag cfg =
     (let s0 = env ''LOG_LEVEL'';
          s1 = (if given s0 then s0 else flag);
          src = (if given s1 then s1 else if cfg \<noteq> None then config_get cfg ''logging'' ''level'' None else s1)
      in if \<not> given src then LOG_WARN
         else if src = Some ''debug'' then LOG_DEBUG
         else if src = Some ''info'' then LOG_INFO
         else if src = Some ''error'' then LOG_ERROR
         else LOG_WARN)"

definition log_path :: "env \<Rightarrow> string option \<Rightarrow> config option \<Rightarrow> string option" where
  "log_path env flag cfg =
     (if flag \<noteq> None then flag
      else if env ''LOG_FILE'' \<noteq> None then env ''LOG_FILE''
      else config_get cfg ''logging'' ''file'' None)"

definition env_file_path :: "env \<Rightarrow> string" where
  "env_file_path env = (if given (env ''ENV_FILE'') then the (env ''ENV_FILE'') else ''.env'')"

definition config_path :: "env \<Rightarrow> string option \<Rightarrow> string" where
  "config_path env flag =
     (let p = (if flag \<noteq> None then flag else env ''CONFIG'') in if given p then the p else ''dobby.conf'')"

text \<open>\<open>~\<close> stands for the home directory.\<close>

definition expand_workspace :: "env \<Rightarrow> string \<Rightarrow> string" where
  "expand_workspace env raw =
     (let home = env ''HOME''
      in if prefix ''~/'' raw \<and> given home then trunc_to 512 (the home @ ''/'' @ drop 2 raw)
         else if raw = ''~'' \<and> given home then trunc_to 512 (the home)
         else trunc_to 512 raw)"

definition workspace :: "env \<Rightarrow> config option \<Rightarrow> string" where
  "workspace env cfg = expand_workspace env (the (env_or_cfg env cfg ''WORKSPACE'' ''paths'' ''workspace'' (Some ''~/.dobby'')))"

definition display_workspace :: "env \<Rightarrow> string \<Rightarrow> string" where
  "display_workspace env ws =
     (case env ''HOME'' of
        None \<Rightarrow> ws
      | Some home \<Rightarrow> if home \<noteq> '''' \<and> prefix home ws then trunc_to 512 (''~'' @ drop (length home) ws) else ws)"

definition gateway_port :: "env \<Rightarrow> config option \<Rightarrow> int \<Rightarrow> int" where
  "gateway_port env cfg port =
     (if port > 0 then port else atoi (the (env_or_cfg env cfg ''PORT'' ''gateway'' ''port'' (Some ''8080''))))"

section \<open>The provider\<close>

datatype provider_choice = NoModel | UseOllama ollama_data | UseOpenAI openai_data | NoProvider

definition ollama_address :: "env \<Rightarrow> config option \<Rightarrow> string" where
  "ollama_address env cfg =
     (let c0 = config_get cfg ''provider'' ''ollama_url'' None;
          c = (if given c0 then c0 else config_get cfg ''provider'' ''url'' None)
      in if given (env ''OLLAMA_URL'') then the (env ''OLLAMA_URL'')
         else if given c then the c
         else ''http://localhost:11434'')"

definition choose_provider :: "env \<Rightarrow> config option \<Rightarrow> provider_choice" where
  "choose_provider env cfg =
     (let provider_type = env_or_cfg env cfg ''PROVIDER'' ''provider'' ''type'' (Some ''ollama'');
          model = env_or_cfg env cfg ''MODEL'' ''provider'' ''model'' None;
          api_url = env_or_cfg env cfg ''API_URL'' ''provider'' ''api_url'' None;
          api_key = env_or_cfg env cfg ''API_KEY'' ''provider'' ''api_key'' None
      in if \<not> given model then NoModel
         else if strcasecmp_eq (the provider_type) ''ollama'' then UseOllama (ollama_create model (Some (ollama_address env cfg)))
         else case openai_create model api_url api_key provider_type (env ''API_KEY'') of
           Some p \<Rightarrow> UseOpenAI p
         | None \<Rightarrow>
             (case registry_detect api_key api_url of
                None \<Rightarrow> NoProvider
              | Some spec \<Rightarrow>
                  (case openai_create model api_url api_key (Some (ps_name spec)) (env ''API_KEY'') of
                     None \<Rightarrow> NoProvider
                   | Some p \<Rightarrow> UseOpenAI p)))"

section \<open>Start-up\<close>

text \<open>
  The settings \<open>boot\<close> derives, in its order: first the \<open>.env\<close> file changes the environment, then the
  configuration is read, then everything is looked up in both. \<open>file\<close> gives the content of a file.
\<close>

record boot_settings =
  bs_env :: env
  bs_cfg :: config
  bs_level :: log_level
  bs_log_file :: "string option"
  bs_workspace :: string
  bs_templates :: string
  bs_skills_src :: string
  bs_allowlist :: string
  bs_provider :: provider_choice

definition boot :: "(string \<Rightarrow> string option) \<Rightarrow> env \<Rightarrow> cli_args \<Rightarrow> boot_settings" where
  "boot file env0 args =
     (let env1 = snd (env_load (file (env_file_path env0)) env0);
          cfg = config_load (file (config_path env1 (ca_config args)));
          look = (\<lambda>env name sec key d. the (env_or_cfg env (Some cfg) name sec key (Some d)));
          env2 = setenv0 ''TMUX_SOCKET'' (look env1 ''TMUX_SOCKET'' ''tmux'' ''socket'' ''/tmp/dobby-tmux.sock'') env1
      in \<lparr>bs_env = env2, bs_cfg = cfg,
          bs_level = resolve_log_level env1 (ca_log_level args) (Some cfg),
          bs_log_file = log_path env1 (ca_log_file args) (Some cfg),
          bs_workspace = workspace env1 (Some cfg),
          bs_templates = look env2 ''TEMPLATE_DIR'' ''paths'' ''templates'' ''templates'',
          bs_skills_src = look env2 ''SKILLS_SRC'' ''paths'' ''skills_src'' ''skills'',
          bs_allowlist = look env2 ''ALLOWLIST'' ''security'' ''allowlist'' ''allowlist.conf'',
          bs_provider = choose_provider env2 (Some cfg)\<rparr>)"

section \<open>The template agent and its clones\<close>

text \<open>\<open>load_file\<close>: the text up to its first NUL byte, nothing for an empty file.\<close>

definition load_file :: "string option \<Rightarrow> string option" where
  "load_file file = (case file of None \<Rightarrow> None | Some t \<Rightarrow> if t = '''' then None else Some (c_str t))"

definition add_parts :: "string option list \<Rightarrow> agent \<Rightarrow> agent" where
  "add_parts ps a = fold (\<lambda>p a. agent_add_system_part a p) ps a"

text \<open>
  The files \<open>SOUL.md\<close>, \<open>AGENT.md\<close> and \<open>TOOLS.md\<close>, the memory context and the prompt of the skills;
  the result has the slot of the memory.
\<close>

definition template_agent ::
  "config option \<Rightarrow> string option \<Rightarrow> string option \<Rightarrow> string option \<Rightarrow> memory \<Rightarrow> string \<Rightarrow> agent \<times> nat" where
  "template_agent cfg soul inst tools_doc mem skills_prompt =
     (let a0 = agent_create\<lparr>max_iterations := config_get_int cfg ''agent'' ''max_iterations'' 10,
                            max_messages := config_get_int cfg ''agent'' ''max_messages'' 20\<rparr>;
          a1 = add_parts [load_file soul, load_file inst, load_file tools_doc] a0;
          a2 = agent_add_system_part a1 (Some (memory_get_context mem))
      in (if skills_prompt = '''' then a2 else agent_add_system_part a2 (Some skills_prompt),
          length (system_parts a1)))"

definition email_identity :: "string \<Rightarrow> string" where
  "email_identity addr = trunc_to 512
     (''## Email Identity'' @ [NL] @ ''Your email address is '' @ addr @ ''.'' @ [NL] @
      ''To send email use the send_email tool with to, subject, and body.'' @ [NL] @
      ''Never use shell commands to send email.'')"

definition add_identity :: "config option \<Rightarrow> agent \<Rightarrow> agent" where
  "add_identity cfg a =
     (let addr = config_get cfg ''email'' ''address'' None
      in if given addr then agent_add_system_part a (Some (email_identity (the addr))) else a)"

definition agent_factory :: "agent \<Rightarrow> agent" where
  "agent_factory template =
     add_parts (map Some (system_parts template))
       (agent_create\<lparr>max_iterations := max_iterations template, max_messages := max_messages template\<rparr>)"

text \<open>
  The end of \<open>boot\<close>: the session of the terminal is created from the template, then the template
  gets the email identity.
\<close>

definition boot_sessions ::
  "config option \<Rightarrow> int \<Rightarrow> agent \<Rightarrow> (nat option \<times> agent session_manager) \<times> agent" where
  "boot_sessions cfg now template =
     (session_get_or_create (Some (agent_factory template)) now
        (session_manager_create (config_get_int cfg ''agent'' ''session_ttl'' 3600)) (Some ''cli'') (Some ''local''),
      add_identity cfg template)"

definition refresh_memory :: "int \<Rightarrow> memory \<Rightarrow> agent \<Rightarrow> agent" where
  "refresh_memory slot mem a =
     (if slot < 0 \<or> slot \<ge> int (length (system_parts a)) then a
      else
        let b = a\<lparr>system_parts := (system_parts a)[nat slot := memory_get_context mem]\<rparr>
        in case messages b of
             [] \<Rightarrow> b
           | m # ms \<Rightarrow>
               if role m = ''system'' then b\<lparr>messages := m\<lparr>content := build_system_prompt b\<rparr> # ms\<rparr> else b)"

section \<open>The REPL\<close>

text \<open>The fallback for \<open>readline\<close>: one read of at most 4095 bytes; the line and the rest of the input.\<close>

definition readline :: "string \<Rightarrow> string option \<times> string" where
  "readline inp =
     (case fgets_lines 4096 inp of
        [] \<Rightarrow> (None, '''')
      | l # ls \<Rightarrow>
          (let s = c_str l
           in (Some (if s \<noteq> '''' \<and> List.last s = NL then butlast s else s), concat ls)))"

definition cli_inbound :: "nat \<Rightarrow> string \<Rightarrow> inbound_msg" where
  "cli_inbound addr t =
     inbound_msg_new (Some ''cli'') (Some ''local'') (Some ''local'') (Some t) (Some (''rp='' @ hex_str addr))"

text \<open>
  The state: the flags the signal handlers set, the context of the slash commands with the template
  agent and the world, the history, and what was printed. \<open>re_ask\<close> is the way of a message over
  the bus: \<open>None\<close> when the bus refuses it or no reply text was given; \<open>re_addr\<close> is the address of
  the response pair on the stack.
\<close>

record 'w repl =
  g_running :: bool
  g_sigint_caught :: bool
  g_sigint_count :: nat
  rl_ctx :: "'w slash"
  rl_history :: history
  rl_printed :: string

record 'w repl_env =
  re_slash :: "'w slash_env"
  re_ask :: "inbound_msg \<Rightarrow> 'w \<Rightarrow> string option \<times> 'w"
  re_memory :: "'w \<Rightarrow> memory"
  re_slot :: int
  re_addr :: nat
  re_log_ok :: bool
  re_date :: string
  re_time :: string

text \<open>Ctrl-C, and the signals that end the program.\<close>

definition sig_handler :: "'w repl \<Rightarrow> 'w repl" where
  "sig_handler r =
     (let n = g_sigint_count r + 1
      in r\<lparr>g_sigint_caught := True, g_sigint_count := n, g_running := g_running r \<and> n < 2\<rparr>)"

definition sig_term :: "'w repl \<Rightarrow> 'w repl" where
  "sig_term r = r\<lparr>g_running := False\<rparr>"

definition say :: "string \<Rightarrow> 'w repl \<Rightarrow> 'w repl" where
  "say s r = r\<lparr>rl_printed := rl_printed r @ s\<rparr>"

definition shown_reply :: "string \<Rightarrow> string" where
  "shown_reply resp = [NL, ESC] @ ''[1;32m'' @ map char_of [0xE2, 0x9A, 0xA1 :: nat] @ '' Dobby:'' @ [ESC] @ ''[0m '' @
     resp @ [NL, NL]"

text \<open>A message to the agent: ask, show the reply and log it, refresh the memory of the template.\<close>

definition repl_turn :: "'w repl_env \<Rightarrow> string \<Rightarrow> 'w repl \<Rightarrow> 'w repl" where
  "repl_turn en t r =
     (case re_ask en (cli_inbound (re_addr en) t) (sl_world (rl_ctx r)) of
        (resp, w) \<Rightarrow>
          (let r1 = r\<lparr>rl_ctx := (rl_ctx r)\<lparr>sl_world := w,
                 sl_agent := map_option (refresh_memory (re_slot en) (re_memory en w)) (sl_agent (rl_ctx r))\<rparr>\<rparr>
           in case resp of
                None \<Rightarrow> r1
              | Some s \<Rightarrow>
                  say (shown_reply s) (r1\<lparr>rl_history := history_log (re_log_ok en) (re_date en) (re_time en) 0
                    (Some ''Conversation Turn'') (Some ''status: completed'') (rl_history r)\<rparr>)))"

text \<open>
  The body of the loop for the result of \<open>readline\<close>: whether the loop goes on. \<open>None\<close>: a slash
  command crashed.
\<close>

definition repl_line :: "'w repl_env \<Rightarrow> string option \<Rightarrow> 'w repl \<Rightarrow> (bool \<times> 'w repl) option" where
  "repl_line en line r =
     (case line of
        None \<Rightarrow> Some (if g_sigint_caught r then (True, say [NL] r) else (False, r))
      | Some l \<Rightarrow>
          (let r0 = r\<lparr>g_sigint_count := 0\<rparr>; t = str_trim l
           in if t = '''' then Some (True, r0)
              else case slash_handle (re_slash en) t (rl_ctx r) '''' 8192 of
                None \<Rightarrow> None
              | Some (True, out, c) \<Rightarrow>
                  Some (if out = ''__QUIT__'' then (False, r0\<lparr>rl_ctx := c\<rparr>) else (True, say out (r0\<lparr>rl_ctx := c\<rparr>)))
              | Some (False, out, c) \<Rightarrow> Some (True, repl_turn en t (r0\<lparr>rl_ctx := c\<rparr>))))"

text \<open>
  The loop over what happens: signals, and results of \<open>readline\<close>. The result tells whether the
  loop has ended; the flag of a caught signal is cleared before each \<open>readline\<close>.
\<close>

datatype event = SigInt | SigTerm | Line "string option"

fun repl_loop :: "'w repl_env \<Rightarrow> event list \<Rightarrow> 'w repl \<Rightarrow> (bool \<times> 'w repl) option" where
  "repl_loop en [] r = Some (False, r)"
| "repl_loop en (SigInt # es) r = repl_loop en es (sig_handler r)"
| "repl_loop en (SigTerm # es) r = repl_loop en es (sig_term r)"
| "repl_loop en (Line l # es) r =
     (case repl_line en l r of
        None \<Rightarrow> None
      | Some (go_on, r') \<Rightarrow>
          if go_on \<and> g_running r' then repl_loop en es (r'\<lparr>g_sigint_caught := False\<rparr>) else Some (True, r'))"

section \<open>The command line and the settings\<close>

text \<open>The options that give a set of arguments.\<close>

definition opt_arg :: "string \<Rightarrow> string option \<Rightarrow> string list" where
  "opt_arg name v = (case v of None \<Rightarrow> [] | Some x \<Rightarrow> [name, x])"

definition show_args :: "cli_args \<Rightarrow> string list" where
  "show_args a =
     (if ca_no_cli a then [''--no-cli''] else []) @ (if ca_no_http a then [''--no-http''] else []) @
     (if ca_debug a then [''--debug''] else []) @ [''--port'', int_str (ca_port a)] @
     opt_arg ''-l'' (ca_log_level a) @ opt_arg ''--log-file'' (ca_log_file a) @ opt_arg ''-c'' (ca_config a)"

text \<open>Every set of arguments can be given on the command line and is read back as it is.\<close>

theorem cli_args_roundtrip:
  assumes "INT_MIN \<le> ca_port a" and "ca_port a \<le> INT_MAX" and "debug_env env \<Longrightarrow> ca_debug a"
  shows "parse_args env (show_args a) = Some a"
proof -
  have p: "atoi (int_str (ca_port a)) = ca_port a" using assms(1,2) by (rule atoi_int_str)
  have o: "parse_opts (opt_arg ''-l'' l @ opt_arg ''--log-file'' f @ opt_arg ''-c'' c)
      (r\<lparr>ca_log_level := None, ca_log_file := None, ca_config := None\<rparr>) =
    Some (r\<lparr>ca_log_level := l, ca_log_file := f, ca_config := c\<rparr>)" for l f c r
    by (cases l; cases f; cases c) (simp_all add: opt_arg_def)
  show ?thesis
    using assms(3) p o [of "ca_log_level a" "ca_log_file a" "ca_config a" a]
    by (cases a; cases "debug_env env") (auto simp: parse_args_def show_args_def no_args_def)
qed

lemma cli_args_roundtrip_witness:
  "parse_args Map.empty (show_args (no_args\<lparr>ca_no_cli := True, ca_port := 9090, ca_config := Some ''x.conf''\<rparr>)) =
     Some (no_args\<lparr>ca_no_cli := True, ca_port := 9090, ca_config := Some ''x.conf''\<rparr>)"
  by (rule cli_args_roundtrip) (simp_all add: no_args_def debug_env_def INT_MIN_def INT_MAX_def)

text \<open>C35: the priority of the settings after start-up: a variable exported by the shell wins over the
  \<open>.env\<close> file, that over the configuration file, and that over the built-in default; a variable that
  is set but empty hides the \<open>.env\<close> file and lets the configuration decide.\<close>

theorem boot_priority:
  assumes "name \<noteq> ''TMUX_SOCKET''" and "file (env_file_path env0) = Some dotenv" and "boot file env0 args = b"
  shows "env_or_cfg (bs_env b) (Some (bs_cfg b)) name sec key d =
    (case env0 name of
       Some v \<Rightarrow> if v \<noteq> '''' then Some v else config_get (Some (bs_cfg b)) sec key d
     | None \<Rightarrow>
         (case map_of (List.map_filter env_line (fgets_lines 1024 dotenv)) name of
            Some v \<Rightarrow> if v \<noteq> '''' then Some v else config_get (Some (bs_cfg b)) sec key d
          | None \<Rightarrow> config_get (Some (bs_cfg b)) sec key d))"
proof -
  have "bs_env b name = snd (env_load (Some dotenv) env0) name"
    using assms by (auto simp: boot_def Let_def setenv0_def)
  then have "bs_env b name = (case env0 name of Some v \<Rightarrow> Some v
      | None \<Rightarrow> map_of (List.map_filter env_line (fgets_lines 1024 dotenv)) name)"
    using env_load_effect [of dotenv env0 name] by simp
  then show ?thesis by (auto simp: env_or_cfg_def given_def split: option.split)
qed

definition demo_files :: "string \<Rightarrow> string option" where
  "demo_files = [''.env'' \<mapsto> ''MODEL=b'' @ [NL] @ ''PORT=9'' @ [NL], ''dobby.conf'' \<mapsto> ''[provider]'' @ [NL] @ ''model=c'' @ [NL]]"

lemma boot_priority_witness:
  "env_or_cfg (bs_env (boot demo_files [''MODEL'' \<mapsto> ''a''] no_args)) (Some (bs_cfg (boot demo_files [''MODEL'' \<mapsto> ''a''] no_args)))
     ''MODEL'' ''provider'' ''model'' None = Some ''a''"
  using boot_priority [of "''MODEL''" demo_files "[''MODEL'' \<mapsto> ''a'']" "''MODEL=b'' @ [NL] @ ''PORT=9'' @ [NL]" no_args _ "''provider''" "''model''" None]
  by (simp add: demo_files_def env_file_path_def given_def)

text \<open>The environment decides before the flag, although the comment in the code has it the other way.\<close>

lemma log_level_env_wins:
  "resolve_log_level [''LOG_LEVEL'' \<mapsto> ''debug''] (Some ''error'') None = LOG_DEBUG"
  by (simp add: resolve_log_level_def given_def)

text \<open>A prefix of the path that is not a directory is taken for the home directory.\<close>

lemma display_workspace_prefix:
  "display_workspace [''HOME'' \<mapsto> ''/home/al''] ''/home/alice'' = ''~ice''"
  by (simp add: display_workspace_def trunc_to_def)

text \<open>Start-up finds a provider exactly when a model is set and the type is \<open>ollama\<close>, or names an
  entry of the table, or a URL is given, or the key or URL is recognised; the second attempt with
  the recognised provider never succeeds where the first failed.
\<close>

theorem boot_provider:
  assumes "given (env_or_cfg env cfg ''MODEL'' ''provider'' ''model'' None)"
    and "env_or_cfg env cfg ''PROVIDER'' ''provider'' ''type'' (Some ''ollama'') = Some t"
    and "env_or_cfg env cfg ''API_URL'' ''provider'' ''api_url'' None = url"
    and "env_or_cfg env cfg ''API_KEY'' ''provider'' ''api_key'' None = key"
  shows "choose_provider env cfg =
    (if strcasecmp_eq t ''ollama''
     then UseOllama (ollama_create (env_or_cfg env cfg ''MODEL'' ''provider'' ''model'' None) (Some (ollama_address env cfg)))
     else if registry_find_by_name (Some t) = None \<and> registry_detect key url = None \<and> \<not> given url then NoProvider
     else UseOpenAI (the (openai_create (env_or_cfg env cfg ''MODEL'' ''provider'' ''model'' None) url key (Some t) (env ''API_KEY''))))"
  using assms
proof -
  have none: "given None = False" by (simp add: given_def)
  show ?thesis
    using assms by (auto simp: choose_provider_def Let_def openai_create_def registry_resolve_url_def none split: option.splits)
qed

lemma boot_provider_witness:
  "choose_provider [''MODEL'' \<mapsto> ''m'', ''PROVIDER'' \<mapsto> ''acme''] None = NoProvider"
proof -
  let ?env = "[''MODEL'' \<mapsto> ''m'', ''PROVIDER'' \<mapsto> ''acme''] :: env"
  have e: "env_or_cfg ?env None ''MODEL'' ''provider'' ''model'' None = Some ''m''"
    "env_or_cfg ?env None ''PROVIDER'' ''provider'' ''type'' (Some ''ollama'') = Some ''acme''"
    "env_or_cfg ?env None ''API_URL'' ''provider'' ''api_url'' None = None"
    "env_or_cfg ?env None ''API_KEY'' ''provider'' ''api_key'' None = None"
    by (simp_all add: env_or_cfg_def given_def config_get_def)
  have "given (env_or_cfg ?env None ''MODEL'' ''provider'' ''model'' None)" by (simp add: e given_def)
  from boot_provider [OF this e(2-4)] show ?thesis by code_simp
qed

section \<open>Agents of the sessions\<close>

lemma add_parts_some:
  "length (system_parts a) + length ps \<le> MAX_SYSTEM_PARTS \<Longrightarrow>
   add_parts (map Some ps) a = a\<lparr>system_parts := system_parts a @ ps\<rparr>"
  by (induction ps arbitrary: a) (auto simp: add_parts_def agent_add_system_part_def)

text \<open>Every new session gets an agent with the limits and the system prompt of the template and an
  empty history; a refresh of the memory in the template changes only the memory part, so that
  sessions created later see it and those that exist keep what they were created with.
\<close>

theorem agent_factory_clones:
  assumes "length (system_parts t) \<le> MAX_SYSTEM_PARTS"
  shows "agent_factory t = t\<lparr>messages := []\<rparr> \<and> build_system_prompt (agent_factory t) = build_system_prompt t \<and>
    (0 \<le> slot \<and> slot < int (length (system_parts t)) \<longrightarrow>
      system_parts (agent_factory (refresh_memory slot mem t)) =
        (system_parts t)[nat slot := memory_get_context mem])"
proof -
  have c: "agent_factory a = a\<lparr>messages := []\<rparr>" if "length (system_parts a) \<le> MAX_SYSTEM_PARTS" for a
    using add_parts_some [of "agent_create\<lparr>max_iterations := max_iterations a, max_messages := max_messages a\<rparr>" "system_parts a"]
      that by (cases a) (simp add: agent_factory_def agent_create_def)
  have "system_parts (refresh_memory slot mem t) = (system_parts t)[nat slot := memory_get_context mem]"
    if "0 \<le> slot \<and> slot < int (length (system_parts t))"
    using that by (simp add: refresh_memory_def Let_def split: list.split)
  with c [OF assms] c [of "refresh_memory slot mem t"] assms show ?thesis
    by (simp add: build_system_prompt_def)
qed

lemma agent_factory_clones_witness:
  "agent_factory (agent_create\<lparr>system_parts := [''soul'', ''memory'']\<rparr>) = agent_create\<lparr>system_parts := [''soul'', ''memory'']\<rparr>"
  using agent_factory_clones [of "agent_create\<lparr>system_parts := [''soul'', ''memory'']\<rparr>" 0 demo_memory]
  by (simp add: MAX_SYSTEM_PARTS_def agent_create_def)

text \<open>The refresh keeps the system message at the front equal to the prompt.\<close>

lemma refresh_keeps_prompt:
  assumes "0 \<le> slot" "slot < int (length (system_parts a))" "messages a = m # ms" "role m = ''system''"
  shows "messages (refresh_memory slot mem a) =
    m\<lparr>content := build_system_prompt (refresh_memory slot mem a)\<rparr> # ms"
  using assms by (simp add: refresh_memory_def Let_def build_system_prompt_def)

text \<open>The terminal's own session is created before the template has the email identity.\<close>

lemma cli_session_lacks_identity:
  assumes "boot_sessions cfg now t = ((Some i, sm), t')" and "length (system_parts t) < MAX_SYSTEM_PARTS"
    and "config_get cfg ''email'' ''address'' None = Some addr" and "addr \<noteq> ''''"
  shows "system_parts t' = system_parts t @ [email_identity addr] \<and>
    agent_factory t = t\<lparr>messages := []\<rparr>"
  using assms agent_factory_clones [of t]
  by (auto simp: boot_sessions_def add_identity_def given_def agent_add_system_part_def Let_def)

section \<open>The conversation\<close>

text \<open>A line that is a message: not blank and not a command.\<close>

definition message_line :: "string \<Rightarrow> bool" where
  "message_line l \<longleftrightarrow> str_trim l \<noteq> '''' \<and> hd (str_trim l) \<noteq> CHR ''/''"

text \<open>The reference: every line is asked in turn; the replies that came, and the world.\<close>

fun exchange :: "'w repl_env \<Rightarrow> string list \<Rightarrow> 'w \<Rightarrow> string list \<times> 'w" where
  "exchange en [] w = ([], w)"
| "exchange en (l # ls) w =
     (case re_ask en (cli_inbound (re_addr en) (str_trim l)) w of
        (resp, w1) \<Rightarrow> (case exchange en ls w1 of (rs, w2) \<Rightarrow> ((case resp of None \<Rightarrow> rs | Some s \<Rightarrow> s # rs), w2)))"

lemma repl_line_message:
  assumes "message_line l"
  shows "repl_line en (Some l) r = Some (True, repl_turn en (str_trim l) (r\<lparr>g_sigint_count := 0\<rparr>))"
  using assms by (simp add: repl_line_def message_line_def slash_handle_def Let_def)

lemma repl_turn_sel:
  "g_running (repl_turn en t r) = g_running r"
  "sl_world (rl_ctx (repl_turn en t r)) = snd (re_ask en (cli_inbound (re_addr en) t) (sl_world (rl_ctx r)))"
  "rl_printed (repl_turn en t r) = rl_printed r @
     (case fst (re_ask en (cli_inbound (re_addr en) t) (sl_world (rl_ctx r))) of None \<Rightarrow> '''' | Some s \<Rightarrow> shown_reply s)"
  by (simp_all add: repl_turn_def say_def Let_def split: prod.split option.split)

text \<open>A conversation in the terminal: each line that is no command goes to the agent once, in order
  and trimmed, as a message of the session \<open>cli:local\<close>; what is printed is exactly the replies that
  came, in order, and the loop waits for the next line.
\<close>

theorem repl_answers:
  assumes "list_all message_line ls" and "g_running r"
  shows "\<exists>r'. repl_loop en (map (\<lambda>l. Line (Some l)) ls) r = Some (False, r') \<and> g_running r' \<and>
           sl_world (rl_ctx r') = snd (exchange en ls (sl_world (rl_ctx r))) \<and>
           rl_printed r' = rl_printed r @ concat (map shown_reply (fst (exchange en ls (sl_world (rl_ctx r)))))"
  using assms
proof (induction ls arbitrary: r)
  case (Cons l ls)
  obtain resp w where a: "re_ask en (cli_inbound (re_addr en) (str_trim l)) (sl_world (rl_ctx r)) = (resp, w)"
    by fastforce
  let ?r = "(repl_turn en (str_trim l) (r\<lparr>g_sigint_count := 0\<rparr>))\<lparr>g_sigint_caught := False\<rparr>"
  have r: "g_running ?r" "sl_world (rl_ctx ?r) = w"
    "rl_printed ?r = rl_printed r @ (case resp of None \<Rightarrow> '''' | Some s \<Rightarrow> shown_reply s)"
    using Cons.prems(2) a by (simp_all add: repl_turn_sel)
  obtain rs w' where c: "exchange en ls w = (rs, w')" by fastforce
  obtain r' where r': "repl_loop en (map (\<lambda>l. Line (Some l)) ls) ?r = Some (False, r')" "g_running r'"
      "sl_world (rl_ctx r') = w'" "rl_printed r' = rl_printed ?r @ concat (map shown_reply rs)"
    using Cons.IH [of ?r] Cons.prems(1) r c by auto
  have "repl_loop en (map (\<lambda>l. Line (Some l)) (l # ls)) r = Some (False, r')"
    using Cons.prems r'(1) by (simp add: repl_line_message repl_turn_sel(1))
  then show ?case
    using r' r(3) a c by (cases resp) auto
qed simp

section \<open>Interrupts\<close>

text \<open>With a \<open>readline\<close> that returns the line typed so far when it is interrupted (what \<open>rl_done\<close>
  asks for), Ctrl-C at an empty prompt never ends the program, however often it is pressed: the
  empty line that comes back resets the counter before the second press.
\<close>

theorem repl_interrupts_never_end:
  assumes "g_running r" and "g_sigint_count r = 0"
  shows "\<exists>r'. repl_loop en (concat (replicate n [SigInt, Line (Some '''')])) r = Some (False, r') \<and>
    g_running r' \<and> g_sigint_count r' = 0 \<and> rl_printed r' = rl_printed r"
  using assms
proof (induction n arbitrary: r)
  case (Suc n)
  have "str_trim '''' = ''''" by code_simp
  then show ?case
    using Suc.prems Suc.IH [of "(sig_handler r)\<lparr>g_sigint_count := 0, g_sigint_caught := False\<rparr>"]
    by (simp add: repl_line_def sig_handler_def Let_def)
qed simp

text \<open>A line that was being typed when Ctrl-C was pressed is sent to the agent instead of cancelled.\<close>

lemma interrupted_line_sent:
  assumes "message_line l"
  shows "repl_line en (Some l) (sig_handler r) =
    Some (True, repl_turn en (str_trim l) ((sig_handler r)\<lparr>g_sigint_count := 0\<rparr>))"
  using assms by (rule repl_line_message)

text \<open>\<open>/new\<close> empties the template agent; the session of the terminal keeps its conversation.\<close>

lemma new_keeps_session:
  assumes "repl_line en (Some ''/new'') r = Some (b, r')"
  shows "sl_sessions (rl_ctx r') = sl_sessions (rl_ctx r) \<and>
    sl_agent (rl_ctx r') = map_option agent_new_conversation (sl_agent (rl_ctx r))"
proof -
  have "str_trim ''/new'' = ''/new''" by code_simp
  with assms show ?thesis
    by (auto simp: repl_line_def slash_handle_def say_def Let_def split: if_splits)
qed

section \<open>Witnesses\<close>

text \<open>An agent that counts the messages and answers each with a fixed text.\<close>

definition echo_env :: "unit slash_env \<Rightarrow> unit repl_env" where
  "echo_env en = \<lparr>re_slash = en, re_ask = (\<lambda>m w. (Some (i_content m), w)), re_memory = (\<lambda>w. demo_memory), re_slot = 0,
     re_addr = 4096, re_log_ok = True, re_date = ''2025-01-01'', re_time = ''10:00:00''\<rparr>"

definition fresh_repl :: "unit repl" where
  "fresh_repl = \<lparr>g_running = True, g_sigint_caught = False, g_sigint_count = 0, rl_ctx = bare_slash allowlist_create,
     rl_history = history_create True None, rl_printed = ''''\<rparr>"

lemma repl_answers_witness:
  "\<exists>r'. repl_loop (echo_env quiet_env) [Line (Some ''hi''), Line (Some '' you '')] fresh_repl = Some (False, r') \<and>
     rl_printed r' = shown_reply ''hi'' @ shown_reply ''you''"
proof -
  have m: "list_all message_line [''hi'', '' you '']" "str_trim ''hi'' = ''hi''" "str_trim '' you '' = ''you''" by code_simp+
  have "g_running fresh_repl" by (simp add: fresh_repl_def)
  from repl_answers [OF m(1) this, of "echo_env quiet_env"] show ?thesis
    by (auto simp: m(2,3) echo_env_def cli_inbound_def inbound_msg_new_def or_empty_def fresh_repl_def)
qed

lemma repl_interrupts_never_end_witness:
  "\<exists>r'. repl_loop (echo_env quiet_env) [SigInt, Line (Some ''''), SigInt, Line (Some '''')] fresh_repl = Some (False, r') \<and> g_running r'"
  using repl_interrupts_never_end [of fresh_repl "echo_env quiet_env" 2] by (auto simp: fresh_repl_def numeral_2_eq_2)

end
