(* ===== verification/Conversation.thy ===== *)
theory Conversation
  imports Cli
begin

text \<open>
  The terminal, the bus, the worker, the sessions and the agent together: what the REPL sees of a
  conversation is a run of the concurrent system of \<open>Worker\<close>.
\<close>

section \<open>One turn of the system\<close>

text \<open>The system waits for a message: nothing is queued, and the response pair is not in use.\<close>

definition waiting :: "nat \<Rightarrow> 'w sys \<Rightarrow> bool" where
  "waiting addr s \<longleftrightarrow> \<not> crashed s \<and> wst s = WIdle \<and> running s \<and> \<not> shut_down (sbus s) \<and>
     bq_ok (inbound (sbus s)) \<and> count (inbound (sbus s)) = 0 \<and> pairs s addr = None"

lemma queue_one:
  assumes "bq_ok q" "count q = 0"
  shows "\<exists>q'. q_push q m False = Pushed (bq_enq m q) \<and> q_pop (bq_enq m q) False = Popped m q' \<and> bq_ok q' \<and> count q' = 0"
proof -
  have l: "length (bq_list q) < BUS_QUEUE_DEPTH" using assms(2) by simp
  have e: "bq_ok (bq_enq m q)" "bq_list (bq_enq m q) = [m]"
    using ring.enq_invar [OF assms(1) l] ring.enq_abs [OF assms(1) l] assms(2) by (simp_all add: bq_list_def)
  have "fst (bq_deq (bq_enq m q)) # bq_list (snd (bq_deq (bq_enq m q))) = [m]" "bq_ok (snd (bq_deq (bq_enq m q)))"
    using ring.deq_abs [OF e(1)] ring.deq_invar [OF e(1)] e(2) by simp_all
  moreover from this have "count (snd (bq_deq (bq_enq m q))) = 0"
    by (metis bq_list_length length_0_conv list.inject)
  moreover have "count (bq_enq m q) = 1" using e(2) bq_list_length by (metis One_nat_def length_Cons list.size(3))
  ultimately show ?thesis
    using assms(2) by (intro exI [of _ "snd (bq_deq (bq_enq m q))"]) (simp add: q_push_def q_pop_def prod.case_eq_if)
qed

lemma pair_address:
  assumes "0 < addr" "addr < 2 ^ 64"
  shows "response_pair_from_meta (i_metadata (cli_inbound addr t)) = Some addr"
  using assms scan_hex_str [of addr] by (simp add: cli_inbound_def inbound_msg_new_def response_pair_from_meta_def)

text \<open>A message of the terminal: the pair is made, the message published, answered, and the reply taken.\<close>

lemma turn_reachable:
  assumes w: "waiting addr s" and addr: "0 < addr" "addr < 2 ^ 64" and f: "\<forall>a. fresh = Some a \<longrightarrow> messages a = []"
    and turn: "worker_turn prov tools fresh now now' (ssm s) (cli_inbound addr t) (world s) = (Reply resp, sm', w')"
  shows "\<exists>s'. reachable prov tools reg s s' \<and> waiting addr s' \<and> ssm s' = sm' \<and> world s' = w' \<and>
           delivered s' = delivered s @ [(addr, resp)]"
proof -
  let ?m = "cli_inbound addr t"
  let ?s1 = "s\<lparr>pairs := (pairs s)(addr \<mapsto> response_pair_init)\<rparr>"
  obtain q where q: "q_push (inbound (sbus s)) ?m False = Pushed (bq_enq ?m (inbound (sbus s)))"
      "q_pop (bq_enq ?m (inbound (sbus s))) False = Popped ?m q" "bq_ok q" "count q = 0"
    using queue_one [of "inbound (sbus s)" ?m] w by (auto simp: waiting_def)
  let ?b = "(sbus s)\<lparr>inbound := bq_enq ?m (inbound (sbus s))\<rparr>"
  let ?s2 = "?s1\<lparr>sbus := ?b, accepted := accepted ?s1 @ [?m]\<rparr>"
  let ?s3 = "worker_finish ?m resp (?s2\<lparr>sbus := ?b\<lparr>inbound := q\<rparr>, ssm := sm', world := w', handled := handled ?s2 @ [?m]\<rparr>)"
  let ?rp = "response_pair_deliver response_pair_init (Some resp)"
  let ?s4 = "?s3\<lparr>pairs := (pairs ?s3)(addr := None)\<rparr>"
  have 1: "sys_step prov tools reg s ?s1" using w addr(1) by (intro sys_step.new_pair) (simp_all add: waiting_def)
  have 2: "sys_step prov tools reg ?s1 ?s2"
    using w q(1) by (intro sys_step.publish) (simp_all add: waiting_def bus_publish_inbound_def)
  have 3: "sys_step prov tools reg ?s2 ?s3"
    by (rule sys_step.consume [OF _ _ _ _ f]) (use w q(2) turn in \<open>simp_all add: waiting_def bus_consume_inbound_def\<close>)
  have p: "pairs ?s3 addr = Some ?rp" "crashed ?s3 = crashed s" "wst ?s3 = wst s" "running ?s3 = running s"
    "sbus ?s3 = ?b\<lparr>inbound := q\<rparr>" "ssm ?s3 = sm'" "world ?s3 = w'" "delivered ?s3 = delivered s @ [(addr, resp)]"
    by (simp_all add: worker_finish_def pair_address [OF addr])
  have 4: "sys_step prov tools reg ?s3 ?s4"
  proof (rule sys_step.wait_pair)
    show "\<not> crashed ?s3" using w by (simp only: p(2)) (simp add: waiting_def)
    show "pairs ?s3 addr = Some ?rp" by (rule p(1))
    show "response_pair_wait ?rp = Some (Some resp, ?rp\<lparr>response := None\<rparr>)"
      by (simp add: response_pair_wait_def response_pair_deliver_def)
  qed
  have "reachable prov tools reg s ?s4"
    by (rule reach_step [OF reach_step [OF reach_step [OF reach_step [OF reach_init 1] 2] 3] 4])
  moreover have "waiting addr ?s4" using w p(2-5) q(3,4) by (simp add: waiting_def)
  moreover have "ssm ?s4 = sm' \<and> world ?s4 = w' \<and> delivered ?s4 = delivered s @ [(addr, resp)]"
    using p(6-8) by simp
  ultimately show ?thesis by blast
qed

section \<open>The conversation\<close>

text \<open>
  The way of a message for the REPL: the turn of the worker on the sessions and the world, with a
  fresh agent when the session is new. \<open>clocks\<close> are the clock readings before and after a turn.
\<close>

definition worker_ask ::
  "'w provider \<Rightarrow> 'w tools \<Rightarrow> agent option \<Rightarrow> ('w \<Rightarrow> int \<times> int) \<Rightarrow> inbound_msg \<Rightarrow> agent session_manager \<times> 'w
   \<Rightarrow> string option \<times> (agent session_manager \<times> 'w)" where
  "worker_ask prov tools fresh clocks m st =
     (case st of (sm, w) \<Rightarrow>
        (case worker_turn prov tools fresh (fst (clocks w)) (snd (clocks w)) sm m w of
           (Crash, sm', w') \<Rightarrow> (None, (sm', w'))
         | (Reply resp, sm', w') \<Rightarrow> (Some resp, (sm', w'))))"

lemma factory_messages: "messages (agent_factory t) = []"
proof -
  have "messages (add_parts ps a) = messages a" for ps a
    by (induction ps arbitrary: a) (simp_all add: add_parts_def agent_add_system_part_def split: option.splits)
  then show ?thesis by (simp add: agent_factory_def agent_create_def)
qed

lemma exchange_length: "length (fst (exchange en ls w)) \<le> length ls"
proof (induction ls arbitrary: w)
  case (Cons l ls)
  obtain resp w1 where "re_ask en (cli_inbound (re_addr en) (str_trim l)) w = (resp, w1)" by (rule prod.exhaust)
  then show ?case using Cons.IH [of w1] by (cases resp) (simp_all add: prod.case_eq_if)
qed simp

lemma exchange_reachable:
  assumes "0 < addr" "addr < 2 ^ 64" "re_addr en = addr"
    and ask: "re_ask en = worker_ask prov tools (Some (agent_factory t)) clocks"
    and "waiting addr s" "length (fst (exchange en ls (ssm s, world s))) = length ls"
  shows "\<exists>s'. reachable prov tools reg s s' \<and> waiting addr s' \<and>
           snd (exchange en ls (ssm s, world s)) = (ssm s', world s') \<and>
           delivered s' = delivered s @ map (Pair addr) (fst (exchange en ls (ssm s, world s)))"
  using assms(5,6)
proof (induction ls arbitrary: s)
  case Nil
  then show ?case by (intro exI [of _ s]) (simp add: reachable.reach_init)
next
  case (Cons l ls)
  let ?turn = "worker_turn prov tools (Some (agent_factory t)) (fst (clocks (world s))) (snd (clocks (world s)))
     (ssm s) (cli_inbound addr (str_trim l)) (world s)"
  obtain cr sm' w' where turn: "?turn = (cr, sm', w')" by (cases ?turn)
  obtain rs st where rec: "exchange en ls (sm', w') = (rs, st)" by (rule prod.exhaust)
  have len: "length rs \<le> length ls" using exchange_length [of en ls "(sm', w')"] rec by simp
  obtain resp where cr: "cr = Reply resp"
    using Cons.prems(2) len turn rec ask assms(3) by (cases cr) (simp_all add: worker_ask_def)
  have f: "\<forall>a. Some (agent_factory t) = Some a \<longrightarrow> messages a = []" using factory_messages by simp
  obtain s1 where s1: "reachable prov tools reg s s1" "waiting addr s1" "ssm s1 = sm'" "world s1 = w'"
      "delivered s1 = delivered s @ [(addr, resp)]"
    using turn_reachable [OF Cons.prems(1) assms(1,2) f turn [unfolded cr]] by blast
  have c: "exchange en (l # ls) (ssm s, world s) = (resp # rs, st)"
    using turn rec ask assms(3) cr by (simp add: worker_ask_def)
  then have "length (fst (exchange en ls (ssm s1, world s1))) = length ls"
    using Cons.prems(2) rec s1(3,4) by simp
  from Cons.IH [OF s1(2) this] obtain s' where s': "reachable prov tools reg s1 s'" "waiting addr s'"
      "st = (ssm s', world s')" "delivered s' = delivered s1 @ map (Pair addr) rs"
    using rec s1(3,4) by auto
  have "reachable prov tools reg s s'"
    using s'(1) s1(1) by (induction rule: reachable.induct) (auto intro: reachable.intros)
  then show ?case using s' s1(5) c by auto
qed

text \<open>C12: the terminal refines the system: when every line of a conversation is answered, what the REPL
  prints are the replies that a run of the concurrent system (bus, worker, sessions, agent) hands to
  the response pair of the terminal, in the order of the lines, and the REPL ends with the sessions
  and the world of that run.\<close>

theorem terminal_conversation:
  assumes "list_all message_line ls" and "g_running r" and "sl_world (rl_ctx r) = (ssm s, world s)"
    and "0 < re_addr en" and "re_addr en < 2 ^ 64"
    and "re_ask en = worker_ask prov tools (Some (agent_factory t)) clocks"
    and "waiting (re_addr en) s" and "length (fst (exchange en ls (ssm s, world s))) = length ls"
  shows "\<exists>r' s' replies. repl_loop en (map (\<lambda>l. Line (Some l)) ls) r = Some (False, r') \<and>
           reachable prov tools reg s s' \<and> sl_world (rl_ctx r') = (ssm s', world s') \<and>
           length replies = length ls \<and>
           rl_printed r' = rl_printed r @ concat (map shown_reply replies) \<and>
           delivered s' = delivered s @ map (Pair (re_addr en)) replies"
  using repl_answers [OF assms(1,2), of en]
    exchange_reachable [OF assms(4,5) refl assms(6,7,8), of reg] assms(3,8)
  by metis

section \<open>Witness\<close>

text \<open>A terminal over a system whose provider always fails, so that every line is answered with the error.\<close>

definition offline_slash :: "'w slash_env" where
  "offline_slash = \<lparr>se_tools = [], se_channels = [], se_os = \<lparr>os_text = (\<lambda>_. None), os_dir = (\<lambda>_. None),
     os_kind = (\<lambda>_. None), os_system = (\<lambda>_. 1), os_getenv = (\<lambda>_. None)\<rparr>,
     se_mail = \<lparr>imap = (\<lambda>_ w. (None, w)), smtp = (\<lambda>_ w. (False, w)), curl_ok = (\<lambda>_. True), mem_ok = (\<lambda>_. True)\<rparr>,
     se_now = 0, se_popen = (\<lambda>_. None), se_tmux = None, se_writable = True\<rparr>"

definition offline_env :: "(agent session_manager \<times> unit) repl_env" where
  "offline_env = \<lparr>re_slash = offline_slash,
     re_ask = worker_ask failing_provider [] (Some (agent_factory agent_create)) (\<lambda>_. (0, 0)),
     re_memory = (\<lambda>w. demo_memory), re_slot = 0, re_addr = 4096, re_log_ok = True, re_date = ''2025-01-01'',
     re_time = ''10:00:00''\<rparr>"

definition offline_repl :: "'w \<Rightarrow> 'w repl" where
  "offline_repl w = \<lparr>g_running = True, g_sigint_caught = False, g_sigint_count = 0,
     rl_ctx = \<lparr>sl_agent = None, sl_provider = None, sl_sched = None, sl_skills = None, sl_bus = None, sl_sessions = None,
       sl_email = None, sl_allow = None, sl_path = None, sl_file = None, sl_world = w\<rparr>,
     rl_history = history_create True None, rl_printed = ''''\<rparr>"

lemma failing_replies: "\<exists>s a'. agent_chat failing_provider tools a u w = (Reply s, a', w)"
proof -
  have "\<exists>s a'. chat_loop n failing_provider tools pre a w = (Reply s, a', w)" for n pre a
    by (cases n) (simp_all add: failing_provider_def)
  then show ?thesis by (simp add: agent_chat_def Let_def split: option.split)
qed

lemma offline_replies: "\<exists>s st'. worker_ask failing_provider tools fresh clocks m st = (Some s, st')"
proof -
  obtain sm w where "st = (sm, w)" by (rule prod.exhaust)
  then show ?thesis
    using failing_replies [of tools _ "Some (i_content m)" w]
    by (auto simp: worker_ask_def worker_turn_def split: prod.splits option.splits chat_result.splits)
      (metis chat_result.distinct(1) fst_conv)+
qed

lemma offline_length: "length (fst (exchange offline_env ls st)) = length ls"
proof (induction ls arbitrary: st)
  case (Cons l ls)
  obtain s st' where "re_ask offline_env (cli_inbound (re_addr offline_env) (str_trim l)) st = (Some s, st')"
    using offline_replies by (simp add: offline_env_def) blast
  then show ?case using Cons.IH [of st'] by (simp add: prod.case_eq_if)
qed simp

lemma terminal_conversation_witness:
  "\<exists>r' s' replies. repl_loop offline_env [Line (Some ''hi''), Line (Some ''you'')] (offline_repl (session_manager_create 60, ())) = Some (False, r') \<and>
     reachable failing_provider [] [] (sys_init 60 ()) s' \<and> length replies = 2 \<and>
     rl_printed r' = concat (map shown_reply replies) \<and> delivered s' = map (Pair 4096) replies"
proof -
  let ?s = "sys_init 60 () :: unit sys"
  have m: "list_all message_line [''hi'', ''you'']" by code_simp
  have r: "g_running (offline_repl (session_manager_create 60, ()))" by (simp add: offline_repl_def)
  have w: "sl_world (rl_ctx (offline_repl (session_manager_create 60, ()))) = (ssm ?s, world ?s)"
    by (simp add: offline_repl_def sys_init_def)
  have a: "0 < re_addr offline_env" "re_addr offline_env < 2 ^ 64" by (simp_all add: offline_env_def)
  have e: "re_ask offline_env = worker_ask failing_provider [] (Some (agent_factory agent_create)) (\<lambda>_. (0, 0))"
    by (simp add: offline_env_def)
  have i: "waiting (re_addr offline_env) ?s"
  proof -
    have "count bq_init = 0" by (simp add: bq_init_def)
    then show ?thesis by (simp add: waiting_def sys_init_def bus_create_def)
  qed
  have p: "rl_printed (offline_repl (session_manager_create 60, ())) = []" "delivered ?s = []" "re_addr offline_env = 4096"
    by (simp_all add: offline_repl_def sys_init_def offline_env_def)
  have l: "map (\<lambda>l. Line (Some l)) [''hi'', ''you''] = [Line (Some ''hi''), Line (Some ''you'')]" "length [''hi'', ''you''] = 2"
    by simp_all
  from terminal_conversation [OF m r w a e i offline_length, of "[]", unfolded p l append_Nil] show ?thesis
    by blast
qed

end
