(* ===== verification/Lifecycle.thy ===== *)
theory Lifecycle
  imports Main
begin

text \<open>
  Start-up and shutdown of \<open>src/cli/main.c\<close> as the order in which \<open>boot\<close> and \<open>run\<close> create and start the
  parts of the program and \<open>cleanup\<close> releases them, with the references each part keeps to others.
  Shown are that everything exists before it is used, that \<open>cleanup\<close> releases every part once, and which
  parts it releases while another one still refers to them.
\<close>

section \<open>Parts and references\<close>

datatype part = Config | Log | History | Http | Tool_Table | Allow | Provider | Agent_Template | Memory | Skill_Dir
  | Heartbeat_Part | Bus_Part | Session_Table | Worker_Part | Scheduler_Part | Subagent_Pool | Email | Whatsapp_Part
  | Gateway_Part | Status

datatype event = Create part | Start part

text \<open>The arguments a part is created or started with and keeps.\<close>

fun refers :: "event \<Rightarrow> part list" where
  "refers (Create Agent_Template) = [Provider]"
| "refers (Create Session_Table) = [Agent_Template]"
| "refers (Create Scheduler_Part) = [Bus_Part]"
| "refers (Create Subagent_Pool) = [Agent_Template, Provider]"
| "refers (Create Email) = [Bus_Part, Allow]"
| "refers (Create Whatsapp_Part) = [Bus_Part, Allow]"
| "refers (Create Gateway_Part) = [Bus_Part, Scheduler_Part, Subagent_Pool, Email, Allow]"
| "refers (Start Worker_Part) = [Bus_Part, Session_Table]"
| "refers (Start Heartbeat_Part) = [Bus_Part]"
| "refers _ = []"

section \<open>The order of the code\<close>

text \<open>\<open>boot\<close> up to the provider and the tools, which \<open>Cli\<close> models, and from the heartbeat on.\<close>

definition boot_first :: "event list" where
  "boot_first = map Create [Config, Log, History, Http, Tool_Table, Allow, Provider, Agent_Template, Memory, Skill_Dir]"

definition boot_rest :: "event list" where
  "boot_rest = [Create Heartbeat_Part, Create Bus_Part, Create Session_Table, Start Worker_Part, Create Scheduler_Part,
     Create Subagent_Pool, Start Heartbeat_Part, Create Email, Start Email, Create Whatsapp_Part, Start Whatsapp_Part,
     Create Status]"

definition run_first :: "bool \<Rightarrow> event list" where
  "run_first no_http = (if no_http then [] else [Create Gateway_Part, Start Gateway_Part])"

definition cleanup :: "part list" where
  "cleanup = [Status, Worker_Part, Email, Whatsapp_Part, Session_Table, Bus_Part, Gateway_Part, Heartbeat_Part, Skill_Dir,
     Subagent_Pool, Scheduler_Part, Memory, Agent_Template, Provider, Allow, Tool_Table, Http, History, Config, Log]"

section \<open>What holds\<close>

fun part_of :: "event \<Rightarrow> part" where
  "part_of (Create p) = p"
| "part_of (Start p) = p"

text \<open>Every event finds what it refers to.\<close>

fun ordered :: "part list \<Rightarrow> event list \<Rightarrow> bool" where
  "ordered live [] \<longleftrightarrow> True"
| "ordered live (e # es) \<longleftrightarrow> list_all (\<lambda>p. p \<in> set live) (refers e) \<and> ordered (part_of e # live) es"

text \<open>References to a part that is released before the part that has them.\<close>

fun dangling :: "event list \<Rightarrow> part list \<Rightarrow> (part \<times> part) list" where
  "dangling es [] = []"
| "dangling es (p # ps) =
     concat (map (\<lambda>e. if part_of e \<in> set ps \<and> p \<in> set (refers e) then [(part_of e, p)] else []) es) @ dangling es ps"

lemma boot_order: "ordered [] (boot_first @ boot_rest @ run_first no_http)"
  by (simp add: boot_first_def boot_rest_def run_first_def)

lemma cleanup_complete:
  "set cleanup = part_of ` set (boot_first @ boot_rest @ run_first False)" "distinct cleanup"
  by (auto simp: cleanup_def boot_first_def boot_rest_def run_first_def)

text \<open>The threads of the gateway, of the heartbeat and of the scheduler still run when the bus is released.\<close>

theorem cleanup_dangling:
  "dangling (boot_first @ boot_rest @ run_first False) cleanup =
     [(Gateway_Part, Email), (Scheduler_Part, Bus_Part), (Heartbeat_Part, Bus_Part), (Gateway_Part, Bus_Part)]"
  by (simp add: cleanup_def boot_first_def boot_rest_def run_first_def)

end
