(* ===== verification/Spec2Isabelle.thy ===== *)
theory Spec2Isabelle
  imports Json_Props Json_Print_Props Json_Minify Json_Heap_Copy Json_Array_Edits Worker Allowlist Scheduler Config Keyed_Store History Md_Memory Subagent Shell_Tool File_Tool
    Providers_Props Skills Whatsapp Email_Props Gateway_Props Slash_Commands Serial_Tool Templates Typing Tool_Table Conversation Lifecycle
begin

text \<open>
  \<^bold>\<open>Dobby: a model of the agent runtime and the theorems about it\<close>

  \<^bold>\<open>The program.\<close> Dobby is an agent in C. A message of a user enters by a channel (terminal, HTTP,
  e-mail, WhatsApp) and is put into the inbound queue of the bus. The worker thread takes it, finds
  the session of the channel and chat, and lets the session's agent answer: the agent sends its
  history to a provider of a language model, runs the tools the model asks for, and repeats this
  until there is a text. The reply goes to the thread that waits for it (a response pair) or over
  the outbound queue to the dispatcher, which calls the channel. A scheduler and a heartbeat add
  messages of their own; sub-agents run in threads of their own. Paths below are under \<open>src/src/\<close>.

  \<^bold>\<open>How the code is represented.\<close> A C string is the list of its bytes without the terminator, a
  buffer of \<open>n\<close> bytes keeps \<open>n - 1\<close> of them (\<open>trunc_to\<close>), NULL is \<open>None\<close>. A struct is a record with
  its fields, a union of cases a datatype, an \<open>int\<close> an integer with the wrap-around written out
  where it can happen, a hash a \<open>32 word\<close>. A function that changes state returns the new state;
  undefined behaviour (NULL dereference) is the outer \<open>None\<close> or a constructor \<open>Crash\<close>. Threads
  are interleaved by inductive step relations; a critical section is one step and a call that
  would block is not enabled. What is outside the program is a parameter: libcurl
  (\<open>Http_Client\<close>, \<open>Email_Channel\<close>), the file system (\<open>File_Tool\<close>, \<open>Skills\<close>, \<open>Templates\<close>), the
  child process (\<open>Shell_Tool\<close>), the serial port (\<open>Serial_Tool\<close>), sockets, the clock, and the
  model behind a provider.

  \<^bold>\<open>Theories and sources.\<close>
  \<^item> \<open>Dobby_Prelude\<close>: bytes, the string functions of the C library, number conversion, lines.
  \<^item> \<open>Core_Types\<close>: \<open>core/types.c\<close>, results, \<open>strbuf_t\<close>, \<open>str_trim\<close>, \<open>sanitize_output\<close>.
  \<^item> \<open>Json\<close>, \<open>Json_Props\<close>: \<open>core/cJSON.c\<close> on values, parser, printer, doubles as rationals, accessors.
  \<^item> \<open>Json_Heap\<close>: the structs of \<open>core/cJSON.c\<close> in a heap where any allocation may fail, with every
    function that creates, links, finds, changes, copies, compares or deletes them.
    \<open>Json_Heap_Chains\<close> has the linked chains, \<open>Json_Heap_Props\<close> the trees of items and deletion,
    \<open>Json_Heap_Ops\<close> lookups and adding, \<open>Json_Heap_Copy\<close> copying and creating, \<open>Json_Array_Edits\<close>
    sequences of array operations.
  \<^item> \<open>Json_Print\<close>, \<open>Json_Print_Props\<close>: the print buffer of \<open>core/cJSON.c\<close>; \<open>Json_Minify\<close>: \<open>cJSON_Minify\<close>.
  \<^item> \<open>Registry\<close>, \<open>Tool_Registry\<close>, \<open>Tool_Table\<close>: \<open>agent/tool_registry.c\<close> and the declarations of the
    seventeen tools.
  \<^item> \<open>Agent\<close>, \<open>Agent_Props\<close>: \<open>agent/agent.c\<close>, history, compaction, wire format, the tool loop.
  \<^item> \<open>Session\<close>: \<open>session/session.c\<close>, the hash table of sessions. \<open>Bus\<close>: \<open>bus/bus.c\<close>.
  \<^item> \<open>Worker\<close>: \<open>bus/agent_worker.c\<close> and \<open>channels/channel.c\<close>, the system of bus, worker,
    dispatcher and sessions as the relation \<open>sys_step\<close>.
  \<^item> \<open>Providers\<close>, \<open>Providers_Props\<close>, \<open>Http_Client\<close>: \<open>providers/\<close>, the two wire formats, the provider
    table and the recovery of failed generations.
  \<^item> \<open>Email_Channel\<close>, \<open>Email_Props\<close>, \<open>Whatsapp\<close>: \<open>channels/\<close> and the sending tools.
  \<^item> \<open>Gateway\<close>, \<open>Gateway_Props\<close>: \<open>gateway/gateway.c\<close>, requests, routes, connection slots.
  \<^item> \<open>Allowlist\<close>: \<open>security/allowlist.c\<close>. \<open>Config\<close>: \<open>core/config.c\<close>. \<open>Log\<close>: \<open>core/log.c\<close>.
    \<open>History\<close>: \<open>history/history.c\<close>. \<open>Md_Memory\<close>: \<open>memory/md_memory.c\<close>. \<open>Templates\<close>:
    \<open>core/templates.c\<close>.
  \<^item> \<open>Scheduler\<close>, \<open>Subagent\<close>, \<open>Shell_Tool\<close>, \<open>File_Tool\<close>, \<open>Serial_Tool\<close>, \<open>Skills\<close>: \<open>tools/\<close>.
  \<^item> \<open>Slash_Commands\<close>, \<open>Typing\<close>: \<open>ux/\<close>. \<open>Heartbeat\<close>: \<open>heartbeat/heartbeat.c\<close>. \<open>Cli\<close>:
    \<open>cli/main.c\<close>, arguments, settings, provider, agent factory and REPL. \<open>Lifecycle\<close>: the order in
    which \<open>cli/main.c\<close> creates and releases the parts.
  \<^item> \<open>Conversation\<close>: terminal, bus, worker, sessions and agent together.

  \<^bold>\<open>Interfaces.\<close> \<open>byte_buffer\<close> (appending is concatenation) is interpreted by \<open>strbuf_append\<close>;
  \<open>registry\<close> (bounded, append-only, first entry wins) by the tools and by the channels;
  \<open>bounded_fifo\<close> by the ring buffer of the bus; \<open>keyed_store\<close> (a lookup after an update) by the
  configuration and by the memory file. The lemmas of the clients are proved in the locales once.

  \<^bold>\<open>What is shown.\<close>
  \<^item> The agent: a turn is committed or rolled back as a whole, the history stays within its limit
    with the system message first, and the model is asked at most as often as configured.
  \<^item> The system: every accepted message is queued, handled or lost exactly once, the queues are
    FIFO, a session's agent is only touched by its own chat, and the table stays consistent.
  \<^item> The texts: JSON, e-mail, skill files, device profiles, the allowlist and the scheduler's
    file are read back as they were written; a stream means the same however it is cut into reads.
  \<^item> JSON in memory: edits of linked arrays give what they give on lists and account for every
    block, a copy is separate from its original, adding is all or nothing when memory runs out,
    and the printer stays inside its buffer and writes the text of the value.
  \<^item> The tools: due tasks fire once, a pool of sub-agents keeps its slots consistent, shell and
    serial commands return and close what they opened, file tools ask the path rules first.
  \<^item> The surroundings: the number of gateway threads is bounded, the allowlist decides before
    anything is sent or published, seeding the workspace keeps what is there, the spinner never
    runs during the input of a line, and every declared tool has a well-typed schema.
  \<^item> The whole: a conversation in the terminal prints the replies a run of the concurrent system
    delivers, in the order of the lines.
  \<^item> Where the code does not do what its comments promise, a theorem or lemma shows the case; the
    manifest lists them.

  \<^bold>\<open>Bounds and fuel.\<close> The JSON parser runs on fuel \<open>parse_fuel\<close> (twice the length of the text plus
  two), and \<open>Json_Props\<close> shows that more fuel never changes the result. The nesting limit,
  queue depth, table sizes and buffer sizes are those of the code. The growth loops of the
  buffers, the scans of texts and the seeding (three levels) are total functions with measures.
  Loops that wait for the outside (\<open>read_until\<close>, \<open>write_loop\<close>, the polling of the child) are
  \<open>partial_function (option)\<close> or take the list of events; that they end is a theorem under
  named assumptions on the clock and the port.

  \<^bold>\<open>Not modelled.\<close> The allocations and the error position of the JSON parser, the
  release of memory by the other components apart from the cases where it is the subject, thread creation, terminal
  modes, the banner and usage texts, and log calls inside the components.
\<close>

end
